(* ===== verification/Gateway_Prelude.thy ===== *)
theory Gateway_Prelude
  imports Main "HOL-Library.Word" "HOL-Library.AList"
begin

text \<open>
  Shared vocabulary of the development.

  \<^item> Go bytes and strings. A HOL \<^typ>\<open>char\<close> is one byte, so a Go \<^verbatim>\<open>[]byte\<close> and a
    Go \<^verbatim>\<open>string\<close> are both \<open>char list\<close>, and \<^verbatim>\<open>string(b)\<close> is the identity.
  \<^item> Go error values. \<open>Sentinel\<close> is a package-level \<^verbatim>\<open>errors.New\<close> variable that code
    compares against, \<open>ErrorString\<close> any other leaf made by this program, \<open>WrapError\<close>
    the value of \<^verbatim>\<open>fmt.Errorf\<close> with \<^verbatim>\<open>%w\<close> verbs or of \<^verbatim>\<open>errors.Join\<close>
    (its rendered text and the operands it unwraps to), and \<open>External\<close> an error made
    outside the program, with its text and the sentinels it matches.
  \<^item> Decimal rendering and parsing as \<^verbatim>\<open>strconv\<close> does them, \<^verbatim>\<open>%q\<close> quoting
    (what is no UTF-8 is escaped; every rune beyond ASCII counts as printable),
    and big-endian 32-bit words as \<^verbatim>\<open>encoding/binary\<close> does them.
  \<^item> Byte streams. A \<open>stream_in\<close> is what a peer will still send, followed by the
    error its reader then reports (\<open>IoEOF\<close> for an orderly hang-up).
  \<^item> The locales \<open>framed_codec\<close> of self-delimiting encodings, \<open>grounded_steps\<close> of step relations
    that lower a value of a well-founded order and \<open>ranked_steps\<close> where that value is a number.
\<close>

named_theorems wire_simps \<open>evaluation and length facts about byte codecs\<close>
named_theorems err_simps \<open>how errors.Is sees the program's error values\<close>

type_synonym bytes = "char list"
type_synonym go_string = "char list"
type_synonym int32 = "32 word"
type_synonym uint32 = "32 word"

section \<open>Go error values\<close>

datatype sentinel =
    IoEOF
  | IoErrUnexpectedEOF
  | NetErrClosed
  | ContextCanceled
  | ErrStartupTooLarge
  | ErrBackendNotFound
  | ErrPortNotFound
  | ErrInvalidBackend
  | ErrCABundle

datatype go_error =
    Sentinel sentinel
  | ErrorString go_string
  | WrapError go_string "go_error list"
  | External go_string "sentinel list"

fun sentinel_text :: "sentinel \<Rightarrow> go_string" where
  "sentinel_text IoEOF = ''EOF''"
| "sentinel_text IoErrUnexpectedEOF = ''unexpected EOF''"
| "sentinel_text NetErrClosed = ''use of closed network connection''"
| "sentinel_text ContextCanceled = ''context canceled''"
| "sentinel_text ErrStartupTooLarge = ''pgwire: startup packet exceeds maximum length''"
| "sentinel_text ErrBackendNotFound = ''backend not found''"
| "sentinel_text ErrPortNotFound = ''port not found''"
| "sentinel_text ErrInvalidBackend = ''invalid backend''"
| "sentinel_text ErrCABundle = ''CA bundle unavailable''"

fun error_text :: "go_error \<Rightarrow> go_string" where
  "error_text (Sentinel s) = sentinel_text s"
| "error_text (ErrorString m) = m"
| "error_text (WrapError m es) = m"
| "error_text (External m ss) = m"

fun errors_Is :: "go_error \<Rightarrow> sentinel \<Rightarrow> bool" where
  "errors_Is (Sentinel s) t = (s = t)"
| "errors_Is (ErrorString m) t = False"
| "errors_Is (WrapError m es) t = list_ex (\<lambda>e. errors_Is e t) es"
| "errors_Is (External m ss) t = (t \<in> set ss)"

text \<open>
  \<^verbatim>\<open>fmt.Errorf("<prefix>: %w", err)\<close>, and the form with two wrapped operands,
  \<^verbatim>\<open>fmt.Errorf("%w: %w", a, b)\<close>.
\<close>

definition wrapf :: "go_string \<Rightarrow> go_error \<Rightarrow> go_error" where
  "wrapf pre e = WrapError (pre @ '': '' @ error_text e) [e]"

definition wrap2 :: "go_error \<Rightarrow> go_error \<Rightarrow> go_error" where
  "wrap2 a b = WrapError (error_text a @ '': '' @ error_text b) [a, b]"

text \<open>\<^verbatim>\<open>fmt.Errorf("%w: <suffix>", err)\<close>.\<close>

definition wrap_pre :: "go_error \<Rightarrow> go_string \<Rightarrow> go_error" where
  "wrap_pre e suf = WrapError (error_text e @ '': '' @ suf) [e]"

lemma errors_Is_wrapf [simp, err_simps]: "errors_Is (wrapf p e) t = errors_Is e t"
  by (simp add: wrapf_def)

lemma errors_Is_wrap2 [simp, err_simps]:
  "errors_Is (wrap2 a b) t \<longleftrightarrow> errors_Is a t \<or> errors_Is b t"
  by (simp add: wrap2_def)

lemma errors_Is_wrap_pre [simp, err_simps]: "errors_Is (wrap_pre e s) t = errors_Is e t"
  by (simp add: wrap_pre_def)

text \<open>
  \<^verbatim>\<open>errors.Join\<close>: nil operands are dropped, and joining nothing but nil is nil. The
  texts are separated by newlines.
\<close>

fun join_texts :: "go_error list \<Rightarrow> go_string" where
  "join_texts [] = []"
| "join_texts [e] = error_text e"
| "join_texts (e # es) = error_text e @ [CHR 0x0A] @ join_texts es"

definition errors_Join :: "go_error option list \<Rightarrow> go_error option" where
  "errors_Join xs =
     (let es = map the (filter (\<lambda>x. x \<noteq> None) xs)
      in if es = [] then None else Some (WrapError (join_texts es) es))"

lemma errors_Join_None_iff: "errors_Join xs = None \<longleftrightarrow> (\<forall>x\<in>set xs. x = None)"
  by (auto simp: errors_Join_def Let_def filter_empty_conv)

section \<open>Go maps\<close>

text \<open>
  A Go map is an association list with distinct keys: reading an absent key is \<open>None\<close>,
  \<open>len\<close> is the length. Iteration order is unspecified in Go; where the program iterates
  over a map, the model says how the order is treated.
\<close>

type_synonym ('k, 'v) gomap = "('k \<times> 'v) list"

abbreviation gomap_get :: "('k, 'v) gomap \<Rightarrow> 'k \<Rightarrow> 'v option" where
  "gomap_get m k \<equiv> map_of m k"

definition gomap_set :: "('k, 'v) gomap \<Rightarrow> 'k \<Rightarrow> 'v \<Rightarrow> ('k, 'v) gomap" where
  "gomap_set m k v = AList.update k v m"

definition gomap_del :: "('k, 'v) gomap \<Rightarrow> 'k \<Rightarrow> ('k, 'v) gomap" where
  "gomap_del m k = AList.delete k m"

definition gomap_ok :: "('k, 'v) gomap \<Rightarrow> bool" where
  "gomap_ok m = distinct (map fst m)"

text \<open>Reading a string map yields the empty string for an absent key.\<close>

definition gomap_str :: "('k, go_string) gomap \<Rightarrow> 'k \<Rightarrow> go_string" where
  "gomap_str m k = (case gomap_get m k of None \<Rightarrow> [] | Some v \<Rightarrow> v)"

lemma gomap_get_set [simp]: "gomap_get (gomap_set m k v) k' = (if k' = k then Some v else gomap_get m k')"
  by (simp add: gomap_set_def update_conv')

lemma gomap_get_del [simp]: "gomap_get (gomap_del m k) k' = (if k' = k then None else gomap_get m k')"
  by (simp add: gomap_del_def delete_conv')

lemma gomap_ok_Nil [simp]: "gomap_ok []"
  by (simp add: gomap_ok_def)

lemma gomap_ok_set [simp]: "gomap_ok m \<Longrightarrow> gomap_ok (gomap_set m k v)"
  by (simp add: gomap_ok_def gomap_set_def distinct_update)

lemma gomap_ok_del [simp]: "gomap_ok m \<Longrightarrow> gomap_ok (gomap_del m k)"
  by (simp add: gomap_ok_def gomap_del_def distinct_delete)

lemma gomap_del_set_fresh: "k \<notin> fst ` set m \<Longrightarrow> gomap_del (gomap_set m k v) k = m"
proof (induction m)
  case (Cons x m)
  then show ?case by (cases x) (auto simp: gomap_del_def gomap_set_def)
qed (simp add: gomap_del_def gomap_set_def)

lemma gomap_dom: "gomap_ok m \<Longrightarrow> length m = card (dom (gomap_get m))"
  by (simp add: gomap_ok_def dom_map_of_conv_image_fst distinct_card flip: set_map)

lemma length_gomap_set:
  "length (gomap_set m k v) = (if gomap_get m k = None then Suc (length m) else length m)"
  by (induction m) (auto simp: gomap_set_def)

section \<open>Decimal numbers and quoting\<close>

fun nat_text :: "nat \<Rightarrow> go_string" where
  "nat_text n =
     (if n < 10 then [char_of (48 + n)] else nat_text (n div 10) @ [char_of (48 + n mod 10)])"

declare nat_text.simps [simp del]

definition int_text :: "int \<Rightarrow> go_string" where
  "int_text i = (if i < 0 then CHR ''-'' # nat_text (nat (- i)) else nat_text (nat i))"

definition digit_val :: "char \<Rightarrow> nat option" where
  "digit_val c =
     (let d = of_char c in if 48 \<le> d \<and> d \<le> (57 :: nat) then Some (d - 48) else None)"

fun digits_val :: "nat \<Rightarrow> go_string \<Rightarrow> nat option" where
  "digits_val acc [] = Some acc"
| "digits_val acc (c # cs) =
     (case digit_val c of None \<Rightarrow> None | Some d \<Rightarrow> digits_val (10 * acc + d) cs)"

text \<open>
  \<^verbatim>\<open>strconv.ParseUint(s, 10, bits)\<close> and \<^verbatim>\<open>strconv.ParseInt(s, 10, bits)\<close>;
  \<open>None\<close> stands for both the syntax and the range error. ParseUint takes no sign.
\<close>

definition parse_uint :: "nat \<Rightarrow> go_string \<Rightarrow> nat option" where
  "parse_uint bits s =
     (if s = [] then None
      else case digits_val 0 s of
             None \<Rightarrow> None
           | Some n \<Rightarrow> if n < 2 ^ bits then Some n else None)"

definition parse_int :: "nat \<Rightarrow> go_string \<Rightarrow> int option" where
  "parse_int bits s =
     (case s of
        [] \<Rightarrow> None
      | c # cs \<Rightarrow>
          (let neg = (c = CHR ''-'');
               body = (if c = CHR ''-'' \<or> c = CHR ''+'' then cs else s)
           in if body = [] then None
              else (case digits_val 0 body of
                      None \<Rightarrow> None
                    | Some n \<Rightarrow>
                        (if neg then (if n \<le> 2 ^ (bits - 1) then Some (- int n) else None)
                         else (if n < 2 ^ (bits - 1) then Some (int n) else None)))))"

definition hex_digit :: "nat \<Rightarrow> char" where
  "hex_digit n = (if n < 10 then char_of (48 + n) else char_of (87 + n))"

definition quote_byte :: "char \<Rightarrow> char \<Rightarrow> go_string" where
  "quote_byte q c =
     (if c = q then [CHR 0x5C, q]
      else if c = CHR 0x5C then [CHR 0x5C, CHR 0x5C]
      else if c = CHR 0x07 then [CHR 0x5C, CHR ''a'']
      else if c = CHR 0x08 then [CHR 0x5C, CHR ''b'']
      else if c = CHR 0x0C then [CHR 0x5C, CHR ''f'']
      else if c = CHR 0x0A then [CHR 0x5C, CHR ''n'']
      else if c = CHR 0x0D then [CHR 0x5C, CHR ''r'']
      else if c = CHR 0x09 then [CHR 0x5C, CHR ''t'']
      else if c = CHR 0x0B then [CHR 0x5C, CHR ''v'']
      else let n = of_char c :: nat in
        if n < 32 \<or> n = 127 then [CHR 0x5C, CHR ''x'', hex_digit (n div 16), hex_digit (n mod 16)]
        else [c])"

text \<open>The length of the UTF-8 encoding of one rune that a string starts with; 0 if there is none.\<close>

definition utf8_tail :: "nat \<Rightarrow> nat \<Rightarrow> char \<Rightarrow> bool" where
  "utf8_tail lo hi c \<longleftrightarrow> lo \<le> (of_char c :: nat) \<and> (of_char c :: nat) \<le> hi"

definition utf8_size :: "nat \<Rightarrow> nat" where
  "utf8_size b =
     (if b < 0x80 then 1
      else if 0xC2 \<le> b \<and> b \<le> 0xDF then 2
      else if 0xE0 \<le> b \<and> b \<le> 0xEF then 3
      else if 0xF0 \<le> b \<and> b \<le> 0xF4 then 4 else 0)"

definition utf8_width :: "go_string \<Rightarrow> nat" where
  "utf8_width s =
     (case s of
        [] \<Rightarrow> 0
      | c # cs \<Rightarrow>
         (let b = of_char c :: nat;
              lo = (if b = 0xE0 then 0xA0 else if b = 0xF0 then 0x90 else 0x80);
              hi = (if b = 0xED then 0x9F else if b = 0xF4 then 0x8F else 0xBF);
              size = utf8_size b
          in if size \<le> 1 then size
             else if length cs < size - 1 \<or> \<not> utf8_tail lo hi (hd cs)
                  \<or> \<not> list_all (utf8_tail 0x80 0xBF) (take (size - 2) (tl cs)) then 0
             else size))"

text \<open>\<^verbatim>\<open>%q\<close>: what is no UTF-8 is escaped byte by byte.\<close>

function quote_runes :: "go_string \<Rightarrow> go_string" where
  "quote_runes [] = []"
| "quote_runes (c # cs) =
     (let w = utf8_width (c # cs) in
      if w = 0 then [CHR 0x5C, CHR ''x'', hex_digit (of_char c div 16), hex_digit (of_char c mod 16)] @ quote_runes cs
      else if w = 1 then quote_byte (CHR 0x22) c @ quote_runes cs
      else take w (c # cs) @ quote_runes (drop w (c # cs)))"
  by pat_completeness auto

termination
  by (relation "measure length") (auto simp: Let_def)

definition quote_text :: "go_string \<Rightarrow> go_string" where
  "quote_text s = CHR 0x22 # quote_runes s @ [CHR 0x22]"

definition quote_rune :: "char \<Rightarrow> go_string" where
  "quote_rune c = CHR 0x27 # quote_byte (CHR 0x27) c @ [CHR 0x27]"

lemma digit_val_char_of: "d < 10 \<Longrightarrow> digit_val (char_of (48 + d)) = Some d"
  by (simp add: digit_val_def)

lemma digits_val_append:
  "digits_val a (xs @ ys) = (case digits_val a xs of None \<Rightarrow> None | Some b \<Rightarrow> digits_val b ys)"
  by (induction xs arbitrary: a) (auto split: option.splits)

lemma nat_text_not_Nil [simp]: "nat_text n \<noteq> []"
  by (subst nat_text.simps) simp

lemma digits_val_nat_text: "digits_val 0 (nat_text n) = Some n"
proof (induction n rule: nat_text.induct)
  case (1 n)
  show ?case
  proof (cases "n < 10")
    case True
    then show ?thesis by (simp add: nat_text.simps [of n] digit_val_char_of)
  next
    case False
    then have "digits_val 0 (nat_text (n div 10)) = Some (n div 10)" by (rule "1.IH")
    then show ?thesis
      using False
      by (simp add: nat_text.simps [of n] digits_val_append digit_val_char_of)
  qed
qed

lemma parse_uint_nat_text: "n < 2 ^ bits \<Longrightarrow> parse_uint bits (nat_text n) = Some n"
  by (simp add: parse_uint_def digits_val_nat_text)

lemma parse_uint_bound: "parse_uint bits s = Some n \<Longrightarrow> n < 2 ^ bits"
  by (auto simp: parse_uint_def split: if_splits option.splits)

lemma nat_text_digits: "c \<in> set (nat_text n) \<Longrightarrow> 48 \<le> (of_char c :: nat) \<and> (of_char c :: nat) \<le> 57"
proof (induction n rule: nat_text.induct)
  case (1 n)
  show ?case
  proof (cases "n < 10")
    case True
    with "1.prems" show ?thesis by (simp add: nat_text.simps [of n])
  next
    case False
    have "c \<in> set (nat_text (n div 10)) \<or> c = char_of (48 + n mod 10)"
      using "1.prems" False by (auto simp: nat_text.simps [of n])
    then show ?thesis
    proof
      assume "c \<in> set (nat_text (n div 10))"
      with False show ?thesis by (rule "1.IH")
    next
      have "n mod 10 < 10" by simp
      moreover assume "c = char_of (48 + n mod 10)"
      ultimately show ?thesis by simp
    qed
  qed
qed

section \<open>Big-endian 32-bit words\<close>

text \<open>
  \<^verbatim>\<open>binary.BigEndian.AppendUint32\<close> and \<^verbatim>\<open>binary.BigEndian.Uint32\<close>.
  \<^verbatim>\<open>Uint32\<close> reads the first four bytes; every caller in the program passes at
  least four, the other equations only make the function total.
\<close>

definition append_uint32 :: "bytes \<Rightarrow> uint32 \<Rightarrow> bytes" where
  "append_uint32 buf w =
     buf @ map char_of [unat w div 2 ^ 24, unat w div 2 ^ 16, unat w div 2 ^ 8, unat w]"

fun be_uint32 :: "bytes \<Rightarrow> uint32" where
  "be_uint32 (a # b # c # d # rest) =
     word_of_nat (((of_char a * 256 + of_char b) * 256 + of_char c) * 256 + of_char d)"
| "be_uint32 _ = 0"

abbreviation uint32_bytes :: "uint32 \<Rightarrow> bytes" where
  "uint32_bytes w \<equiv> append_uint32 [] w"

lemma append_uint32_conv: "append_uint32 buf w = buf @ uint32_bytes w"
  by (simp add: append_uint32_def)

lemma append_uint32_nested [wire_simps]:
  "append_uint32 (append_uint32 buf v) w = append_uint32 buf v @ uint32_bytes w"
  "append_uint32 (xs @ ys) w = xs @ append_uint32 ys w"
  "append_uint32 (x # xs) w = x # append_uint32 xs w"
  by (simp_all add: append_uint32_def)

lemma length_append_uint32 [simp]: "length (append_uint32 buf w) = length buf + 4"
  by (simp add: append_uint32_def)

lemma base256_expand:
  fixes n :: nat
  assumes "n < 2 ^ 32"
  shows "((n div 2 ^ 24 mod 256 * 256 + n div 2 ^ 16 mod 256) * 256 + n div 2 ^ 8 mod 256) * 256
    + n mod 256 = n"
proof -
  have a: "n div 2 ^ 24 mod 256 = n div 2 ^ 24"
    using assms by simp
  have b: "n div 2 ^ 24 * 256 + n div 2 ^ 16 mod 256 = n div 2 ^ 16"
    using div_mult_mod_eq [of "n div 2 ^ 16" 256] by (simp flip: div_mult2_eq)
  have c: "n div 2 ^ 16 * 256 + n div 2 ^ 8 mod 256 = n div 2 ^ 8"
    using div_mult_mod_eq [of "n div 2 ^ 8" 256] by (simp flip: div_mult2_eq)
  have d: "n div 2 ^ 8 * 256 + n mod 256 = n"
    using div_mult_mod_eq [of n 256] by simp
  show ?thesis
    by (simp only: a b c d)
qed

lemma be_uint32_bytes [simp]: "be_uint32 (uint32_bytes w @ rest) = w"
proof -
  have "unat w < 2 ^ 32"
    using unsigned_less [of w, where ?'a = nat] by simp
  then have "((unat w div 2 ^ 24 mod 256 * 256 + unat w div 2 ^ 16 mod 256) * 256
      + unat w div 2 ^ 8 mod 256) * 256 + unat w mod 256 = unat w"
    by (rule base256_expand)
  moreover have "be_uint32 (uint32_bytes w @ rest) =
      word_of_nat (((unat w div 2 ^ 24 mod 256 * 256 + unat w div 2 ^ 16 mod 256) * 256
      + unat w div 2 ^ 8 mod 256) * 256 + unat w mod 256)"
    by (simp only: append_uint32_def list.map append.simps be_uint32.simps of_char_of)
  ultimately show ?thesis
    by (simp only: of_nat_unat ucast_id)
qed

lemmas be_uint32_bytes_Nil [simp] = be_uint32_bytes [where rest = "[]", simplified]

lemma take4_uint32_bytes [simp]: "take 4 (uint32_bytes w @ rest) = uint32_bytes w"
  by simp

lemma drop4_uint32_bytes [simp]: "drop 4 (uint32_bytes w @ rest) = rest"
  by simp

lemma char_of_nat_eqI: "n mod 256 = of_char c \<Longrightarrow> char_of (n :: nat) = c"
  by (metis char_of_mod_256 char_of_char)

lemma base256_bound:
  fixes a b c d :: nat
  assumes "a < 256" "b < 256" "c < 256" "d < 256"
  shows "((a * 256 + b) * 256 + c) * 256 + d < 2 ^ 32"
  using assms by simp

lemma base256_digits:
  fixes a b c d :: nat
  assumes "a < 256" "b < 256" "c < 256" "d < 256"
  defines "n \<equiv> ((a * 256 + b) * 256 + c) * 256 + d"
  shows "n div 2 ^ 24 mod 256 = a \<and> n div 2 ^ 16 mod 256 = b \<and> n div 2 ^ 8 mod 256 = c \<and> n mod 256 = d"
proof -
  have 1: "n div 2 ^ 8 = (a * 256 + b) * 256 + c"
    using assms(4) by (simp add: n_def)
  have "n div 2 ^ 16 = n div 2 ^ 8 div 256"
    by (simp flip: div_mult2_eq)
  then have 2: "n div 2 ^ 16 = a * 256 + b"
    unfolding 1 using assms(3) by simp
  have "n div 2 ^ 24 = n div 2 ^ 16 div 256"
    by (simp flip: div_mult2_eq)
  then have 3: "n div 2 ^ 24 = a"
    unfolding 2 using assms(2) by simp
  have "((a * 256 + b) * 256 + c) mod 256 = c" "n mod 256 = d"
    unfolding n_def using assms(3,4) by (simp_all only: mod_mult_self3 mod_less)
  then show ?thesis
    unfolding 1 2 3 using assms(1,2) by simp
qed

lemma uint32_bytes_be: "length h = 4 \<Longrightarrow> uint32_bytes (be_uint32 h) = h"
proof -
  assume "length h = 4"
  then obtain a b c d where h: "h = [a, b, c, d]"
    by (auto simp: length_Suc_conv numeral_eq_Suc)
  have lt: "(of_char a :: nat) < 256" "(of_char b :: nat) < 256"
    "(of_char c :: nat) < 256" "(of_char d :: nat) < 256"
    by simp_all
  define n :: nat where "n = ((of_char a * 256 + of_char b) * 256 + of_char c) * 256 + of_char d"
  have "n < 2 ^ 32"
    unfolding n_def using lt by (rule base256_bound)
  moreover have "be_uint32 h = word_of_nat n"
    by (simp only: h be_uint32.simps n_def)
  ultimately have n: "unat (be_uint32 h) = n"
    by (simp add: unat_of_nat)
  have "n div 2 ^ 24 mod 256 = of_char a" "n div 2 ^ 16 mod 256 = of_char b"
    "n div 2 ^ 8 mod 256 = of_char c" "n mod 256 = of_char d"
    unfolding n_def using base256_digits [OF lt] by auto
  then show ?thesis
    by (simp only: append_uint32_def n) (simp add: h char_of_nat_eqI)
qed

section \<open>Byte streams and connections\<close>

record stream_in =
  si_data :: bytes
  si_end :: go_error

text \<open>
  \<^verbatim>\<open>io.ReadFull\<close>: exactly \<open>n\<close> bytes, or an error. End of input before the first
  byte is \<open>IoEOF\<close>, after it \<open>IoErrUnexpectedEOF\<close>; any other read error is passed on.
\<close>

definition io_ReadFull :: "nat \<Rightarrow> stream_in \<Rightarrow> (go_error + bytes) \<times> stream_in" where
  "io_ReadFull n r =
     (if n \<le> length (si_data r) then (Inr (take n (si_data r)), r\<lparr>si_data := drop n (si_data r)\<rparr>)
      else (Inl (if si_data r \<noteq> [] \<and> si_end r = Sentinel IoEOF
                 then Sentinel IoErrUnexpectedEOF else si_end r),
            r\<lparr>si_data := []\<rparr>))"

lemma io_ReadFull_append [simp]:
  "n = length xs \<Longrightarrow> io_ReadFull n \<lparr>si_data = xs @ ys, si_end = e\<rparr> = (Inr xs, \<lparr>si_data = ys, si_end = e\<rparr>)"
  by (simp add: io_ReadFull_def)

lemma io_ReadFull_ok_iff:
  "io_ReadFull n r = (Inr xs, r') \<longleftrightarrow>
     n \<le> length (si_data r) \<and> xs = take n (si_data r) \<and> r' = r\<lparr>si_data := drop n (si_data r)\<rparr>"
  by (auto simp: io_ReadFull_def)

lemma io_ReadFull_split:
  "io_ReadFull n r = (Inr xs, r') \<Longrightarrow>
     si_data r = xs @ si_data r' \<and> length xs = n \<and> si_end r' = si_end r"
  by (auto simp: io_ReadFull_ok_iff)

text \<open>
  A \<^verbatim>\<open>net.Conn\<close>: what the peer sends, what has been written to it so far, how many
  further bytes it accepts (\<open>None\<close>: no limit) with the error a write beyond that
  reports, what \<^verbatim>\<open>SetDeadline\<close> and \<^verbatim>\<open>SetWriteDeadline\<close> report, whether a
  deadline is armed for reading and for writing, and whether the
  connection is a TLS connection, its write side is half-closed or it is closed. A TLS
  connection is modelled at the level of its plaintext: an upgrade replaces the incoming
  stream by the decrypted one.
\<close>

record conn =
  c_in :: stream_in
  c_out :: bytes
  c_room :: "nat option"
  c_werr :: go_error
  c_dlerr :: "go_error option"
  c_deadline :: "bool \<times> bool"
  c_encrypted :: bool
  c_wclosed :: bool
  c_closed :: bool

definition conn_Write :: "bytes \<Rightarrow> conn \<Rightarrow> nat \<times> go_error option \<times> conn" where
  "conn_Write bs c =
     (if c_closed c \<or> c_wclosed c then (0, Some (Sentinel NetErrClosed), c)
      else case c_room c of
        None \<Rightarrow> (length bs, None, c\<lparr>c_out := c_out c @ bs\<rparr>)
      | Some k \<Rightarrow>
          if length bs \<le> k
          then (length bs, None, c\<lparr>c_out := c_out c @ bs, c_room := Some (k - length bs)\<rparr>)
          else (k, Some (c_werr c), c\<lparr>c_out := c_out c @ take k bs, c_room := Some 0\<rparr>))"

definition conn_SetDeadline :: "bool \<Rightarrow> conn \<Rightarrow> go_error option \<times> conn" where
  "conn_SetDeadline armed c =
     (case c_dlerr c of Some e \<Rightarrow> (Some e, c) | None \<Rightarrow> (None, c\<lparr>c_deadline := (armed, armed)\<rparr>))"

definition conn_SetWriteDeadline :: "bool \<Rightarrow> conn \<Rightarrow> go_error option \<times> conn" where
  "conn_SetWriteDeadline armed c =
     (case c_dlerr c of
        Some e \<Rightarrow> (Some e, c)
      | None \<Rightarrow> (None, c\<lparr>c_deadline := (fst (c_deadline c), armed)\<rparr>))"

definition conn_Close :: "conn \<Rightarrow> conn" where
  "conn_Close c = c\<lparr>c_closed := True\<rparr>"

text \<open>Upgrading to TLS: the handshake decides what the decrypted incoming stream is.\<close>

definition conn_secure :: "stream_in \<Rightarrow> conn \<Rightarrow> conn" where
  "conn_secure s c = c\<lparr>c_in := s, c_encrypted := True\<rparr>"

text \<open>\<^verbatim>\<open>CloseWrite\<close>, which TCP and TLS connections both implement.\<close>

definition conn_CloseWrite :: "conn \<Rightarrow> conn" where
  "conn_CloseWrite c = c\<lparr>c_wclosed := True\<rparr>"

text \<open>
  \<^verbatim>\<open>io.Copy(dst, src)\<close>: moves what the source delivers until the source ends, which is no
  error when the end is \<open>IoEOF\<close>, or until a write fails. \<open>cutAt = Some k\<close> says that the
  source is closed under the copy after it has read \<open>k\<close> bytes.
\<close>

definition io_Copy :: "nat option \<Rightarrow> conn \<Rightarrow> stream_in \<Rightarrow> nat \<times> go_error option \<times> conn" where
  "io_Copy cutAt dst src =
     (let cutoff = (case cutAt of None \<Rightarrow> False | Some k \<Rightarrow> k \<le> length (si_data src));
          data = (if cutoff then take (the cutAt) (si_data src) else si_data src);
          end = (if cutoff then Sentinel NetErrClosed else si_end src);
          src_err = (if end = Sentinel IoEOF then None else Some end)
      in if data = [] then (0, src_err, dst)
         else (case conn_Write data dst of
                 (n, None, dst') \<Rightarrow> (n, src_err, dst')
               | (n, Some e, dst') \<Rightarrow> (n, Some e, dst')))"

definition conn_open :: "conn \<Rightarrow> bool" where
  "conn_open c \<longleftrightarrow> c_room c = None \<and> \<not> c_closed c \<and> \<not> c_wclosed c"

lemma conn_Write_open: "conn_open c \<Longrightarrow> conn_Write bs c = (length bs, None, c\<lparr>c_out := c_out c @ bs\<rparr>)"
  by (simp add: conn_open_def conn_Write_def)

lemma conn_open_out [simp]: "conn_open (c\<lparr>c_out := x\<rparr>) = conn_open c"
  by (simp add: conn_open_def)

lemma conn_Write_in: "conn_Write bs c = (n, e, c') \<Longrightarrow> c_in c' = c_in c"
  by (auto simp: conn_Write_def split: if_splits option.splits)

lemma conn_Write_frame:
  "conn_Write bs c = (n, e, c') \<Longrightarrow>
     c_deadline c' = c_deadline c \<and> c_encrypted c' = c_encrypted c \<and> c_closed c' = c_closed c \<and> c_wclosed c' = c_wclosed c
     \<and> c_dlerr c' = c_dlerr c \<and> c_werr c' = c_werr c"
  by (auto simp: conn_Write_def split: if_splits option.splits)

lemma conn_Write_out:
  "conn_Write bs c = (n, e, c') \<Longrightarrow> n \<le> length bs \<and> c_out c' = c_out c @ take n bs"
  by (auto simp: conn_Write_def split: if_splits option.splits)

lemma conn_Write_ok_out: "conn_Write bs c = (n, None, c') \<Longrightarrow> n = length bs \<and> c_out c' = c_out c @ bs"
  by (auto simp: conn_Write_def split: if_splits option.splits)

lemma io_Copy_out:
  "io_Copy cutAt dst src = (n, e, dst') \<Longrightarrow>
     c_out dst' = c_out dst @ take n (si_data src) \<and> n \<le> length (si_data src)"
  by (auto simp: io_Copy_def Let_def min_def dest!: conn_Write_out split: if_splits option.splits prod.splits)

lemma io_Copy_open:
  assumes "conn_open dst" and "si_end src = Sentinel IoEOF"
  shows "io_Copy None dst src = (length (si_data src), None, dst\<lparr>c_out := c_out dst @ si_data src\<rparr>)"
  using assms by (cases dst) (simp add: io_Copy_def conn_Write_open Let_def)

text \<open>A source closed under the copy: what had been read by then went through.\<close>

lemma io_Copy_open_cut:
  assumes "conn_open dst" and "si_end src = Sentinel IoEOF"
  shows "io_Copy cutAt dst src =
    (let data = (case cutAt of None \<Rightarrow> si_data src | Some k \<Rightarrow> take k (si_data src))
     in (length data,
         if \<exists>k. cutAt = Some k \<and> k \<le> length (si_data src) then Some (Sentinel NetErrClosed) else None,
         dst\<lparr>c_out := c_out dst @ data\<rparr>))"
proof (cases cutAt)
  case None
  then show ?thesis using io_Copy_open [OF assms] by (simp add: Let_def)
next
  case (Some k)
  then show ?thesis
    using assms by (cases dst) (auto simp: io_Copy_def conn_Write_open Let_def)
qed

section \<open>Self-delimiting encodings\<close>

text \<open>
  What every wire format of the program promises: the decoder takes exactly one encoding off
  the front of a stream. It follows that an encoding is never a prefix of another one's and
  that a sequence of values can be recovered from the concatenation of their encodings.
\<close>

locale framed_codec =
  fixes enc :: "'a \<Rightarrow> bytes" and dec :: "bytes \<Rightarrow> ('a \<times> bytes) option" and ok :: "'a \<Rightarrow> bool"
  assumes dec_enc: "ok x \<Longrightarrow> dec (enc x @ rest) = Some (x, rest)"
    and enc_nonempty: "ok x \<Longrightarrow> enc x \<noteq> []"
begin

lemma enc_unambiguous: "ok x \<Longrightarrow> ok y \<Longrightarrow> enc x @ r = enc y @ s \<Longrightarrow> x = y \<and> r = s"
  by (metis dec_enc option.inject prod.inject)

lemma enc_inj: "inj_on enc {x. ok x}"
  using enc_unambiguous [where r = "[]" and s = "[]"] by (auto intro: inj_onI)

lemma stream_unambiguous:
  "list_all ok xs \<Longrightarrow> list_all ok ys \<Longrightarrow> concat (map enc xs) = concat (map enc ys) \<Longrightarrow> xs = ys"
proof (induction xs arbitrary: ys)
  case Nil
  then show ?case by (cases ys) (auto simp: enc_nonempty)
next
  case (Cons x xs)
  then obtain y ys' where ys: "ys = y # ys'" by (cases ys) (auto simp: enc_nonempty)
  with Cons.prems have "x = y \<and> concat (map enc xs) = concat (map enc ys')"
    by (intro enc_unambiguous) auto
  with Cons.IH [of ys'] Cons.prems ys show ?case by simp
qed

end

section \<open>Systems that wind down\<close>

text \<open>A system whose every step lowers a value of a well-founded order has no endless run and comes to rest.\<close>

locale grounded_steps =
  fixes step :: "'s \<Rightarrow> 's \<Rightarrow> bool" and rank :: "'s \<Rightarrow> 'o" and below :: "('o \<times> 'o) set"
  assumes grounded: "wf below" and step_below: "step s s' \<Longrightarrow> (rank s', rank s) \<in> below"
begin

lemma no_endless_run: "\<not> (\<forall>i. step (run i) (run (Suc i)))"
proof
  assume "\<forall>i. step (run i) (run (Suc i))"
  then have "\<forall>i. (rank (run (Suc i)), rank (run i)) \<in> below" using step_below by blast
  with grounded show False by (auto simp: wf_iff_no_infinite_down_chain dest: spec [where x = "\<lambda>i. rank (run i)"])
qed

lemma comes_to_rest: "\<exists>s'. step\<^sup>*\<^sup>* s s' \<and> (\<forall>t. \<not> step s' t)"
proof (induction "rank s" arbitrary: s rule: wf_induct_rule [OF grounded])
  case 1
  show ?case
  proof (cases "\<exists>t. step s t")
    case True
    then obtain t where "step s t" by blast
    with 1 [OF step_below [OF this]] show ?thesis by (meson converse_rtranclp_into_rtranclp)
  qed auto
qed

end

text \<open>The steps may lower it only where an invariant holds.\<close>

locale guarded_steps =
  fixes inv :: "'s \<Rightarrow> bool" and move :: "'s \<Rightarrow> 's \<Rightarrow> bool" and rank :: "'s \<Rightarrow> 'o" and below :: "('o \<times> 'o) set"
  assumes founded: "wf below" and kept: "inv s \<Longrightarrow> move s s' \<Longrightarrow> inv s'"
    and lowers: "inv s \<Longrightarrow> move s s' \<Longrightarrow> (rank s', rank s) \<in> below"
begin

lemma kept_by_moves: "move\<^sup>*\<^sup>* s s' \<Longrightarrow> inv s \<Longrightarrow> inv s'"
  by (induction rule: rtranclp_induct) (auto dest: kept)

end

sublocale guarded_steps \<subseteq> grounded_steps "\<lambda>s s'. inv s \<and> move s s'" rank below
  by unfold_locales (auto simp: founded lowers)

context guarded_steps
begin

lemma no_run_from: "inv s \<Longrightarrow> \<nexists>run. run 0 = s \<and> (\<forall>i. move (run i) (run (Suc i)))"
proof
  assume "inv s" and "\<exists>run. run 0 = s \<and> (\<forall>i. move (run i) (run (Suc i)))"
  then obtain run where run: "inv (run 0)" "\<And>i. move (run i) (run (Suc i))" by blast
  have "inv (run i)" for i by (induction i) (use run kept in blast)+
  with no_endless_run [of run] run(2) show False by blast
qed

end

text \<open>With a natural number for a rank, there are at most as many steps as the rank at the start.\<close>

locale ranked_steps =
  fixes step :: "'s \<Rightarrow> 's \<Rightarrow> bool" and rank :: "'s \<Rightarrow> nat"
  assumes step_lowers: "step s s' \<Longrightarrow> rank s' < rank s"
begin

lemma bounded: "(step ^^ n) s s' \<Longrightarrow> n + rank s' \<le> rank s"
proof (induction n arbitrary: s')
  case (Suc n)
  then obtain t where "(step ^^ n) s t" "step t s'" by auto
  with Suc.IH [of t] step_lowers [of t s'] show ?case by simp
qed simp

end

sublocale ranked_steps \<subseteq> grounded_steps step rank less_than
  by unfold_locales (auto dest: step_lowers)

end
