(* ===== verification/Pgwire_Protocol.thy ===== *)
theory Pgwire_Protocol
  imports Gateway_Prelude
begin

text \<open>
  The startup half of package pgwire (\<^verbatim>\<open>src/src/internal/pgwire/protocol.go\<close>):
  the startup, SSL, GSSAPI and cancel packets, their decoder \<open>ReadStartupPacket\<close>, the
  parameter list with its accessors, and the encoders. Lengths announced on the wire are
  32-bit words read as naturals (Go widens them to int64); protocol codes and cancellation
  keys are int32 values kept as 32-bit words.
\<close>

section \<open>Definitions\<close>

definition ProtocolVersion3 :: int32 where "ProtocolVersion3 = 196608"
definition CancelRequestCode :: int32 where "CancelRequestCode = 80877102"
definition SSLRequestCode :: int32 where "SSLRequestCode = 80877103"
definition GSSEncRequestCode :: int32 where "GSSEncRequestCode = 80877104"

definition MsgBackendKeyData :: char where "MsgBackendKeyData = CHR ''K''"
definition MsgReadyForQuery :: char where "MsgReadyForQuery = CHR ''Z''"
definition MsgErrorResponse :: char where "MsgErrorResponse = CHR ''E''"

definition MaxStartupPacketLength :: nat where "MaxStartupPacketLength = 10000"
definition minStartupPacketLength :: nat where "minStartupPacketLength = 8"

abbreviation NUL :: char where "NUL \<equiv> CHR 0x00"

record Parameter =
  par_Key :: go_string
  par_Value :: go_string

record CancelRequest =
  ProcessID :: int32
  SecretKey :: int32

definition zeroCancel :: CancelRequest where
  "zeroCancel = \<lparr>ProcessID = 0, SecretKey = 0\<rparr>"

record StartupPacket =
  sp_Code :: int32
  sp_Parameters :: "Parameter list"
  sp_Cancel :: CancelRequest

definition IsSSLRequest :: "StartupPacket \<Rightarrow> bool" where
  "IsSSLRequest p = (sp_Code p = SSLRequestCode)"

definition IsGSSEncRequest :: "StartupPacket \<Rightarrow> bool" where
  "IsGSSEncRequest p = (sp_Code p = GSSEncRequestCode)"

definition IsCancelRequest :: "StartupPacket \<Rightarrow> bool" where
  "IsCancelRequest p = (sp_Code p = CancelRequestCode)"

text \<open>Go's \<^verbatim>\<open>>>\<close> on an int32 is the arithmetic shift.\<close>

definition MajorVersion :: "StartupPacket \<Rightarrow> int32" where
  "MajorVersion p = signed_drop_bit 16 (sp_Code p)"

fun findParameter :: "go_string \<Rightarrow> Parameter list \<Rightarrow> go_string option" where
  "findParameter key [] = None"
| "findParameter key (param # params) =
     (if par_Key param = key then Some (par_Value param) else findParameter key params)"

definition Parameter_of :: "StartupPacket \<Rightarrow> go_string \<Rightarrow> go_string option" where
  "Parameter_of p key = findParameter key (sp_Parameters p)"

fun setParameters :: "go_string \<Rightarrow> go_string \<Rightarrow> Parameter list \<Rightarrow> Parameter list" where
  "setParameters key val [] = [\<lparr>par_Key = key, par_Value = val\<rparr>]"
| "setParameters key val (param # params) =
     (if par_Key param = key then param\<lparr>par_Value := val\<rparr> # params
      else param # setParameters key val params)"

definition SetParameter :: "go_string \<Rightarrow> go_string \<Rightarrow> StartupPacket \<Rightarrow> StartupPacket" where
  "SetParameter key val p = p\<lparr>sp_Parameters := setParameters key val (sp_Parameters p)\<rparr>"

fun IndexByte :: "bytes \<Rightarrow> char \<Rightarrow> nat option" where
  "IndexByte [] c = None"
| "IndexByte (b # bs) c = (if b = c then Some 0 else map_option Suc (IndexByte bs c))"

definition readCString :: "bytes \<Rightarrow> go_error + (go_string \<times> bytes)" where
  "readCString b =
     (case IndexByte b NUL of
        None \<Rightarrow> Inl (Sentinel IoErrUnexpectedEOF)
      | Some e \<Rightarrow> Inr (take e b, drop (e + 1) b))"

lemma IndexByte_bound: "IndexByte b c = Some i \<Longrightarrow> i < length b"
  by (induction b arbitrary: i) (auto split: if_splits)

lemma readCString_shorter: "readCString b = Inr (s, rest) \<Longrightarrow> length rest < length b"
  by (auto simp: readCString_def dest: IndexByte_bound split: option.splits)

function parseLoop :: "Parameter list \<Rightarrow> bytes \<Rightarrow> go_error + Parameter list" where
  "parseLoop params payload =
     (if payload = [] then Inr params
      else if hd payload = NUL then Inr params
      else case readCString payload of
        Inl err \<Rightarrow> Inl (wrapf ''pgwire: reading parameter name'' err)
      | Inr (key, rest) \<Rightarrow>
          (case readCString rest of
             Inl err \<Rightarrow> Inl (wrapf (''pgwire: reading value of parameter '' @ quote_text key) err)
           | Inr (val, rest') \<Rightarrow>
               parseLoop (params @ [\<lparr>par_Key = key, par_Value = val\<rparr>]) rest'))"
  by pat_completeness auto
termination
  by (relation "measure (\<lambda>(params, payload). length payload)")
    (auto dest!: readCString_shorter)

declare parseLoop.simps [simp del]

definition parseParameters :: "bytes \<Rightarrow> go_error + Parameter list" where
  "parseParameters payload = parseLoop [] payload"

text \<open>
  The second half of \<open>ReadStartupPacket\<close>: decoding a body that has been read in full.
\<close>

definition decodeStartup :: "bytes \<Rightarrow> go_error + StartupPacket" where
  "decodeStartup body =
     (let packet = \<lparr>sp_Code = be_uint32 (take 4 body), sp_Parameters = [],
                    sp_Cancel = zeroCancel\<rparr>;
          payload = drop 4 body
      in
      if sp_Code packet = SSLRequestCode \<or> sp_Code packet = GSSEncRequestCode then
        (if length payload \<noteq> 0
         then Inl (ErrorString (''pgwire: negotiation packet carries ''
                @ nat_text (length payload) @ '' trailing bytes''))
         else Inr packet)
      else if sp_Code packet = CancelRequestCode then
        (if length payload \<noteq> 8
         then Inl (ErrorString (''pgwire: cancel request payload is ''
                @ nat_text (length payload) @ '' bytes, want 8''))
         else Inr (packet\<lparr>sp_Cancel :=
                \<lparr>ProcessID = be_uint32 (take 4 payload), SecretKey = be_uint32 (drop 4 payload)\<rparr>\<rparr>))
      else if MajorVersion packet \<noteq> 3 then
        Inl (ErrorString (''pgwire: unsupported protocol version ''
           @ int_text (sint (MajorVersion packet)) @ ''.''
           @ nat_text (unat (sp_Code packet) mod 65536)))
      else (case parseParameters payload of
         Inl err \<Rightarrow> Inl err
       | Inr params \<Rightarrow> Inr (packet\<lparr>sp_Parameters := params\<rparr>)))"

definition ReadStartupPacket :: "stream_in \<Rightarrow> (go_error + StartupPacket) \<times> stream_in" where
  "ReadStartupPacket r =
     (case io_ReadFull 4 r of
        (Inl err, r1) \<Rightarrow> (Inl err, r1)
      | (Inr header, r1) \<Rightarrow>
         (let length' = unat (be_uint32 header) in
          if length' < minStartupPacketLength then
            (Inl (ErrorString (''pgwire: startup packet length '' @ nat_text length'
               @ '' is below the minimum of '' @ nat_text minStartupPacketLength)), r1)
          else if length' > MaxStartupPacketLength then
            (Inl (wrap_pre (Sentinel ErrStartupTooLarge)
               (nat_text length' @ '' > '' @ nat_text MaxStartupPacketLength)), r1)
          else (case io_ReadFull (length' - 4) r1 of
             (Inl err, r2) \<Rightarrow> (Inl (wrapf ''pgwire: reading startup packet body'' err), r2)
           | (Inr body, r2) \<Rightarrow> (decodeStartup body, r2))))"

fun encodeParameters :: "Parameter list \<Rightarrow> bytes" where
  "encodeParameters [] = []"
| "encodeParameters (param # params) =
     par_Key param @ [NUL] @ par_Value param @ [NUL] @ encodeParameters params"

fun sizeParameters :: "Parameter list \<Rightarrow> nat" where
  "sizeParameters [] = 0"
| "sizeParameters (param # params) =
     length (par_Key param) + 1 + length (par_Value param) + 1 + sizeParameters params"

definition Encode :: "StartupPacket \<Rightarrow> bytes" where
  "Encode p =
     (let size = 4 + 4 + 1 + sizeParameters (sp_Parameters p);
          buf = append_uint32 [] (word_of_nat size);
          buf = append_uint32 buf (sp_Code p);
          buf = buf @ encodeParameters (sp_Parameters p)
      in buf @ [NUL])"

definition EncodeCancelRequest :: "CancelRequest \<Rightarrow> bytes" where
  "EncodeCancelRequest key =
     append_uint32 (append_uint32 (append_uint32 (append_uint32 [] 16) CancelRequestCode)
       (ProcessID key)) (SecretKey key)"

definition EncodeBackendKeyData :: "CancelRequest \<Rightarrow> bytes" where
  "EncodeBackendKeyData key =
     append_uint32 (append_uint32 (append_uint32 [MsgBackendKeyData] 12)
       (ProcessID key)) (SecretKey key)"

definition DecodeBackendKeyData :: "bytes \<Rightarrow> go_error + CancelRequest" where
  "DecodeBackendKeyData body =
     (if length body \<noteq> 8
      then Inl (ErrorString (''pgwire: BackendKeyData body is '' @ nat_text (length body)
             @ '' bytes, want 8''))
      else Inr \<lparr>ProcessID = be_uint32 (take 4 body), SecretKey = be_uint32 (drop 4 body)\<rparr>)"

section \<open>Reading and writing C strings\<close>

lemma Parameter_eta [simp]: "\<lparr>par_Key = par_Key p, par_Value = par_Value p\<rparr> = p"
  by (cases p) simp

lemma CancelRequest_eta [simp]: "\<lparr>ProcessID = ProcessID k, SecretKey = SecretKey k\<rparr> = k"
  by (cases k) simp

definition nul_free :: "bytes \<Rightarrow> bool" where
  "nul_free s \<longleftrightarrow> NUL \<notin> set s"

text \<open>A quoted text has no NUL and is at most four times as long, for any bytes.\<close>

lemma utf8_width_Cons:
  obtains "utf8_width (c # cs) \<le> 1" | lo hi where "utf8_width (c # cs) = utf8_size (of_char c)"
    "1 < utf8_size (of_char c)" "utf8_size (of_char c) - 1 \<le> length cs" "128 \<le> lo" "utf8_tail lo hi (hd cs)"
    "list_all (utf8_tail 0x80 0xBF) (take (utf8_size (of_char c) - 2) (tl cs))"
proof -
  let ?b = "of_char c :: nat"
  define lo :: nat where "lo = (if ?b = 0xE0 then 0xA0 else if ?b = 0xF0 then 0x90 else 0x80)"
  define hi :: nat where "hi = (if ?b = 0xED then 0x9F else if ?b = 0xF4 then 0x8F else 0xBF)"
  have "utf8_width (c # cs) = (if utf8_size ?b \<le> 1 then utf8_size ?b
      else if length cs < utf8_size ?b - 1 \<or> \<not> utf8_tail lo hi (hd cs)
        \<or> \<not> list_all (utf8_tail 0x80 0xBF) (take (utf8_size ?b - 2) (tl cs)) then 0
      else utf8_size ?b)"
    unfolding utf8_width_def Let_def list.case lo_def hi_def by (rule refl)
  moreover have "128 \<le> lo" by (simp add: lo_def)
  ultimately show thesis using that by (fastforce split: if_splits)
qed

lemma utf8_width_high:
  assumes "1 < utf8_width s" and "x \<in> set (take (utf8_width s) s)"
  shows "x \<noteq> NUL"
proof -
  obtain c cs where s: "s = c # cs" using assms(1) by (cases s) (auto simp: utf8_width_def)
  define w where "w = utf8_size (of_char c)"
  obtain lo hi where ww: "utf8_width s = w" and w: "1 < w" and cs: "w - 1 \<le> length cs"
    and lo: "128 \<le> lo" "utf8_tail lo hi (hd cs)" and tl: "list_all (utf8_tail 0x80 0xBF) (take (w - 2) (tl cs))"
    using utf8_width_Cons [of c cs] assms(1) unfolding w_def s by fastforce
  have c: "128 \<le> (of_char c :: nat)" using w by (simp add: w_def utf8_size_def split: if_splits)
  have hd: "128 \<le> (of_char (hd cs) :: nat)" using lo unfolding utf8_tail_def by linarith
  from cs w obtain d ds where ds: "cs = d # ds" by (cases cs) auto
  have "take w s = c # d # take (w - 2) ds"
    using w by (cases w; cases "w - 1") (auto simp: s ds)
  with assms(2) c hd tl have "128 \<le> (of_char x :: nat)"
    unfolding ww by (auto simp: ds list_all_iff utf8_tail_def)
  then show ?thesis by auto
qed

lemma utf8_width_le: "utf8_width s \<le> length s"
proof (cases s)
  case (Cons c cs)
  show ?thesis unfolding Cons by (rule utf8_width_Cons [of c cs]) auto
qed (simp add: utf8_width_def)

lemma hex_digit_nul: "n < 16 \<Longrightarrow> hex_digit n \<noteq> NUL"
proof
  assume "n < 16" and "hex_digit n = NUL"
  then have "(of_char (hex_digit n) :: nat) = 0" by simp
  with \<open>n < 16\<close> show False by (simp add: hex_digit_def split: if_splits)
qed

lemma quote_byte_nul: "nul_free (quote_byte q c)" if "q \<noteq> NUL"
proof -
  have if_P: "(b \<Longrightarrow> nul_free x) \<Longrightarrow> (\<not> b \<Longrightarrow> nul_free y) \<Longrightarrow> nul_free (if b then x else y)" for b x y
    by simp
  have "(of_char c :: nat) div 16 < 16" by (rule less_mult_imp_div_less) simp
  then have hex: "NUL \<noteq> hex_digit (of_char c div 16)" "NUL \<noteq> hex_digit (of_char c mod 16)"
    using hex_digit_nul [of "of_char c div 16"] hex_digit_nul [of "of_char c mod 16"] by simp_all
  have other: "nul_free [c]" if "\<not> ((of_char c :: nat) < 32 \<or> (of_char c :: nat) = 127)"
    using that by (cases "c = NUL") (auto simp: nul_free_def)
  show ?thesis
    unfolding quote_byte_def Let_def
    by (rule if_P; ((rule other, assumption) | (simp (no_asm) add: nul_free_def hex that that [symmetric]; fail))?)+
qed

lemma quote_byte_length: "length (quote_byte q c) \<le> 4"
  by (simp add: quote_byte_def Let_def)

lemma quote_runes_ok: "nul_free (quote_runes s) \<and> length (quote_runes s) \<le> 4 * length s"
proof (induction s rule: quote_runes.induct)
  case 1
  then show ?case by (simp add: nul_free_def)
next
  case (2 c cs)
  let ?w = "utf8_width (c # cs)"
  have char: "(of_char c :: nat) div 16 < 16" by (rule less_mult_imp_div_less) simp
  consider "?w = 0" | "?w = 1" | "1 < ?w" by linarith
  then show ?case
  proof cases
    case 1
    with "2.IH"(1) [OF refl] hex_digit_nul [of "of_char c div 16"] hex_digit_nul [of "of_char c mod 16"] char
    show ?thesis by (auto simp: nul_free_def)
  next
    case 2
    with "2.IH"(2) [OF refl] quote_byte_nul [of "CHR 0x22" c] quote_byte_length [of "CHR 0x22" c]
    show ?thesis by (auto simp: nul_free_def)
  next
    case 3
    with "2.IH"(3) [OF refl] utf8_width_high [OF 3] utf8_width_le [of "c # cs"]
    show ?thesis by (auto simp: nul_free_def Let_def simp del: take_Cons drop_Cons)
  qed
qed

lemma quote_text_ok: "nul_free (quote_text s)" "length (quote_text s) \<le> 4 * length s + 2"
  using quote_runes_ok [of s] by (auto simp: quote_text_def nul_free_def)

text \<open>A parameter the decoder can produce: a non-empty name, neither part holding a NUL.\<close>

definition wf_param :: "Parameter \<Rightarrow> bool" where
  "wf_param p \<longleftrightarrow> par_Key p \<noteq> [] \<and> nul_free (par_Key p) \<and> nul_free (par_Value p)"

definition wf_params :: "Parameter list \<Rightarrow> bool" where
  "wf_params ps = list_all wf_param ps"

lemma IndexByte_append_NUL: "nul_free s \<Longrightarrow> IndexByte (s @ NUL # rest) NUL = Some (length s)"
  by (induction s) (auto simp: nul_free_def)

lemma IndexByte_SomeD:
  "IndexByte b c = Some i \<Longrightarrow> b = take i b @ c # drop (Suc i) b \<and> c \<notin> set (take i b)"
  by (induction b arbitrary: i) (auto split: if_splits)

lemma readCString_append: "nul_free s \<Longrightarrow> readCString (s @ NUL # rest) = Inr (s, rest)"
  by (simp add: readCString_def IndexByte_append_NUL)

lemma readCString_InrD: "readCString b = Inr (s, rest) \<Longrightarrow> b = s @ NUL # rest \<and> nul_free s"
  by (auto simp: readCString_def nul_free_def dest: IndexByte_SomeD split: option.splits)

lemma readCString_InlD: "readCString b = Inl e \<Longrightarrow> e = Sentinel IoErrUnexpectedEOF"
  by (auto simp: readCString_def split: option.splits)

section \<open>The parameter list: parsing inverts encoding\<close>

lemma sizeParameters_encode: "sizeParameters ps = length (encodeParameters ps)"
  by (induction ps) auto

lemma encodeParameters_append: "encodeParameters (ps @ qs) = encodeParameters ps @ encodeParameters qs"
  by (induction ps) auto

lemma parseLoop_encode:
  assumes "wf_params ps" and "tail = [] \<or> hd tail = NUL"
  shows "parseLoop acc (encodeParameters ps @ tail) = Inr (acc @ ps)"
  using assms(1)
proof (induction ps arbitrary: acc)
  case Nil
  with assms(2) show ?case by (subst parseLoop.simps) auto
next
  case (Cons p ps)
  then have wf: "par_Key p \<noteq> []" "nul_free (par_Key p)" "nul_free (par_Value p)" "wf_params ps"
    by (auto simp: wf_params_def wf_param_def)
  then have "hd (par_Key p) \<noteq> NUL"
    by (cases "par_Key p") (auto simp: nul_free_def)
  moreover have "parseLoop (acc @ [p]) (encodeParameters ps @ tail) = Inr (acc @ p # ps)"
    using Cons.IH [of "acc @ [p]"] wf(4) by simp
  ultimately show ?case
    using wf by (subst parseLoop.simps) (simp add: readCString_append)
qed

text \<open>Conversely, whatever the loop accepts is the encoding of its result and a tail.\<close>

lemma parseLoop_InrD:
  "parseLoop acc b = Inr ps \<Longrightarrow>
     \<exists>qs tail. ps = acc @ qs \<and> wf_params qs \<and> b = encodeParameters qs @ tail
       \<and> (tail = [] \<or> hd tail = NUL)"
proof (induction acc b rule: parseLoop.induct)
  case (1 acc b)
  show ?case
  proof (cases "b = [] \<or> hd b = NUL")
    case True
    with "1.prems" have "ps = acc"
      by (auto simp: parseLoop.simps [of acc b] split: if_splits)
    with True show ?thesis
      by (intro exI [of _ "[]"] exI [of _ b]) (auto simp: wf_params_def)
  next
    case False
    with "1.prems" obtain k rest v rest' where
      k: "readCString b = Inr (k, rest)" and v: "readCString rest = Inr (v, rest')"
      and rec: "parseLoop (acc @ [\<lparr>par_Key = k, par_Value = v\<rparr>]) rest' = Inr ps"
      by (auto simp: parseLoop.simps [of acc b] split: sum.splits prod.splits)
    let ?p = "\<lparr>par_Key = k, par_Value = v\<rparr>"
    from "1.IH" False k v rec obtain qs tail where
      IH: "ps = (acc @ [?p]) @ qs" "wf_params qs" "rest' = encodeParameters qs @ tail"
        "tail = [] \<or> hd tail = NUL"
      by blast
    from k v have b: "b = k @ NUL # v @ NUL # rest'" "nul_free k" "nul_free v"
      by (auto dest: readCString_InrD)
    with False have "wf_param ?p" by (auto simp: wf_param_def)
    with IH b show ?thesis
      by (intro exI [of _ "?p # qs"] exI [of _ tail]) (auto simp: wf_params_def)
  qed
qed

lemma parseLoop_InlD: "parseLoop acc b = Inl e \<Longrightarrow> errors_Is e IoErrUnexpectedEOF"
proof (induction acc b rule: parseLoop.induct)
  case (1 acc b)
  then show ?case
    by (auto simp: parseLoop.simps [of acc b] dest: readCString_InlD split: if_splits sum.splits prod.splits)
qed

section \<open>Framing: what one call consumes\<close>

lemmas startup_codes = SSLRequestCode_def GSSEncRequestCode_def CancelRequestCode_def
lemmas startup_limits = MaxStartupPacketLength_def minStartupPacketLength_def

lemma ReadStartupPacket_framed:
  assumes "length body = n - 4" and "minStartupPacketLength \<le> n" and "n \<le> MaxStartupPacketLength"
  shows "ReadStartupPacket \<lparr>si_data = uint32_bytes (word_of_nat n) @ body @ rest, si_end = e\<rparr>
    = (decodeStartup body, \<lparr>si_data = rest, si_end = e\<rparr>)"
proof -
  have "unat (word_of_nat n :: uint32) = n"
    using assms(3) by (simp add: unat_of_nat startup_limits)
  then show ?thesis
    using assms by (simp add: ReadStartupPacket_def startup_limits)
qed

lemma ReadStartupPacket_okD:
  assumes "ReadStartupPacket r = (Inr p, r')"
  obtains header body where "si_data r = header @ body @ si_data r'" and "length header = 4"
    and "length body = unat (be_uint32 header) - 4" and "decodeStartup body = Inr p"
    and "minStartupPacketLength \<le> unat (be_uint32 header)"
    and "unat (be_uint32 header) \<le> MaxStartupPacketLength" and "si_end r' = si_end r"
proof -
  from assms obtain header r1 body where
    1: "io_ReadFull 4 r = (Inr header, r1)" and
    2: "io_ReadFull (unat (be_uint32 header) - 4) r1 = (Inr body, r')" and
    3: "decodeStartup body = Inr p" "minStartupPacketLength \<le> unat (be_uint32 header)"
      "unat (be_uint32 header) \<le> MaxStartupPacketLength"
    by (auto simp: ReadStartupPacket_def Let_def split: prod.splits sum.splits if_splits)
  from io_ReadFull_split [OF 1] io_ReadFull_split [OF 2] 3 show thesis
    by (intro that [of header body]) auto
qed

lemma decodeStartup_version3:
  assumes "signed_drop_bit 16 code = (3 :: int32)"
  shows "decodeStartup (uint32_bytes code @ payload) =
    (case parseParameters payload of
       Inl err \<Rightarrow> Inl err
     | Inr params \<Rightarrow> Inr \<lparr>sp_Code = code, sp_Parameters = params, sp_Cancel = zeroCancel\<rparr>)"
proof -
  have "code \<noteq> SSLRequestCode" "code \<noteq> GSSEncRequestCode" "code \<noteq> CancelRequestCode"
    using assms by (auto simp: startup_codes)
  with assms show ?thesis
    by (simp add: decodeStartup_def MajorVersion_def split: sum.split)
qed

lemma decodeStartup_version3_InrD:
  assumes "decodeStartup body = Inr p" and "MajorVersion p = 3"
  shows "sp_Code p = be_uint32 (take 4 body)" and "sp_Cancel p = zeroCancel"
    and "parseParameters (drop 4 body) = Inr (sp_Parameters p)"
proof -
  have "sp_Code p \<noteq> SSLRequestCode" "sp_Code p \<noteq> GSSEncRequestCode" "sp_Code p \<noteq> CancelRequestCode"
    using assms(2) by (auto simp: MajorVersion_def startup_codes)
  with assms(1) show "sp_Code p = be_uint32 (take 4 body)" "sp_Cancel p = zeroCancel"
    "parseParameters (drop 4 body) = Inr (sp_Parameters p)"
    by (auto simp: decodeStartup_def Let_def split: if_splits sum.splits)
qed

lemma Encode_conv:
  "Encode p = uint32_bytes (word_of_nat (9 + length (encodeParameters (sp_Parameters p))))
     @ uint32_bytes (sp_Code p) @ encodeParameters (sp_Parameters p) @ [NUL]"
  by (simp add: Encode_def Let_def sizeParameters_encode wire_simps)

lemma length_Encode [simp]: "length (Encode p) = 9 + length (encodeParameters (sp_Parameters p))"
  by (simp add: Encode_conv)

lemma parseParameters_encode:
  "wf_params ps \<Longrightarrow> parseParameters (encodeParameters ps @ [NUL]) = Inr ps"
  using parseLoop_encode [of ps "[NUL]" "[]"] by (simp add: parseParameters_def)

lemma ReadStartupPacket_Encode:
  assumes "MajorVersion p = 3" and "wf_params (sp_Parameters p)" and "sp_Cancel p = zeroCancel"
    and "length (Encode p) \<le> MaxStartupPacketLength"
  shows "ReadStartupPacket \<lparr>si_data = Encode p @ rest, si_end = e\<rparr>
    = (Inr p, \<lparr>si_data = rest, si_end = e\<rparr>)"
proof -
  let ?body = "uint32_bytes (sp_Code p) @ encodeParameters (sp_Parameters p) @ [NUL]"
  have "ReadStartupPacket \<lparr>si_data = Encode p @ rest, si_end = e\<rparr>
      = (decodeStartup ?body, \<lparr>si_data = rest, si_end = e\<rparr>)"
    using ReadStartupPacket_framed [of ?body "length (Encode p)" rest e] assms(4)
    by (simp add: Encode_conv startup_limits)
  moreover have "decodeStartup ?body = Inr p"
    using assms(1-3) by (simp add: decodeStartup_version3 MajorVersion_def parseParameters_encode)
  ultimately show ?thesis by simp
qed

text \<open>A startup packet a client can send: protocol 3, well-formed, within the length limit.\<close>

definition sendable :: "StartupPacket \<Rightarrow> bool" where
  "sendable p \<longleftrightarrow> MajorVersion p = 3 \<and> wf_params (sp_Parameters p) \<and> sp_Cancel p = zeroCancel
     \<and> length (Encode p) \<le> MaxStartupPacketLength"

text \<open>What a decoded packet says is no longer than the packet was.\<close>

lemma findParameter_length:
  "findParameter key ps = Some v \<Longrightarrow> length v \<le> length (encodeParameters ps)"
  by (induction ps) (auto split: if_splits)

lemma ReadStartupPacket_parameter:
  assumes "ReadStartupPacket r = (Inr p, r')" and "findParameter key (sp_Parameters p) = Some v"
  shows "length v \<le> MaxStartupPacketLength"
proof -
  obtain header body where "length body = unat (be_uint32 header) - 4" and d: "decodeStartup body = Inr p"
    and "unat (be_uint32 header) \<le> MaxStartupPacketLength"
    using assms(1) by (rule ReadStartupPacket_okD)
  then have body: "length body \<le> MaxStartupPacketLength" by simp
  have "sp_Parameters p = [] \<or> parseParameters (drop 4 body) = Inr (sp_Parameters p)"
    using d by (auto simp: decodeStartup_def Let_def split: if_splits sum.splits)
  then have "length (encodeParameters (sp_Parameters p)) \<le> length body"
  proof
    assume "parseParameters (drop 4 body) = Inr (sp_Parameters p)"
    then obtain tail where "drop 4 body = encodeParameters (sp_Parameters p) @ tail"
      unfolding parseParameters_def using parseLoop_InrD by fastforce
    then have "length (drop 4 body) = length (encodeParameters (sp_Parameters p)) + length tail"
      by (metis length_append)
    then show ?thesis by simp
  qed simp
  with body findParameter_length [OF assms(2)] show ?thesis by simp
qed

definition startup_decoder :: "bytes \<Rightarrow> (StartupPacket \<times> bytes) option" where
  "startup_decoder b =
     (case ReadStartupPacket \<lparr>si_data = b, si_end = Sentinel IoEOF\<rparr> of
        (Inr p, r) \<Rightarrow> Some (p, si_data r)
      | (Inl _, _) \<Rightarrow> None)"

interpretation startup_codec: framed_codec Encode startup_decoder sendable
proof unfold_locales
  fix p rest
  assume "sendable p"
  then show "startup_decoder (Encode p @ rest) = Some (p, rest)"
    by (simp add: startup_decoder_def sendable_def ReadStartupPacket_Encode)
  show "Encode p \<noteq> []" by (simp add: Encode_conv append_uint32_def)
qed

lemma ReadStartupPacket_Cancel:
  "ReadStartupPacket \<lparr>si_data = EncodeCancelRequest k @ rest, si_end = e\<rparr>
    = (Inr \<lparr>sp_Code = CancelRequestCode, sp_Parameters = [], sp_Cancel = k\<rparr>,
       \<lparr>si_data = rest, si_end = e\<rparr>)"
proof -
  let ?body = "uint32_bytes CancelRequestCode @ uint32_bytes (ProcessID k) @ uint32_bytes (SecretKey k)"
  have "EncodeCancelRequest k = uint32_bytes (word_of_nat 16) @ ?body"
    by (simp add: EncodeCancelRequest_def wire_simps)
  moreover have "decodeStartup ?body
      = Inr \<lparr>sp_Code = CancelRequestCode, sp_Parameters = [], sp_Cancel = k\<rparr>"
    by (simp add: decodeStartup_def startup_codes)
  ultimately show ?thesis
    using ReadStartupPacket_framed [of ?body 16 rest e] by (simp add: startup_limits)
qed

section \<open>Properties of the startup codec\<close>

text \<open>C18: Decoding the encoding of a protocol-3 startup packet gives that packet back and
  leaves exactly the bytes that followed it, for every packet whose parameter names are
  non-empty, whose names and values hold no NUL byte and whose encoding respects the
  startup length limit.\<close>

theorem startup_roundtrip:
  assumes "MajorVersion p = 3" and "wf_params (sp_Parameters p)" and "sp_Cancel p = zeroCancel"
    and "length (Encode p) \<le> MaxStartupPacketLength"
  shows "ReadStartupPacket \<lparr>si_data = Encode p @ rest, si_end = e\<rparr>
    = (Inr p, \<lparr>si_data = rest, si_end = e\<rparr>)"
  using assms by (rule ReadStartupPacket_Encode)

text \<open>C19: Whatever protocol-3 packet the decoder accepts, its parameters are well formed and
  the bytes it consumed are the announced length, the version, the encoding of those
  parameters in the order they arrived and a tail that is empty or starts with the list
  terminator. Re-encoding reproduces the client's bytes exactly when the tail is the lone
  terminator; a client that omits the terminator, or pads after it, is forwarded a packet of
  another length.\<close>

theorem startup_forward_exact:
  assumes "ReadStartupPacket r = (Inr p, r')" and "MajorVersion p = 3"
  shows "wf_params (sp_Parameters p) \<and> (\<exists>len tail.
      si_data r = uint32_bytes len @ uint32_bytes (sp_Code p)
        @ encodeParameters (sp_Parameters p) @ tail @ si_data r'
      \<and> (tail = [] \<or> hd tail = NUL)
      \<and> unat len + 1 = length (Encode p) + length tail
      \<and> (si_data r = Encode p @ si_data r' \<longleftrightarrow> tail = [NUL]))"
proof -
  from assms(1) obtain header body where r: "si_data r = header @ body @ si_data r'"
    and len: "length header = 4" "length body = unat (be_uint32 header) - 4"
      "minStartupPacketLength \<le> unat (be_uint32 header)"
    and dec: "decodeStartup body = Inr p"
    by (rule ReadStartupPacket_okD)
  note v3 = decodeStartup_version3_InrD [OF dec assms(2)]
  then obtain tail where wf: "wf_params (sp_Parameters p)"
    and payload: "drop 4 body = encodeParameters (sp_Parameters p) @ tail"
    and tail: "tail = [] \<or> hd tail = NUL"
    by (auto simp: parseParameters_def dest: parseLoop_InrD)
  have "length body \<ge> 4" using len by (simp add: startup_limits)
  then have "uint32_bytes (sp_Code p) = take 4 body"
    by (simp add: v3(1) uint32_bytes_be)
  with payload have body: "body = uint32_bytes (sp_Code p) @ encodeParameters (sp_Parameters p) @ tail"
    by (metis append_take_drop_id)
  define n where "n = be_uint32 header"
  have header: "header = uint32_bytes n" using len(1) by (simp add: n_def uint32_bytes_be)
  have n: "unat n + 1 = length (Encode p) + length tail"
    using len(2,3) by (simp add: n_def body startup_limits)
  have "si_data r = Encode p @ si_data r' \<longleftrightarrow> tail = [NUL]"
  proof
    assume "tail = [NUL]"
    with n have "n = word_of_nat (9 + length (encodeParameters (sp_Parameters p)))"
      by (metis Suc_eq_plus1 add_right_cancel length_Encode list.size(3,4) of_nat_unat ucast_id plus_nat.add_0)
    with \<open>tail = [NUL]\<close> show "si_data r = Encode p @ si_data r'"
      by (simp add: r header body Encode_conv)
  next
    assume "si_data r = Encode p @ si_data r'"
    then show "tail = [NUL]" by (simp add: r header body Encode_conv)
  qed
  with wf tail n show ?thesis
    by (auto simp: r header body intro!: exI [of _ n] exI [of _ tail])
qed

text \<open>C35: What one call to the decoder takes off the stream is fixed by the length field. A stream
  that ends within the field is consumed and an error. A length outside the limits is an
  error after exactly the four bytes of the field, whatever follows, and one above the maximum
  is the error the callers test for. Any other length is consumed to the byte, field
  included, or up to the end of a stream that is shorter, which is an error. So no call
  consumes more than MaxStartupPacketLength bytes.\<close>

theorem startup_consumption_bounded:
  assumes "ReadStartupPacket r = (res, r')" and "n = unat (be_uint32 (take 4 (si_data r)))"
  shows "(length (si_data r) < 4 \<longrightarrow> (\<exists>err. res = Inl err) \<and> si_data r' = [])
    \<and> (4 \<le> length (si_data r) \<and> \<not> (minStartupPacketLength \<le> n \<and> n \<le> MaxStartupPacketLength) \<longrightarrow>
         (\<exists>err. res = Inl err \<and> (n > MaxStartupPacketLength \<longrightarrow> errors_Is err ErrStartupTooLarge))
         \<and> si_data r' = drop 4 (si_data r))
    \<and> (4 \<le> length (si_data r) \<and> minStartupPacketLength \<le> n \<and> n \<le> MaxStartupPacketLength \<longrightarrow>
         si_data r' = drop n (si_data r) \<and> (length (si_data r) < n \<longrightarrow> (\<exists>err. res = Inl err)))
    \<and> (\<exists>consumed. si_data r = consumed @ si_data r' \<and> length consumed \<le> MaxStartupPacketLength)"
proof -
  consider (short) "length (si_data r) < 4"
    | (refused) "4 \<le> length (si_data r)" "\<not> (minStartupPacketLength \<le> n \<and> n \<le> MaxStartupPacketLength)"
    | (read) "4 \<le> length (si_data r)" "minStartupPacketLength \<le> n" "n \<le> MaxStartupPacketLength"
    by linarith
  then show ?thesis
  proof cases
    case short
    then show ?thesis
      using assms(1) by (auto simp: ReadStartupPacket_def io_ReadFull_def startup_limits)
  next
    case refused
    then have "(\<exists>err. res = Inl err \<and> (n > MaxStartupPacketLength \<longrightarrow> errors_Is err ErrStartupTooLarge))
      \<and> si_data r' = drop 4 (si_data r)"
      using assms by (auto simp: ReadStartupPacket_def io_ReadFull_def Let_def wrap_pre_def startup_limits split: if_splits)
    moreover from this have "si_data r = take 4 (si_data r) @ si_data r'" by simp
    ultimately show ?thesis
      using refused by (auto simp: startup_limits intro!: exI [of _ "take 4 (si_data r)"])
  next
    case read
    then have "si_data r' = drop n (si_data r) \<and> (length (si_data r) < n \<longrightarrow> (\<exists>err. res = Inl err))"
      using assms by (auto simp: ReadStartupPacket_def io_ReadFull_def Let_def startup_limits split: if_splits)
    moreover from this have "si_data r = take n (si_data r) @ si_data r'" by simp
    ultimately show ?thesis
      using read by (auto intro!: exI [of _ "take n (si_data r)"])
  qed
qed

text \<open>A cancel packet written for a key is decoded to a cancel packet with that key, for
  every key, and nothing beyond it is consumed.\<close>

lemma cancel_packet_roundtrip:
  "ReadStartupPacket \<lparr>si_data = EncodeCancelRequest k @ rest, si_end = e\<rparr>
    = (Inr \<lparr>sp_Code = CancelRequestCode, sp_Parameters = [], sp_Cancel = k\<rparr>,
       \<lparr>si_data = rest, si_end = e\<rparr>)"
  by (rule ReadStartupPacket_Cancel)

lemma findParameter_set:
  "findParameter k (setParameters key val ps) = (if k = key then Some val else findParameter k ps)"
  by (induction ps) auto

lemma keys_setParameters:
  "map par_Key (setParameters key val ps) =
     map par_Key ps @ (if key \<in> par_Key ` set ps then [] else [key])"
  by (induction ps) auto

lemma wf_params_set:
  "wf_params ps \<Longrightarrow> key \<noteq> [] \<Longrightarrow> nul_free key \<Longrightarrow> nul_free val \<Longrightarrow>
     wf_params (setParameters key val ps)"
  by (induction ps) (auto simp: wf_params_def wf_param_def)

text \<open>Setting a parameter makes that value the one read back, changes no other lookup, and
  keeps every name at its position, appending the name only when it was absent.\<close>

lemma SetParameter_spec:
  "Parameter_of (SetParameter key val p) k = (if k = key then Some val else Parameter_of p k)
   \<and> map par_Key (sp_Parameters (SetParameter key val p)) =
       map par_Key (sp_Parameters p) @ (if key \<in> par_Key ` set (sp_Parameters p) then [] else [key])
   \<and> sp_Code (SetParameter key val p) = sp_Code p"
  by (simp add: SetParameter_def Parameter_of_def findParameter_set keys_setParameters)

text \<open>End to end, a protocol-3 packet accepted from a client, with its database rewritten and
  re-encoded, is read by the backend as the client's packet with only that parameter
  changed, provided the result respects the length limit.\<close>

lemma rewritten_startup_reaches_backend:
  assumes "ReadStartupPacket r = (Inr p, r')" and "MajorVersion p = 3" and "nul_free target"
    and "length (Encode (SetParameter ''database'' target p)) \<le> MaxStartupPacketLength"
  shows "ReadStartupPacket \<lparr>si_data = Encode (SetParameter ''database'' target p) @ rest, si_end = e\<rparr>
    = (Inr (SetParameter ''database'' target p), \<lparr>si_data = rest, si_end = e\<rparr>)"
proof -
  from assms(1) obtain body where dec: "decodeStartup body = Inr p"
    by (rule ReadStartupPacket_okD)
  note v3 = decodeStartup_version3_InrD [OF dec assms(2)]
  then have "wf_params (sp_Parameters p)"
    by (auto simp: parseParameters_def dest: parseLoop_InrD)
  then have "wf_params (sp_Parameters (SetParameter ''database'' target p))"
    using assms(3) by (simp add: SetParameter_def wf_params_set nul_free_def)
  moreover have "MajorVersion (SetParameter ''database'' target p) = 3"
    using assms(2) by (simp add: MajorVersion_def SetParameter_def)
  moreover have "sp_Cancel (SetParameter ''database'' target p) = zeroCancel"
    using v3(2) by (simp add: SetParameter_def)
  ultimately show ?thesis
    using assms(4) by (intro ReadStartupPacket_Encode)
qed

section \<open>Witnesses\<close>

definition sample_startup :: StartupPacket where
  "sample_startup = \<lparr>sp_Code = ProtocolVersion3,
     sp_Parameters = [\<lparr>par_Key = ''user'', par_Value = ''alice''\<rparr>, \<lparr>par_Key = ''database'', par_Value = ''orders''\<rparr>],
     sp_Cancel = zeroCancel\<rparr>"

lemma sample_startup_ok:
  "MajorVersion sample_startup = 3" "wf_params (sp_Parameters sample_startup)" "sp_Cancel sample_startup = zeroCancel"
  "length (Encode sample_startup) \<le> MaxStartupPacketLength" "sendable sample_startup"
  by (simp_all add: sample_startup_def MajorVersion_def ProtocolVersion3_def wf_params_def wf_param_def nul_free_def
      startup_limits sendable_def)

theorem startup_roundtrip_witness:
  "ReadStartupPacket \<lparr>si_data = Encode sample_startup @ ''Q'', si_end = Sentinel IoEOF\<rparr>
    = (Inr sample_startup, \<lparr>si_data = ''Q'', si_end = Sentinel IoEOF\<rparr>)"
  by (rule startup_roundtrip) (simp_all only: sample_startup_ok)

theorem startup_forward_exact_witness:
  "\<exists>len tail. Encode sample_startup @ ''Q'' = uint32_bytes len @ uint32_bytes (sp_Code sample_startup)
        @ encodeParameters (sp_Parameters sample_startup) @ tail @ ''Q''
      \<and> unat len + 1 = length (Encode sample_startup) + length tail \<and> tail = [NUL]"
  using startup_forward_exact [OF ReadStartupPacket_Encode [OF sample_startup_ok(1-4)] sample_startup_ok(1), of "''Q''" "Sentinel IoEOF"]
  by (auto simp del: length_Encode)

theorem startup_consumption_bounded_witness:
  "\<exists>err. ReadStartupPacket \<lparr>si_data = [CHR 0xFF, CHR 0xFF, CHR 0xFF, CHR 0xFF] @ ''body'', si_end = Sentinel IoEOF\<rparr>
      = (Inl err, \<lparr>si_data = ''body'', si_end = Sentinel IoEOF\<rparr>) \<and> errors_Is err ErrStartupTooLarge"
proof -
  let ?r = "\<lparr>si_data = [CHR 0xFF, CHR 0xFF, CHR 0xFF, CHR 0xFF] @ ''body'', si_end = Sentinel IoEOF\<rparr>"
  have n: "unat (be_uint32 (take 4 (si_data ?r))) = 4294967295"
    by simp
  obtain res r' where rd: "ReadStartupPacket ?r = (res, r')" by fastforce
  then have "si_end r' = Sentinel IoEOF"
    using n by (auto simp: ReadStartupPacket_def io_ReadFull_def Let_def startup_limits split: if_splits)
  with startup_consumption_bounded [OF rd refl] n rd show ?thesis
    by (cases r') (auto simp: startup_limits)
qed

end
