(* ===== verification/Pgwire_Message.thy ===== *)
theory Pgwire_Message
  imports Pgwire_Protocol
begin

text \<open>
  The framed half of package pgwire (\<^verbatim>\<open>src/src/internal/pgwire/message.go\<close>):
  typed messages, the \<open>MessageReader\<close> that frames a backend's stream one message at a time,
  and the ErrorResponse the gateway sends on its own behalf. A reader is its stream and the
  capacity of the buffer it reuses; the body it returns is a copy of the buffer, which is
  what its callers see before the next call.
\<close>

section \<open>Definitions\<close>

definition MaxMessageLength :: nat where "MaxMessageLength = 2 ^ 20"

record Message =
  msg_Type :: char
  msg_Body :: bytes

definition Message_Encode :: "Message \<Rightarrow> bytes" where
  "Message_Encode m =
     append_uint32 [msg_Type m] (word_of_nat (length (msg_Body m) + 4)) @ msg_Body m"

record MessageReader =
  mr_r :: stream_in
  mr_cap :: nat

definition NewMessageReader :: "stream_in \<Rightarrow> MessageReader" where
  "NewMessageReader r = \<lparr>mr_r = r, mr_cap = 0\<rparr>"

definition Next :: "MessageReader \<Rightarrow> (go_error + Message) \<times> MessageReader" where
  "Next mr =
     (case io_ReadFull 5 (mr_r mr) of
        (Inl err, r1) \<Rightarrow> (Inl err, mr\<lparr>mr_r := r1\<rparr>)
      | (Inr header, r1) \<Rightarrow>
         (let length' = unat (be_uint32 (drop 1 header)) in
          if length' < 4 then
            (Inl (ErrorString (''pgwire: message '' @ quote_rune (hd header) @ '' declares length ''
               @ nat_text length' @ '', want at least 4'')), mr\<lparr>mr_r := r1\<rparr>)
          else if length' > MaxMessageLength then
            (Inl (ErrorString (''pgwire: message '' @ quote_rune (hd header) @ '' length ''
               @ nat_text length' @ '' exceeds the '' @ nat_text MaxMessageLength
               @ '' byte limit'')), mr\<lparr>mr_r := r1\<rparr>)
          else
            (let bodyLen = length' - 4;
                 cap = (if mr_cap mr < bodyLen then bodyLen else mr_cap mr)
             in case io_ReadFull bodyLen r1 of
                  (Inl err, r2) \<Rightarrow>
                    (Inl (wrapf (''pgwire: reading body of message '' @ quote_rune (hd header)) err),
                     \<lparr>mr_r = r2, mr_cap = cap\<rparr>)
                | (Inr body, r2) \<Rightarrow>
                    (Inr \<lparr>msg_Type = hd header, msg_Body = body\<rparr>, \<lparr>mr_r = r2, mr_cap = cap\<rparr>))))"

text \<open>
  The reads of \<open>Next\<close> ask for more than the peer has sent: until it sends more or ends its
  stream, the call does not return.
\<close>

definition awaitsMore :: "MessageReader \<Rightarrow> bool" where
  "awaitsMore mr =
     (let data = si_data (mr_r mr); length' = unat (be_uint32 (drop 1 (take 5 data)))
      in length data < 5 \<or> 4 \<le> length' \<and> length' \<le> MaxMessageLength \<and> length data < 1 + length')"

definition SQLStateUndefinedDatabase :: go_string where "SQLStateUndefinedDatabase = ''3D000''"
definition SQLStateConnectionFailure :: go_string where "SQLStateConnectionFailure = ''08006''"
definition SQLStateTooManyConnections :: go_string where "SQLStateTooManyConnections = ''53300''"
definition SQLStateProtocolViolation :: go_string where "SQLStateProtocolViolation = ''08P01''"

fun encodeFields :: "(char \<times> go_string) list \<Rightarrow> bytes" where
  "encodeFields [] = []"
| "encodeFields ((code, val) # fs) = code # val @ NUL # encodeFields fs"

definition EncodeErrorResponse :: "go_string \<Rightarrow> go_string \<Rightarrow> go_string \<Rightarrow> bytes" where
  "EncodeErrorResponse sqlState message detail =
     (let fields = [(CHR ''S'', ''FATAL''), (CHR ''V'', ''FATAL''), (CHR ''C'', sqlState),
                    (CHR ''M'', message)];
          fields = (if detail \<noteq> [] then fields @ [(CHR ''D'', detail)] else fields);
          body = encodeFields fields @ [NUL]
      in Message_Encode \<lparr>msg_Type = MsgErrorResponse, msg_Body = body\<rparr>)"

text \<open>
  The protocol's reading of an ErrorResponse body: fields of one code byte and a
  NUL-terminated string each, closed by a NUL. This is the specification the encoder is
  checked against, not code of the program.
\<close>

function decodeFields :: "bytes \<Rightarrow> (char \<times> go_string) list option" where
  "decodeFields [] = None"
| "decodeFields (c # cs) =
     (if c = NUL then Some []
      else case readCString cs of
        Inl _ \<Rightarrow> None
      | Inr (val, rest) \<Rightarrow> map_option (\<lambda>fs. (c, val) # fs) (decodeFields rest))"
  by pat_completeness auto
termination
  by (relation "measure length") (auto dest!: readCString_shorter)

section \<open>Framing lemmas\<close>

lemma Message_eta [simp]: "\<lparr>msg_Type = msg_Type m, msg_Body = msg_Body m\<rparr> = m"
  by (cases m) simp

lemma Next_okD:
  assumes "Next mr = (Inr m, mr')"
  obtains header where "si_data (mr_r mr) = header @ msg_Body m @ si_data (mr_r mr')"
    and "length header = 5" and "msg_Type m = hd header"
    and "unat (be_uint32 (drop 1 header)) = length (msg_Body m) + 4"
    and "length (msg_Body m) + 4 \<le> MaxMessageLength"
    and "mr_cap mr' = max (mr_cap mr) (length (msg_Body m))"
    and "si_end (mr_r mr') = si_end (mr_r mr)"
proof -
  from assms obtain header r1 r2 where
    1: "io_ReadFull 5 (mr_r mr) = (Inr header, r1)" and
    2: "io_ReadFull (unat (be_uint32 (drop 1 header)) - 4) r1 = (Inr (msg_Body m), r2)" and
    3: "msg_Type m = hd header" "4 \<le> unat (be_uint32 (drop 1 header))"
      "unat (be_uint32 (drop 1 header)) \<le> MaxMessageLength" "mr_r mr' = r2"
      "mr_cap mr' = max (mr_cap mr) (unat (be_uint32 (drop 1 header)) - 4)"
    by (auto simp: Next_def Let_def split: prod.splits sum.splits if_splits)
  from io_ReadFull_split [OF 1] io_ReadFull_split [OF 2] 3 show thesis
    by (intro that [of header]) auto
qed

lemma Next_consumes: "Next mr = (Inr m, mr') \<Longrightarrow>
    length (si_data (mr_r mr')) < length (si_data (mr_r mr))"
  by (erule Next_okD) simp

lemma Next_okD_bytes:
  assumes "Next mr = (Inr m, mr')"
  shows "si_data (mr_r mr) = Message_Encode m @ si_data (mr_r mr')"
    and "si_end (mr_r mr') = si_end (mr_r mr)"
proof -
  from assms obtain header where h: "si_data (mr_r mr) = header @ msg_Body m @ si_data (mr_r mr')"
    "length header = 5" "msg_Type m = hd header"
    "unat (be_uint32 (drop 1 header)) = length (msg_Body m) + 4"
    and e: "si_end (mr_r mr') = si_end (mr_r mr)"
    by (rule Next_okD)
  show "si_end (mr_r mr') = si_end (mr_r mr)" by (rule e)
  have "header = hd header # drop 1 header"
    using h(2) by (cases header) auto
  also have "drop 1 header = uint32_bytes (be_uint32 (drop 1 header))"
    using h(2) by (simp add: uint32_bytes_be)
  also have "be_uint32 (drop 1 header) = word_of_nat (length (msg_Body m) + 4)"
    by (metis h(4) of_nat_unat ucast_id)
  finally show "si_data (mr_r mr) = Message_Encode m @ si_data (mr_r mr')"
    by (simp add: h(1) h(3) Message_Encode_def wire_simps)
qed

lemma Next_Encode:
  assumes "length (msg_Body m) + 4 \<le> MaxMessageLength"
  shows "Next \<lparr>mr_r = \<lparr>si_data = Message_Encode m @ rest, si_end = e\<rparr>, mr_cap = c\<rparr>
    = (Inr m, \<lparr>mr_r = \<lparr>si_data = rest, si_end = e\<rparr>, mr_cap = max c (length (msg_Body m))\<rparr>)"
proof -
  let ?h = "msg_Type m # uint32_bytes (word_of_nat (length (msg_Body m) + 4))"
  have "unat (word_of_nat (length (msg_Body m) + 4) :: uint32) = length (msg_Body m) + 4"
    using assms by (subst unat_of_nat) (simp add: MaxMessageLength_def)
  moreover have "io_ReadFull 5 \<lparr>si_data = Message_Encode m @ rest, si_end = e\<rparr>
      = (Inr ?h, \<lparr>si_data = msg_Body m @ rest, si_end = e\<rparr>)"
    using io_ReadFull_append [of 5 ?h "msg_Body m @ rest" e]
    by (simp add: Message_Encode_def wire_simps)
  ultimately show ?thesis
    using assms by (simp add: Next_def Let_def max_def)
qed

definition fits :: "Message \<Rightarrow> bool" where
  "fits m \<longleftrightarrow> length (msg_Body m) + 4 \<le> MaxMessageLength"

abbreviation encodes :: "Message list \<Rightarrow> bytes" where
  "encodes ms \<equiv> concat (map Message_Encode ms)"

definition message_decoder :: "bytes \<Rightarrow> (Message \<times> bytes) option" where
  "message_decoder b =
     (case Next (NewMessageReader \<lparr>si_data = b, si_end = Sentinel IoEOF\<rparr>) of
        (Inr m, mr) \<Rightarrow> Some (m, si_data (mr_r mr))
      | (Inl _, _) \<Rightarrow> None)"

interpretation message_codec: framed_codec Message_Encode message_decoder fits
proof unfold_locales
  fix m rest
  assume "fits m"
  then show "message_decoder (Message_Encode m @ rest) = Some (m, rest)"
    by (simp add: message_decoder_def fits_def NewMessageReader_def Next_Encode)
  show "Message_Encode m \<noteq> []" by (simp add: Message_Encode_def append_uint32_def)
qed

lemma decodeFields_encode:
  "list_all (\<lambda>(c, v). c \<noteq> NUL \<and> nul_free v) fs \<Longrightarrow> decodeFields (encodeFields fs @ [NUL]) = Some fs"
  by (induction fs) (auto simp: readCString_append)

section \<open>Properties\<close>

text \<open>Framing a message that was put on the wire gives the message back and leaves the
  following bytes untouched in the stream, for every message within the length limit.\<close>

lemma message_roundtrip:
  assumes "length (msg_Body m) + 4 \<le> MaxMessageLength"
  shows "Next (NewMessageReader \<lparr>si_data = Message_Encode m @ rest, si_end = e\<rparr>)
    = (Inr m, \<lparr>mr_r = \<lparr>si_data = rest, si_end = e\<rparr>, mr_cap = length (msg_Body m)\<rparr>)"
  using Next_Encode [OF assms, of rest e 0] by (simp add: NewMessageReader_def)

text \<open>Framing is unambiguous: two sequences of messages within the length limit that look the same
  on the wire are the same sequence, so no message boundary can be shifted by what the
  messages contain.\<close>

lemma framing_is_unambiguous:
  assumes "list_all fits ms" and "list_all fits ms'" and "encodes ms = encodes ms'"
  shows "ms = ms'"
  using assms by (rule message_codec.stream_unambiguous)

text \<open>The reader never reads ahead: when it returns a message, what it took from the stream is
  exactly that message's encoding, so framing can stop there and the rest of the stream be
  copied raw. Its buffer never grows beyond the message limit.\<close>

lemma next_reads_exactly_one_message:
  assumes "Next mr = (Inr m, mr')"
  shows "si_data (mr_r mr) = Message_Encode m @ si_data (mr_r mr')
    \<and> length (msg_Body m) + 4 \<le> MaxMessageLength
    \<and> mr_cap mr' = max (mr_cap mr) (length (msg_Body m))"
  using assms Next_okD_bytes [OF assms] by (blast elim: Next_okD)

text \<open>However a call ends, the buffer capacity stays within the limit a hostile length field
  is checked against.\<close>

lemma next_allocation_bounded:
  assumes "mr_cap mr + 4 \<le> MaxMessageLength" and "Next mr = (res, mr')"
  shows "mr_cap mr' + 4 \<le> MaxMessageLength"
  using assms by (auto simp: Next_def Let_def split: prod.splits sum.splits if_splits)

text \<open>A call that has all it asks for does not depend on how the stream will end; one that has not fails when it ends.\<close>

lemma awaitsMore_error: "awaitsMore mr \<Longrightarrow> \<exists>err. fst (Next mr) = Inl err"
  by (auto simp: awaitsMore_def Next_def io_ReadFull_def Let_def)

lemma Next_end_irrelevant:
  assumes "\<not> awaitsMore mr"
  shows "fst (Next (mr\<lparr>mr_r := (mr_r mr)\<lparr>si_end := e\<rparr>\<rparr>)) = fst (Next mr)"
  using assms by (auto simp: awaitsMore_def Next_def io_ReadFull_def Let_def)

text \<open>A fatal error the gateway reports is framed as one ErrorResponse message whose body a
  client decodes to severity FATAL, the SQLSTATE, the message and, when there is one, the
  detail, in that order.\<close>

lemma error_response_decodes:
  assumes "nul_free sqlState" and "nul_free message" and "nul_free detail"
    and "length sqlState + length message + length detail + 100 \<le> MaxMessageLength"
  shows "\<exists>body. Next (NewMessageReader \<lparr>si_data = EncodeErrorResponse sqlState message detail @ rest, si_end = e\<rparr>)
      = (Inr \<lparr>msg_Type = MsgErrorResponse, msg_Body = body\<rparr>,
         \<lparr>mr_r = \<lparr>si_data = rest, si_end = e\<rparr>, mr_cap = length body\<rparr>)
    \<and> decodeFields body = Some ([(CHR ''S'', ''FATAL''), (CHR ''V'', ''FATAL''),
        (CHR ''C'', sqlState), (CHR ''M'', message)]
        @ (if detail = [] then [] else [(CHR ''D'', detail)]))"
proof -
  define fs where "fs = [(CHR ''S'', ''FATAL''), (CHR ''V'', ''FATAL''),
        (CHR ''C'', sqlState), (CHR ''M'', message)]
        @ (if detail = [] then [] else [(CHR ''D'', detail)])"
  define m where "m = \<lparr>msg_Type = MsgErrorResponse, msg_Body = encodeFields fs @ [NUL]\<rparr>"
  have enc: "EncodeErrorResponse sqlState message detail = Message_Encode m"
    by (simp add: EncodeErrorResponse_def Let_def m_def fs_def)
  have "decodeFields (encodeFields fs @ [NUL]) = Some fs"
    using assms(1-3) by (intro decodeFields_encode) (simp add: fs_def nul_free_def)
  moreover have "length (msg_Body m) + 4 \<le> MaxMessageLength"
    using assms(4) by (simp add: m_def fs_def)
  ultimately show ?thesis
    using Next_Encode [of m rest e 0] unfolding enc fs_def [symmetric]
    by (intro exI [of _ "msg_Body m"]) (simp add: NewMessageReader_def m_def)
qed

text \<open>The BackendKeyData message the gateway writes is one framed message whose body decodes
  to the key it was built from, for every key.\<close>

lemma backend_key_data_roundtrip:
  "\<exists>body. Next (NewMessageReader \<lparr>si_data = EncodeBackendKeyData k @ rest, si_end = e\<rparr>)
      = (Inr \<lparr>msg_Type = MsgBackendKeyData, msg_Body = body\<rparr>,
         \<lparr>mr_r = \<lparr>si_data = rest, si_end = e\<rparr>, mr_cap = 8\<rparr>)
    \<and> DecodeBackendKeyData body = Inr k"
proof -
  let ?body = "uint32_bytes (ProcessID k) @ uint32_bytes (SecretKey k)"
  let ?m = "\<lparr>msg_Type = MsgBackendKeyData, msg_Body = ?body\<rparr>"
  have "EncodeBackendKeyData k = Message_Encode ?m"
    by (simp add: EncodeBackendKeyData_def Message_Encode_def wire_simps)
  moreover have "DecodeBackendKeyData ?body = Inr k"
    by (simp add: DecodeBackendKeyData_def)
  ultimately show ?thesis
    using Next_Encode [of ?m rest e 0]
    by (intro exI [of _ ?body]) (simp add: NewMessageReader_def MaxMessageLength_def)
qed

section \<open>Witnesses\<close>

definition sample_message :: Message where
  "sample_message = \<lparr>msg_Type = CHR ''R'', msg_Body = [NUL, NUL, NUL, NUL]\<rparr>"

lemma sample_message_fits: "length (msg_Body sample_message) + 4 \<le> MaxMessageLength"
  by (simp add: sample_message_def MaxMessageLength_def)

end
