(* ===== verification/Api_Types.thy ===== *)
theory Api_Types
  imports Gateway_Prelude "HOL-Library.List_Lexorder" "HOL-Library.Char_ord"
    "HOL-Library.Product_Lexorder"
begin

text \<open>
  The API objects of package v1alpha1
  (\<^verbatim>\<open>src/src/api/v1alpha1/postgresroute_types.go\<close>) and the parts of the Kubernetes
  object model the program reads: object metadata, namespaced names, label and annotation
  maps, integer-or-string port references. String-typed enums stay strings, because the code
  compares them as strings and has a branch for values outside the enum. A timestamp is an
  instant, an \<^typ>\<open>int\<close>; a pointer to a struct is an option.
\<close>

section \<open>Kubernetes object model\<close>

text \<open>A \<^verbatim>\<open>types.NamespacedName\<close>, ordered by namespace and then by name.\<close>

datatype NamespacedName = NamespacedName (nn_Namespace: go_string) (nn_Name: go_string)

instantiation NamespacedName :: linorder
begin

definition less_eq_NamespacedName :: "NamespacedName \<Rightarrow> NamespacedName \<Rightarrow> bool" where
  "less_eq_NamespacedName a b \<longleftrightarrow> (nn_Namespace a, nn_Name a) \<le> (nn_Namespace b, nn_Name b)"

definition less_NamespacedName :: "NamespacedName \<Rightarrow> NamespacedName \<Rightarrow> bool" where
  "less_NamespacedName a b \<longleftrightarrow> (nn_Namespace a, nn_Name a) < (nn_Namespace b, nn_Name b)"

instance
proof
  fix x y z :: NamespacedName
  show "(x < y) = (x \<le> y \<and> \<not> y \<le> x)"
    by (auto simp: less_eq_NamespacedName_def less_NamespacedName_def)
  show "x \<le> x" by (simp add: less_eq_NamespacedName_def)
  show "x \<le> y \<Longrightarrow> y \<le> z \<Longrightarrow> x \<le> z"
    unfolding less_eq_NamespacedName_def by (rule order_trans)
  show "x \<le> y \<Longrightarrow> y \<le> x \<Longrightarrow> x = y"
    unfolding less_eq_NamespacedName_def by (cases x; cases y) (auto dest: order_antisym)
  show "x \<le> y \<or> y \<le> x" unfolding less_eq_NamespacedName_def by (rule linear)
qed

end

definition NamespacedName_String :: "NamespacedName \<Rightarrow> go_string" where
  "NamespacedName_String k = nn_Namespace k @ ''/'' @ nn_Name k"

record OwnerReference =
  or_Name :: go_string
  or_UID :: go_string
  or_Controller :: bool

record ObjectMeta =
  om_Name :: go_string
  om_Namespace :: go_string
  om_UID :: go_string
  om_Generation :: int
  om_CreationTimestamp :: int
  om_DeletionTimestamp :: "int option"
  om_Labels :: "(go_string, go_string) gomap"
  om_Annotations :: "(go_string, go_string) gomap"
  om_OwnerReferences :: "OwnerReference list"

definition objectKey :: "ObjectMeta \<Rightarrow> NamespacedName" where
  "objectKey m = NamespacedName (om_Namespace m) (om_Name m)"

text \<open>An \<^verbatim>\<open>intstr.IntOrString\<close>: type 0 is Int, type 1 is String.\<close>

record IntOrString =
  ios_Type :: int
  ios_IntVal :: int32
  ios_StrVal :: go_string

definition intstr_FromInt32 :: "int32 \<Rightarrow> IntOrString" where
  "intstr_FromInt32 v = \<lparr>ios_Type = 0, ios_IntVal = v, ios_StrVal = []\<rparr>"

definition intstr_FromString :: "go_string \<Rightarrow> IntOrString" where
  "intstr_FromString v = \<lparr>ios_Type = 1, ios_IntVal = 0, ios_StrVal = v\<rparr>"

section \<open>PostgresRoute\<close>

definition BackendTypeService :: go_string where "BackendTypeService = ''Service''"
definition BackendTypeAddress :: go_string where "BackendTypeAddress = ''Address''"

definition BackendTLSDisable :: go_string where "BackendTLSDisable = ''Disable''"
definition BackendTLSRequire :: go_string where "BackendTLSRequire = ''Require''"
definition BackendTLSVerifyCA :: go_string where "BackendTLSVerifyCA = ''VerifyCA''"
definition BackendTLSVerifyFull :: go_string where "BackendTLSVerifyFull = ''VerifyFull''"

record ServiceBackend =
  sb_Name :: go_string
  sb_Namespace :: go_string
  sb_Port :: IntOrString

record AddressBackend =
  ab_Host :: go_string
  ab_Port :: int32

record Backend =
  be_Type :: go_string
  be_Service :: "ServiceBackend option"
  be_Address :: "AddressBackend option"

record SecretKeyReference =
  skr_Name :: go_string
  skr_Key :: go_string

record BackendTLS =
  bt_Mode :: go_string
  bt_CASecretRef :: "SecretKeyReference option"
  bt_ServerName :: go_string

record PostgresRouteSpec =
  prs_Database :: go_string
  prs_TargetDatabase :: go_string
  prs_Backend :: Backend
  prs_TLS :: "BackendTLS option"
  prs_Priority :: int32

definition ConditionAccepted :: go_string where "ConditionAccepted = ''Accepted''"
definition ConditionResolved :: go_string where "ConditionResolved = ''Resolved''"
definition ConditionProgrammed :: go_string where "ConditionProgrammed = ''Programmed''"

definition ReasonAccepted :: go_string where "ReasonAccepted = ''Accepted''"
definition ReasonDatabaseConflict :: go_string where "ReasonDatabaseConflict = ''DatabaseNameConflict''"
definition ReasonResolved :: go_string where "ReasonResolved = ''Resolved''"
definition ReasonBackendNotFound :: go_string where "ReasonBackendNotFound = ''BackendNotFound''"
definition ReasonPortNotFound :: go_string where "ReasonPortNotFound = ''PortNotFound''"
definition ReasonInvalidBackend :: go_string where "ReasonInvalidBackend = ''InvalidBackend''"
definition ReasonCABundleFailed :: go_string where "ReasonCABundleFailed = ''CABundleUnavailable''"
definition ReasonProgrammed :: go_string where "ReasonProgrammed = ''Programmed''"
definition ReasonNotProgrammed :: go_string where "ReasonNotProgrammed = ''NotProgrammed''"

text \<open>A \<^verbatim>\<open>metav1.Condition\<close>.\<close>

record Condition =
  cn_Type :: go_string
  cn_Status :: go_string
  cn_ObservedGeneration :: int
  cn_LastTransitionTime :: int
  cn_Reason :: go_string
  cn_Message :: go_string

record PostgresRouteStatus =
  st_ObservedGeneration :: int
  st_Database :: go_string
  st_Endpoint :: go_string
  st_ConflictingRoute :: go_string
  st_Conditions :: "Condition list"

record PostgresRoute =
  pr_Meta :: ObjectMeta
  pr_Spec :: PostgresRouteSpec
  pr_Status :: PostgresRouteStatus

abbreviation route_key :: "PostgresRoute \<Rightarrow> NamespacedName" where
  "route_key r \<equiv> objectKey (pr_Meta r)"

definition EffectiveDatabase :: "PostgresRoute \<Rightarrow> go_string" where
  "EffectiveDatabase r =
     (if prs_Database (pr_Spec r) \<noteq> [] then prs_Database (pr_Spec r) else om_Name (pr_Meta r))"

definition EffectiveTargetDatabase :: "PostgresRoute \<Rightarrow> go_string" where
  "EffectiveTargetDatabase r =
     (if prs_TargetDatabase (pr_Spec r) \<noteq> [] then prs_TargetDatabase (pr_Spec r)
      else EffectiveDatabase r)"

end
