(* ===== verification/Registry.thy ===== *)
theory Registry
  imports Api_Types "HOL-Library.Multiset"
begin

text \<open>
  Package registry (\<^verbatim>\<open>src/src/internal/registry/registry.go\<close>): the resolved route,
  the immutable routing table, the snapshot store, and \<open>Build\<close>, which turns the set of
  PostgresRoute objects into a table and a decision per route. The cluster is reached through
  the Resolver interface, a record of functions here; a context is the time left before its
  deadline (\<open>None\<close>: no deadline), which is all \<open>resolveBounded\<close> changes in it.
\<close>

section \<open>Data\<close>

text \<open>A certificate pool is the list of its certificates; a nil pool is \<open>None\<close>.\<close>

type_synonym CertPool = "bytes list"
type_synonym go_ctx = "nat option"

record TLSConfig =
  tls_Mode :: go_string
  tls_RootCAs :: "CertPool option"
  tls_ServerName :: go_string

definition TLS_Enabled :: "TLSConfig \<Rightarrow> bool" where
  "TLS_Enabled t \<longleftrightarrow> tls_Mode t \<noteq> [] \<and> tls_Mode t \<noteq> BackendTLSDisable"

record Route =
  rt_Source :: NamespacedName
  rt_Database :: go_string
  rt_TargetDatabase :: go_string
  rt_Host :: go_string
  rt_Port :: int32
  rt_TLS :: TLSConfig

text \<open>\<^verbatim>\<open>net.JoinHostPort\<close>: a host holding a colon is bracketed.\<close>

definition net_JoinHostPort :: "go_string \<Rightarrow> go_string \<Rightarrow> go_string" where
  "net_JoinHostPort host port =
     (if CHR '':'' \<in> set host then ''['' @ host @ '']:'' @ port else host @ '':'' @ port)"

definition Address :: "Route \<Rightarrow> go_string" where
  "Address r = net_JoinHostPort (rt_Host r) (int_text (sint (rt_Port r)))"

record Table =
  tb_routes :: "(go_string, Route) gomap"

definition NewTable :: "(go_string, Route) gomap option \<Rightarrow> Table" where
  "NewTable routes = \<lparr>tb_routes = (case routes of None \<Rightarrow> [] | Some m \<Rightarrow> m)\<rparr>"

definition Lookup :: "Table \<Rightarrow> go_string \<Rightarrow> Route option" where
  "Lookup t database = gomap_get (tb_routes t) database"

definition Table_Len :: "Table \<Rightarrow> nat" where
  "Table_Len t = length (tb_routes t)"

definition Databases :: "Table \<Rightarrow> go_string list" where
  "Databases t = sort (map fst (tb_routes t))"

record Decision =
  dc_Database :: go_string
  dc_Accepted :: bool
  dc_ConflictsWith :: NamespacedName
  dc_Endpoint :: go_string
  dc_ResolveErr :: "go_error option"

definition noName :: NamespacedName where "noName = NamespacedName [] []"

definition Programmed :: "Decision \<Rightarrow> bool" where
  "Programmed d \<longleftrightarrow> dc_Accepted d \<and> dc_ResolveErr d = None"

text \<open>A snapshot's table pointer may be nil until the store has seen it.\<close>

record Snapshot =
  sn_Table :: "Table option"
  sn_Decisions :: "(NamespacedName, Decision) gomap"

definition Snapshot_Decision :: "Snapshot \<Rightarrow> NamespacedName \<Rightarrow> Decision option" where
  "Snapshot_Decision s key = gomap_get (sn_Decisions s) key"

record Store =
  st_current :: Snapshot

definition NewStore :: Store where
  "NewStore = \<lparr>st_current = \<lparr>sn_Table = Some (NewTable None), sn_Decisions = []\<rparr>\<rparr>"

definition Store_Load :: "Store \<Rightarrow> Snapshot" where
  "Store_Load s = st_current s"

definition Store_Routes :: "Store \<Rightarrow> Table option" where
  "Store_Routes s = sn_Table (st_current s)"

definition Store_Store :: "Snapshot option \<Rightarrow> Store \<Rightarrow> Store" where
  "Store_Store snapshot s =
     (let sn = (case snapshot of None \<Rightarrow> \<lparr>sn_Table = None, sn_Decisions = []\<rparr> | Some x \<Rightarrow> x);
          sn' = (if sn_Table sn = None then sn\<lparr>sn_Table := Some (NewTable None)\<rparr> else sn)
      in s\<lparr>st_current := sn'\<rparr>)"

section \<open>Resolving one route\<close>

record Resolver =
  rv_ResolveServicePort :: "go_ctx \<Rightarrow> go_string \<Rightarrow> go_string \<Rightarrow> IntOrString \<Rightarrow> go_error + int32"
  rv_LoadCABundle :: "go_ctx \<Rightarrow> go_string \<Rightarrow> go_string \<Rightarrow> go_string \<Rightarrow> go_error + CertPool"

definition ResolveTimeout :: nat where "ResolveTimeout = 10 * 10 ^ 9"

definition context_WithTimeout :: "go_ctx \<Rightarrow> nat \<Rightarrow> go_ctx" where
  "context_WithTimeout ctx d = (case ctx of None \<Rightarrow> Some d | Some left \<Rightarrow> Some (min left d))"

definition resolveTLS :: "go_ctx \<Rightarrow> PostgresRoute \<Rightarrow> Resolver \<Rightarrow> go_error + TLSConfig" where
  "resolveTLS ctx route resolver =
     (let disabled = Inr \<lparr>tls_Mode = BackendTLSDisable, tls_RootCAs = None, tls_ServerName = []\<rparr> in
      case prs_TLS (pr_Spec route) of
        None \<Rightarrow> disabled
      | Some spec \<Rightarrow>
         if bt_Mode spec = [] \<or> bt_Mode spec = BackendTLSDisable then disabled
         else
           (let out = \<lparr>tls_Mode = bt_Mode spec, tls_RootCAs = None, tls_ServerName = bt_ServerName spec\<rparr>;
                needsCA = (bt_Mode spec = BackendTLSVerifyCA \<or> bt_Mode spec = BackendTLSVerifyFull)
            in if \<not> needsCA then Inr out
               else (case bt_CASecretRef spec of
                  None \<Rightarrow> Inr out
                | Some ref \<Rightarrow>
                   (let key = (if skr_Key ref = [] then ''ca.crt'' else skr_Key ref) in
                    case rv_LoadCABundle resolver ctx (om_Namespace (pr_Meta route)) (skr_Name ref) key of
                      Inl err \<Rightarrow> Inl (wrap2 (Sentinel ErrCABundle) err)
                    | Inr pool \<Rightarrow> Inr (out\<lparr>tls_RootCAs := Some pool\<rparr>)))))"

text \<open>The backend switch of \<open>resolve\<close>: the host and port it assigns.\<close>

definition resolveBackend ::
    "go_ctx \<Rightarrow> PostgresRoute \<Rightarrow> Resolver \<Rightarrow> go_string \<Rightarrow> go_error + (go_string \<times> int32)" where
  "resolveBackend ctx route resolver clusterDomain =
     (let b = prs_Backend (pr_Spec route) in
      if be_Type b = BackendTypeService then
        (case be_Service b of
           None \<Rightarrow> Inl (wrap_pre (Sentinel ErrInvalidBackend)
                    ''backend.type is Service but backend.service is unset'')
         | Some backend \<Rightarrow>
            (let namespace = (if sb_Namespace backend = [] then om_Namespace (pr_Meta route)
                              else sb_Namespace backend) in
             case rv_ResolveServicePort resolver ctx namespace (sb_Name backend) (sb_Port backend) of
               Inl err \<Rightarrow> Inl err
             | Inr port \<Rightarrow>
                 Inr (sb_Name backend @ ''.'' @ namespace @ ''.svc.'' @ clusterDomain, port)))
      else if be_Type b = BackendTypeAddress then
        (case be_Address b of
           None \<Rightarrow> Inl (wrap_pre (Sentinel ErrInvalidBackend)
                    ''backend.type is Address but backend.address is unset'')
         | Some backend \<Rightarrow>
             Inr (ab_Host backend, if ab_Port backend = 0 then 5432 else ab_Port backend))
      else Inl (wrap_pre (Sentinel ErrInvalidBackend)
             (''unsupported backend type '' @ quote_text (be_Type b))))"

definition resolve :: "go_ctx \<Rightarrow> PostgresRoute \<Rightarrow> Resolver \<Rightarrow> go_string \<Rightarrow> go_error + Route" where
  "resolve ctx route resolver clusterDomain =
     (case resolveBackend ctx route resolver clusterDomain of
        Inl err \<Rightarrow> Inl err
      | Inr (host, port) \<Rightarrow>
         (case resolveTLS ctx route resolver of
            Inl err \<Rightarrow> Inl err
          | Inr tls \<Rightarrow>
              Inr \<lparr>rt_Source = route_key route,
                   rt_Database = EffectiveDatabase route,
                   rt_TargetDatabase = EffectiveTargetDatabase route,
                   rt_Host = host, rt_Port = port, rt_TLS = tls\<rparr>))"

definition resolveBounded ::
    "go_ctx \<Rightarrow> PostgresRoute \<Rightarrow> Resolver \<Rightarrow> go_string \<Rightarrow> go_error + Route" where
  "resolveBounded ctx route resolver clusterDomain =
     resolve (context_WithTimeout ctx ResolveTimeout) route resolver clusterDomain"

section \<open>Ordering and building\<close>

definition less_route :: "PostgresRoute \<Rightarrow> PostgresRoute \<Rightarrow> bool" where
  "less_route a b =
     (if sint (prs_Priority (pr_Spec a)) \<noteq> sint (prs_Priority (pr_Spec b))
      then sint (prs_Priority (pr_Spec a)) > sint (prs_Priority (pr_Spec b))
      else if om_CreationTimestamp (pr_Meta a) \<noteq> om_CreationTimestamp (pr_Meta b)
      then om_CreationTimestamp (pr_Meta a) < om_CreationTimestamp (pr_Meta b)
      else if om_Namespace (pr_Meta a) \<noteq> om_Namespace (pr_Meta b)
      then om_Namespace (pr_Meta a) < om_Namespace (pr_Meta b)
      else om_Name (pr_Meta a) < om_Name (pr_Meta b))"

text \<open>
  \<^verbatim>\<open>sort.SliceStable\<close> as a stable insertion sort over the strict comparison: an element
  moves past another only when that other is strictly less.
\<close>

fun slice_insert :: "('a \<Rightarrow> 'a \<Rightarrow> bool) \<Rightarrow> 'a \<Rightarrow> 'a list \<Rightarrow> 'a list" where
  "slice_insert lt x [] = [x]"
| "slice_insert lt x (y # ys) = (if lt y x then y # slice_insert lt x ys else x # y # ys)"

fun sort_SliceStable :: "('a \<Rightarrow> 'a \<Rightarrow> bool) \<Rightarrow> 'a list \<Rightarrow> 'a list" where
  "sort_SliceStable lt [] = []"
| "sort_SliceStable lt (x # xs) = slice_insert lt x (sort_SliceStable lt xs)"

record build_state =
  bs_table :: "(go_string, Route) gomap"
  bs_winners :: "(go_string, NamespacedName) gomap"
  bs_decisions :: "(NamespacedName, Decision) gomap"

definition build_step ::
    "(PostgresRoute \<Rightarrow> go_error + Route) \<Rightarrow> PostgresRoute \<Rightarrow> build_state \<Rightarrow> build_state" where
  "build_step res route s =
     (let key = route_key route; database = EffectiveDatabase route in
      case gomap_get (bs_winners s) database of
        Some winner \<Rightarrow>
          s\<lparr>bs_decisions := gomap_set (bs_decisions s) key
              \<lparr>dc_Database = database, dc_Accepted = False, dc_ConflictsWith = winner,
               dc_Endpoint = [], dc_ResolveErr = None\<rparr>\<rparr>
      | None \<Rightarrow>
          (let s1 = s\<lparr>bs_winners := gomap_set (bs_winners s) database key\<rparr> in
           case res route of
             Inl err \<Rightarrow>
               s1\<lparr>bs_decisions := gomap_set (bs_decisions s1) key
                   \<lparr>dc_Database = database, dc_Accepted = True, dc_ConflictsWith = noName,
                    dc_Endpoint = [], dc_ResolveErr = Some err\<rparr>\<rparr>
           | Inr resolved \<Rightarrow>
               s1\<lparr>bs_table := gomap_set (bs_table s1) database resolved,
                  bs_decisions := gomap_set (bs_decisions s1) key
                   \<lparr>dc_Database = database, dc_Accepted = True, dc_ConflictsWith = noName,
                    dc_Endpoint = Address resolved, dc_ResolveErr = None\<rparr>\<rparr>))"

definition Build :: "go_ctx \<Rightarrow> PostgresRoute list \<Rightarrow> Resolver \<Rightarrow> go_string \<Rightarrow> Snapshot" where
  "Build ctx routes resolver clusterDomain =
     (let ordered = sort_SliceStable less_route routes;
          s = fold (build_step (\<lambda>route. resolveBounded ctx route resolver clusterDomain)) ordered
                \<lparr>bs_table = [], bs_winners = [], bs_decisions = []\<rparr>
      in \<lparr>sn_Table = Some (NewTable (Some (bs_table s))), sn_Decisions = bs_decisions s\<rparr>)"

section \<open>Sorting by a strict order\<close>

lemma mset_slice_insert [simp]: "mset (slice_insert lt x xs) = add_mset x (mset xs)"
  by (induction xs) auto

lemma mset_sort_SliceStable [simp]: "mset (sort_SliceStable lt xs) = mset xs"
  by (induction xs) auto

lemma set_slice_insert [simp]: "set (slice_insert lt x xs) = insert x (set xs)"
  by (induction xs) auto

lemma set_sort_SliceStable [simp]: "set (sort_SliceStable lt xs) = set xs"
  by (metis mset_sort_SliceStable set_mset_mset)

lemma distinct_map_sort_SliceStable [simp]:
  "distinct (map f (sort_SliceStable lt xs)) = distinct (map f xs)"
  by (metis mset_map mset_sort_SliceStable mset_eq_imp_distinct_iff)

text \<open>On a comparison of keys it is the library's stable sort.\<close>

lemma sort_SliceStable_sort_key: "sort_SliceStable (\<lambda>a b. f a < f b) xs = sort_key f xs"
proof -
  have "slice_insert (\<lambda>a b. f a < f b) x ys = insort_key f x ys" for x ys
    by (induction ys) auto
  then show ?thesis by (induction xs) auto
qed

text \<open>
  The contract a comparison must meet for the order of its input to be irrelevant: it is a
  strict order, and it separates any two elements of different identity.
\<close>

locale stable_order =
  fixes lt :: "'a \<Rightarrow> 'a \<Rightarrow> bool" and ident :: "'a \<Rightarrow> 'k"
  assumes lt_irrefl: "\<not> lt x x"
    and lt_trans: "lt x y \<Longrightarrow> lt y z \<Longrightarrow> lt x z"
    and lt_total: "ident x \<noteq> ident y \<Longrightarrow> lt x y \<or> lt y x"
begin

lemma insert_sorted:
  "sorted_wrt lt ys \<Longrightarrow> ident x \<notin> ident ` set ys \<Longrightarrow> sorted_wrt lt (slice_insert lt x ys)"
  by (induction ys) (auto dest: lt_total lt_trans)

lemma sort_sorted: "distinct (map ident xs) \<Longrightarrow> sorted_wrt lt (sort_SliceStable lt xs)"
  by (induction xs) (auto intro: insert_sorted)

lemma sorted_unique:
  assumes "sorted_wrt lt xs" and "sorted_wrt lt ys" and "set xs = set ys"
  shows "xs = ys"
  using assms
proof (induction xs arbitrary: ys)
  case Nil
  then show ?case by simp
next
  case (Cons x xs)
  then obtain y ys' where ys: "ys = y # ys'" by (cases ys) auto
  have "x = y"
  proof (rule ccontr)
    assume "x \<noteq> y"
    with Cons.prems ys have "lt x y" "lt y x" by auto
    then show False using lt_trans lt_irrefl by blast
  qed
  moreover have "set xs = set ys'"
    using Cons.prems ys \<open>x = y\<close> lt_irrefl by (metis insert_ident list.simps(15) sorted_wrt.simps(2))
  ultimately show ?case
    using Cons ys by simp
qed

lemma sort_perm:
  assumes "distinct (map ident xs)" and "mset xs = mset ys"
  shows "sort_SliceStable lt xs = sort_SliceStable lt ys"
proof (rule sorted_unique)
  show "sorted_wrt lt (sort_SliceStable lt xs)" using assms(1) by (rule sort_sorted)
  have "distinct (map ident ys)" using assms by (metis mset_eq_imp_distinct_iff mset_map)
  then show "sorted_wrt lt (sort_SliceStable lt ys)" by (rule sort_sorted)
  show "set (sort_SliceStable lt xs) = set (sort_SliceStable lt ys)"
    using assms(2) by (metis set_mset_mset set_sort_SliceStable)
qed

lemma find_sorted:
  assumes "sorted_wrt lt xs"
  shows "find P xs = Some x \<longleftrightarrow> x \<in> set xs \<and> P x \<and> (\<forall>y\<in>set xs. P y \<longrightarrow> y = x \<or> lt x y)"
  using assms
proof (induction xs)
  case Nil
  then show ?case by simp
next
  case (Cons a xs)
  show ?case
  proof (cases "P a")
    case True
    have min: "lt a y" if "y \<in> set xs" for y
      using Cons.prems that by simp
    have "x = a" if "x \<in> set (a # xs)" "a = x \<or> lt x a"
      using that min lt_trans lt_irrefl by (metis set_ConsD)
    with True min show ?thesis by auto
  next
    case False
    with Cons show ?thesis by auto
  qed
qed

end

definition route_rank :: "PostgresRoute \<Rightarrow> int \<times> int \<times> NamespacedName" where
  "route_rank r =
     (- sint (prs_Priority (pr_Spec r)), om_CreationTimestamp (pr_Meta r), route_key r)"

lemma less_route_rank: "less_route a b \<longleftrightarrow> route_rank a < route_rank b"
  by (auto simp: less_route_def route_rank_def objectKey_def less_NamespacedName_def less_prod_def
      less_eq_prod_def less_eq_NamespacedName_def)

interpretation route_order: stable_order less_route route_key
proof unfold_locales
  fix x y z :: PostgresRoute
  show "\<not> less_route x x" by (simp add: less_route_rank)
  show "less_route x y \<Longrightarrow> less_route y z \<Longrightarrow> less_route x z"
    by (simp add: less_route_rank)
  show "route_key x \<noteq> route_key y \<Longrightarrow> less_route x y \<or> less_route y x"
    unfolding less_route_rank by (metis linorder_neqE route_rank_def prod.inject)
qed

section \<open>What the build loop computes\<close>

text \<open>
  The specification of one pass over an ordered list: the claimant of a database name is the
  first route that claims it, and a route's decision depends on whether it is that claimant.
\<close>

definition claimant :: "PostgresRoute list \<Rightarrow> go_string \<Rightarrow> PostgresRoute option" where
  "claimant os d = find (\<lambda>r. EffectiveDatabase r = d) os"

definition verdict :: "(PostgresRoute \<Rightarrow> go_error + Route) \<Rightarrow> PostgresRoute list \<Rightarrow> PostgresRoute \<Rightarrow> Decision" where
  "verdict res os r =
     (case claimant os (EffectiveDatabase r) of
        Some w \<Rightarrow>
          if route_key w = route_key r then
            \<lparr>dc_Database = EffectiveDatabase r, dc_Accepted = True, dc_ConflictsWith = noName,
             dc_Endpoint = (case res r of Inl _ \<Rightarrow> [] | Inr x \<Rightarrow> Address x),
             dc_ResolveErr = (case res r of Inl e \<Rightarrow> Some e | Inr _ \<Rightarrow> None)\<rparr>
          else
            \<lparr>dc_Database = EffectiveDatabase r, dc_Accepted = False, dc_ConflictsWith = route_key w,
             dc_Endpoint = [], dc_ResolveErr = None\<rparr>
      | None \<Rightarrow>
          \<lparr>dc_Database = EffectiveDatabase r, dc_Accepted = False, dc_ConflictsWith = noName,
           dc_Endpoint = [], dc_ResolveErr = None\<rparr>)"

abbreviation build_init :: build_state where
  "build_init \<equiv> \<lparr>bs_table = [], bs_winners = [], bs_decisions = []\<rparr>"

abbreviation build_run :: "(PostgresRoute \<Rightarrow> go_error + Route) \<Rightarrow> PostgresRoute list \<Rightarrow> build_state" where
  "build_run res os \<equiv> fold (build_step res) os build_init"

definition routed :: "(PostgresRoute \<Rightarrow> go_error + Route) \<Rightarrow> PostgresRoute \<Rightarrow> Route option" where
  "routed res r = (case res r of Inl _ \<Rightarrow> None | Inr x \<Rightarrow> Some x)"

lemma claimant_snoc:
  "claimant (os @ [r]) d =
     (case claimant os d of Some w \<Rightarrow> Some w | None \<Rightarrow> if EffectiveDatabase r = d then Some r else None)"
  by (induction os) (auto simp: claimant_def)

lemma claimant_SomeD: "claimant os d = Some w \<Longrightarrow> w \<in> set os \<and> EffectiveDatabase w = d"
  by (auto simp: claimant_def find_Some_iff)

lemma claimant_ex: "r \<in> set os \<Longrightarrow> \<exists>w. claimant os (EffectiveDatabase r) = Some w"
  by (auto simp: claimant_def find_None_iff simp flip: not_None_eq)

lemma build_step_winners:
  "gomap_get (bs_winners (build_step res r s)) d =
     (if gomap_get (bs_winners s) (EffectiveDatabase r) = None \<and> d = EffectiveDatabase r
      then Some (route_key r) else gomap_get (bs_winners s) d)"
  by (auto simp: build_step_def Let_def split: option.splits sum.splits)

lemma build_step_table:
  "gomap_get (bs_table (build_step res r s)) d =
     (if gomap_get (bs_winners s) (EffectiveDatabase r) = None \<and> d = EffectiveDatabase r \<and> routed res r \<noteq> None
      then routed res r else gomap_get (bs_table s) d)"
  by (auto simp: build_step_def Let_def routed_def split: option.splits sum.splits)

lemma build_step_table_ok: "gomap_ok (bs_table s) \<Longrightarrow> gomap_ok (bs_table (build_step res r s))"
  by (auto simp: build_step_def Let_def split: option.splits sum.splits)

lemma build_winners: "gomap_get (bs_winners (build_run res os)) d = map_option route_key (claimant os d)"
proof (induction os arbitrary: d rule: rev_induct)
  case Nil
  then show ?case by (simp add: claimant_def)
next
  case (snoc r os)
  show ?case
    using snoc.IH [of d] snoc.IH [of "EffectiveDatabase r"]
    by (auto simp: build_step_winners claimant_snoc split: option.splits)
qed

lemma build_table: "gomap_get (bs_table (build_run res os)) d = Option.bind (claimant os d) (routed res)"
proof (induction os rule: rev_induct)
  case Nil
  then show ?case by (simp add: claimant_def)
next
  case (snoc r os)
  then show ?case
    by (auto simp: build_step_table build_winners claimant_snoc split: option.splits)
qed

lemma build_table_ok: "gomap_ok (bs_table (build_run res os))"
  by (induction os rule: rev_induct) (auto simp: build_step_table_ok)

lemma build_step_decisions:
  assumes "gomap_get (bs_winners s) (EffectiveDatabase r) = map_option route_key (claimant os (EffectiveDatabase r))"
    and "route_key r \<notin> route_key ` set os"
  shows "gomap_get (bs_decisions (build_step res r s)) k =
    (if k = route_key r then Some (verdict res (os @ [r]) r) else gomap_get (bs_decisions s) k)"
proof (cases "claimant os (EffectiveDatabase r)")
  case None
  with assms(1) show ?thesis
    by (auto simp: build_step_def Let_def verdict_def claimant_snoc split: sum.splits)
next
  case (Some w)
  then have "route_key w \<noteq> route_key r"
    using assms(2) by (metis claimant_SomeD imageI)
  with Some assms(1) show ?thesis
    by (simp add: build_step_def Let_def verdict_def claimant_snoc)
qed

lemma verdict_snoc: "r \<in> set os \<Longrightarrow> verdict res (os @ [r']) r = verdict res os r"
  by (auto simp: verdict_def claimant_snoc dest: claimant_ex)

lemma build_decisions:
  "distinct (map route_key os) \<Longrightarrow>
     (\<forall>r\<in>set os. gomap_get (bs_decisions (build_run res os)) (route_key r) = Some (verdict res os r))
     \<and> (\<forall>k. k \<notin> route_key ` set os \<longrightarrow> gomap_get (bs_decisions (build_run res os)) k = None)"
proof (induction os rule: rev_induct)
  case Nil
  then show ?case by simp
next
  case (snoc r os)
  then have new: "route_key r \<notin> route_key ` set os" by auto
  note step = build_step_decisions [OF build_winners new, of res res]
  have "route_key x \<noteq> route_key r" if "x \<in> set os" for x
    using new that by (metis imageI)
  with snoc step show ?case
    by (auto simp: verdict_snoc)
qed

lemma Build_conv:
  "Build ctx routes resolver cd =
     (let s = build_run (\<lambda>r. resolveBounded ctx r resolver cd) (sort_SliceStable less_route routes)
      in \<lparr>sn_Table = Some \<lparr>tb_routes = bs_table s\<rparr>, sn_Decisions = bs_decisions s\<rparr>)"
  by (simp add: Build_def NewTable_def Let_def)

section \<open>Winners\<close>

text \<open>
  The abstract contract of conflict resolution: a route wins its database name when every
  other route claiming that name comes after it in the order of priority, age and name.
\<close>

definition wins :: "PostgresRoute list \<Rightarrow> PostgresRoute \<Rightarrow> bool" where
  "wins routes r \<longleftrightarrow> r \<in> set routes
     \<and> (\<forall>r'\<in>set routes. EffectiveDatabase r' = EffectiveDatabase r \<longrightarrow> r' = r \<or> less_route r r')"

lemma claimant_sorted:
  assumes "distinct (map route_key routes)"
  shows "claimant (sort_SliceStable less_route routes) d = Some r \<longleftrightarrow> wins routes r \<and> EffectiveDatabase r = d"
  using route_order.find_sorted [OF route_order.sort_sorted [OF assms], of "\<lambda>r. EffectiveDatabase r = d" r]
  by (auto simp: claimant_def wins_def)

lemma same_key_same_route:
  "distinct (map route_key routes) \<Longrightarrow> a \<in> set routes \<Longrightarrow> b \<in> set routes \<Longrightarrow> route_key a = route_key b \<Longrightarrow> a = b"
  by (metis distinct_map inj_onD)

lemma Build_decision:
  assumes "distinct (map route_key routes)" and "r \<in> set routes"
  shows "Snapshot_Decision (Build ctx routes resolver cd) (route_key r) =
    Some (verdict (\<lambda>r. resolveBounded ctx r resolver cd) (sort_SliceStable less_route routes) r)"
  using build_decisions [of "sort_SliceStable less_route routes" "\<lambda>r. resolveBounded ctx r resolver cd"] assms
  by (simp add: Build_conv Let_def Snapshot_Decision_def)

lemma Build_lookup:
  assumes "distinct (map route_key routes)" and "sn_Table (Build ctx routes resolver cd) = Some t"
  shows "Lookup t d = Some x \<longleftrightarrow>
    (\<exists>r. wins routes r \<and> EffectiveDatabase r = d \<and> resolveBounded ctx r resolver cd = Inr x)"
proof -
  have "Lookup t d = Option.bind (claimant (sort_SliceStable less_route routes) d)
      (routed (\<lambda>r. resolveBounded ctx r resolver cd))"
    using assms(2) by (auto simp: Build_conv Let_def Lookup_def build_table)
  moreover have "routed res r = Some x \<longleftrightarrow> res r = Inr x" for res r
    by (simp add: routed_def split: sum.split)
  ultimately show ?thesis
    by (simp add: bind_eq_Some_conv claimant_sorted [OF assms(1)])
qed

lemma winner_ex1:
  assumes "distinct (map route_key routes)" and "r \<in> set routes"
  shows "\<exists>!w. wins routes w \<and> EffectiveDatabase w = EffectiveDatabase r"
proof -
  have "r \<in> set (sort_SliceStable less_route routes)" using assms(2) by simp
  then obtain w where "claimant (sort_SliceStable less_route routes) (EffectiveDatabase r) = Some w"
    using claimant_ex by blast
  then show ?thesis
    using claimant_sorted [OF assms(1), of "EffectiveDatabase r"] by (metis option.inject)
qed

definition asksTLS :: "PostgresRoute \<Rightarrow> bool" where
  "asksTLS r \<longleftrightarrow> (case prs_TLS (pr_Spec r) of None \<Rightarrow> False
     | Some s \<Rightarrow> bt_Mode s \<noteq> [] \<and> bt_Mode s \<noteq> BackendTLSDisable)"

definition verifiesCA :: "BackendTLS \<Rightarrow> bool" where
  "verifiesCA s \<longleftrightarrow> bt_Mode s = BackendTLSVerifyCA \<or> bt_Mode s = BackendTLSVerifyFull"

lemmas tls_modes = BackendTLSDisable_def BackendTLSRequire_def BackendTLSVerifyCA_def
  BackendTLSVerifyFull_def

lemma resolveTLS_InlD: "resolveTLS ctx r resolver = Inl e \<Longrightarrow> errors_Is e ErrCABundle"
  by (auto simp: resolveTLS_def Let_def split: option.splits if_splits sum.splits)

lemma resolveTLS_InrD:
  assumes "resolveTLS ctx r resolver = Inr tls"
  shows "(TLS_Enabled tls \<longleftrightarrow> asksTLS r)
    \<and> (\<forall>s. prs_TLS (pr_Spec r) = Some s \<and> asksTLS r \<longrightarrow>
         tls_Mode tls = bt_Mode s \<and> tls_ServerName tls = bt_ServerName s)
    \<and> (\<forall>s ref. prs_TLS (pr_Spec r) = Some s \<and> bt_CASecretRef s = Some ref \<and> verifiesCA s \<longrightarrow>
         (\<exists>pool. rv_LoadCABundle resolver ctx (om_Namespace (pr_Meta r)) (skr_Name ref)
              (if skr_Key ref = [] then ''ca.crt'' else skr_Key ref) = Inr pool
            \<and> tls_RootCAs tls = Some pool))"
proof (cases "asksTLS r")
  case False
  with assms have "tls = \<lparr>tls_Mode = BackendTLSDisable, tls_RootCAs = None, tls_ServerName = []\<rparr>"
    by (auto simp: resolveTLS_def Let_def asksTLS_def split: option.splits if_splits)
  with False show ?thesis
    by (auto simp: TLS_Enabled_def asksTLS_def verifiesCA_def tls_modes)
next
  case True
  then obtain s where s: "prs_TLS (pr_Spec r) = Some s" "bt_Mode s \<noteq> []" "bt_Mode s \<noteq> BackendTLSDisable"
    by (auto simp: asksTLS_def split: option.splits)
  with assms have "tls_Mode tls = bt_Mode s" "tls_ServerName tls = bt_ServerName s"
    by (auto simp: resolveTLS_def Let_def split: option.splits if_splits sum.splits)
  moreover have "\<exists>pool. rv_LoadCABundle resolver ctx (om_Namespace (pr_Meta r)) (skr_Name ref)
        (if skr_Key ref = [] then ''ca.crt'' else skr_Key ref) = Inr pool \<and> tls_RootCAs tls = Some pool"
    if "bt_CASecretRef s = Some ref" "verifiesCA s" for ref
    using assms s that by (auto simp: resolveTLS_def Let_def verifiesCA_def split: if_splits sum.splits)
  ultimately show ?thesis
    using True s by (simp add: TLS_Enabled_def)
qed

lemma resolve_fields:
  assumes "resolve ctx r resolver cd = Inr x"
  shows "rt_Source x = route_key r" "rt_Database x = EffectiveDatabase r"
    "rt_TargetDatabase x = EffectiveTargetDatabase r"
  using assms by (auto simp: resolve_def split: sum.splits prod.splits)

text \<open>
  What the table relies on from the Resolver's port lookup: a port it returns is one the named
  Service exposes. Whatever \<open>exposes\<close> means for a provider then holds of every
  Service-backed entry of the table.
\<close>

definition backendNamespace :: "PostgresRoute \<Rightarrow> ServiceBackend \<Rightarrow> go_string" where
  "backendNamespace r b = (if sb_Namespace b = [] then om_Namespace (pr_Meta r) else sb_Namespace b)"

locale port_contract =
  fixes rsp :: "go_ctx \<Rightarrow> go_string \<Rightarrow> go_string \<Rightarrow> IntOrString \<Rightarrow> go_error + int32"
    and exposes :: "go_string \<Rightarrow> go_string \<Rightarrow> int32 \<Rightarrow> bool"
  assumes rsp_sound: "rsp ctx ns name port = Inr p \<Longrightarrow> exposes ns name p"
begin

lemma resolved_port_exposed:
  assumes "rv_ResolveServicePort resolver = rsp" and "resolve ctx r resolver cd = Inr x"
    and "be_Type (prs_Backend (pr_Spec r)) = BackendTypeService"
    and "be_Service (prs_Backend (pr_Spec r)) = Some b"
  shows "exposes (backendNamespace r b) (sb_Name b) (rt_Port x)"
  using assms
  by (auto simp: resolve_def resolveBackend_def Let_def backendNamespace_def
      split: sum.splits prod.splits intro: rsp_sound)

lemma table_ports_exposed:
  assumes "rv_ResolveServicePort resolver = rsp" and "distinct (map route_key routes)"
    and "sn_Table (Build ctx routes resolver cd) = Some t" and "Lookup t d = Some x"
  shows "\<exists>r\<in>set routes. rt_Source x = route_key r
    \<and> (\<forall>b. be_Type (prs_Backend (pr_Spec r)) = BackendTypeService
          \<and> be_Service (prs_Backend (pr_Spec r)) = Some b \<longrightarrow>
          exposes (backendNamespace r b) (sb_Name b) (rt_Port x))"
proof -
  obtain r where "wins routes r" and x: "resolveBounded ctx r resolver cd = Inr x"
    using Build_lookup [OF assms(2,3)] assms(4) by blast
  then show ?thesis
    using resolved_port_exposed [OF assms(1)] resolve_fields(1)
    unfolding resolveBounded_def wins_def by blast
qed

end

section \<open>Properties\<close>

text \<open>The routing order is a strict total order on routes with different names: it is
  irreflexive, transitive, and of two routes with different namespaced names one comes
  before the other. It agrees with the lexicographic order of negated priority, creation
  time, namespace and name.\<close>

lemma less_route_strict_total:
  "\<not> less_route a a
   \<and> (less_route a b \<and> less_route b c \<longrightarrow> less_route a c)
   \<and> (route_key a \<noteq> route_key b \<longrightarrow> (less_route a b \<longleftrightarrow> \<not> less_route b a))
   \<and> (less_route a b \<longleftrightarrow>
       (- sint (prs_Priority (pr_Spec a)), om_CreationTimestamp (pr_Meta a), om_Namespace (pr_Meta a), om_Name (pr_Meta a))
       < (- sint (prs_Priority (pr_Spec b)), om_CreationTimestamp (pr_Meta b), om_Namespace (pr_Meta b), om_Name (pr_Meta b)))"
proof (intro conjI impI)
  show "\<not> less_route a a" by (rule route_order.lt_irrefl)
  show "less_route a c" if "less_route a b \<and> less_route b c"
    using that by (blast intro: route_order.lt_trans)
  show "less_route a b \<longleftrightarrow> \<not> less_route b a" if "route_key a \<noteq> route_key b"
    using route_order.lt_total [OF that] route_order.lt_irrefl route_order.lt_trans by blast
qed (auto simp: less_route_def less_prod_def less_eq_prod_def)

text \<open>C5: The snapshot does not depend on the order in which the API server listed the routes:
  two listings of the same routes, with distinct namespaced names, build equal snapshots,
  table and decisions alike. This is why every replica reaches the same table alone.\<close>

theorem build_order_independent:
  assumes "distinct (map route_key routes)" and "mset routes = mset routes'"
  shows "Build ctx routes resolver clusterDomain = Build ctx routes' resolver clusterDomain"
  unfolding Build_def using route_order.sort_perm [OF assms] by simp

text \<open>C6: Every route gets a decision naming the database it claims; it is accepted exactly when
  it wins that name, exactly one route wins each claimed name, and a rejected route's
  decision names the winner.\<close>

theorem build_accepts_exactly_the_winner:
  assumes "distinct (map route_key routes)" and "r \<in> set routes"
  shows "(\<exists>!w. wins routes w \<and> EffectiveDatabase w = EffectiveDatabase r)
    \<and> (\<exists>d. Snapshot_Decision (Build ctx routes resolver clusterDomain) (route_key r) = Some d
         \<and> dc_Database d = EffectiveDatabase r
         \<and> (dc_Accepted d \<longleftrightarrow> wins routes r)
         \<and> (\<not> dc_Accepted d \<longrightarrow>
              (\<exists>w. wins routes w \<and> EffectiveDatabase w = EffectiveDatabase r \<and> dc_ConflictsWith d = route_key w)))"
proof -
  let ?os = "sort_SliceStable less_route routes"
  have "r \<in> set ?os" using assms(2) by simp
  then obtain w where w: "claimant ?os (EffectiveDatabase r) = Some w"
    using claimant_ex by blast
  then have win: "wins routes w" "EffectiveDatabase w = EffectiveDatabase r"
    using claimant_sorted [OF assms(1)] by auto
  have iff: "route_key w = route_key r \<longleftrightarrow> wins routes r"
  proof
    assume "route_key w = route_key r"
    with win(1) assms have "w = r" by (auto simp: wins_def intro: same_key_same_route)
    with win(1) show "wins routes r" by simp
  next
    assume "wins routes r"
    with win winner_ex1 [OF assms] show "route_key w = route_key r" by metis
  qed
  show ?thesis
    using winner_ex1 [OF assms] Build_decision [OF assms, of ctx resolver clusterDomain] w win iff
    by (auto simp: verdict_def)
qed

text \<open>C4: The table refines the abstract contract: a database is routed to a resolved backend
  exactly when the route that wins the name resolves to it. So a winner that cannot be
  resolved leaves its name unrouted; the traffic never falls through to a losing route.\<close>

theorem build_table_refines_winners:
  assumes "distinct (map route_key routes)"
  shows "\<exists>t. sn_Table (Build ctx routes resolver clusterDomain) = Some t
    \<and> (\<forall>d x. Lookup t d = Some x \<longleftrightarrow>
          (\<exists>r. wins routes r \<and> EffectiveDatabase r = d
             \<and> resolveBounded ctx r resolver clusterDomain = Inr x))
    \<and> Table_Len t = card {d. Lookup t d \<noteq> None}"
proof -
  obtain t where t: "sn_Table (Build ctx routes resolver clusterDomain) = Some t"
    by (simp add: Build_conv Let_def)
  then have "gomap_ok (tb_routes t)"
    by (auto simp: Build_conv Let_def build_table_ok)
  then have "Table_Len t = card {d. Lookup t d \<noteq> None}"
    by (simp add: Table_Len_def Lookup_def gomap_dom dom_def)
  with t Build_lookup [OF assms t] show ?thesis by blast
qed

text \<open>The status a route is given and the table agree: its decision says Programmed exactly
  when the table routes its database to an entry whose source is that route, and then the
  reported endpoint is that entry's address and the entry carries the route's database and
  target database.\<close>

lemma programmed_iff_serving:
  assumes "distinct (map route_key routes)" and "r \<in> set routes"
    and "sn_Table (Build ctx routes resolver clusterDomain) = Some t"
    and "Snapshot_Decision (Build ctx routes resolver clusterDomain) (route_key r) = Some d"
  shows "(Programmed d \<longleftrightarrow> (\<exists>x. Lookup t (EffectiveDatabase r) = Some x \<and> rt_Source x = route_key r))
    \<and> (\<forall>x. Programmed d \<and> Lookup t (EffectiveDatabase r) = Some x \<longrightarrow>
          dc_Endpoint d = Address x \<and> rt_Database x = EffectiveDatabase r
          \<and> rt_TargetDatabase x = EffectiveTargetDatabase r)"
proof -
  let ?os = "sort_SliceStable less_route routes"
  let ?res = "\<lambda>r. resolveBounded ctx r resolver clusterDomain"
  have "r \<in> set ?os" using assms(2) by simp
  then obtain w where w: "claimant ?os (EffectiveDatabase r) = Some w"
    using claimant_ex by blast
  then have "w \<in> set routes" by (auto dest: claimant_SomeD)
  then have weq: "w = r" if "route_key w = route_key r"
    using same_key_same_route assms(1,2) that by blast
  have d: "d = verdict ?res ?os r"
    using Build_decision [OF assms(1,2)] assms(4) by simp
  have t: "Lookup t (EffectiveDatabase r) = routed ?res w"
    using assms(3) w by (auto simp: Build_conv Let_def Lookup_def build_table)
  have src: "rt_Source x = route_key w \<and> rt_Database x = EffectiveDatabase w
      \<and> rt_TargetDatabase x = EffectiveTargetDatabase w" if "routed ?res w = Some x" for x
    using that by (auto simp: routed_def resolveBounded_def resolve_fields split: sum.splits)
  show ?thesis
  proof (cases "route_key w = route_key r")
    case True
    then show ?thesis
      using weq src by (auto simp: d t w verdict_def Programmed_def routed_def split: sum.splits)
  next
    case False
    then show ?thesis
      using src by (auto simp: d t w verdict_def Programmed_def)
  qed
qed

text \<open>Building never hands the resolver a context with more than ResolveTimeout left: two
  resolvers that answer alike within that bound build the same snapshot, whatever they would
  do with more time. One slow lookup therefore costs at most that bound.\<close>

lemma build_uses_bounded_contexts:
  assumes "\<And>left ns name port. left \<le> ResolveTimeout \<Longrightarrow>
      rv_ResolveServicePort r1 (Some left) ns name port = rv_ResolveServicePort r2 (Some left) ns name port"
    and "\<And>left ns name key. left \<le> ResolveTimeout \<Longrightarrow>
      rv_LoadCABundle r1 (Some left) ns name key = rv_LoadCABundle r2 (Some left) ns name key"
  shows "Build ctx routes r1 clusterDomain = Build ctx routes r2 clusterDomain"
proof -
  obtain left where ctx: "context_WithTimeout ctx ResolveTimeout = Some left" "left \<le> ResolveTimeout"
    by (cases ctx) (auto simp: context_WithTimeout_def)
  note r12 = assms(1) [OF ctx(2)] assms(2) [OF ctx(2)]
  have "resolveBackend (Some left) r r1 clusterDomain = resolveBackend (Some left) r r2 clusterDomain" for r
    unfolding resolveBackend_def Let_def by (simp add: r12 split: option.split)
  moreover have "resolveTLS (Some left) r r1 = resolveTLS (Some left) r r2" for r
    unfolding resolveTLS_def Let_def by (simp add: r12 split: option.split)
  ultimately have "resolveBounded ctx r r1 clusterDomain = resolveBounded ctx r r2 clusterDomain" for r
    by (simp add: resolveBounded_def ctx(1) resolve_def split: sum.split prod.split)
  then show ?thesis by (simp add: Build_def)
qed

text \<open>C23: Backend TLS policy survives resolution: a resolved route has TLS enabled exactly when
  its spec asks for a mode other than Disable, it keeps that mode and server name, and a
  verifying route that names a CA secret carries the pool loaded for it; it is never
  dialled without its trust anchors.\<close>

theorem resolve_keeps_tls_policy:
  assumes "resolve ctx r resolver clusterDomain = Inr x"
  shows "(TLS_Enabled (rt_TLS x) \<longleftrightarrow> asksTLS r)
    \<and> (\<forall>s. prs_TLS (pr_Spec r) = Some s \<and> asksTLS r \<longrightarrow>
         tls_Mode (rt_TLS x) = bt_Mode s \<and> tls_ServerName (rt_TLS x) = bt_ServerName s)
    \<and> (\<forall>s ref. prs_TLS (pr_Spec r) = Some s \<and> bt_CASecretRef s = Some ref \<and> verifiesCA s \<longrightarrow>
         (\<exists>pool. rv_LoadCABundle resolver ctx (om_Namespace (pr_Meta r)) (skr_Name ref)
              (if skr_Key ref = [] then ''ca.crt'' else skr_Key ref) = Inr pool
            \<and> tls_RootCAs (rt_TLS x) = Some pool))"
proof -
  have "resolveTLS ctx r resolver = Inr (rt_TLS x)"
    using assms by (auto simp: resolve_def split: sum.splits prod.splits)
  then show ?thesis by (rule resolveTLS_InrD)
qed

text \<open>
  What the two halves of the program rely on of the store between them: a reader finds what was
  published last, completed if it was not whole.
\<close>

locale snapshot_store =
  fixes load :: "'s \<Rightarrow> 'n" and publish :: "'n option \<Rightarrow> 's \<Rightarrow> 's" and complete :: "'n option \<Rightarrow> 'n" and whole :: "'n \<Rightarrow> bool"
  assumes load_publish: "load (publish x s) = complete x"
    and complete_whole: "whole (complete x)"
    and complete_id: "whole n \<Longrightarrow> complete (Some n) = n"
begin

lemma load_whole: "whole n \<Longrightarrow> load (publish (Some n) s) = n"
  by (simp add: load_publish complete_id)

lemma always_whole: "whole (load s) \<Longrightarrow> whole (load (fold publish xs s))"
  by (induction xs arbitrary: s) (simp_all add: load_publish complete_whole)

end

definition completed :: "Snapshot option \<Rightarrow> Snapshot" where
  "completed snapshot =
     (case snapshot of
        None \<Rightarrow> st_current NewStore
      | Some sn \<Rightarrow> if sn_Table sn = None then sn\<lparr>sn_Table := Some (NewTable None)\<rparr> else sn)"

interpretation published: snapshot_store Store_Load Store_Store completed "\<lambda>sn. sn_Table sn \<noteq> None"
  by unfold_locales (auto simp: completed_def Store_Store_def Store_Load_def NewStore_def split: option.split)

lemma Store_Load_Build: "Store_Load (Store_Store (Some (Build ctx rs res cd)) st) = Build ctx rs res cd"
  by (rule published.load_whole) (simp add: Build_def Let_def)

text \<open>The published table is never missing: starting from a new store, after any sequence of
  publications, nil snapshots and snapshots with a nil table included, readers find a table.\<close>

lemma store_never_nil: "Store_Routes (fold Store_Store publications NewStore) \<noteq> None"
  using published.always_whole [of NewStore publications] by (simp add: Store_Routes_def Store_Load_def NewStore_def)

section \<open>Witnesses\<close>

definition sample_route :: "go_string \<Rightarrow> int32 \<Rightarrow> BackendTLS option \<Rightarrow> PostgresRoute" where
  "sample_route name prio tls =
     \<lparr>pr_Meta = \<lparr>om_Name = name, om_Namespace = ''apps'', om_UID = name, om_Generation = 3, om_CreationTimestamp = 7,
        om_DeletionTimestamp = None, om_Labels = [], om_Annotations = [], om_OwnerReferences = []\<rparr>,
      pr_Spec = \<lparr>prs_Database = ''orders'', prs_TargetDatabase = [],
        prs_Backend = \<lparr>be_Type = BackendTypeAddress, be_Service = None,
          be_Address = Some \<lparr>ab_Host = ''10.0.0.7'', ab_Port = 5432\<rparr>\<rparr>, prs_TLS = tls, prs_Priority = prio\<rparr>,
      pr_Status = \<lparr>st_ObservedGeneration = 0, st_Database = [], st_Endpoint = [], st_ConflictingRoute = [],
        st_Conditions = []\<rparr>\<rparr>"

definition sample_resolver :: Resolver where
  "sample_resolver = \<lparr>rv_ResolveServicePort = \<lambda>_ _ _ _. Inr 5432, rv_LoadCABundle = \<lambda>_ _ _ _. Inr [''ca'']\<rparr>"

abbreviation high_route :: PostgresRoute where "high_route \<equiv> sample_route ''a'' 10 None"
abbreviation low_route :: PostgresRoute where "low_route \<equiv> sample_route ''b'' 1 None"

lemma sample_routes_distinct:
  "distinct (map route_key [low_route, high_route])" "EffectiveDatabase (sample_route n p t) = ''orders''"
  by (simp_all add: sample_route_def objectKey_def EffectiveDatabase_def)

lemma sample_wins: "wins [low_route, high_route] high_route" "\<not> wins [low_route, high_route] low_route"
  by (simp_all add: wins_def sample_routes_distinct) (simp_all add: sample_route_def less_route_def)

theorem build_order_independent_witness:
  "Build None [low_route, high_route] sample_resolver ''cluster.local''
    = Build None [high_route, low_route] sample_resolver ''cluster.local''"
  by (rule build_order_independent [OF sample_routes_distinct(1)]) simp

theorem build_accepts_exactly_the_winner_witness:
  "\<exists>d. Snapshot_Decision (Build None [low_route, high_route] sample_resolver ''cluster.local'') (route_key low_route) = Some d
     \<and> \<not> dc_Accepted d
     \<and> (\<exists>w. wins [low_route, high_route] w \<and> EffectiveDatabase w = ''orders'' \<and> dc_ConflictsWith d = route_key w)"
  using build_accepts_exactly_the_winner [OF sample_routes_distinct(1), of low_route None sample_resolver "''cluster.local''"]
    sample_wins(2) by (auto simp: sample_routes_distinct)

theorem build_table_refines_winners_witness:
  "\<exists>t x. sn_Table (Build None [low_route, high_route] sample_resolver ''cluster.local'') = Some t
     \<and> Lookup t ''orders'' = Some x \<and> rt_Source x = route_key high_route \<and> Lookup t ''billing'' = None"
proof -
  obtain x where x: "resolveBounded None high_route sample_resolver ''cluster.local'' = Inr x" "rt_Source x = route_key high_route"
    by (simp add: resolveBounded_def resolve_def resolveBackend_def resolveTLS_def sample_route_def
        BackendTypeService_def BackendTypeAddress_def)
  obtain t where t: "sn_Table (Build None [low_route, high_route] sample_resolver ''cluster.local'') = Some t"
    and iff: "\<And>d x. Lookup t d = Some x \<longleftrightarrow> (\<exists>r. wins [low_route, high_route] r \<and> EffectiveDatabase r = d
      \<and> resolveBounded None r sample_resolver ''cluster.local'' = Inr x)"
    using build_table_refines_winners [OF sample_routes_distinct(1), of None sample_resolver "''cluster.local''"] by blast
  have "Lookup t ''orders'' = Some x"
    unfolding iff using x(1) sample_wins(1) sample_routes_distinct(2) by blast
  moreover have "EffectiveDatabase r \<noteq> ''billing''" if "wins [low_route, high_route] r" for r
    using that by (auto simp: wins_def sample_routes_distinct)
  then have "Lookup t ''billing'' = None"
    using iff [of "''billing''"] by (cases "Lookup t ''billing''") auto
  ultimately show ?thesis using t x(2) by blast
qed

definition verifying_tls :: BackendTLS where
  "verifying_tls = \<lparr>bt_Mode = BackendTLSVerifyFull, bt_CASecretRef = Some \<lparr>skr_Name = ''pg-ca'', skr_Key = []\<rparr>,
     bt_ServerName = ''db.internal''\<rparr>"

theorem resolve_keeps_tls_policy_witness:
  "\<exists>x. resolve None (sample_route ''a'' 10 (Some verifying_tls)) sample_resolver ''cluster.local'' = Inr x
     \<and> TLS_Enabled (rt_TLS x) \<and> tls_Mode (rt_TLS x) = BackendTLSVerifyFull \<and> tls_RootCAs (rt_TLS x) = Some [''ca'']"
proof -
  let ?r = "sample_route ''a'' 10 (Some verifying_tls)"
  have "\<exists>x. resolve None ?r sample_resolver ''cluster.local'' = Inr x"
    by (simp add: resolve_def resolveBackend_def resolveTLS_def sample_route_def verifying_tls_def sample_resolver_def
        BackendTypeService_def BackendTypeAddress_def tls_modes)
  then obtain x where x: "resolve None ?r sample_resolver ''cluster.local'' = Inr x" by blast
  moreover have "asksTLS ?r" "prs_TLS (pr_Spec ?r) = Some verifying_tls" "verifiesCA verifying_tls"
    by (simp_all add: asksTLS_def sample_route_def verifying_tls_def verifiesCA_def tls_modes)
  ultimately show ?thesis
    using resolve_keeps_tls_policy [OF x] by (simp add: verifying_tls_def sample_resolver_def)
qed

end
