(* ===== verification/Cancel_Registry.thy ===== *)
theory Cancel_Registry
  imports Pgwire_Message Registry
begin

text \<open>
  The cancellation registry of package proxy
  (\<^verbatim>\<open>src/src/internal/proxy/cancel.go\<close>). It maps the keys the gateway hands to clients
  onto the backend's own keys. Every operation holds the registry's mutex, so concurrent
  sessions appear as sequences of whole operations. The system's random source is a parameter:
  \<open>rng n\<close> is what the n-th \<^verbatim>\<open>rand.Read\<close> of eight bytes reports, and the model threads
  the number of reads made so far. \<open>issue\<close> loops until it draws a free key, so it is a
  partial function whose result is \<open>None\<close> when it never returns; a panic is \<open>Inl\<close>.
\<close>

unbundle bit_operations_syntax

section \<open>Definitions\<close>

record cancelEntry =
  ce_backendAddr :: go_string
  ce_backendKey :: CancelRequest
  ce_tls :: TLSConfig

record cancelRegistry =
  cg_entries :: "(CancelRequest, cancelEntry) gomap"

type_synonym rand_source = "nat \<Rightarrow> go_error + bytes"

definition newCancelRegistry :: cancelRegistry where
  "newCancelRegistry = \<lparr>cg_entries = []\<rparr>"

definition randomCancelKey :: "go_error + bytes \<Rightarrow> go_string + CancelRequest" where
  "randomCancelKey draw =
     (case draw of
        Inl err \<Rightarrow> Inl (''pgproxy: crypto/rand is unavailable: '' @ error_text err)
      | Inr buf \<Rightarrow>
          Inr \<lparr>ProcessID = be_uint32 (take 4 buf) AND 0x7FFFFFFF,
               SecretKey = be_uint32 (drop 4 buf)\<rparr>)"

partial_function (option) issue ::
    "rand_source \<Rightarrow> nat \<Rightarrow> cancelRegistry \<Rightarrow> cancelEntry
     \<Rightarrow> ((go_string + (CancelRequest \<times> cancelRegistry)) \<times> nat) option" where
  "issue rng pos r entry =
     (case randomCancelKey (rng pos) of
        Inl panic \<Rightarrow> Some (Inl panic, Suc pos)
      | Inr key \<Rightarrow>
          if gomap_get (cg_entries r) key \<noteq> None then issue rng (Suc pos) r entry
          else Some (Inr (key, r\<lparr>cg_entries := gomap_set (cg_entries r) key entry\<rparr>), Suc pos))"

definition cancel_lookup :: "cancelRegistry \<Rightarrow> CancelRequest \<Rightarrow> cancelEntry option" where
  "cancel_lookup r key = gomap_get (cg_entries r) key"

definition cancel_release :: "CancelRequest \<Rightarrow> cancelRegistry \<Rightarrow> cancelRegistry" where
  "cancel_release key r = r\<lparr>cg_entries := gomap_del (cg_entries r) key\<rparr>"

definition cancel_len :: "cancelRegistry \<Rightarrow> nat" where
  "cancel_len r = length (cg_entries r)"

definition registry_ok :: "cancelRegistry \<Rightarrow> bool" where
  "registry_ok r = gomap_ok (cg_entries r)"

section \<open>What issue returns, and that it returns\<close>

lemma issue_InrD:
  assumes "issue rng pos r e = Some (Inr (key, r'), pos')"
  shows "gomap_get (cg_entries r) key = None
    \<and> r' = r\<lparr>cg_entries := gomap_set (cg_entries r) key e\<rparr>
    \<and> pos < pos' \<and> randomCancelKey (rng (pos' - 1)) = Inr key"
proof -
  let ?P = "\<lambda>rng pos (r :: cancelRegistry) e (res :: (go_string + _) \<times> nat). \<forall>key r'. fst res = Inr (key, r') \<longrightarrow>
      gomap_get (cg_entries r) key = None
      \<and> r' = r\<lparr>cg_entries := gomap_set (cg_entries r) key e\<rparr>
      \<and> pos < snd res \<and> randomCancelKey (rng (snd res - 1)) = Inr key"
  have "?P rng pos r e (Inr (key, r'), pos')"
  proof (rule issue.raw_induct [where P = ?P, OF _ assms])
    fix f rng pos r e res
    assume IH: "\<And>rng pos r e res. f rng pos r e = Some res \<Longrightarrow> ?P rng pos r e res"
      and eq: "(case randomCancelKey (rng pos) of
          Inl panic \<Rightarrow> Some (Inl panic, Suc pos)
        | Inr key \<Rightarrow>
            if gomap_get (cg_entries r) key \<noteq> None then f rng (Suc pos) r e
            else Some (Inr (key, r\<lparr>cg_entries := gomap_set (cg_entries r) key e\<rparr>), Suc pos)) = Some res"
    show "?P rng pos r e res"
      using eq IH [of rng "Suc pos" r e res]
      by (auto split: sum.splits if_splits)
  qed
  then show ?thesis by simp
qed

lemma issue_reaches:
  assumes "\<And>i. i < k \<Longrightarrow> \<exists>key. randomCancelKey (rng (pos + i)) = Inr key \<and> gomap_get (cg_entries r) key \<noteq> None"
    and "randomCancelKey (rng (pos + k)) = Inr key" and "gomap_get (cg_entries r) key = None"
  shows "issue rng pos r e =
    Some (Inr (key, r\<lparr>cg_entries := gomap_set (cg_entries r) key e\<rparr>), Suc (pos + k))"
  using assms
proof (induction k arbitrary: pos)
  case 0
  then show ?case by (subst issue.simps) simp
next
  case (Suc k)
  from Suc.prems(1) [of 0] obtain k0 where "randomCancelKey (rng pos) = Inr k0"
    "gomap_get (cg_entries r) k0 \<noteq> None" by auto
  moreover have "issue rng (Suc pos) r e =
      Some (Inr (key, r\<lparr>cg_entries := gomap_set (cg_entries r) key e\<rparr>), Suc (Suc pos + k))"
  proof (rule Suc.IH)
    show "\<exists>key. randomCancelKey (rng (Suc pos + i)) = Inr key \<and> gomap_get (cg_entries r) key \<noteq> None"
      if "i < k" for i
      using Suc.prems(1) [of "Suc i"] that by simp
    show "randomCancelKey (rng (Suc pos + k)) = Inr key" using Suc.prems(2) by simp
  qed (rule Suc.prems(3))
  ultimately show ?case by (subst issue.simps) simp
qed

lemma fresh_key_among_distinct:
  assumes "inj_on keys {..cancel_len r}"
  shows "\<exists>i\<le>cancel_len r. gomap_get (cg_entries r) (keys i) = None"
proof (rule ccontr)
  assume "\<not> ?thesis"
  then have "keys ` {..cancel_len r} \<subseteq> fst ` set (cg_entries r)"
    by (fastforce simp: weak_map_of_SomeI map_of_eq_None_iff)
  then have "card (keys ` {..cancel_len r}) \<le> card (fst ` set (cg_entries r))"
    by (intro card_mono) auto
  also have "\<dots> \<le> length (cg_entries r)"
    by (metis card_length length_map set_map)
  finally show False
    using card_image [OF assms] by (simp add: cancel_len_def)
qed

section \<open>The interface sessions rely on\<close>

text \<open>
  A registry of keys: issuing binds a key that was unbound, releasing unbinds it, and nothing
  else changes. \<open>issued r e k r'\<close> says that issuing for entry \<open>e\<close> in \<open>r\<close> may return
  \<open>k\<close> and leave \<open>r'\<close>.
\<close>

locale key_registry =
  fixes look :: "'r \<Rightarrow> 'k \<Rightarrow> 'e option" and rel :: "'k \<Rightarrow> 'r \<Rightarrow> 'r"
    and issued :: "'r \<Rightarrow> 'e \<Rightarrow> 'k \<Rightarrow> 'r \<Rightarrow> bool"
  assumes issued_fresh: "issued r e k r' \<Longrightarrow> look r k = None"
    and issued_look: "issued r e k r' \<Longrightarrow> look r' k' = (if k' = k then Some e else look r k')"
    and rel_look: "look (rel k r) k' = (if k' = k then None else look r k')"
begin

lemma issue_release_id: "issued r e k r' \<Longrightarrow> look (rel k r') = look r"
  by (auto simp: rel_look issued_look issued_fresh fun_eq_iff)

lemma live_issue:
  assumes "issued r e k r'" and "look r = map_of live" and "distinct (map fst live)"
  shows "look r' = map_of ((k, e) # live) \<and> distinct (map fst ((k, e) # live))"
proof
  show "look r' = map_of ((k, e) # live)"
    using assms by (auto simp: issued_look fun_eq_iff)
  have "map_of live k = None" using issued_fresh [OF assms(1)] assms(2) by simp
  then show "distinct (map fst ((k, e) # live))"
    using assms(3) by (auto simp: map_of_eq_None_iff)
qed

lemma live_release:
  assumes "look r = map_of live" and "distinct (map fst live)"
  shows "look (rel k r) = map_of (AList.delete k live) \<and> distinct (map fst (AList.delete k live))"
  using assms by (auto simp: rel_look delete_conv' fun_eq_iff intro: distinct_delete)

end

definition cancel_issued :: "cancelRegistry \<Rightarrow> cancelEntry \<Rightarrow> CancelRequest \<Rightarrow> cancelRegistry \<Rightarrow> bool" where
  "cancel_issued r e k r' \<longleftrightarrow> (\<exists>rng pos pos'. issue rng pos r e = Some (Inr (k, r'), pos'))"

interpretation cancels: key_registry cancel_lookup cancel_release cancel_issued
  by unfold_locales (auto simp: cancel_issued_def cancel_lookup_def cancel_release_def dest!: issue_InrD)

text \<open>
  Sessions coming and going: each issues one key and later releases it, in any interleaving.
  \<open>live\<close> lists the keys of the running sessions with their entries.
\<close>

inductive cancel_reach :: "cancelRegistry \<Rightarrow> (CancelRequest \<times> cancelEntry) list \<Rightarrow> bool" where
  cancel_new: "cancel_reach newCancelRegistry []"
| cancel_open: "cancel_reach r live \<Longrightarrow> issue rng pos r e = Some (Inr (k, r'), pos') \<Longrightarrow>
     cancel_reach r' ((k, e) # live)"
| cancel_shut: "cancel_reach r live \<Longrightarrow> cancel_reach (cancel_release k r) (AList.delete k live)"

lemma cancel_reach_live:
  "cancel_reach r live \<Longrightarrow> cancel_lookup r = map_of live \<and> distinct (map fst live) \<and> registry_ok r"
proof (induction rule: cancel_reach.induct)
  case cancel_new
  then show ?case by (simp add: newCancelRegistry_def cancel_lookup_def registry_ok_def fun_eq_iff)
next
  case (cancel_open r live rng pos e k r' pos')
  then have "cancel_issued r e k r'" by (auto simp: cancel_issued_def)
  with cancel_open cancels.live_issue [of r e k r' live] issue_InrD [OF cancel_open.hyps(2)]
  show ?case by (auto simp: registry_ok_def)
next
  case (cancel_shut r live k)
  with cancels.live_release [of r live k] show ?case
    by (auto simp: registry_ok_def cancel_release_def)
qed

section \<open>Properties\<close>

text \<open>A key issued for a session was not in use, maps to that session's backend afterwards,
  leaves every other key's mapping alone, has the sign bit of its process id cleared, and
  adds exactly one entry; releasing it restores every mapping.\<close>

lemma issue_binds_a_fresh_key:
  assumes "issue rng pos r e = Some (Inr (key, r'), pos')"
  shows "cancel_lookup r key = None \<and> cancel_lookup r' key = Some e
    \<and> (\<forall>k. k \<noteq> key \<longrightarrow> cancel_lookup r' k = cancel_lookup r k)
    \<and> 0 \<le> sint (ProcessID key)
    \<and> cancel_len r' = cancel_len r + 1
    \<and> cancel_lookup (cancel_release key r') = cancel_lookup r"
proof -
  have iss: "cancel_issued r e key r'" using assms by (auto simp: cancel_issued_def)
  note D = issue_InrD [OF assms]
  then obtain buf where "rng (pos' - 1) = Inr buf" "ProcessID key = be_uint32 (take 4 buf) AND 0x7FFFFFFF"
    by (auto simp: randomCancelKey_def split: sum.splits)
  then have "\<not> bit (ProcessID key) 31"
    by (simp add: bit_and_iff)
  then have "0 \<le> sint (ProcessID key)"
    using bit_last_iff [of "ProcessID key"] by simp
  then show ?thesis
    using D cancels.issue_release_id [OF iss] cancels.issued_look [OF iss] cancels.issued_fresh [OF iss]
    by (simp add: cancel_len_def length_gomap_set)
qed

text \<open>Issuing returns whenever the random source is working: if no read fails and the next
  n + 1 draws give pairwise different keys, where n keys are in use, it returns a key within
  those n + 1 draws.\<close>

lemma issue_returns:
  assumes "\<And>i. i \<le> cancel_len r \<Longrightarrow> randomCancelKey (rng (pos + i)) = Inr (keys i)"
    and "inj_on keys {..cancel_len r}"
  shows "\<exists>key r' pos'. issue rng pos r e = Some (Inr (key, r'), pos') \<and> pos' \<le> pos + cancel_len r + 1"
proof -
  define k where "k = (LEAST i. gomap_get (cg_entries r) (keys i) = None)"
  obtain i where i: "i \<le> cancel_len r" "gomap_get (cg_entries r) (keys i) = None"
    using fresh_key_among_distinct [OF assms(2)] by blast
  have "gomap_get (cg_entries r) (keys k) = None" unfolding k_def using i(2) by (rule LeastI)
  moreover have "k \<le> i" unfolding k_def using i(2) by (rule Least_le)
  ultimately have k: "gomap_get (cg_entries r) (keys k) = None" "k \<le> cancel_len r"
    using i(1) by auto
  have "gomap_get (cg_entries r) (keys j) \<noteq> None" if "j < k" for j
    using that not_less_Least unfolding k_def by blast
  then have "issue rng pos r e =
      Some (Inr (keys k, r\<lparr>cg_entries := gomap_set (cg_entries r) (keys k) e\<rparr>), Suc (pos + k))"
    using assms(1) k by (intro issue_reaches) (auto intro: less_imp_le order.trans)
  then show ?thesis using k(2) by auto
qed

text \<open>Through any interleaving of sessions opening and closing, the keys of the running sessions
  are pairwise different, a key looks up to an entry exactly when a running session holds that
  key for that entry, and the registry holds one entry per running session. So a cancel request
  reaches the session that was given the key, or no session.\<close>

lemma cancel_keys_isolate_sessions:
  assumes "cancel_reach r live"
  shows "distinct (map fst live)
    \<and> (cancel_lookup r key = Some e \<longleftrightarrow> (key, e) \<in> set live)
    \<and> cancel_len r = length live"
proof -
  note D = cancel_reach_live [OF assms]
  then have "length (cg_entries r) = card (dom (map_of live))"
    using gomap_dom [of "cg_entries r"] by (simp add: registry_ok_def cancel_lookup_def [abs_def])
  also have "\<dots> = length live"
    using D by (metis gomap_dom gomap_ok_def)
  finally show ?thesis
    using D by (simp add: cancel_len_def map_of_eq_Some_iff)
qed

section \<open>Witnesses\<close>

definition sample_rng :: rand_source where
  "sample_rng n = Inr [CHR 0x80, CHR 0x00, CHR 0x00, CHR 0x01, CHR 0x00, CHR 0x00, CHR 0x00, char_of n]"

definition sample_entry :: cancelEntry where
  "sample_entry = \<lparr>ce_backendAddr = ''10.0.0.7:5432'', ce_backendKey = \<lparr>ProcessID = 41, SecretKey = 99\<rparr>,
     ce_tls = \<lparr>tls_Mode = BackendTLSDisable, tls_RootCAs = None, tls_ServerName = []\<rparr>\<rparr>"

definition sample_key :: CancelRequest where
  "sample_key = \<lparr>ProcessID = 1, SecretKey = 0\<rparr>"

lemma sample_draw: "randomCancelKey (sample_rng 0) = Inr sample_key"
  by (simp add: randomCancelKey_def sample_rng_def sample_key_def)

lemma sample_issue:
  "issue sample_rng 0 newCancelRegistry e = Some (Inr (sample_key, \<lparr>cg_entries = [(sample_key, e)]\<rparr>), 1)"
  using issue_reaches [of 0 sample_rng 0 newCancelRegistry sample_key e] sample_draw
  by (simp add: newCancelRegistry_def gomap_set_def)

end
