(* ===== verification/Proxy_Base.thy ===== *)
theory Proxy_Base
  imports Cancel_Registry
begin

text \<open>
  What the files of package proxy share: the metric operations
  (\<^verbatim>\<open>src/src/internal/proxy/metrics.go\<close>), the classification of peer hang-ups, fatal
  error reporting, and the environment of a gateway, which holds what the network, the TLS
  stack and the random source do. Metrics are recorded as the sequence of operations the code
  performs on the Prometheus vectors.
\<close>

section \<open>Metrics\<close>

definition outcomeProxied :: go_string where "outcomeProxied = ''proxied''"
definition outcomeNoRoute :: go_string where "outcomeNoRoute = ''no_route''"
definition outcomeBackendFailed :: go_string where "outcomeBackendFailed = ''backend_unreachable''"
definition outcomeRejected :: go_string where "outcomeRejected = ''rejected''"
definition outcomeHandshake :: go_string where "outcomeHandshake = ''handshake_failed''"

definition directionToBackend :: go_string where "directionToBackend = ''to_backend''"
definition directionToClient :: go_string where "directionToClient = ''to_client''"

datatype metric =
    ConnectionsInc go_string go_string
  | ActiveInc go_string
  | ActiveDec go_string
  | BytesAdd go_string go_string nat
  | BackendDialObserve go_string
  | SessionObserve go_string
  | RoutesSet nat
  | CancelRequestsInc go_string

definition databaseLabel :: "go_string \<Rightarrow> bool \<Rightarrow> go_string" where
  "databaseLabel database isRouted = (if \<not> isRouted then ''<unrouted>'' else database)"

abbreviation unroutedLabel :: go_string where "unroutedLabel \<equiv> ''<unrouted>''"

section \<open>Errors and replies\<close>

definition isBenignClose :: "go_error \<Rightarrow> bool" where
  "isBenignClose err \<longleftrightarrow>
     errors_Is err IoEOF \<or> errors_Is err IoErrUnexpectedEOF
     \<or> errors_Is err NetErrClosed \<or> errors_Is err ContextCanceled"

definition writeFatal :: "go_string \<Rightarrow> go_string \<Rightarrow> go_string \<Rightarrow> conn \<Rightarrow> conn" where
  "writeFatal sqlState message detail c =
     (let c1 = snd (conn_SetWriteDeadline True c)
      in snd (snd (conn_Write (EncodeErrorResponse sqlState message detail) c1)))"

definition negotiationAccepted :: char where "negotiationAccepted = CHR ''S''"
definition negotiationRejected :: char where "negotiationRejected = CHR ''N''"

lemma isBenignClose_wrapf [simp]: "isBenignClose (wrapf p e) = isBenignClose e"
  by (simp add: isBenignClose_def)

lemma isBenignClose_leaf [simp]:
  "\<not> isBenignClose (ErrorString m)"
  "isBenignClose (Sentinel s) \<longleftrightarrow> s \<in> {IoEOF, IoErrUnexpectedEOF, NetErrClosed, ContextCanceled}"
  by (auto simp: isBenignClose_def)

lemma writeFatal_open:
  "conn_open c \<Longrightarrow> c_out (writeFatal st m d c) = c_out c @ EncodeErrorResponse st m d"
  by (simp add: writeFatal_def conn_SetWriteDeadline_def conn_Write_def conn_open_def split: option.split)

section \<open>The gateway's environment\<close>

text \<open>
  A TLS client configuration, and what the outside does: dialling an address, the server-side
  handshake (the decrypted stream or an error), the client-side handshake for a configuration
  (the decrypted stream and the peer's certificates, leaf first), chain verification of a leaf
  against roots and intermediates, and the random source.
\<close>

definition VersionTLS12 :: "16 word" where "VersionTLS12 = 0x0303"

record tlsClientConfig =
  tcc_ServerName :: go_string
  tcc_RootCAs :: "CertPool option"
  tcc_MinVersion :: "16 word"
  tcc_InsecureSkipVerify :: bool

record gateway_env =
  ge_dial :: "go_string \<Rightarrow> go_error + conn"
  ge_tlsServer :: "stream_in \<Rightarrow> go_error + stream_in"
  ge_tlsClient :: "tlsClientConfig \<Rightarrow> stream_in \<Rightarrow> go_error + (stream_in \<times> bytes list)"
  ge_verify :: "bytes \<Rightarrow> CertPool option \<Rightarrow> bytes list \<Rightarrow> go_error option"
  ge_rng :: rand_source

end
