(* ===== verification/Backend_Link.thy ===== *)
theory Backend_Link
  imports Proxy_Base
begin

text \<open>
  The gateway's connections to backends: dialling with optional TLS
  (\<open>dialBackend\<close>, \<open>upgradeBackendTLS\<close> and \<open>verifyChainOnly\<close> of
  \<^verbatim>\<open>src/src/internal/proxy/session.go\<close>) and the forwarding of cancel requests
  (\<open>forwardCancel\<close> and \<open>hostOf\<close> of \<^verbatim>\<open>src/src/internal/proxy/relay.go\<close>). A
  function that changes a connection returns it; where the code closes it, it is closed.
\<close>

section \<open>Definitions\<close>

definition verifyChainOnly ::
    "gateway_env \<Rightarrow> bytes list \<Rightarrow> CertPool option \<Rightarrow> go_error option" where
  "verifyChainOnly env peerCertificates roots =
     (case peerCertificates of
        [] \<Rightarrow> Some (ErrorString ''backend presented no certificate'')
      | leaf # intermediates \<Rightarrow>
         (case ge_verify env leaf roots intermediates of
            Some err \<Rightarrow> Some (wrapf ''verifying the backend certificate chain'' err)
          | None \<Rightarrow> None))"

definition backendTLSConfig :: "Route \<Rightarrow> tlsClientConfig" where
  "backendTLSConfig route =
     \<lparr>tcc_ServerName = (if tls_ServerName (rt_TLS route) = [] then rt_Host route
                        else tls_ServerName (rt_TLS route)),
      tcc_RootCAs = tls_RootCAs (rt_TLS route),
      tcc_MinVersion = VersionTLS12,
      tcc_InsecureSkipVerify =
        (tls_Mode (rt_TLS route) = BackendTLSRequire \<or> tls_Mode (rt_TLS route) = BackendTLSVerifyCA)\<rparr>"

definition SSLRequest_bytes :: bytes where
  "SSLRequest_bytes = append_uint32 (append_uint32 [] 8) SSLRequestCode"

definition upgradeBackendTLS :: "gateway_env \<Rightarrow> conn \<Rightarrow> Route \<Rightarrow> (go_error option) \<times> conn" where
  "upgradeBackendTLS env conn route =
     (case conn_Write SSLRequest_bytes conn of
        (_, Some err, conn) \<Rightarrow> (Some (wrapf ''sending SSLRequest to backend'' err), conn)
      | (_, None, conn) \<Rightarrow>
         (case io_ReadFull 1 (c_in conn) of
            (Inl err, s) \<Rightarrow>
              (Some (wrapf (''reading the backend'' @ [CHR 0x27] @ ''s TLS negotiation reply'') err),
               conn\<lparr>c_in := s\<rparr>)
          | (Inr reply, s) \<Rightarrow>
             if hd reply \<noteq> negotiationAccepted then
               (Some (ErrorString (''backend declined TLS but the route requires tls.mode=''
                  @ tls_Mode (rt_TLS route))), conn\<lparr>c_in := s\<rparr>)
             else (case ge_tlsClient env (backendTLSConfig route) s of
                Inl err \<Rightarrow> (Some (wrapf ''backend TLS handshake'' err), conn\<lparr>c_in := s\<rparr>)
              | Inr (s', peerCertificates) \<Rightarrow>
                 (let tlsConn = conn_secure s' conn in
                  if tls_Mode (rt_TLS route) = BackendTLSVerifyCA then
                    (verifyChainOnly env peerCertificates (tls_RootCAs (rt_TLS route)), tlsConn)
                  else (None, tlsConn)))))"

text \<open>
  The second component is the metric operations performed. An error comes with the connection
  as it was left, if one had been opened.
\<close>

definition dialBackend :: "gateway_env \<Rightarrow> Route \<Rightarrow> ((go_error \<times> conn option) + conn) \<times> metric list" where
  "dialBackend env route =
     (case ge_dial env (Address route) of
        Inl err \<Rightarrow> (Inl (err, None), [])
      | Inr conn \<Rightarrow>
         (let m = [BackendDialObserve (rt_Database route)] in
          case conn_SetDeadline True conn of
            (Some err, conn) \<Rightarrow> 
              (Inl (wrapf ''setting backend handshake deadline'' err, Some (conn_Close conn)), m)
          | (None, conn) \<Rightarrow>
             if \<not> TLS_Enabled (rt_TLS route) then (Inr conn, m)
             else (case upgradeBackendTLS env conn route of
                (Some err, conn) \<Rightarrow> (Inl (err, Some (conn_Close conn)), m)
              | (None, secured) \<Rightarrow> (Inr secured, m))))"

text \<open>\<^verbatim>\<open>net.SplitHostPort\<close>; \<open>None\<close> is any of its errors.\<close>

definition LastIndexByte :: "bytes \<Rightarrow> char \<Rightarrow> nat option" where
  "LastIndexByte s c = map_option (\<lambda>i. length s - 1 - i) (IndexByte (rev s) c)"

definition net_SplitHostPort :: "go_string \<Rightarrow> (go_string \<times> go_string) option" where
  "net_SplitHostPort hostport =
     (case LastIndexByte hostport (CHR '':'') of
        None \<Rightarrow> None
      | Some i \<Rightarrow>
         (let finish = (\<lambda>host j k.
                if CHR ''['' \<in> set (drop j hostport) \<or> CHR '']'' \<in> set (drop k hostport) then None
                else Some (host, drop (i + 1) hostport)) in
          if hostport ! 0 = CHR ''['' then
            (case IndexByte hostport (CHR '']'') of
               None \<Rightarrow> None
             | Some e \<Rightarrow>
                 if e + 1 = length hostport then None
                 else if e + 1 = i then finish (take (e - 1) (drop 1 hostport)) 1 (e + 1)
                 else None)
          else
            (let host = take i hostport in
             if CHR '':'' \<in> set host then None else finish host 0 0)))"

definition hostOf :: "go_string \<Rightarrow> go_string" where
  "hostOf address = (case net_SplitHostPort address of None \<Rightarrow> address | Some (host, _) \<Rightarrow> host)"

definition cancelRoute :: "cancelEntry \<Rightarrow> Route" where
  "cancelRoute entry =
     \<lparr>rt_Source = noName, rt_Database = [], rt_TargetDatabase = [],
      rt_Host = hostOf (ce_backendAddr entry), rt_Port = 0, rt_TLS = ce_tls entry\<rparr>"

text \<open>
  The result is the connection that was opened to the backend, if any, as it was left, and
  the metric operations.
\<close>

definition forwardCancel ::
    "gateway_env \<Rightarrow> cancelRegistry \<Rightarrow> CancelRequest \<Rightarrow> conn option \<times> metric list" where
  "forwardCancel env cancels request =
     (case cancel_lookup cancels request of
        None \<Rightarrow> (None, [CancelRequestsInc ''unknown_key''])
      | Some entry \<Rightarrow>
         (case ge_dial env (ce_backendAddr entry) of
            Inl err \<Rightarrow> (None, [CancelRequestsInc ''backend_unreachable''])
          | Inr conn \<Rightarrow>
             (let conn = snd (conn_SetDeadline True conn);
                  target = (if TLS_Enabled (ce_tls entry)
                            then upgradeBackendTLS env conn (cancelRoute entry) else (None, conn))
              in case target of
                   (Some err, conn) \<Rightarrow> (Some (conn_Close conn), [CancelRequestsInc ''tls_failed''])
                 | (None, target) \<Rightarrow>
                    (case conn_Write (EncodeCancelRequest (ce_backendKey entry)) target of
                       (_, Some err, target) \<Rightarrow>
                         (Some (conn_Close target), [CancelRequestsInc ''write_failed''])
                     | (_, None, target) \<Rightarrow>
                         (Some (conn_Close target), [CancelRequestsInc ''forwarded''])))))"

section \<open>Splitting an address that was joined\<close>

lemma IndexByte_None_iff: "IndexByte s c = None \<longleftrightarrow> c \<notin> set s"
  by (induction s) auto

lemma IndexByte_append: "c \<notin> set xs \<Longrightarrow> IndexByte (xs @ c # ys) c = Some (length xs)"
  by (induction xs) auto

lemma LastIndexByte_append: "c \<notin> set ys \<Longrightarrow> LastIndexByte (xs @ c # ys) c = Some (length xs)"
  using IndexByte_append [of c "rev ys" "rev xs"] by (simp add: LastIndexByte_def)

lemma int_text_chars:
  assumes "c \<in> set (int_text i)"
  shows "c = CHR ''-'' \<or> (48 \<le> (of_char c :: nat) \<and> (of_char c :: nat) \<le> 57)"
  using assms nat_text_digits by (auto simp: int_text_def split: if_splits)

lemma SplitHostPort_Join:
  assumes "CHR ''['' \<notin> set host" and "CHR '']'' \<notin> set host"
    and "CHR '':'' \<notin> set port" and "CHR ''['' \<notin> set port" and "CHR '']'' \<notin> set port"
  shows "net_SplitHostPort (net_JoinHostPort host port) = Some (host, port)"
proof (cases "CHR '':'' \<in> set host")
  case True
  let ?s = "''['' @ host @ '']:'' @ port"
  have "LastIndexByte ((''['' @ host @ '']'') @ CHR '':'' # port) (CHR '':'') = Some (length host + 2)"
    using assms(3) by (subst LastIndexByte_append) auto
  then have i: "LastIndexByte ?s (CHR '':'') = Some (length host + 2)" by simp
  have "IndexByte ((CHR ''['' # host) @ CHR '']'' # '':'' @ port) (CHR '']'') = Some (length host + 1)"
    using assms(2) by (subst IndexByte_append) auto
  then have e: "IndexByte ?s (CHR '']'') = Some (length host + 1)" by simp
  show ?thesis
    using True assms i e by (simp add: net_JoinHostPort_def net_SplitHostPort_def)
next
  case False
  have i: "LastIndexByte (host @ CHR '':'' # port) (CHR '':'') = Some (length host)"
    using assms(3) by (rule LastIndexByte_append)
  have "(host @ CHR '':'' # port) ! 0 \<noteq> CHR ''[''"
    using assms(1) by (cases host) auto
  then show ?thesis
    using False assms i by (simp add: net_JoinHostPort_def net_SplitHostPort_def)
qed

lemma hostOf_Address:
  assumes "CHR ''['' \<notin> set (rt_Host r)" and "CHR '']'' \<notin> set (rt_Host r)"
  shows "hostOf (Address r) = rt_Host r"
proof -
  let ?p = "int_text (sint (rt_Port r))"
  have "CHR '':'' \<notin> set ?p" "CHR ''['' \<notin> set ?p" "CHR '']'' \<notin> set ?p"
    using int_text_chars by fastforce+
  then show ?thesis
    using SplitHostPort_Join [OF assms] by (simp add: hostOf_def Address_def)
qed

lemma upgradeBackendTLS_okD:
  assumes "upgradeBackendTLS env c route = (None, c')"
  shows "\<exists>s s' certs. ge_tlsClient env (backendTLSConfig route) s = Inr (s', certs)
    \<and> c_in c' = s' \<and> c_encrypted c' \<and> c_out c' = c_out c @ SSLRequest_bytes
    \<and> si_data (c_in c) = negotiationAccepted # si_data s
    \<and> (tls_Mode (rt_TLS route) = BackendTLSVerifyCA \<longrightarrow>
         verifyChainOnly env certs (tls_RootCAs (rt_TLS route)) = None)"
proof -
  from assms obtain n c1 reply s where w: "conn_Write SSLRequest_bytes c = (n, None, c1)"
    and r: "io_ReadFull 1 (c_in c1) = (Inr reply, s)" and a: "hd reply = negotiationAccepted"
    and up: "upgradeBackendTLS env c route =
      (case ge_tlsClient env (backendTLSConfig route) s of
         Inl err \<Rightarrow> (Some (wrapf ''backend TLS handshake'' err), c1\<lparr>c_in := s\<rparr>)
       | Inr (s', certs) \<Rightarrow>
          (let tlsConn = conn_secure s' c1 in
           if tls_Mode (rt_TLS route) = BackendTLSVerifyCA then
             (verifyChainOnly env certs (tls_RootCAs (rt_TLS route)), tlsConn)
           else (None, tlsConn)))"
    by (auto simp: upgradeBackendTLS_def split: prod.splits option.splits sum.splits if_splits)
  have i: "si_data (c_in c) = negotiationAccepted # si_data s"
    using io_ReadFull_split [OF r] a conn_Write_in [OF w] by (cases reply) auto
  have o: "c_out c1 = c_out c @ SSLRequest_bytes" using conn_Write_ok_out [OF w] by simp
  show ?thesis
    by (rule exI [of _ s])
      (use assms up i o in \<open>auto simp: conn_secure_def Let_def split: sum.splits if_splits\<close>)
qed

section \<open>Properties\<close>

text \<open>C22: A route's TLS policy is enforced when its backend is dialled. If dialling succeeds for a
  route with TLS enabled, the connection is a TLS connection, the backend had answered the
  SSLRequest with an acceptance, and nothing but the SSLRequest was sent before encryption. The
  handshake was for TLS 1.2 or later, with the route's roots and the configured server name or
  else the host that was dialled, and was told to skip the check of the certificate in the
  modes Require and VerifyCA and in no other, so in VerifyFull mode the handshake itself
  checked the certificate. In VerifyCA mode the presented chain verified against the route's
  roots after the handshake.\<close>

theorem dial_enforces_tls_policy:
  assumes "dialBackend env route = (Inr c, ms)" and "TLS_Enabled (rt_TLS route)"
  shows "\<exists>c0 s certs cfg. ge_dial env (Address route) = Inr c0
    \<and> ge_tlsClient env cfg s = Inr (c_in c, certs) \<and> c_encrypted c
    \<and> c_out c = c_out c0 @ SSLRequest_bytes
    \<and> si_data (c_in c0) = negotiationAccepted # si_data s
    \<and> tcc_RootCAs cfg = tls_RootCAs (rt_TLS route)
    \<and> tcc_ServerName cfg = (if tls_ServerName (rt_TLS route) = [] then rt_Host route else tls_ServerName (rt_TLS route))
    \<and> tcc_MinVersion cfg = VersionTLS12
    \<and> (tcc_InsecureSkipVerify cfg \<longleftrightarrow> tls_Mode (rt_TLS route) \<in> {BackendTLSRequire, BackendTLSVerifyCA})
    \<and> (tls_Mode (rt_TLS route) = BackendTLSVerifyFull \<longrightarrow> \<not> tcc_InsecureSkipVerify cfg)
    \<and> (tls_Mode (rt_TLS route) = BackendTLSVerifyCA \<longrightarrow>
         (\<exists>leaf rest. certs = leaf # rest \<and> ge_verify env leaf (tls_RootCAs (rt_TLS route)) rest = None))"
proof -
  from assms obtain c0 c1 where d: "ge_dial env (Address route) = Inr c0"
    and dl: "conn_SetDeadline True c0 = (None, c1)" and up: "upgradeBackendTLS env c1 route = (None, c)"
    by (auto simp: dialBackend_def Let_def split: sum.splits prod.splits option.splits)
  have c1: "c_in c1 = c_in c0" "c_out c1 = c_out c0"
    using dl by (auto simp: conn_SetDeadline_def split: option.splits)
  have v: "\<exists>leaf rest. certs = leaf # rest \<and> ge_verify env leaf roots rest = None"
    if "verifyChainOnly env certs roots = None" for certs roots
    using that by (auto simp: verifyChainOnly_def split: list.splits option.splits)
  from upgradeBackendTLS_okD [OF up] obtain s certs where
    "ge_tlsClient env (backendTLSConfig route) s = Inr (c_in c, certs)" "c_encrypted c"
    "c_out c = c_out c1 @ SSLRequest_bytes" "si_data (c_in c1) = negotiationAccepted # si_data s"
    "tls_Mode (rt_TLS route) = BackendTLSVerifyCA \<longrightarrow>
       verifyChainOnly env certs (tls_RootCAs (rt_TLS route)) = None"
    by blast
  with d c1 v show ?thesis
    by (intro exI [of _ c0] exI [of _ s] exI [of _ certs] exI [of _ "backendTLSConfig route"])
      (auto simp: backendTLSConfig_def tls_modes)
qed

text \<open>A cancel connection is secured the way the session was: for the entry recorded when the
  session's key was issued, the TLS configuration is the session's own, server name included,
  for every host without square brackets, IPv6 literals included.\<close>

lemma cancel_link_uses_session_tls:
  assumes "CHR ''['' \<notin> set (rt_Host route)" and "CHR '']'' \<notin> set (rt_Host route)"
  shows "backendTLSConfig (cancelRoute \<lparr>ce_backendAddr = Address route, ce_backendKey = k, ce_tls = rt_TLS route\<rparr>)
    = backendTLSConfig route"
  using hostOf_Address [OF assms] by (simp add: cancelRoute_def backendTLSConfig_def)

text \<open>C24: A cancel request with an unknown key opens no connection. One with a known key is
  delivered to the address recorded for that key and to no other, as a packet from which the
  backend decodes its own key, and the connection is then closed (for a backend dialled
  without TLS that accepts the write).\<close>

theorem forward_cancel_delivers_backend_key:
  "(cancel_lookup cancels request = None \<longrightarrow>
      forwardCancel env cancels request = (None, [CancelRequestsInc ''unknown_key'']))
   \<and> (\<forall>entry c. cancel_lookup cancels request = Some entry
        \<and> ge_dial env (ce_backendAddr entry) = Inr c \<and> conn_open c \<and> \<not> TLS_Enabled (ce_tls entry) \<longrightarrow>
      (\<exists>c'. forwardCancel env cancels request = (Some c', [CancelRequestsInc ''forwarded''])
         \<and> c_closed c'
         \<and> (\<exists>sent. c_out c' = c_out c @ sent
              \<and> fst (ReadStartupPacket \<lparr>si_data = sent, si_end = Sentinel IoEOF\<rparr>)
                = Inr \<lparr>sp_Code = CancelRequestCode, sp_Parameters = [], sp_Cancel = ce_backendKey entry\<rparr>)))"
proof -
  have dec: "fst (ReadStartupPacket \<lparr>si_data = EncodeCancelRequest k, si_end = Sentinel IoEOF\<rparr>)
      = Inr \<lparr>sp_Code = CancelRequestCode, sp_Parameters = [], sp_Cancel = k\<rparr>" for k
    using ReadStartupPacket_Cancel [of k "[]"] by simp
  have op: "conn_open (snd (conn_SetDeadline True c)) \<and> c_out (snd (conn_SetDeadline True c)) = c_out c"
    if "conn_open c" for c
    using that by (simp add: conn_SetDeadline_def conn_open_def split: option.split)
  show ?thesis
    by (auto simp: forwardCancel_def Let_def conn_Write_open op conn_Close_def dec)
qed

section \<open>Witnesses\<close>

definition sample_conn :: "bytes \<Rightarrow> conn" where
  "sample_conn input = \<lparr>c_in = \<lparr>si_data = input, si_end = Sentinel IoEOF\<rparr>, c_out = [], c_room = None,
     c_werr = Sentinel NetErrClosed, c_dlerr = None, c_deadline = (False, False), c_encrypted = False, c_wclosed = False,
     c_closed = False\<rparr>"

lemma sample_conn_open: "conn_open (sample_conn input)" "c_dlerr (sample_conn input) = None"
  by (simp_all add: conn_open_def sample_conn_def)

text \<open>An environment whose backends send \<open>input\<close> and whose handshakes hand the stream through.\<close>

definition sample_env :: "bytes \<Rightarrow> gateway_env" where
  "sample_env input = \<lparr>ge_dial = \<lambda>_. Inr (sample_conn input), ge_tlsServer = \<lambda>s. Inr s,
     ge_tlsClient = \<lambda>_ s. Inr (s, [''leaf'', ''issuer'']), ge_verify = \<lambda>_ _ _. None, ge_rng = sample_rng\<rparr>"

definition tls_route :: Route where
  "tls_route = \<lparr>rt_Source = noName, rt_Database = ''orders'', rt_TargetDatabase = ''orders'', rt_Host = ''fe80::1'',
     rt_Port = 5432, rt_TLS = \<lparr>tls_Mode = BackendTLSVerifyCA, tls_RootCAs = Some [''ca''], tls_ServerName = []\<rparr>\<rparr>"

theorem dial_enforces_tls_policy_witness:
  "\<exists>c. dialBackend (sample_env ''S'') tls_route = (Inr c, [BackendDialObserve ''orders'']) \<and> c_encrypted c
     \<and> c_out c = SSLRequest_bytes"
proof -
  have "\<exists>c. dialBackend (sample_env ''S'') tls_route = (Inr c, [BackendDialObserve ''orders''])"
    by (simp add: dialBackend_def upgradeBackendTLS_def sample_env_def sample_conn_def tls_route_def TLS_Enabled_def
        tls_modes conn_SetDeadline_def conn_Write_def io_ReadFull_def negotiationAccepted_def verifyChainOnly_def)
  then obtain c where c: "dialBackend (sample_env ''S'') tls_route = (Inr c, [BackendDialObserve ''orders''])" by blast
  have "TLS_Enabled (rt_TLS tls_route)" by (simp add: TLS_Enabled_def tls_route_def tls_modes)
  with dial_enforces_tls_policy [OF c] c show ?thesis by (auto simp: sample_env_def sample_conn_def)
qed

theorem forward_cancel_delivers_backend_key_witness:
  "\<exists>c' sent. forwardCancel (sample_env []) \<lparr>cg_entries = [(sample_key, sample_entry)]\<rparr> sample_key
        = (Some c', [CancelRequestsInc ''forwarded'']) \<and> c_closed c' \<and> c_out c' = sent
     \<and> fst (ReadStartupPacket \<lparr>si_data = sent, si_end = Sentinel IoEOF\<rparr>)
        = Inr \<lparr>sp_Code = CancelRequestCode, sp_Parameters = [], sp_Cancel = \<lparr>ProcessID = 41, SecretKey = 99\<rparr>\<rparr>"
proof -
  let ?reg = "\<lparr>cg_entries = [(sample_key, sample_entry)]\<rparr>"
  have "cancel_lookup ?reg sample_key = Some sample_entry"
    "ge_dial (sample_env []) (ce_backendAddr sample_entry) = Inr (sample_conn [])" "conn_open (sample_conn [])"
    "\<not> TLS_Enabled (ce_tls sample_entry)" "c_out (sample_conn []) = []"
    "ce_backendKey sample_entry = \<lparr>ProcessID = 41, SecretKey = 99\<rparr>"
    by (simp_all add: cancel_lookup_def sample_env_def conn_open_def sample_entry_def TLS_Enabled_def sample_conn_def)
  then show ?thesis
    using forward_cancel_delivers_backend_key [of ?reg sample_key "sample_env []"] by fastforce
qed

end
