(* ===== verification/Relay.thy ===== *)
theory Relay
  imports Backend_Link
begin

text \<open>
  Splicing a session (\<^verbatim>\<open>src/src/internal/proxy/relay.go\<close>). Client bytes are copied to
  the backend verbatim. Backend bytes are framed until ReadyForQuery, with the
  BackendKeyData message replaced by one carrying a key of the gateway's own; the rest is
  copied raw. The two directions run concurrently and touch different halves of the two
  connections; they meet only when the downstream direction ends and closes the client, which
  cuts the upstream copy short at some point: that point is the parameter \<open>cutAt\<close>.

  The framing loop consumes at least five bytes per message, so it terminates; its result is
  \<open>None\<close> only if issuing a key never returns, \<open>Inl\<close> if the random source panics.
\<close>

section \<open>Definitions\<close>

record relay_state =
  rs_reader :: MessageReader
  rs_client :: conn
  rs_cancels :: cancelRegistry
  rs_pos :: nat
  rs_issued :: "CancelRequest option"
  rs_framed :: nat
  rs_metrics :: "metric list"

definition countFramed :: "go_string \<Rightarrow> relay_state \<Rightarrow> relay_state" where
  "countFramed label s =
     s\<lparr>rs_metrics := rs_metrics s @ [BytesAdd label directionToClient (rs_framed s)]\<rparr>"

text \<open>The bytes to forward for one backend message, and the key bookkeeping.\<close>

definition substituteKey ::
    "rand_source \<Rightarrow> Route \<Rightarrow> Message \<Rightarrow> relay_state
     \<Rightarrow> (go_string + (go_error + (bytes \<times> cancelRegistry \<times> nat \<times> CancelRequest option))) option" where
  "substituteKey rng route msg s =
     (if msg_Type msg = MsgBackendKeyData then
        (case DecodeBackendKeyData (msg_Body msg) of
           Inl err \<Rightarrow> Some (Inr (Inl err))
         | Inr backendKey \<Rightarrow>
            (case issue rng (rs_pos s) (rs_cancels s)
                    \<lparr>ce_backendAddr = Address route, ce_backendKey = backendKey, ce_tls = rt_TLS route\<rparr> of
               None \<Rightarrow> None
             | Some (Inl panic, _) \<Rightarrow> Some (Inl panic)
             | Some (Inr (issued, cancels), pos) \<Rightarrow>
                 Some (Inr (Inr (EncodeBackendKeyData issued, cancels, pos, Some issued)))))
      else Some (Inr (Inr (Message_Encode msg, rs_cancels s, rs_pos s, rs_issued s))))"

definition spliceToClient :: "go_string \<Rightarrow> relay_state \<Rightarrow> go_error option \<times> relay_state" where
  "spliceToClient label s =
     (case io_Copy None (rs_client s) (mr_r (rs_reader s)) of
        (n, err, client) \<Rightarrow>
          (case err of
             Some e \<Rightarrow> if isBenignClose e then None else Some (wrapf ''relaying backend to client'' e)
           | None \<Rightarrow> None,
           s\<lparr>rs_client := client,
             rs_metrics := rs_metrics s @ [BytesAdd label directionToClient n]\<rparr>))"

function relayLoop ::
    "rand_source \<Rightarrow> Route \<Rightarrow> go_string \<Rightarrow> relay_state
     \<Rightarrow> (go_string + (go_error option \<times> relay_state)) option" where
  "relayLoop rng route label s =
     (case Next (rs_reader s) of
        (Inl err, reader) \<Rightarrow>
          Some (Inr (if isBenignClose err then None else Some (wrapf ''framing backend messages'' err),
                     countFramed label (s\<lparr>rs_reader := reader\<rparr>)))
      | (Inr msg, reader) \<Rightarrow>
         (case substituteKey rng route msg s of
            None \<Rightarrow> None
          | Some (Inl panic) \<Rightarrow> Some (Inl panic)
          | Some (Inr (Inl err)) \<Rightarrow> Some (Inr (Some err, s\<lparr>rs_reader := reader\<rparr>))
          | Some (Inr (Inr (out, cancels, pos, issued))) \<Rightarrow>
             (case conn_Write out (rs_client s) of
                (n, werr, client) \<Rightarrow>
                 (let s1 = s\<lparr>rs_reader := reader, rs_client := client, rs_cancels := cancels,
                             rs_pos := pos, rs_issued := issued, rs_framed := rs_framed s + n\<rparr>
                  in case werr of
                       Some e \<Rightarrow>
                         Some (Inr (if isBenignClose e then None
                                    else Some (wrapf ''writing backend message to client'' e),
                                    countFramed label s1))
                     | None \<Rightarrow>
                         if msg_Type msg = MsgReadyForQuery
                         then Some (Inr (spliceToClient label (countFramed label s1)))
                         else relayLoop rng route label s1))))"
  by pat_completeness auto
termination
  by (relation "measure (\<lambda>(rng, route, label, s). length (si_data (mr_r (rs_reader s))))")
    (auto dest: Next_consumes [OF sym])

declare relayLoop.simps [simp del]

text \<open>The deferred release of the last issued key.\<close>

definition releaseIssued :: "relay_state \<Rightarrow> relay_state" where
  "releaseIssued s =
     (case rs_issued s of
        None \<Rightarrow> s
      | Some key \<Rightarrow> s\<lparr>rs_cancels := cancel_release key (rs_cancels s)\<rparr>)"

definition relayFromBackend ::
    "rand_source \<Rightarrow> nat \<Rightarrow> cancelRegistry \<Rightarrow> conn \<Rightarrow> conn \<Rightarrow> Route \<Rightarrow> go_string
     \<Rightarrow> (go_string + (go_error option \<times> relay_state)) option" where
  "relayFromBackend rng pos cancels client backend route label =
     (let s = \<lparr>rs_reader = NewMessageReader (c_in backend), rs_client = client,
               rs_cancels = cancels, rs_pos = pos, rs_issued = None, rs_framed = 0, rs_metrics = []\<rparr>
      in case relayLoop rng route label s of
           None \<Rightarrow> None
         | Some (Inl panic) \<Rightarrow> Some (Inl panic)
         | Some (Inr (err, s1)) \<Rightarrow> Some (Inr (err, releaseIssued s1)))"

text \<open>
  The whole relay. The result holds the error, the two connections as they are left, the
  registry, the number of random reads and the metric operations.
\<close>

record relay_result =
  rr_err :: "go_error option"
  rr_client :: conn
  rr_backend :: conn
  rr_cancels :: cancelRegistry
  rr_pos :: nat
  rr_metrics :: "metric list"

definition relay ::
    "rand_source \<Rightarrow> nat option \<Rightarrow> nat \<Rightarrow> cancelRegistry \<Rightarrow> conn \<Rightarrow> conn \<Rightarrow> Route \<Rightarrow> go_string
     \<Rightarrow> (go_string + relay_result) option" where
  "relay rng cutAt pos cancels client backend route label =
     (case relayFromBackend rng pos cancels client backend route label of
        None \<Rightarrow> None
      | Some (Inl panic) \<Rightarrow> Some (Inl panic)
      | Some (Inr (downstreamErr, s)) \<Rightarrow>
         (case io_Copy cutAt backend (c_in client) of
            (n, err, backend') \<Rightarrow>
             (let upstreamErr = (case err of
                    Some e \<Rightarrow> if isBenignClose e then None
                               else Some (wrapf ''relaying client to backend'' e)
                  | None \<Rightarrow> None)
              in Some (Inr \<lparr>rr_err = errors_Join [downstreamErr, upstreamErr],
                    rr_client = conn_Close (conn_CloseWrite (rs_client s)),
                    rr_backend = conn_CloseWrite (backend'\<lparr>c_in := mr_r (rs_reader s)\<rparr>),
                    rr_cancels = rs_cancels s, rr_pos = rs_pos s,
                    rr_metrics = rs_metrics s @ [BytesAdd label directionToBackend n]\<rparr>))))"

section \<open>Running the framing loop over a stream of messages\<close>

text \<open>A startup-phase message that is passed on unchanged and does not end the phase.\<close>

definition plain :: "Message \<Rightarrow> bool" where
  "plain m \<longleftrightarrow> fits m \<and> msg_Type m \<noteq> MsgBackendKeyData \<and> msg_Type m \<noteq> MsgReadyForQuery"

lemma Next_fits:
  "fits m \<Longrightarrow> si_data (mr_r mr) = Message_Encode m @ rest \<Longrightarrow>
     Next mr = (Inr m, \<lparr>mr_r = (mr_r mr)\<lparr>si_data := rest\<rparr>, mr_cap = max (mr_cap mr) (length (msg_Body m))\<rparr>)"
  using Next_Encode [of m rest "si_end (mr_r mr)" "mr_cap mr"]
  by (cases mr; cases "mr_r mr") (simp add: fits_def)

lemma relayLoop_step:
  assumes "fits m" and "si_data (mr_r (rs_reader s)) = Message_Encode m @ rest"
    and "conn_open (rs_client s)"
    and "substituteKey rng route m s = Some (Inr (Inr (out, cancels, pos, issued)))"
    and "msg_Type m \<noteq> MsgReadyForQuery"
  shows "relayLoop rng route label s = relayLoop rng route label
    (s\<lparr>rs_reader := \<lparr>mr_r = (mr_r (rs_reader s))\<lparr>si_data := rest\<rparr>,
                     mr_cap = max (mr_cap (rs_reader s)) (length (msg_Body m))\<rparr>,
       rs_client := (rs_client s)\<lparr>c_out := c_out (rs_client s) @ out\<rparr>,
       rs_cancels := cancels, rs_pos := pos, rs_issued := issued,
       rs_framed := rs_framed s + length out\<rparr>)"
  using assms by (subst relayLoop.simps) (simp add: Next_fits conn_Write_open)

lemma substituteKey_plain:
  "plain m \<Longrightarrow> substituteKey rng route m s =
     Some (Inr (Inr (Message_Encode m, rs_cancels s, rs_pos s, rs_issued s)))"
  by (simp add: substituteKey_def plain_def)

lemma relayLoop_plains:
  assumes "list_all plain ms" and "si_data (mr_r (rs_reader s)) = encodes ms @ rest"
    and "conn_open (rs_client s)"
  shows "\<exists>cap. relayLoop rng route label s = relayLoop rng route label
    (s\<lparr>rs_reader := \<lparr>mr_r = (mr_r (rs_reader s))\<lparr>si_data := rest\<rparr>, mr_cap = cap\<rparr>,
       rs_client := (rs_client s)\<lparr>c_out := c_out (rs_client s) @ encodes ms\<rparr>,
       rs_framed := rs_framed s + length (encodes ms)\<rparr>)"
  using assms
proof (induction ms arbitrary: s)
  case Nil
  have "s\<lparr>rs_reader := \<lparr>mr_r = (mr_r (rs_reader s))\<lparr>si_data := rest\<rparr>, mr_cap = mr_cap (rs_reader s)\<rparr>,
      rs_client := (rs_client s)\<lparr>c_out := c_out (rs_client s)\<rparr>, rs_framed := rs_framed s\<rparr> = s"
    using Nil.prems(2) by (cases s; cases "rs_reader s"; cases "mr_r (rs_reader s)"; cases "rs_client s") simp
  then show ?case by (metis append_Nil2 add_0_right concat.simps(1) list.map(1) list.size(3))
next
  case (Cons m ms)
  then have m: "plain m" "fits m" "msg_Type m \<noteq> MsgReadyForQuery" by (auto simp: plain_def)
  define s1 where "s1 = s\<lparr>rs_reader := \<lparr>mr_r = (mr_r (rs_reader s))\<lparr>si_data := encodes ms @ rest\<rparr>,
        mr_cap = max (mr_cap (rs_reader s)) (length (msg_Body m))\<rparr>,
      rs_client := (rs_client s)\<lparr>c_out := c_out (rs_client s) @ Message_Encode m\<rparr>,
      rs_framed := rs_framed s + length (Message_Encode m)\<rparr>"
  have "relayLoop rng route label s = relayLoop rng route label
      (s1\<lparr>rs_cancels := rs_cancels s, rs_pos := rs_pos s, rs_issued := rs_issued s\<rparr>)"
    using relayLoop_step [OF m(2) _ Cons.prems(3) substituteKey_plain [OF m(1)] m(3)] Cons.prems(2)
    by (simp add: s1_def)
  also have "s1\<lparr>rs_cancels := rs_cancels s, rs_pos := rs_pos s, rs_issued := rs_issued s\<rparr> = s1"
    by (simp add: s1_def)
  finally have "relayLoop rng route label s = relayLoop rng route label s1" .
  moreover have "list_all plain ms" "si_data (mr_r (rs_reader s1)) = encodes ms @ rest" "conn_open (rs_client s1)"
    using Cons.prems by (auto simp: s1_def)
  note Cons.IH [OF this]
  ultimately show ?case by (simp add: s1_def add.assoc)
qed

lemma relayLoop_ready:
  assumes "fits z" and "msg_Type z = MsgReadyForQuery"
    and "si_data (mr_r (rs_reader s)) = Message_Encode z @ raw" and "si_end (mr_r (rs_reader s)) = Sentinel IoEOF"
    and "conn_open (rs_client s)" and "relayLoop rng route label s = res"
  shows "\<exists>s'. res = Some (Inr (None, s'))
    \<and> c_out (rs_client s') = c_out (rs_client s) @ Message_Encode z @ raw
    \<and> rs_cancels s' = rs_cancels s \<and> rs_issued s' = rs_issued s"
proof -
  have "msg_Type z \<noteq> MsgBackendKeyData"
    using assms(2) by (simp add: MsgReadyForQuery_def MsgBackendKeyData_def)
  then have "substituteKey rng route z s = Some (Inr (Inr (Message_Encode z, rs_cancels s, rs_pos s, rs_issued s)))"
    by (simp add: substituteKey_def)
  then show ?thesis
    using assms
    by (subst (asm) relayLoop.simps)
      (auto simp: Next_fits conn_Write_open spliceToClient_def countFramed_def io_Copy_open)
qed

lemma relayLoop_key:
  assumes "fits k" and "msg_Type k = MsgBackendKeyData" and "DecodeBackendKeyData (msg_Body k) = Inr bk"
    and "si_data (mr_r (rs_reader s)) = Message_Encode k @ rest" and "conn_open (rs_client s)"
    and "issue rng (rs_pos s) (rs_cancels s)
      \<lparr>ce_backendAddr = Address route, ce_backendKey = bk, ce_tls = rt_TLS route\<rparr> = Some (Inr (key, cancels'), pos')"
  shows "\<exists>cap. relayLoop rng route label s = relayLoop rng route label
    (s\<lparr>rs_reader := \<lparr>mr_r = (mr_r (rs_reader s))\<lparr>si_data := rest\<rparr>, mr_cap = cap\<rparr>,
       rs_client := (rs_client s)\<lparr>c_out := c_out (rs_client s) @ EncodeBackendKeyData key\<rparr>,
       rs_cancels := cancels', rs_pos := pos', rs_issued := Some key,
       rs_framed := rs_framed s + length (EncodeBackendKeyData key)\<rparr>)"
proof -
  have "substituteKey rng route k s = Some (Inr (Inr (EncodeBackendKeyData key, cancels', pos', Some key)))"
    using assms(2,3,6) by (simp add: substituteKey_def)
  moreover have "msg_Type k \<noteq> MsgReadyForQuery"
    using assms(2) by (simp add: MsgReadyForQuery_def MsgBackendKeyData_def)
  ultimately show ?thesis
    using relayLoop_step [OF assms(1,4,5)] by blast
qed

lemma relayLoop_session:
  assumes "list_all plain pre" and "list_all plain mid" and "fits k" and "fits z"
    and "msg_Type k = MsgBackendKeyData" and "DecodeBackendKeyData (msg_Body k) = Inr bk"
    and "msg_Type z = MsgReadyForQuery"
    and stream: "si_data (mr_r (rs_reader s)) = encodes pre @ Message_Encode k @ encodes mid @ Message_Encode z @ raw"
    and eof: "si_end (mr_r (rs_reader s)) = Sentinel IoEOF"
    and cl: "conn_open (rs_client s)"
    and iss: "issue rng (rs_pos s) (rs_cancels s)
      \<lparr>ce_backendAddr = Address route, ce_backendKey = bk, ce_tls = rt_TLS route\<rparr> = Some (Inr (key, cancels'), pos')"
  shows "\<exists>s'. relayLoop rng route label s = Some (Inr (None, s'))
    \<and> c_out (rs_client s') = c_out (rs_client s) @ encodes pre @ EncodeBackendKeyData key @ encodes mid
        @ Message_Encode z @ raw
    \<and> rs_cancels s' = cancels' \<and> rs_issued s' = Some key"
proof -
  obtain cap1 where 1: "relayLoop rng route label s = relayLoop rng route label
    (s\<lparr>rs_reader := \<lparr>mr_r = (mr_r (rs_reader s))\<lparr>si_data := Message_Encode k @ encodes mid @ Message_Encode z @ raw\<rparr>,
        mr_cap = cap1\<rparr>,
       rs_client := (rs_client s)\<lparr>c_out := c_out (rs_client s) @ encodes pre\<rparr>,
       rs_framed := rs_framed s + length (encodes pre)\<rparr>)" (is "_ = relayLoop _ _ _ ?s1")
    using relayLoop_plains [OF assms(1) stream cl] by blast
  obtain cap2 where 2: "relayLoop rng route label ?s1 = relayLoop rng route label
    (?s1\<lparr>rs_reader := \<lparr>mr_r = (mr_r (rs_reader ?s1))\<lparr>si_data := encodes mid @ Message_Encode z @ raw\<rparr>,
        mr_cap = cap2\<rparr>,
       rs_client := (rs_client ?s1)\<lparr>c_out := c_out (rs_client ?s1) @ EncodeBackendKeyData key\<rparr>,
       rs_cancels := cancels', rs_pos := pos', rs_issued := Some key,
       rs_framed := rs_framed ?s1 + length (EncodeBackendKeyData key)\<rparr>)" (is "_ = relayLoop _ _ _ ?s2")
    using relayLoop_key [OF assms(3,5,6), of ?s1 "encodes mid @ Message_Encode z @ raw" rng route key cancels' pos' label]
      cl iss by auto
  obtain cap3 where 3: "relayLoop rng route label ?s2 = relayLoop rng route label
    (?s2\<lparr>rs_reader := \<lparr>mr_r = (mr_r (rs_reader ?s2))\<lparr>si_data := Message_Encode z @ raw\<rparr>, mr_cap = cap3\<rparr>,
       rs_client := (rs_client ?s2)\<lparr>c_out := c_out (rs_client ?s2) @ encodes mid\<rparr>,
       rs_framed := rs_framed ?s2 + length (encodes mid)\<rparr>)" (is "_ = relayLoop _ _ _ ?s3")
    using relayLoop_plains [OF assms(2), of ?s2 "Message_Encode z @ raw" rng route label] cl by auto
  have "\<exists>s'. relayLoop rng route label ?s3 = Some (Inr (None, s'))
    \<and> c_out (rs_client s') = c_out (rs_client ?s3) @ Message_Encode z @ raw
    \<and> rs_cancels s' = rs_cancels ?s3 \<and> rs_issued s' = rs_issued ?s3"
    using relayLoop_ready [OF assms(4,7), of ?s3 raw rng route label] cl eof by auto
  then show ?thesis unfolding 1 2 3 by simp
qed

section \<open>Invariants of the framing loop\<close>

text \<open>
  A relation between the state before and after the loop that is reflexive, transitive and
  respected by each piece of an iteration holds of the whole loop.
\<close>

definition iteration :: "rand_source \<Rightarrow> Route \<Rightarrow> relay_state \<Rightarrow> relay_state \<Rightarrow> bool" where
  "iteration rng route s s1 \<longleftrightarrow>
     (\<exists>msg reader out cancels pos issued n werr client.
        Next (rs_reader s) = (Inr msg, reader)
        \<and> substituteKey rng route msg s = Some (Inr (Inr (out, cancels, pos, issued)))
        \<and> conn_Write out (rs_client s) = (n, werr, client)
        \<and> s1 = s\<lparr>rs_reader := reader, rs_client := client, rs_cancels := cancels,
                 rs_pos := pos, rs_issued := issued, rs_framed := rs_framed s + n\<rparr>)"

lemma relayLoop_cases:
  assumes "relayLoop rng route label s = Some (Inr (err, s'))"
  obtains (read) reader where "s' = countFramed label (s\<lparr>rs_reader := reader\<rparr>)"
  | (decode) reader body e where "s' = s\<lparr>rs_reader := reader\<rparr>"
      "DecodeBackendKeyData body = Inl e" "err = Some e"
  | (wrote) s1 where "iteration rng route s s1" "s' = countFramed label s1"
  | (ready) s1 where "iteration rng route s s1" "s' = snd (spliceToClient label (countFramed label s1))"
  | (again) s1 where "iteration rng route s s1" "relayLoop rng route label s1 = Some (Inr (err, s'))"
      "length (si_data (mr_r (rs_reader s1))) < length (si_data (mr_r (rs_reader s)))"
proof -
  obtain res reader where nx: "Next (rs_reader s) = (res, reader)" by fastforce
  show thesis
  proof (cases res)
    case (Inl e)
    with assms nx show thesis
      by (subst (asm) relayLoop.simps) (auto intro: that(1))
  next
    case (Inr msg)
    note nx = nx [unfolded Inr]
    from assms consider e where "substituteKey rng route msg s = Some (Inr (Inl e))"
      | out cancels pos issued where "substituteKey rng route msg s = Some (Inr (Inr (out, cancels, pos, issued)))"
      by (subst (asm) relayLoop.simps) (auto simp: nx split: option.splits sum.splits)
    then show thesis
    proof cases
      case 1
      then have "DecodeBackendKeyData (msg_Body msg) = Inl e"
        by (auto simp: substituteKey_def split: if_splits sum.splits option.splits)
      with assms nx 1 show thesis by (subst (asm) relayLoop.simps) (auto intro: that(2))
    next
      case 2
      obtain n werr client where w: "conn_Write out (rs_client s) = (n, werr, client)"
        by (metis prod_cases3)
      define s1 where "s1 = s\<lparr>rs_reader := reader, rs_client := client, rs_cancels := cancels,
                 rs_pos := pos, rs_issued := issued, rs_framed := rs_framed s + n\<rparr>"
      have it: "iteration rng route s s1" using nx 2 w unfolding iteration_def s1_def by blast
      have less: "length (si_data (mr_r (rs_reader s1))) < length (si_data (mr_r (rs_reader s)))"
        using Next_consumes [OF nx] by (simp add: s1_def)
      from assms show thesis
        by (subst (asm) relayLoop.simps)
          (auto simp: nx 2 w s1_def [symmetric] split: option.splits if_splits
            intro: that(3-5) [OF it] less prod.expand)
    qed
  qed
qed

lemma relayLoop_rule:
  assumes "relayLoop rng route label s = Some (Inr (err, s'))"
    and trans: "\<And>s t u. R s t \<Longrightarrow> R t u \<Longrightarrow> R s u"
    and iter: "\<And>s t. iteration rng route s t \<Longrightarrow> R s t"
    and read: "\<And>s reader. R s (s\<lparr>rs_reader := reader\<rparr>)"
    and count: "\<And>s. R s (countFramed label s)"
    and splice: "\<And>s. R s (snd (spliceToClient label s))"
  shows "R s s'"
  using assms(1)
proof (induction "length (si_data (mr_r (rs_reader s)))" arbitrary: s rule: less_induct)
  case less
  from less.prems show ?case
  proof (cases rule: relayLoop_cases)
    case (again s1)
    then show ?thesis by (blast intro: trans iter less.hyps)
  qed (blast intro: trans iter read count splice)+
qed

text \<open>How one run of the loop may change the registry and the issued key.\<close>

definition registry_step :: "Route \<Rightarrow> relay_state \<Rightarrow> relay_state \<Rightarrow> bool" where
  "registry_step route s t \<longleftrightarrow>
     (\<forall>k e. cancel_lookup (rs_cancels s) k = Some e \<longrightarrow> cancel_lookup (rs_cancels t) k = Some e)
     \<and> (\<forall>k e. cancel_lookup (rs_cancels t) k = Some e \<longrightarrow> cancel_lookup (rs_cancels s) k = None \<longrightarrow>
          ce_backendAddr e = Address route \<and> ce_tls e = rt_TLS route)
     \<and> (rs_issued t = rs_issued s \<or> (\<exists>k. rs_issued t = Some k \<and> cancel_lookup (rs_cancels s) k = None))"

lemma registry_step_trans:
  assumes "registry_step route s t" and "registry_step route t u"
  shows "registry_step route s u"
proof -
  let ?l = "\<lambda>s. cancel_lookup (rs_cancels s)"
  have keep: "?l s k = Some e \<Longrightarrow> ?l t k = Some e" "?l t k = Some e \<Longrightarrow> ?l u k = Some e" for k e
    using assms by (simp_all add: registry_step_def)
  have none: "?l t k = None \<Longrightarrow> ?l s k = None" for k
    using keep(1) [of k] by (cases "?l s k") auto
  have new: "ce_backendAddr e = Address route \<and> ce_tls e = rt_TLS route" if "?l u k = Some e" "?l s k = None" for k e
    using that assms keep(2) [of k] by (cases "?l t k") (auto simp: registry_step_def)
  have "rs_issued u = rs_issued s \<or> (\<exists>k. rs_issued u = Some k \<and> ?l s k = None)"
    using assms none by (auto simp: registry_step_def)
  with keep new show ?thesis by (simp add: registry_step_def)
qed

lemma registry_step_iteration:
  assumes "iteration rng route s t"
  shows "registry_step route s t"
proof -
  from assms obtain msg out pos where sub:
    "substituteKey rng route msg s = Some (Inr (Inr (out, rs_cancels t, pos, rs_issued t)))"
    by (auto simp: iteration_def)
  then consider "rs_cancels t = rs_cancels s" "rs_issued t = rs_issued s"
    | bk k pos' where "issue rng (rs_pos s) (rs_cancels s)
        \<lparr>ce_backendAddr = Address route, ce_backendKey = bk, ce_tls = rt_TLS route\<rparr>
          = Some (Inr (k, rs_cancels t), pos')" "rs_issued t = Some k"
    by (auto simp: substituteKey_def split: if_splits sum.splits option.splits)
  then show ?thesis
  proof cases
    case 1
    then show ?thesis by (simp add: registry_step_def)
  next
    case 2
    then have "cancel_issued (rs_cancels s)
        \<lparr>ce_backendAddr = Address route, ce_backendKey = bk, ce_tls = rt_TLS route\<rparr> k (rs_cancels t)"
      by (auto simp: cancel_issued_def)
    with 2(2) show ?thesis
      using cancels.issued_look cancels.issued_fresh by (auto simp: registry_step_def)
  qed
qed

lemma relayLoop_registry:
  assumes "relayLoop rng route label s = Some (Inr (err, s'))"
  shows "registry_step route s s'"
  using assms
proof (rule relayLoop_rule)
  show "registry_step route s u" if "registry_step route s t" "registry_step route t u" for s t u
    using that by (rule registry_step_trans)
  show "registry_step route s t" if "iteration rng route s t" for s t
    using that by (rule registry_step_iteration)
qed (simp_all add: registry_step_def countFramed_def spliceToClient_def split: prod.split)

text \<open>The bytes counted towards the client by a sequence of metric operations.\<close>

fun bytesToClient :: "metric list \<Rightarrow> nat" where
  "bytesToClient [] = 0"
| "bytesToClient (BytesAdd label d n # ms) =
     (if d = directionToClient then n else 0) + bytesToClient ms"
| "bytesToClient (m # ms) = bytesToClient ms"

lemma bytesToClient_append [simp]: "bytesToClient (xs @ ys) = bytesToClient xs + bytesToClient ys"
  by (induction xs rule: bytesToClient.induct) auto

lemma iteration_out:
  assumes "iteration rng route s t"
  shows "\<exists>w. c_out (rs_client t) = c_out (rs_client s) @ w \<and> rs_framed t = rs_framed s + length w
    \<and> rs_metrics t = rs_metrics s"
  using assms by (auto simp: iteration_def dest!: conn_Write_out)

lemma countFramed_bytes:
  "rs_client (countFramed label s) = rs_client s"
  "bytesToClient (rs_metrics (countFramed label s)) = bytesToClient (rs_metrics s) + rs_framed s"
  by (simp_all add: countFramed_def)

lemma spliceToClient_out:
  "\<exists>w. c_out (rs_client (snd (spliceToClient label s))) = c_out (rs_client s) @ w
    \<and> bytesToClient (rs_metrics (snd (spliceToClient label s))) = bytesToClient (rs_metrics s) + length w"
  by (auto simp: spliceToClient_def dest!: io_Copy_out split: prod.split)

lemma relayLoop_bytes:
  assumes "relayLoop rng route label s = Some (Inr (err, s'))"
  shows "\<exists>w. c_out (rs_client s') = c_out (rs_client s) @ w
    \<and> (bytesToClient (rs_metrics s') = bytesToClient (rs_metrics s) + rs_framed s + length w
       \<or> rs_metrics s' = rs_metrics s \<and> (\<exists>body e. DecodeBackendKeyData body = Inl e \<and> err = Some e))"
  using assms
proof (induction "length (si_data (mr_r (rs_reader s)))" arbitrary: s rule: less_induct)
  case less
  from less.prems show ?case
  proof (cases rule: relayLoop_cases)
    case (ready s1)
    obtain w where "c_out (rs_client s1) = c_out (rs_client s) @ w" "rs_framed s1 = rs_framed s + length w"
      "rs_metrics s1 = rs_metrics s"
      using iteration_out [OF ready(1)] by blast
    then show ?thesis
      using spliceToClient_out [of label "countFramed label s1"] ready(2)
      by (auto simp: countFramed_bytes)
  next
    case (again s1)
    then show ?thesis
      using iteration_out [OF again(1)] less.hyps [OF again(3,2)] by fastforce
  next
    case (wrote s1)
    then show ?thesis using iteration_out [OF wrote(1)] by (auto simp: countFramed_bytes)
  qed (auto simp: countFramed_bytes)
qed

lemma relayFromBackend_InrD:
  assumes "relayFromBackend rng pos cancels client backend route label = Some (Inr (err, s))"
  obtains s0 s1 where "relayLoop rng route label s0 = Some (Inr (err, s1))" "s = releaseIssued s1"
    "rs_client s0 = client" "rs_cancels s0 = cancels" "rs_issued s0 = None" "rs_framed s0 = 0" "rs_metrics s0 = []"
  using assms
  by (auto simp: relayFromBackend_def intro: that split: option.splits sum.splits)

lemma releaseIssued_frame [simp]:
  "rs_client (releaseIssued s) = rs_client s" "rs_metrics (releaseIssued s) = rs_metrics s"
  by (simp_all add: releaseIssued_def split: option.split)

lemma relayFromBackend_session:
  assumes "list_all plain pre" and "list_all plain mid" and "fits k" and "fits z"
    and "msg_Type k = MsgBackendKeyData" and "DecodeBackendKeyData (msg_Body k) = Inr bk"
    and "msg_Type z = MsgReadyForQuery" and "conn_open client"
    and "c_in backend = \<lparr>si_data = encodes pre @ Message_Encode k @ encodes mid @ Message_Encode z @ raw,
                         si_end = Sentinel IoEOF\<rparr>"
    and iss: "issue rng pos cancels \<lparr>ce_backendAddr = Address route, ce_backendKey = bk, ce_tls = rt_TLS route\<rparr>
      = Some (Inr (key, cancels'), pos')"
  shows "\<exists>s. relayFromBackend rng pos cancels client backend route label = Some (Inr (None, s))
    \<and> c_out (rs_client s) = c_out client @ encodes pre @ EncodeBackendKeyData key @ encodes mid
        @ Message_Encode z @ raw
    \<and> cancel_lookup (rs_cancels s) = cancel_lookup cancels"
proof -
  have "cancel_issued cancels \<lparr>ce_backendAddr = Address route, ce_backendKey = bk, ce_tls = rt_TLS route\<rparr> key cancels'"
    using iss by (auto simp: cancel_issued_def)
  note unbound = cancels.issue_release_id [OF this]
  let ?s = "\<lparr>rs_reader = NewMessageReader (c_in backend), rs_client = client,
      rs_cancels = cancels, rs_pos = pos, rs_issued = None, rs_framed = 0, rs_metrics = []\<rparr>"
  have "\<exists>s'. relayLoop rng route label ?s = Some (Inr (None, s'))
    \<and> c_out (rs_client s') = c_out (rs_client ?s) @ encodes pre @ EncodeBackendKeyData key @ encodes mid
        @ Message_Encode z @ raw
    \<and> rs_cancels s' = cancels' \<and> rs_issued s' = Some key"
    by (rule relayLoop_session [OF assms(1-7)]) (use assms in \<open>simp_all add: NewMessageReader_def\<close>)
  then show ?thesis
    using unbound by (auto simp: relayFromBackend_def releaseIssued_def)
qed

lemma relayFromBackend_registry:
  assumes "relayFromBackend rng pos cancels client backend route label = Some (Inr (err, s))"
  shows "(\<forall>k e. cancel_lookup cancels k = Some e \<longrightarrow> cancel_lookup (rs_cancels s) k = Some e)
    \<and> (\<forall>k e. cancel_lookup (rs_cancels s) k = Some e \<longrightarrow> cancel_lookup cancels k = None \<longrightarrow>
         ce_backendAddr e = Address route \<and> ce_tls e = rt_TLS route)"
proof -
  obtain s0 s1 where run: "relayLoop rng route label s0 = Some (Inr (err, s1))"
    and s: "s = releaseIssued s1" "rs_cancels s0 = cancels" "rs_issued s0 = None"
    using assms by (rule relayFromBackend_InrD)
  show ?thesis
    using relayLoop_registry [OF run] s
    by (auto simp: registry_step_def releaseIssued_def cancels.rel_look split: option.splits)
qed

text \<open>Relaying arms no deadline and does not change what the client connection is.\<close>

definition same_link :: "conn \<Rightarrow> conn \<Rightarrow> bool" where
  "same_link c c' \<longleftrightarrow> c_encrypted c' = c_encrypted c \<and> c_deadline c' = c_deadline c"

lemma same_link_trans: "same_link a b \<Longrightarrow> same_link b c \<Longrightarrow> same_link a c"
  by (simp add: same_link_def)

lemma conn_Write_link: "conn_Write bs c = (n, e, c') \<Longrightarrow> same_link c c'"
  by (auto simp: same_link_def dest: conn_Write_frame)

lemma io_Copy_link: "io_Copy cutAt dst src = (n, e, dst') \<Longrightarrow> same_link dst dst'"
  by (auto simp: io_Copy_def Let_def same_link_def dest!: conn_Write_link split: if_splits option.splits prod.splits)

lemma relayLoop_link:
  assumes "relayLoop rng route label s = Some (Inr (err, s'))"
  shows "same_link (rs_client s) (rs_client s')"
  using assms
proof (rule relayLoop_rule)
  show "same_link (rs_client s) (rs_client t)" if "iteration rng route s t" for s t
    using that by (auto simp: iteration_def dest: conn_Write_link)
  show "same_link (rs_client s) (rs_client (snd (spliceToClient label s)))" for s
    by (auto simp: spliceToClient_def dest: io_Copy_link split: prod.split)
qed (auto simp: same_link_def countFramed_def)

lemma relay_InrD:
  assumes "relay rng cutAt pos cancels client backend route label = Some (Inr r)"
  shows "same_link client (rr_client r)" "same_link backend (rr_backend r)"
    "c_closed (rr_client r)" "c_wclosed (rr_backend r)"
    "\<exists>err s n. relayFromBackend rng pos cancels client backend route label = Some (Inr (err, s))
       \<and> rr_cancels r = rs_cancels s \<and> rr_metrics r = rs_metrics s @ [BytesAdd label directionToBackend n]"
proof -
  obtain n e b where cp: "io_Copy cutAt backend (c_in client) = (n, e, b)" by (metis prod_cases3)
  obtain err s where run: "relayFromBackend rng pos cancels client backend route label = Some (Inr (err, s))"
    using assms by (auto simp: relay_def split: option.splits sum.splits)
  then have "same_link client (rs_client s)"
    by (metis relayFromBackend_InrD relayLoop_link releaseIssued_frame(1))
  then show "same_link client (rr_client r)" "same_link backend (rr_backend r)"
    "c_closed (rr_client r)" "c_wclosed (rr_backend r)"
    using assms run cp io_Copy_link [OF cp]
    by (auto simp: relay_def Let_def conn_Close_def conn_CloseWrite_def same_link_def)
  show "\<exists>err s n. relayFromBackend rng pos cancels client backend route label = Some (Inr (err, s))
       \<and> rr_cancels r = rs_cancels s \<and> rr_metrics r = rs_metrics s @ [BytesAdd label directionToBackend n]"
    using assms run cp by (auto simp: relay_def Let_def)
qed

section \<open>Properties\<close>

text \<open>The client sees the backend's stream with one substitution. For a backend that sends
  messages of the startup phase, its key data, more messages, ReadyForQuery and then any
  bytes, relaying to a client that accepts them succeeds and the client receives exactly
  that stream with the key data message replaced by the gateway's own key; afterwards every
  key of the registry looks up as before, the issued key included.\<close>

lemma relay_substitutes_only_the_key:
  assumes "list_all plain pre" and "list_all plain mid" and "fits k" and "fits z"
    and "msg_Type k = MsgBackendKeyData" and "DecodeBackendKeyData (msg_Body k) = Inr bk"
    and "msg_Type z = MsgReadyForQuery" and "conn_open client"
    and "c_in backend = \<lparr>si_data = encodes pre @ Message_Encode k @ encodes mid @ Message_Encode z @ raw,
                         si_end = Sentinel IoEOF\<rparr>"
    and iss: "issue rng pos cancels \<lparr>ce_backendAddr = Address route, ce_backendKey = bk, ce_tls = rt_TLS route\<rparr>
      = Some (Inr (key, cancels'), pos')"
  shows "\<exists>s. relayFromBackend rng pos cancels client backend route label = Some (Inr (None, s))
    \<and> c_out (rs_client s) = c_out client @ encodes pre @ EncodeBackendKeyData key @ encodes mid
        @ Message_Encode z @ raw
    \<and> cancel_lookup (rs_cancels s) = cancel_lookup cancels"
  using assms by (rule relayFromBackend_session)

text \<open>Whatever the backend sends and however the session ends, a session's relay never
  disturbs another session's key: every key bound before is bound to the same entry after,
  and an entry the session leaves behind points at its own backend with its own TLS policy.\<close>

lemma relay_preserves_other_sessions_keys:
  assumes "relayFromBackend rng pos cancels client backend route label = Some (Inr (err, s))"
  shows "(\<forall>k e. cancel_lookup cancels k = Some e \<longrightarrow> cancel_lookup (rs_cancels s) k = Some e)
    \<and> (\<forall>k e. cancel_lookup (rs_cancels s) k = Some e \<longrightarrow> cancel_lookup cancels k = None \<longrightarrow>
         ce_backendAddr e = Address route \<and> ce_tls e = rt_TLS route)"
  using assms by (rule relayFromBackend_registry)

text \<open>The bytes counter towards the client is exact: the byte counts recorded add up to the
  bytes the client was sent, on every path except one. When the backend's key data cannot be
  decoded the session ends with that error and nothing at all is counted.\<close>

lemma relay_bytes_are_counted:
  assumes "relayFromBackend rng pos cancels client backend route label = Some (Inr (err, s))"
  shows "\<exists>w. c_out (rs_client s) = c_out client @ w
    \<and> (bytesToClient (rs_metrics s) = length w
       \<or> rs_metrics s = [] \<and> (\<exists>body e. DecodeBackendKeyData body = Inl e \<and> err = Some e))"
proof -
  obtain s0 s1 where run: "relayLoop rng route label s0 = Some (Inr (err, s1))"
    and "s = releaseIssued s1" "rs_client s0 = client" "rs_framed s0 = 0" "rs_metrics s0 = []"
    using assms by (rule relayFromBackend_InrD)
  then show ?thesis using relayLoop_bytes [OF run] by auto
qed

text \<open>The client's bytes reach the backend verbatim: what is appended to the backend's input
  is a prefix of what the client sends after the startup packet, its length is the count
  recorded, and it is all of it when the backend accepts the bytes, the client ends the
  session and is not cut off. Afterwards the client is closed and the backend half-closed.\<close>

lemma relay_upstream_is_verbatim:
  assumes "relay rng cutAt pos cancels client backend route label = Some (Inr r)"
  shows "\<exists>n\<le>length (si_data (c_in client)).
    c_out (rr_backend r) = c_out backend @ take n (si_data (c_in client))
    \<and> last (rr_metrics r) = BytesAdd label directionToBackend n
    \<and> (cutAt = None \<and> conn_open backend \<and> si_end (c_in client) = Sentinel IoEOF \<longrightarrow>
         n = length (si_data (c_in client)))
    \<and> c_closed (rr_client r) \<and> c_wclosed (rr_backend r)"
proof -
  obtain n e b where cp: "io_Copy cutAt backend (c_in client) = (n, e, b)" by (metis prod_cases3)
  have "c_out (rr_backend r) = c_out b \<and> last (rr_metrics r) = BytesAdd label directionToBackend n
      \<and> c_closed (rr_client r) \<and> c_wclosed (rr_backend r)"
    using assms cp
    by (auto simp: relay_def Let_def conn_Close_def conn_CloseWrite_def split: option.splits sum.splits)
  then show ?thesis
    using io_Copy_out [OF cp] cp by (intro exI [of _ n]) (auto simp: io_Copy_open)
qed

text \<open>C40: A backend that sends its key data twice makes the session lose track of the first key
  it was given: when the session is over that key is still bound, so it stays in the
  registry for good.\<close>

theorem repeated_key_data_leaks_a_key:
  assumes "fits k1" and "msg_Type k1 = MsgBackendKeyData" and "DecodeBackendKeyData (msg_Body k1) = Inr bk1"
    and "fits k2" and "msg_Type k2 = MsgBackendKeyData" and "DecodeBackendKeyData (msg_Body k2) = Inr bk2"
    and "conn_open client"
    and "c_in backend = \<lparr>si_data = Message_Encode k1 @ Message_Encode k2, si_end = Sentinel IoEOF\<rparr>"
    and iss1: "issue rng pos cancels \<lparr>ce_backendAddr = Address route, ce_backendKey = bk1, ce_tls = rt_TLS route\<rparr>
      = Some (Inr (key1, cancels1), pos1)"
    and iss2: "issue rng pos1 cancels1 \<lparr>ce_backendAddr = Address route, ce_backendKey = bk2, ce_tls = rt_TLS route\<rparr>
      = Some (Inr (key2, cancels2), pos2)"
  shows "\<exists>s. relayFromBackend rng pos cancels client backend route label = Some (Inr (None, s))
    \<and> cancel_lookup (rs_cancels s) key1 =
        Some \<lparr>ce_backendAddr = Address route, ce_backendKey = bk1, ce_tls = rt_TLS route\<rparr>
    \<and> cancel_lookup (rs_cancels s) key2 = None"
proof -
  let ?s = "\<lparr>rs_reader = NewMessageReader (c_in backend), rs_client = client,
      rs_cancels = cancels, rs_pos = pos, rs_issued = None, rs_framed = 0, rs_metrics = []\<rparr>"
  obtain cap1 where 1: "relayLoop rng route label ?s = relayLoop rng route label
     (?s\<lparr>rs_reader := \<lparr>mr_r = (c_in backend)\<lparr>si_data := Message_Encode k2\<rparr>, mr_cap = cap1\<rparr>,
       rs_client := client\<lparr>c_out := c_out client @ EncodeBackendKeyData key1\<rparr>,
       rs_cancels := cancels1, rs_pos := pos1, rs_issued := Some key1,
       rs_framed := 0 + length (EncodeBackendKeyData key1)\<rparr>)" (is "_ = relayLoop _ _ _ ?s1")
    using relayLoop_key [OF assms(1-3), of ?s "Message_Encode k2" rng route key1 cancels1 pos1 label]
      assms(7,8) iss1 by (auto simp: NewMessageReader_def)
  obtain cap2 where 2: "relayLoop rng route label ?s1 = relayLoop rng route label
     (?s1\<lparr>rs_reader := \<lparr>mr_r = (c_in backend)\<lparr>si_data := []\<rparr>, mr_cap = cap2\<rparr>,
       rs_client := (rs_client ?s1)\<lparr>c_out := c_out (rs_client ?s1) @ EncodeBackendKeyData key2\<rparr>,
       rs_cancels := cancels2, rs_pos := pos2, rs_issued := Some key2,
       rs_framed := rs_framed ?s1 + length (EncodeBackendKeyData key2)\<rparr>)" (is "_ = relayLoop _ _ _ ?s2")
    using relayLoop_key [OF assms(4-6), of ?s1 "[]" rng route key2 cancels2 pos2 label]
      assms(7,8) iss2 by auto
  have "Next (rs_reader ?s2) = (Inl (Sentinel IoEOF), rs_reader ?s2)"
    using assms(8) by (simp add: Next_def io_ReadFull_def)
  then have "relayLoop rng route label ?s2 = Some (Inr (None, countFramed label ?s2))"
    by (subst relayLoop.simps) (simp add: isBenignClose_def)
  then have "relayFromBackend rng pos cancels client backend route label =
      Some (Inr (None, releaseIssued (countFramed label ?s2)))"
    unfolding relayFromBackend_def Let_def 1 2 by simp
  moreover have "cancel_lookup cancels1 key1 = Some \<lparr>ce_backendAddr = Address route, ce_backendKey = bk1, ce_tls = rt_TLS route\<rparr>"
      "cancel_lookup cancels2 = (cancel_lookup cancels1)
         (key2 \<mapsto> \<lparr>ce_backendAddr = Address route, ce_backendKey = bk2, ce_tls = rt_TLS route\<rparr>)" "key1 \<noteq> key2"
    using iss1 iss2 by (auto dest!: issue_InrD simp: cancel_lookup_def fun_eq_iff)
  ultimately show ?thesis
    by (simp add: releaseIssued_def countFramed_def cancels.rel_look)
qed

section \<open>Witnesses\<close>

definition plain_route :: Route where
  "plain_route = tls_route\<lparr>rt_TLS := \<lparr>tls_Mode = BackendTLSDisable, tls_RootCAs = None, tls_ServerName = []\<rparr>\<rparr>"

definition sample_keydata :: Message where
  "sample_keydata = \<lparr>msg_Type = MsgBackendKeyData, msg_Body = [NUL, NUL, NUL, CHR 0x29, NUL, NUL, NUL, CHR 0x63]\<rparr>"

definition sample_ready :: Message where
  "sample_ready = \<lparr>msg_Type = MsgReadyForQuery, msg_Body = ''I''\<rparr>"

lemma sample_messages:
  "plain sample_message" "fits sample_keydata" "fits sample_ready"
  "msg_Type sample_keydata = MsgBackendKeyData" "msg_Type sample_ready = MsgReadyForQuery"
  "DecodeBackendKeyData (msg_Body sample_keydata) = Inr \<lparr>ProcessID = 41, SecretKey = 99\<rparr>"
  by (simp_all add: plain_def fits_def sample_message_def sample_keydata_def sample_ready_def MaxMessageLength_def
      MsgBackendKeyData_def MsgReadyForQuery_def DecodeBackendKeyData_def)

theorem repeated_key_data_leaks_a_key_witness:
  "\<exists>s. relayFromBackend sample_rng 0 newCancelRegistry (sample_conn [])
        (sample_conn (Message_Encode sample_keydata @ Message_Encode sample_keydata)) plain_route ''orders''
        = Some (Inr (None, s))
     \<and> cancel_lookup (rs_cancels s) sample_key =
         Some \<lparr>ce_backendAddr = Address plain_route, ce_backendKey = \<lparr>ProcessID = 41, SecretKey = 99\<rparr>,
               ce_tls = rt_TLS plain_route\<rparr>"
proof -
  let ?e = "\<lparr>ce_backendAddr = Address plain_route, ce_backendKey = \<lparr>ProcessID = 41, SecretKey = 99\<rparr>,
      ce_tls = rt_TLS plain_route\<rparr>"
  let ?r1 = "\<lparr>cg_entries = [(sample_key, ?e)]\<rparr>"
  let ?k2 = "\<lparr>ProcessID = 1, SecretKey = 1\<rparr> :: CancelRequest"
  have "randomCancelKey (sample_rng 1) = Inr ?k2"
    by (simp add: randomCancelKey_def sample_rng_def)
  then have 2: "issue sample_rng 1 ?r1 ?e = Some (Inr (?k2, \<lparr>cg_entries = gomap_set [(sample_key, ?e)] ?k2 ?e\<rparr>), 2)"
    using issue_reaches [of 0 sample_rng 1 ?r1 ?k2 ?e] by (simp add: sample_key_def numeral_2_eq_2)
  let ?b = "sample_conn (Message_Encode sample_keydata @ Message_Encode sample_keydata)"
  have "c_in ?b = \<lparr>si_data = Message_Encode sample_keydata @ Message_Encode sample_keydata, si_end = Sentinel IoEOF\<rparr>"
    by (simp add: sample_conn_def)
  from repeated_key_data_leaks_a_key [OF sample_messages(2,4,6) sample_messages(2,4,6) sample_conn_open(1) this sample_issue 2]
  show ?thesis by blast
qed

end
