(* ===== verification/Server_State.thy ===== *)
theory Server_State
  imports Relay
begin

text \<open>
  The gateway server's configuration and state (\<^verbatim>\<open>src/src/internal/proxy/server.go\<close>):
  defaults, construction, the bounded slot channel, and the set of tracked connections. A
  connection's identity is a natural number. A Go \<^verbatim>\<open>time.Duration\<close> is a signed 64-bit
  count of nanoseconds. Logging is not modelled.
\<close>

section \<open>Definitions\<close>

type_synonym Duration = "64 word"

definition time_Millisecond :: Duration where "time_Millisecond = 1000000"
definition time_Second :: Duration where "time_Second = 1000000000"

definition DefaultStartupTimeout :: Duration where "DefaultStartupTimeout = 30 * time_Second"
definition DefaultDialTimeout :: Duration where "DefaultDialTimeout = 5 * time_Second"
definition DefaultShutdownGracePeriod :: Duration where "DefaultShutdownGracePeriod = 30 * time_Second"
definition DefaultKeepAlivePeriod :: Duration where "DefaultKeepAlivePeriod = 30 * time_Second"

text \<open>The TLS server configuration is opaque: only its presence matters here.\<close>

type_synonym tlsServerConfig = bytes

record ServerTLS =
  stls_Config :: "tlsServerConfig option"
  stls_Required :: bool

record Config =
  cfg_ListenAddress :: go_string
  cfg_Routes :: "Store option"
  cfg_TLS :: "ServerTLS option"
  cfg_MaxConnections :: int
  cfg_StartupTimeout :: Duration
  cfg_DialTimeout :: Duration
  cfg_ShutdownGracePeriod :: Duration
  cfg_KeepAlivePeriod :: Duration

definition applyDefaults :: "Config \<Rightarrow> Config" where
  "applyDefaults c =
     (let c = (if sint (cfg_StartupTimeout c) \<le> 0 then c\<lparr>cfg_StartupTimeout := DefaultStartupTimeout\<rparr> else c);
          c = (if sint (cfg_DialTimeout c) \<le> 0 then c\<lparr>cfg_DialTimeout := DefaultDialTimeout\<rparr> else c);
          c = (if sint (cfg_ShutdownGracePeriod c) \<le> 0
               then c\<lparr>cfg_ShutdownGracePeriod := DefaultShutdownGracePeriod\<rparr> else c)
      in if sint (cfg_KeepAlivePeriod c) \<le> 0 then c\<lparr>cfg_KeepAlivePeriod := DefaultKeepAlivePeriod\<rparr> else c)"

text \<open>A buffered channel of empty structs: its capacity and how many elements it holds.\<close>

record slot_chan =
  sl_cap :: nat
  sl_used :: nat

record Server =
  sv_cfg :: Config
  sv_cancels :: cancelRegistry
  sv_slots :: "slot_chan option"
  sv_listening :: bool
  sv_addr :: "go_string option"
  sv_sessions :: nat
  sv_activeConn :: "(nat, unit) gomap"

definition New :: "Config \<Rightarrow> go_error + Server" where
  "New cfg =
     (if cfg_Routes cfg = None then Inl (ErrorString ''proxy: Config.Routes is required'')
      else if cfg_ListenAddress cfg = [] then Inl (ErrorString ''proxy: Config.ListenAddress is required'')
      else if (case cfg_TLS cfg of None \<Rightarrow> False | Some tls \<Rightarrow> stls_Config tls = None)
        then Inl (ErrorString ''proxy: Config.TLS.Config is required when TLS is enabled'')
      else if cfg_MaxConnections cfg < 0
        then Inl (ErrorString (''proxy: MaxConnections must not be negative, got '' @ int_text (cfg_MaxConnections cfg)))
      else
        (let cfg = applyDefaults cfg
         in Inr \<lparr>sv_cfg = cfg, sv_cancels = newCancelRegistry,
                 sv_slots = (if cfg_MaxConnections cfg > 0
                             then Some \<lparr>sl_cap = nat (cfg_MaxConnections cfg), sl_used = 0\<rparr> else None),
                 sv_listening = False, sv_addr = None, sv_sessions = 0, sv_activeConn = []\<rparr>))"

definition NeedLeaderElection :: "Server \<Rightarrow> bool" where
  "NeedLeaderElection s = False"

text \<open>
  \<open>acquireSlot\<close> is the non-blocking send; \<open>releaseSlot\<close> the receive, \<open>None\<close> when it
  blocks because the channel is empty.
\<close>

definition acquireSlot :: "Server \<Rightarrow> bool \<times> Server" where
  "acquireSlot s =
     (case sv_slots s of
        None \<Rightarrow> (True, s)
      | Some ch \<Rightarrow>
          if sl_used ch < sl_cap ch
          then (True, s\<lparr>sv_slots := Some (ch\<lparr>sl_used := sl_used ch + 1\<rparr>)\<rparr>)
          else (False, s))"

definition releaseSlot :: "Server \<Rightarrow> Server option" where
  "releaseSlot s =
     (case sv_slots s of
        None \<Rightarrow> Some s
      | Some ch \<Rightarrow>
          if sl_used ch = 0 then None
          else Some (s\<lparr>sv_slots := Some (ch\<lparr>sl_used := sl_used ch - 1\<rparr>)\<rparr>))"

definition track :: "nat \<Rightarrow> Server \<Rightarrow> Server" where
  "track conn s = s\<lparr>sv_activeConn := gomap_set (sv_activeConn s) conn ()\<rparr>"

definition untrack :: "nat \<Rightarrow> Server \<Rightarrow> Server" where
  "untrack conn s = s\<lparr>sv_activeConn := gomap_del (sv_activeConn s) conn\<rparr>"

definition Listening :: "Server \<Rightarrow> bool" where
  "Listening s = sv_listening s"

definition Addr :: "Server \<Rightarrow> go_string option" where
  "Addr s = sv_addr s"

definition TrackedCancelKeys :: "Server \<Rightarrow> nat" where
  "TrackedCancelKeys s = cancel_len (sv_cancels s)"

definition SetRouteCount :: "nat \<Rightarrow> metric" where
  "SetRouteCount n = RoutesSet n"

section \<open>Lemmas\<close>

lemma default_durations [simp]:
  "sint DefaultStartupTimeout = 30000000000" "sint DefaultDialTimeout = 5000000000"
  "sint DefaultShutdownGracePeriod = 30000000000" "sint DefaultKeepAlivePeriod = 30000000000"
  by (simp_all add: DefaultStartupTimeout_def DefaultDialTimeout_def DefaultShutdownGracePeriod_def
      DefaultKeepAlivePeriod_def time_Second_def)

lemma New_okD:
  assumes "New cfg = Inr s"
  shows "sv_cfg s = applyDefaults cfg" "sv_cancels s = newCancelRegistry" "cfg_Routes cfg \<noteq> None"
    "cfg_ListenAddress cfg \<noteq> []" "0 \<le> cfg_MaxConnections cfg"
    "sv_sessions s = 0" "sv_activeConn s = []" "sv_listening s = False"
    "cfg_TLS cfg = Some tls \<Longrightarrow> stls_Config tls \<noteq> None"
  using assms by (auto simp: New_def Let_def split: if_splits)

lemma New_ok:
  "cfg_Routes cfg \<noteq> None \<Longrightarrow> cfg_ListenAddress cfg \<noteq> [] \<Longrightarrow>
     (\<And>t. cfg_TLS cfg = Some t \<Longrightarrow> stls_Config t \<noteq> None) \<Longrightarrow> 0 \<le> cfg_MaxConnections cfg \<Longrightarrow>
     \<exists>s. New cfg = Inr s"
  by (cases "cfg_TLS cfg") (simp_all add: New_def Let_def)

lemma applyDefaults_fields [simp]:
  "cfg_Routes (applyDefaults c) = cfg_Routes c" "cfg_ListenAddress (applyDefaults c) = cfg_ListenAddress c"
  "cfg_TLS (applyDefaults c) = cfg_TLS c" "cfg_MaxConnections (applyDefaults c) = cfg_MaxConnections c"
  by (simp_all add: applyDefaults_def Let_def)

lemma applyDefaults_positive:
  "0 < sint (cfg_StartupTimeout (applyDefaults c)) \<and> 0 < sint (cfg_DialTimeout (applyDefaults c))
   \<and> 0 < sint (cfg_ShutdownGracePeriod (applyDefaults c)) \<and> 0 < sint (cfg_KeepAlivePeriod (applyDefaults c))"
  by (simp add: applyDefaults_def Let_def)

end
