(* ===== verification/Session.thy ===== *)
theory Session
  imports Server_State
begin

text \<open>
  One client connection from accept to close (\<open>negotiate\<close>, \<open>handle\<close> and \<open>serve\<close> of
  \<^verbatim>\<open>src/src/internal/proxy/session.go\<close>). A run of a session is a function of the
  environment, the server, the number of random reads made so far and the connection; the
  point at which closing the client cuts the upstream copy short is the parameter \<open>cutAt\<close>
  of \<open>relay\<close>. A nil dereference is a panic (\<open>Inl\<close>), like a failing random source.
\<close>

section \<open>Definitions\<close>

definition maxNegotiationRounds :: nat where "maxNegotiationRounds = 4"

definition plaintextRefusal :: "conn \<Rightarrow> conn" where
  "plaintextRefusal = writeFatal SQLStateProtocolViolation
     ''the gateway requires a TLS connection'' ''Connect with sslmode=require or stronger.''"

text \<open>The negotiation loop, by the rounds that are left.\<close>

fun negotiateRounds ::
    "gateway_env \<Rightarrow> ServerTLS option \<Rightarrow> nat \<Rightarrow> bool \<Rightarrow> conn \<Rightarrow> (go_error + StartupPacket) \<times> conn" where
  "negotiateRounds env tls 0 encrypted conn =
     (Inl (ErrorString (''client sent more than '' @ nat_text maxNegotiationRounds
        @ '' negotiation packets without a startup message'')), conn)"
| "negotiateRounds env tls (Suc left) encrypted conn =
     (case ReadStartupPacket (c_in conn) of
        (Inl err, r) \<Rightarrow>
          (Inl (if isBenignClose err then err else wrapf ''reading startup packet'' err), conn\<lparr>c_in := r\<rparr>)
      | (Inr packet, r) \<Rightarrow>
         (let conn = conn\<lparr>c_in := r\<rparr> in
          if IsSSLRequest packet then
            (case tls of
               None \<Rightarrow>
                 (case conn_Write [negotiationRejected] conn of
                    (_, Some err, conn) \<Rightarrow> (Inl (wrapf ''declining TLS'' err), conn)
                  | (_, None, conn) \<Rightarrow> negotiateRounds env tls left encrypted conn)
             | Some _ \<Rightarrow>
                 if encrypted then
                   (Inl (ErrorString ''client sent a second SSLRequest inside an established TLS session''), conn)
                 else (case conn_Write [negotiationAccepted] conn of
                    (_, Some err, conn) \<Rightarrow> (Inl (wrapf ''accepting TLS'' err), conn)
                  | (_, None, conn) \<Rightarrow>
                     (case ge_tlsServer env (c_in conn) of
                        Inl err \<Rightarrow> (Inl (wrapf ''client TLS handshake'' err), conn)
                      | Inr s \<Rightarrow> negotiateRounds env tls left True (conn_secure s conn))))
          else if IsGSSEncRequest packet then
            (case conn_Write [negotiationRejected] conn of
               (_, Some err, conn) \<Rightarrow> (Inl (wrapf ''declining GSSAPI encryption'' err), conn)
             | (_, None, conn) \<Rightarrow> negotiateRounds env tls left encrypted conn)
          else if IsCancelRequest packet then (Inr packet, conn)
          else if (case tls of None \<Rightarrow> False | Some t \<Rightarrow> stls_Required t) \<and> \<not> encrypted then
            (Inl (ErrorString ''client declined the required TLS upgrade''), plaintextRefusal conn)
          else (Inr packet, conn)))"

definition negotiate :: "gateway_env \<Rightarrow> ServerTLS option \<Rightarrow> conn \<Rightarrow> (go_error + StartupPacket) \<times> conn" where
  "negotiate env tls rawConn = negotiateRounds env tls maxNegotiationRounds False rawConn"

text \<open>The database a startup packet asks for; the user name is the protocol's default.\<close>

definition requestedDatabase :: "StartupPacket \<Rightarrow> go_string option" where
  "requestedDatabase startup =
     (case (case Parameter_of startup ''database'' of
              Some database \<Rightarrow> Some database
            | None \<Rightarrow> Parameter_of startup ''user'') of
        None \<Rightarrow> None
      | Some database \<Rightarrow> if database = [] then None else Some database)"

text \<open>The packet forwarded to the backend: the client's, its database rewritten if the route asks.\<close>

definition rewriteStartup :: "Route \<Rightarrow> go_string \<Rightarrow> StartupPacket \<Rightarrow> StartupPacket" where
  "rewriteStartup route database startup =
     (let target = rt_TargetDatabase route in
      if target \<noteq> [] \<and> target \<noteq> database then SetParameter ''database'' target startup else startup)"

record session_result =
  sr_err :: "go_error option"
  sr_client :: conn
  sr_backend :: "conn option"
  sr_cancels :: cancelRegistry
  sr_pos :: nat
  sr_metrics :: "metric list"

text \<open>The rest of \<open>handle\<close> once a route has been found.\<close>

definition proxySession ::
    "gateway_env \<Rightarrow> nat option \<Rightarrow> nat \<Rightarrow> cancelRegistry \<Rightarrow> conn \<Rightarrow> StartupPacket \<Rightarrow> go_string \<Rightarrow> Route
     \<Rightarrow> (go_string + session_result) option" where
  "proxySession env cutAt pos cancels client startup database route =
     (let label = databaseLabel database True;
          stop = (\<lambda>err client backend ms. Some (Inr \<lparr>sr_err = err, sr_client = client, sr_backend = backend,
                    sr_cancels = cancels, sr_pos = pos, sr_metrics = ms\<rparr>))
      in case dialBackend env route of
        (Inl (err, left), ms) \<Rightarrow>
          stop None
            (writeFatal SQLStateConnectionFailure
               (''the gateway could not reach the backend for database '' @ quote_text database)
               ''Check the status of the PostgresRoute and of the backend Service.'' client)
            left (ms @ [ConnectionsInc label outcomeBackendFailed])
      | (Inr backend, ms) \<Rightarrow>
         (case conn_Write (Encode (rewriteStartup route database startup)) backend of
            (_, Some err, backend) \<Rightarrow>
              stop (Some (wrapf ''forwarding startup packet to backend'' err)) client
                (Some (conn_Close backend)) (ms @ [ConnectionsInc label outcomeBackendFailed])
          | (_, None, backend) \<Rightarrow>
             (case conn_SetDeadline False client of
                (Some err, client) \<Rightarrow>
                  stop (Some (wrapf ''clearing handshake deadline'' err)) client (Some (conn_Close backend)) ms
              | (None, client) \<Rightarrow>
                 (case conn_SetDeadline False backend of
                    (Some err, backend) \<Rightarrow>
                      stop (Some (wrapf ''clearing backend deadline'' err)) client (Some (conn_Close backend)) ms
                  | (None, backend) \<Rightarrow>
                     (case relay (ge_rng env) cutAt pos cancels client backend route label of
                        None \<Rightarrow> None
                      | Some (Inl panic) \<Rightarrow> Some (Inl panic)
                      | Some (Inr r) \<Rightarrow>
                          Some (Inr \<lparr>sr_err = rr_err r, sr_client = rr_client r,
                            sr_backend = Some (conn_Close (rr_backend r)),
                            sr_cancels = rr_cancels r, sr_pos = rr_pos r,
                            sr_metrics = ms @ [ConnectionsInc label outcomeProxied, ActiveInc label]
                              @ rr_metrics r @ [ActiveDec label, SessionObserve label]\<rparr>))))))"

definition noDatabaseText :: go_string where
  "noDatabaseText = ''startup message carried neither a database nor a user parameter''"

definition nilPanic :: go_string where
  "nilPanic = ''runtime error: invalid memory address or nil pointer dereference''"

text \<open>The part of \<open>handle\<close> that follows a successful negotiation.\<close>

definition handleStartup ::
    "gateway_env \<Rightarrow> nat option \<Rightarrow> Server \<Rightarrow> nat \<Rightarrow> conn \<Rightarrow> StartupPacket
     \<Rightarrow> (go_string + session_result) option" where
  "handleStartup env cutAt s pos client startup =
     (let stop = (\<lambda>err client backend ms. Some (Inr \<lparr>sr_err = err, sr_client = client, sr_backend = backend,
                    sr_cancels = sv_cancels s, sr_pos = pos, sr_metrics = ms\<rparr>))
      in if IsCancelRequest startup then
           (case forwardCancel env (sv_cancels s) (sp_Cancel startup) of
              (backend, ms) \<Rightarrow> stop None client backend ms)
         else (case requestedDatabase startup of
           None \<Rightarrow>
             stop (Some (ErrorString noDatabaseText))
               (writeFatal SQLStateProtocolViolation noDatabaseText [] client) None
               [ConnectionsInc unroutedLabel outcomeHandshake]
         | Some database \<Rightarrow>
            (case cfg_Routes (sv_cfg s) of
               None \<Rightarrow> Some (Inl nilPanic)
             | Some store \<Rightarrow>
                (case Store_Routes store of
                   None \<Rightarrow> Some (Inl nilPanic)
                 | Some table \<Rightarrow>
                    (case Lookup table database of
                       None \<Rightarrow>
                         stop None
                           (writeFatal SQLStateUndefinedDatabase
                              (''database '' @ quote_text database @ '' does not exist'')
                              ''No PostgresRoute in this cluster claims that database name.'' client)
                           None [ConnectionsInc unroutedLabel outcomeNoRoute]
                     | Some route \<Rightarrow>
                         proxySession env cutAt pos (sv_cancels s) client startup database route)))))"

definition handle ::
    "gateway_env \<Rightarrow> nat option \<Rightarrow> Server \<Rightarrow> nat \<Rightarrow> conn \<Rightarrow> (go_string + session_result) option" where
  "handle env cutAt s pos rawConn =
     (let stop = (\<lambda>err client ms. Some (Inr \<lparr>sr_err = Some err, sr_client = client, sr_backend = None,
                    sr_cancels = sv_cancels s, sr_pos = pos, sr_metrics = ms\<rparr>))
      in case conn_SetDeadline True rawConn of
           (Some err, conn) \<Rightarrow> stop (wrapf ''setting handshake deadline'' err) conn []
         | (None, conn) \<Rightarrow>
            (case negotiate env (cfg_TLS (sv_cfg s)) conn of
               (Inl err, client) \<Rightarrow>
                 stop err client
                   (if isBenignClose err then [] else [ConnectionsInc unroutedLabel outcomeHandshake])
             | (Inr startup, client) \<Rightarrow> handleStartup env cutAt s pos client startup))"

text \<open>
  \<open>serve\<close> around \<open>handle\<close>: what happens before it (tracking and the slot) and the deferred
  calls after it, in the order the deferred functions run.
\<close>

definition serveEnter :: "nat \<Rightarrow> Server \<Rightarrow> bool \<times> Server" where
  "serveEnter conn s = acquireSlot (track conn s)"

definition serveExit :: "nat \<Rightarrow> bool \<Rightarrow> Server \<Rightarrow> Server option" where
  "serveExit conn admitted s =
     (case (if admitted then releaseSlot s else Some s) of
        None \<Rightarrow> None
      | Some s \<Rightarrow> Some (untrack conn s))"

definition rejectFull :: "Server \<Rightarrow> conn \<Rightarrow> conn" where
  "rejectFull s = writeFatal SQLStateTooManyConnections
     ''too many connections for the PostgreSQL gateway''
     (''The gateway is configured to allow at most '' @ int_text (cfg_MaxConnections (sv_cfg s))
        @ '' concurrent connections.'')"

record serve_result =
  sv_after :: Server
  sv_client :: conn
  sv_backend :: "conn option"
  sv_emitted :: "metric list"

text \<open>A connection served while no other session runs; \<open>None\<close> when it never returns.\<close>

definition serve ::
    "gateway_env \<Rightarrow> nat option \<Rightarrow> nat \<Rightarrow> conn \<Rightarrow> nat \<Rightarrow> Server \<Rightarrow> (go_string + serve_result) option" where
  "serve env cutAt pos conn cid s =
     (case serveEnter cid s of
        (False, s1) \<Rightarrow>
          (case serveExit cid False s1 of
             None \<Rightarrow> None
           | Some s2 \<Rightarrow> Some (Inr \<lparr>sv_after = s2, sv_client = conn_Close (rejectFull s1 conn), sv_backend = None,
                 sv_emitted = [ConnectionsInc unroutedLabel outcomeRejected]\<rparr>))
      | (True, s1) \<Rightarrow>
          (case handle env cutAt s1 pos conn of
             None \<Rightarrow> None
           | Some (Inl panic) \<Rightarrow> Some (Inl panic)
           | Some (Inr r) \<Rightarrow>
              (case serveExit cid True (s1\<lparr>sv_cancels := sr_cancels r\<rparr>) of
                 None \<Rightarrow> None
               | Some s2 \<Rightarrow> Some (Inr \<lparr>sv_after = s2, sv_client = conn_Close (sr_client r),
                     sv_backend = sr_backend r, sv_emitted = sr_metrics r\<rparr>))))"

section \<open>Negotiation\<close>

lemma negotiateRounds_InrD:
  assumes "negotiateRounds env tls (Suc left) encrypted c = (Inr p, c')"
  obtains (answered) r where "ReadStartupPacket (c_in c) = (Inr p, r)" "c' = c\<lparr>c_in := r\<rparr>"
      "\<not> IsSSLRequest p" "\<not> IsGSSEncRequest p"
      "IsCancelRequest p \<or> encrypted \<or> (\<forall>t. tls = Some t \<longrightarrow> \<not> stls_Required t)"
  | (declined) packet r n c1 where "ReadStartupPacket (c_in c) = (Inr packet, r)"
      "conn_Write [negotiationRejected] (c\<lparr>c_in := r\<rparr>) = (n, None, c1)"
      "negotiateRounds env tls left encrypted c1 = (Inr p, c')"
  | (upgraded) packet r n c1 s where "ReadStartupPacket (c_in c) = (Inr packet, r)" "tls \<noteq> None" "\<not> encrypted"
      "conn_Write [negotiationAccepted] (c\<lparr>c_in := r\<rparr>) = (n, None, c1)"
      "ge_tlsServer env r = Inr s" "negotiateRounds env tls left True (conn_secure s c1) = (Inr p, c')"
proof -
  from assms obtain packet r where rd: "ReadStartupPacket (c_in c) = (Inr packet, r)"
    by (auto split: prod.splits sum.splits)
  let ?c = "c\<lparr>c_in := r\<rparr>"
  consider "IsSSLRequest packet" "tls = None" | "IsSSLRequest packet" "tls \<noteq> None"
    | "\<not> IsSSLRequest packet" "IsGSSEncRequest packet"
    | "\<not> IsSSLRequest packet" "\<not> IsGSSEncRequest packet" by blast
  then show thesis
  proof cases
    case 2
    then obtain t where t: "tls = Some t" by auto
    obtain n werr c1 where w: "conn_Write [negotiationAccepted] ?c = (n, werr, c1)" by (metis prod_cases3)
    have "c_in c1 = r" using conn_Write_in [OF w] by simp
    with assms 2 t rd w show thesis
      by (cases werr; cases "ge_tlsServer env r"; cases encrypted) (auto intro!: upgraded [OF rd])
  next
    case 4
    then show thesis
      using assms rd
      by (cases tls) (auto simp: Let_def split: if_splits intro!: answered)
  qed (use assms rd in \<open>auto simp: Let_def split: prod.splits option.splits intro: declined\<close>)
qed

lemma ReadStartupPacket_suffix:
  "ReadStartupPacket r = (Inr p, r') \<Longrightarrow> \<exists>pre. si_data r = pre @ si_data r'"
  by (metis ReadStartupPacket_okD append_assoc)

text \<open>
  Where the accepted packet was read from: the connection's own stream when no upgrade
  happened, otherwise a stream that came out of the TLS handshake, which started somewhere in
  the connection's own stream.
\<close>

definition packet_origin :: "gateway_env \<Rightarrow> conn \<Rightarrow> StartupPacket \<Rightarrow> conn \<Rightarrow> bool" where
  "packet_origin env c p c' \<longleftrightarrow>
     (\<exists>s0 pre. ReadStartupPacket s0 = (Inr p, c_in c')
        \<and> (if c_encrypted c' = c_encrypted c then si_data (c_in c) = pre @ si_data s0
           else \<exists>s s' pre0. ge_tlsServer env s = Inr s' \<and> si_data (c_in c) = pre0 @ si_data s
                  \<and> si_data s' = pre @ si_data s0))"

lemma packet_origin_later:
  assumes "packet_origin env c1 p c'" and "c_encrypted c1 = c_encrypted c"
    and "\<exists>pre. si_data (c_in c) = pre @ si_data (c_in c1)"
  shows "packet_origin env c p c'"
proof -
  from assms(3) obtain pre1 where pre1: "si_data (c_in c) = pre1 @ si_data (c_in c1)" by blast
  from assms(1) obtain s0 pre where s0: "ReadStartupPacket s0 = (Inr p, c_in c')"
    and o: "if c_encrypted c' = c_encrypted c1 then si_data (c_in c1) = pre @ si_data s0
           else \<exists>s s' pre0. ge_tlsServer env s = Inr s' \<and> si_data (c_in c1) = pre0 @ si_data s
                  \<and> si_data s' = pre @ si_data s0"
    unfolding packet_origin_def by blast
  show ?thesis
  proof (cases "c_encrypted c' = c_encrypted c")
    case True
    then have "si_data (c_in c) = (pre1 @ pre) @ si_data s0" using o pre1 assms(2) by simp
    with s0 True show ?thesis unfolding packet_origin_def by metis
  next
    case False
    with o assms(2) obtain s s' pre0 where "ge_tlsServer env s = Inr s'"
      "si_data (c_in c1) = pre0 @ si_data s" "si_data s' = pre @ si_data s0" by auto
    then have "ge_tlsServer env s = Inr s' \<and> si_data (c_in c) = (pre1 @ pre0) @ si_data s \<and> si_data s' = pre @ si_data s0"
      using pre1 by simp
    with s0 False show ?thesis unfolding packet_origin_def by metis
  qed
qed

lemma negotiateRounds_ok:
  assumes "negotiateRounds env tls left encrypted c = (Inr p, c')" and "c_encrypted c = encrypted"
  shows "(encrypted \<longrightarrow> c_encrypted c') \<and> packet_origin env c p c'
    \<and> \<not> IsSSLRequest p \<and> \<not> IsGSSEncRequest p
    \<and> (IsCancelRequest p \<or> c_encrypted c' \<or> (\<forall>t. tls = Some t \<longrightarrow> \<not> stls_Required t))
    \<and> (tls = None \<longrightarrow> c_encrypted c' = c_encrypted c)
    \<and> (\<exists>w. c_out c' = c_out c @ w \<and> length w < left \<and> set w \<subseteq> {negotiationAccepted, negotiationRejected})"
  using assms
proof (induction left arbitrary: encrypted c)
  case 0
  then show ?case by simp
next
  case (Suc left)
  from Suc.prems(1) show ?case
  proof (cases rule: negotiateRounds_InrD)
    case (answered r)
    then have "packet_origin env c p c'"
      by (auto simp: packet_origin_def intro!: exI [of _ "c_in c"])
    with answered Suc.prems(2) show ?thesis by auto
  next
    case (declined packet r n c1)
    note fr = conn_Write_frame [OF declined(2)] conn_Write_in [OF declined(2)] conn_Write_ok_out [OF declined(2)]
    have same: "c_encrypted c1 = c_encrypted c" "c_in c1 = r" "c_out c1 = c_out c @ [negotiationRejected]"
      using fr by simp_all
    note IH = Suc.IH [OF declined(3)]
    have "packet_origin env c p c'"
    proof (rule packet_origin_later)
      show "packet_origin env c1 p c'" using IH Suc.prems(2) same by simp
    qed (simp_all add: same ReadStartupPacket_suffix [OF declined(1)])
    moreover obtain w where "c_out c' = c_out c1 @ w" "length w < left"
      "set w \<subseteq> {negotiationAccepted, negotiationRejected}"
      using IH Suc.prems(2) same by auto
    then have "\<exists>w. c_out c' = c_out c @ w \<and> length w < Suc left \<and> set w \<subseteq> {negotiationAccepted, negotiationRejected}"
      using same by (intro exI [of _ "negotiationRejected # w"]) auto
    ultimately show ?thesis
      using IH Suc.prems(2) same by simp
  next
    case (upgraded packet r n c1 s)
    note fr = conn_Write_frame [OF upgraded(4)] conn_Write_in [OF upgraded(4)] conn_Write_ok_out [OF upgraded(4)]
    obtain pre where pre: "si_data (c_in c) = pre @ si_data r" using ReadStartupPacket_suffix [OF upgraded(1)] by blast
    have IH: "c_encrypted c'" "packet_origin env (conn_secure s c1) p c'"
      using Suc.IH [OF upgraded(6)] by (simp_all add: conn_secure_def)
    then obtain s0 pre1 where "ReadStartupPacket s0 = (Inr p, c_in c')" "si_data s = pre1 @ si_data s0"
      by (auto simp: packet_origin_def conn_secure_def)
    then have "packet_origin env c p c'"
      using pre upgraded(3,5) Suc.prems(2) IH(1) unfolding packet_origin_def
      by simp (metis (no_types))
    then show ?thesis
      using Suc.IH [OF upgraded(6)] fr IH(1) upgraded(2) Suc.prems(2) by (auto simp: conn_secure_def)
  qed
qed

section \<open>How a session ends\<close>

lemma writeFatal_frame [simp]: "c_encrypted (writeFatal st m d c) = c_encrypted c"
proof -
  obtain n e c' where "conn_Write (EncodeErrorResponse st m d) (snd (conn_SetWriteDeadline True c)) = (n, e, c')"
    by (metis prod_cases3)
  with conn_Write_frame [OF this] show ?thesis
    by (auto simp: writeFatal_def Let_def conn_SetWriteDeadline_def split: option.splits)
qed

lemma conn_SetDeadline_frame:
  assumes "conn_SetDeadline b c = (e, c')"
  shows "c_encrypted c' = c_encrypted c" "c_in c' = c_in c" "c_out c' = c_out c" "conn_open c' = conn_open c"
    "e = None \<Longrightarrow> c_deadline c' = (b, b)" "c_dlerr c' = c_dlerr c"
  using assms by (auto simp: conn_SetDeadline_def conn_open_def split: option.splits)

text \<open>The three ways the rest of a session can go once its route is known.\<close>

lemma proxySession_cases:
  assumes "proxySession env cutAt pos cancels client startup database route = Some (Inr r)"
  obtains (unreachable) ms where "sr_metrics r = ms @ [ConnectionsInc database outcomeBackendFailed]"
      "set ms \<subseteq> {BackendDialObserve (rt_Database route)}" "length ms \<le> 1"
      "sr_cancels r = cancels" "c_encrypted (sr_client r) = c_encrypted client"
      "\<forall>b. sr_backend r = Some b \<longrightarrow> c_closed b"
  | (deadline) "sr_metrics r = [BackendDialObserve (rt_Database route)]"
      "sr_cancels r = cancels" "c_encrypted (sr_client r) = c_encrypted client"
      "\<forall>b. sr_backend r = Some b \<longrightarrow> c_closed b"
  | (proxied) client' backend rl where "relay (ge_rng env) cutAt pos cancels client' backend route database = Some (Inr rl)"
      "sr_metrics r = [BackendDialObserve (rt_Database route), ConnectionsInc database outcomeProxied, ActiveInc database]
        @ rr_metrics rl @ [ActiveDec database, SessionObserve database]"
      "sr_cancels r = rr_cancels rl" "c_encrypted client' = c_encrypted client" "sr_client r = rr_client rl"
      "c_deadline client' = (False, False)" "c_deadline backend = (False, False)" "sr_backend r = Some (conn_Close (rr_backend rl))"
proof -
  obtain res ms where d: "dialBackend env route = (res, ms)" by fastforce
  then have ms: "set ms \<subseteq> {BackendDialObserve (rt_Database route)}" "length ms \<le> 1"
    "res = Inr b \<Longrightarrow> ms = [BackendDialObserve (rt_Database route)]"
    "res = Inl (err, Some b) \<Longrightarrow> c_closed b" for b err
    by (auto simp: dialBackend_def Let_def conn_Close_def split: sum.splits prod.splits option.splits if_splits)
  show thesis
  proof (cases res)
    case (Inl e)
    then obtain err b where "res = Inl (err, b)" by (cases e) auto
    with assms d ms show thesis
      by (intro unreachable) (auto simp: proxySession_def databaseLabel_def)
  next
    case (Inr b)
    note ms3 = ms(3) [OF Inr]
    obtain n werr b1 where w: "conn_Write (Encode (rewriteStartup route database startup)) b = (n, werr, b1)"
      by (metis prod_cases3)
    show thesis
    proof (cases werr)
      case (Some e)
      with assms d Inr w ms show thesis
        by (intro unreachable) (auto simp: proxySession_def databaseLabel_def conn_Close_def)
    next
      case None
      obtain e1 c1 where c1: "conn_SetDeadline False client = (e1, c1)" by fastforce
      obtain e2 b2 where b2: "conn_SetDeadline False b1 = (e2, b2)" by fastforce
      show thesis
      proof (cases "e1 = None \<and> e2 = None")
        case False
        with assms d Inr w None c1 b2 ms3 conn_SetDeadline_frame [OF c1] show thesis
          by (cases e1; cases e2) (auto simp: proxySession_def Let_def conn_Close_def intro!: deadline)
      next
        case True
        then obtain rl where rl: "relay (ge_rng env) cutAt pos cancels c1 b2 route database = Some (Inr rl)"
          using assms d Inr w None c1 b2
          by (auto simp: proxySession_def databaseLabel_def split: option.splits sum.splits)
        show thesis
          by (rule proxied [OF rl])
            (use assms True d Inr w None c1 b2 ms3 rl conn_SetDeadline_frame [OF c1] conn_SetDeadline_frame [OF b2]
              in \<open>auto simp: proxySession_def databaseLabel_def\<close>)
      qed
    qed
  qed
qed

lemma forwardCancel_frame:
  assumes "forwardCancel env cancels request = (b, ms)"
  shows "\<exists>outcome. ms = [CancelRequestsInc outcome]" "\<forall>c. b = Some c \<longrightarrow> c_closed c"
  using assms
  by (auto simp: forwardCancel_def Let_def conn_Close_def split: option.splits sum.splits prod.splits if_splits)

text \<open>The ways a session can go, from the connection on.\<close>

lemma handle_cases:
  assumes "handle env cutAt s pos rawConn = Some (Inr r)"
  obtains (failed) "sr_metrics r \<in> {[], [ConnectionsInc unroutedLabel outcomeHandshake]}"
      "sr_backend r = None" "sr_cancels r = sv_cancels s"
  | (cancelled) outcome where "sr_metrics r = [CancelRequestsInc outcome]" "sr_cancels r = sv_cancels s"
      "\<forall>b. sr_backend r = Some b \<longrightarrow> c_closed b"
  | (unrouted) conn startup client where "negotiate env (cfg_TLS (sv_cfg s)) conn = (Inr startup, client)"
      "\<not> IsCancelRequest startup" "c_encrypted conn = c_encrypted rawConn"
      "c_encrypted (sr_client r) = c_encrypted client"
      "sr_metrics r = [ConnectionsInc unroutedLabel outcomeNoRoute]" "sr_backend r = None" "sr_cancels r = sv_cancels s"
  | (routed) conn startup client database store table route where
      "negotiate env (cfg_TLS (sv_cfg s)) conn = (Inr startup, client)"
      "\<not> IsCancelRequest startup" "c_encrypted conn = c_encrypted rawConn"
      "requestedDatabase startup = Some database" "cfg_Routes (sv_cfg s) = Some store"
      "Store_Routes store = Some table" "Lookup table database = Some route"
      "proxySession env cutAt pos (sv_cancels s) client startup database route = Some (Inr r)"
proof -
  obtain e conn where dl: "conn_SetDeadline True rawConn = (e, conn)" by fastforce
  obtain res client where ng: "negotiate env (cfg_TLS (sv_cfg s)) conn = (res, client)" by fastforce
  show thesis
  proof (cases "\<exists>startup. e = None \<and> res = Inr startup \<and> \<not> IsCancelRequest startup \<and> requestedDatabase startup \<noteq> None")
    case False
    then consider "e \<noteq> None \<or> (\<exists>err. res = Inl err)"
      | startup where "e = None" "res = Inr startup" "IsCancelRequest startup"
      | startup where "e = None" "res = Inr startup" "\<not> IsCancelRequest startup" "requestedDatabase startup = None"
      by (cases res) auto
    then show thesis
    proof cases
      case 2
      obtain b ms where fc: "forwardCancel env (sv_cancels s) (sp_Cancel startup) = (b, ms)" by fastforce
      with assms dl ng 2 forwardCancel_frame [OF fc] show thesis
        by (auto simp: handle_def handleStartup_def intro!: cancelled)
    qed (use assms dl ng in \<open>auto simp: handle_def handleStartup_def intro!: failed split: option.splits\<close>)
  next
    case True
    then obtain startup database where st: "e = None" "res = Inr startup" "\<not> IsCancelRequest startup"
      "requestedDatabase startup = Some database" by auto
    with assms dl ng obtain store table where tb: "cfg_Routes (sv_cfg s) = Some store" "Store_Routes store = Some table"
      by (auto simp: handle_def handleStartup_def split: option.splits)
    note enc = conn_SetDeadline_frame(1) [OF dl]
    show thesis
    proof (cases "Lookup table database")
      case None
      with assms dl ng st tb show thesis
        by (intro unrouted [OF ng [unfolded st(2)] st(3) enc]) (auto simp: handle_def handleStartup_def)
    next
      case (Some route)
      with assms dl ng st tb show thesis
        by (intro routed [OF ng [unfolded st(2)] st(3) enc st(4) tb Some]) (auto simp: handle_def handleStartup_def)
    qed
  qed
qed

lemma negotiate_ok:
  assumes "negotiate env tls rawConn = (Inr p, c)" and "\<not> c_encrypted rawConn"
  shows "packet_origin env rawConn p c" "\<not> IsSSLRequest p" "\<not> IsGSSEncRequest p"
    "IsCancelRequest p \<or> c_encrypted c \<or> (\<forall>t. tls = Some t \<longrightarrow> \<not> stls_Required t)"
    "tls = None \<Longrightarrow> \<not> c_encrypted c"
    "\<exists>w. c_out c = c_out rawConn @ w \<and> length w < maxNegotiationRounds \<and> set w \<subseteq> {negotiationAccepted, negotiationRejected}"
  using negotiateRounds_ok [OF assms(1) [unfolded negotiate_def]] assms(2) by auto

text \<open>The relay records bytes under the session's label and nothing else.\<close>

lemma relayLoop_metrics:
  assumes "relayLoop rng route label s = Some (Inr (err, s'))"
    and "\<forall>m\<in>set (rs_metrics s). \<exists>d n. m = BytesAdd label d n"
  shows "\<forall>m\<in>set (rs_metrics s'). \<exists>d n. m = BytesAdd label d n"
proof -
  let ?B = "\<lambda>s. \<forall>m\<in>set (rs_metrics s). \<exists>d n. m = BytesAdd label d n"
  have "?B s \<longrightarrow> ?B s'"
    using assms(1)
  proof (rule relayLoop_rule)
    show "?B s \<longrightarrow> ?B t" if "iteration rng route s t" for s t
      using iteration_out [OF that] by auto
    show "?B s \<longrightarrow> ?B u" if "?B s \<longrightarrow> ?B t" "?B t \<longrightarrow> ?B u" for s t u
      using that by blast
  qed (auto simp: countFramed_def spliceToClient_def split: prod.split)
  with assms(2) show ?thesis by blast
qed

lemma relay_metrics:
  assumes "relay rng cutAt pos cancels client backend route label = Some (Inr r)"
  shows "\<forall>m\<in>set (rr_metrics r). \<exists>d n. m = BytesAdd label d n"
proof -
  obtain err s n where run: "relayFromBackend rng pos cancels client backend route label = Some (Inr (err, s))"
    and m: "rr_metrics r = rs_metrics s @ [BytesAdd label directionToBackend n]"
    using relay_InrD(5) [OF assms] by blast
  obtain s0 s1 where "relayLoop rng route label s0 = Some (Inr (err, s1))" "s = releaseIssued s1" "rs_metrics s0 = []"
    using run by (rule relayFromBackend_InrD)
  then show ?thesis using relayLoop_metrics m by fastforce
qed

fun outcomes :: "metric list \<Rightarrow> (go_string \<times> go_string) list" where
  "outcomes [] = []"
| "outcomes (ConnectionsInc label outcome # ms) = (label, outcome) # outcomes ms"
| "outcomes (_ # ms) = outcomes ms"

fun gauge :: "go_string \<Rightarrow> metric list \<Rightarrow> int" where
  "gauge label [] = 0"
| "gauge label (ActiveInc l # ms) = (if l = label then 1 else 0) + gauge label ms"
| "gauge label (ActiveDec l # ms) = (if l = label then - 1 else 0) + gauge label ms"
| "gauge label (_ # ms) = gauge label ms"

lemma outcomes_append [simp]: "outcomes (xs @ ys) = outcomes xs @ outcomes ys"
  by (induction xs rule: outcomes.induct) auto

lemma gauge_append [simp]: "gauge label (xs @ ys) = gauge label xs + gauge label ys"
  by (induction xs rule: gauge.induct) auto

lemma bytes_only:
  "\<forall>m\<in>set ms. \<exists>d n. m = BytesAdd label d n \<Longrightarrow> outcomes ms = [] \<and> gauge l ms = 0"
  by (induction ms) auto

lemma dial_only:
  "set ms \<subseteq> {BackendDialObserve d} \<Longrightarrow> outcomes ms = [] \<and> gauge l ms = 0"
  by (induction ms) auto

section \<open>A plaintext startup\<close>

text \<open>A connection as the accept loop hands it over: open, with deadlines working.\<close>

definition fresh_conn :: "conn \<Rightarrow> bool" where
  "fresh_conn c \<longleftrightarrow> conn_open c \<and> c_dlerr c = None"

definition plaintext_allowed :: "Server \<Rightarrow> bool" where
  "plaintext_allowed s \<longleftrightarrow> (case cfg_TLS (sv_cfg s) of None \<Rightarrow> True | Some t \<Rightarrow> \<not> stls_Required t)"

lemma sendable_codes:
  "sendable p \<Longrightarrow> \<not> IsSSLRequest p \<and> \<not> IsGSSEncRequest p \<and> \<not> IsCancelRequest p"
  by (auto simp: sendable_def MajorVersion_def IsSSLRequest_def IsGSSEncRequest_def IsCancelRequest_def startup_codes)

text \<open>A connection that has worked through a negotiation still works.\<close>

lemma negotiateRounds_open:
  assumes "negotiateRounds env tls left encrypted c = (Inr p, c')" and "fresh_conn c"
  shows "fresh_conn c' \<and> c_deadline c' = c_deadline c"
  using assms
proof (induction left arbitrary: encrypted c)
  case 0
  then show ?case by simp
next
  case (Suc left)
  have kept: "conn_Write bs (c\<lparr>c_in := r\<rparr>) = (n, None, c1) \<Longrightarrow> fresh_conn c1 \<and> c_deadline c1 = c_deadline c" for bs r n c1
    using Suc.prems(2) by (auto simp: conn_Write_def fresh_conn_def conn_open_def)
  from Suc.prems(1) show ?case
  proof (cases rule: negotiateRounds_InrD)
    case (answered r)
    with Suc.prems(2) show ?thesis by (simp add: fresh_conn_def conn_open_def)
  next
    case (declined packet r n c1)
    with Suc.IH kept show ?thesis by metis
  next
    case (upgraded packet r n c1 s)
    then have "fresh_conn (conn_secure s c1)" "c_deadline (conn_secure s c1) = c_deadline c"
      using kept [OF upgraded(4)] by (simp_all add: conn_secure_def fresh_conn_def conn_open_def)
    with Suc.IH upgraded(6) show ?thesis by metis
  qed
qed

abbreviation accepted :: "conn \<Rightarrow> conn" where "accepted c \<equiv> c\<lparr>c_deadline := (True, True)\<rparr>"

lemma negotiated:
  assumes "negotiate env (cfg_TLS (sv_cfg s)) (accepted c) = (Inr p, client)" and "fresh_conn c"
  shows "fresh_conn client" "handle env cutAt s pos c = handleStartup env cutAt s pos client p"
proof -
  have "fresh_conn (accepted c)" using assms(2) by (simp add: fresh_conn_def conn_open_def)
  then show "fresh_conn client" using negotiateRounds_open [OF assms(1) [unfolded negotiate_def]] by blast
  show "handle env cutAt s pos c = handleStartup env cutAt s pos client p"
    using assms by (simp add: handle_def conn_SetDeadline_def fresh_conn_def)
qed

lemma negotiate_plaintext:
  assumes "sendable p" and "plaintext_allowed s" and "c_in c = \<lparr>si_data = Encode p @ rest, si_end = e\<rparr>"
  shows "negotiate env (cfg_TLS (sv_cfg s)) c = (Inr p, c\<lparr>c_in := \<lparr>si_data = rest, si_end = e\<rparr>\<rparr>)"
proof -
  have "ReadStartupPacket (c_in c) = (Inr p, \<lparr>si_data = rest, si_end = e\<rparr>)"
    using ReadStartupPacket_Encode assms(1,3) by (simp add: sendable_def)
  then show ?thesis
    using sendable_codes [OF assms(1)] assms(2)
    by (simp add: negotiate_def maxNegotiationRounds_def numeral_eq_Suc plaintext_allowed_def split: option.splits)
qed

lemma handle_plaintext:
  assumes "sendable p" and "fresh_conn c" and "plaintext_allowed s"
    and "c_in c = \<lparr>si_data = Encode p @ rest, si_end = e\<rparr>"
  shows "handle env cutAt s pos c =
    handleStartup env cutAt s pos (c\<lparr>c_deadline := (True, True), c_in := \<lparr>si_data = rest, si_end = e\<rparr>\<rparr>) p"
  using negotiated(2) [OF negotiate_plaintext [OF assms(1,3)] assms(2)] assms(4) by simp

text \<open>What the first half of a relay leaves for the second; the bytes a copy has taken by the time it is cut off.\<close>

definition copied :: "nat option \<Rightarrow> bytes \<Rightarrow> bytes" where
  "copied cutAt data = (case cutAt of None \<Rightarrow> data | Some k \<Rightarrow> take k data)"

lemma relay_session:
  assumes "relayFromBackend rng pos cancels client backend route label = Some (Inr (None, s))"
    and "conn_open backend" and "si_end (c_in client) = Sentinel IoEOF"
  shows "\<exists>r. relay rng cutAt pos cancels client backend route label = Some (Inr r)
    \<and> rr_err r = None \<and> c_out (rr_client r) = c_out (rs_client s)
    \<and> c_out (rr_backend r) = c_out backend @ copied cutAt (si_data (c_in client))
    \<and> rr_cancels r = rs_cancels s"
  using assms io_Copy_open_cut [OF assms(2,3), of cutAt]
  by (simp add: relay_def errors_Join_def conn_Close_def conn_CloseWrite_def copied_def Let_def)

section \<open>Properties\<close>

text \<open>C1: The gateway does its job end to end. A client whose connection works (no write and no
  deadline call fails on it) negotiates, in the clear or with TLS, and asks for a database that
  is routed to a backend without TLS whose connection works too; it then sends any bytes and
  hangs up, while the backend answers with startup messages, its key, ReadyForQuery and any
  bytes, and hangs up. Then the session succeeds. The backend has received exactly the packet
  the client asked with, its database rewritten if the route says so, and the client's bytes:
  all of them, or, if the backend's end made the relay hang up on the client first, those
  read up to that point (cutAt). The client has received exactly the backend's stream with
  the key replaced by one the gateway issued; both connections are closed, no handshake
  deadline was left armed, and the cancel registry is what it was.\<close>

theorem routed_session_end_to_end:
  assumes "fresh_conn c" and "negotiate env (cfg_TLS (sv_cfg s)) (accepted c) = (Inr p, client)"
    and "\<not> IsCancelRequest p"
    and "c_in client = \<lparr>si_data = query, si_end = Sentinel IoEOF\<rparr>"
    and "requestedDatabase p = Some database" and "cfg_Routes (sv_cfg s) = Some store"
    and "Store_Routes store = Some table" and "Lookup table database = Some route"
    and "\<not> TLS_Enabled (rt_TLS route)" and "ge_dial env (Address route) = Inr b" and "fresh_conn b"
    and "list_all plain pre" and "list_all plain mid" and "fits k" and "fits z"
    and "msg_Type k = MsgBackendKeyData" and "DecodeBackendKeyData (msg_Body k) = Inr bk"
    and "msg_Type z = MsgReadyForQuery"
    and "c_in b = \<lparr>si_data = encodes pre @ Message_Encode k @ encodes mid @ Message_Encode z @ raw,
                   si_end = Sentinel IoEOF\<rparr>"
    and "issue (ge_rng env) pos (sv_cancels s)
       \<lparr>ce_backendAddr = Address route, ce_backendKey = bk, ce_tls = rt_TLS route\<rparr> = Some (Inr (key, cancels'), pos')"
  shows "\<exists>r b'. handle env cutAt s pos c = Some (Inr r) \<and> sr_err r = None
    \<and> sr_backend r = Some b'
    \<and> c_out b' = c_out b @ Encode (rewriteStartup route database p)
        @ (case cutAt of None \<Rightarrow> query | Some k \<Rightarrow> take k query)
    \<and> c_out (sr_client r) = c_out client @ encodes pre @ EncodeBackendKeyData key @ encodes mid
        @ Message_Encode z @ raw
    \<and> c_closed (sr_client r) \<and> c_closed b'
    \<and> c_deadline (sr_client r) = (False, False) \<and> c_deadline b' = (False, False)
    \<and> cancel_lookup (sr_cancels r) = cancel_lookup (sv_cancels s)
    \<and> outcomes (sr_metrics r) = [(database, outcomeProxied)]"
proof -
  let ?c = "client\<lparr>c_deadline := (False, False)\<rparr>"
  let ?b = "b\<lparr>c_out := c_out b @ Encode (rewriteStartup route database p), c_deadline := (False, False)\<rparr>"
  have op: "conn_open ?c" "conn_open ?b" "conn_open b" and dl: "c_dlerr b = None" "c_dlerr client = None"
    using negotiated(1) [OF assms(2,1)] assms(11) by (auto simp: fresh_conn_def conn_open_def)
  have "c_in ?b = c_in b" by simp
  note backend = this [unfolded assms(19)]
  have "c_in ?c = \<lparr>si_data = query, si_end = Sentinel IoEOF\<rparr>" by (simp add: assms(4))
  then have data: "si_data (c_in ?c) = query" "si_end (c_in ?c) = Sentinel IoEOF" by simp_all
  obtain st where st: "relayFromBackend (ge_rng env) pos (sv_cancels s) ?c ?b route database = Some (Inr (None, st))"
    and out: "c_out (rs_client st) = c_out ?c @ encodes pre @ EncodeBackendKeyData key @ encodes mid
        @ Message_Encode z @ raw"
    and reg: "cancel_lookup (rs_cancels st) = cancel_lookup (sv_cancels s)"
    using relayFromBackend_session [OF assms(12-18) op(1) backend assms(20)] by blast
  obtain rl where rl: "relay (ge_rng env) cutAt pos (sv_cancels s) ?c ?b route database = Some (Inr rl)"
    and fin: "rr_err rl = None" "c_out (rr_client rl) = c_out (rs_client st)"
      "c_out (rr_backend rl) = c_out ?b @ copied cutAt query" "rr_cancels rl = rs_cancels st"
    using relay_session [OF st op(2) data(2)] unfolding data(1) by blast
  note link = relay_InrD(1-3) [OF rl]
  have dial: "dialBackend env route = (Inr (b\<lparr>c_deadline := (True, True)\<rparr>), [BackendDialObserve (rt_Database route)])"
    using assms(9,10) dl by (simp add: dialBackend_def conn_SetDeadline_def)
  have "conn_open (b\<lparr>c_deadline := (True, True)\<rparr>)" using op(3) by (simp add: conn_open_def)
  then have "proxySession env cutAt pos (sv_cancels s) client p database route =
    Some (Inr \<lparr>sr_err = rr_err rl, sr_client = rr_client rl, sr_backend = Some (conn_Close (rr_backend rl)),
      sr_cancels = rr_cancels rl, sr_pos = rr_pos rl,
      sr_metrics = [BackendDialObserve (rt_Database route), ConnectionsInc database outcomeProxied, ActiveInc database]
        @ rr_metrics rl @ [ActiveDec database, SessionObserve database]\<rparr>)"
    using dl rl by (simp add: proxySession_def dial conn_Write_open conn_SetDeadline_def databaseLabel_def)
  then have "handle env cutAt s pos c = Some (Inr \<lparr>sr_err = rr_err rl, sr_client = rr_client rl,
      sr_backend = Some (conn_Close (rr_backend rl)), sr_cancels = rr_cancels rl, sr_pos = rr_pos rl,
      sr_metrics = [BackendDialObserve (rt_Database route), ConnectionsInc database outcomeProxied, ActiveInc database]
        @ rr_metrics rl @ [ActiveDec database, SessionObserve database]\<rparr>)"
    using negotiated(2) [OF assms(2,1)] assms(3,5-8) by (simp add: handleStartup_def)
  then show ?thesis
    using fin out reg link bytes_only [OF relay_metrics [OF rl]]
    by (simp add: conn_Close_def same_link_def copied_def)
qed

text \<open>C20: A client that asks for a database nobody routes is told so and costs no backend. However
  it negotiated, in the clear or with TLS, on a connection that works: nothing is dialled
  whatever the network would do, no key is issued, the refusal is counted in the fixed bucket,
  and after the answers to its negotiation (at most three bytes) the client is sent one message
  and nothing else, an ErrorResponse whose fields, read as the protocol prescribes, are the
  severity FATAL, the code 3D000 (undefined database), a text that names what was asked for and
  a detail.\<close>

theorem unrouted_database_is_refused:
  assumes "fresh_conn c" and "\<not> c_encrypted c"
    and "negotiate env (cfg_TLS (sv_cfg s)) (accepted c) = (Inr p, client)" and "\<not> IsCancelRequest p"
    and "requestedDatabase p = Some database" and "cfg_Routes (sv_cfg s) = Some store"
    and "Store_Routes store = Some table" and "Lookup table database = None"
  shows "\<exists>r answers sent body. handle env cutAt s pos c = Some (Inr r) \<and> sr_err r = None \<and> sr_backend r = None
    \<and> sr_cancels r = sv_cancels s \<and> sr_metrics r = [ConnectionsInc unroutedLabel outcomeNoRoute]
    \<and> c_out (sr_client r) = c_out c @ answers @ sent
    \<and> length answers \<le> 3 \<and> set answers \<subseteq> {negotiationAccepted, negotiationRejected}
    \<and> Next (NewMessageReader \<lparr>si_data = sent, si_end = Sentinel IoEOF\<rparr>)
        = (Inr \<lparr>msg_Type = CHR ''E'', msg_Body = body\<rparr>,
           \<lparr>mr_r = \<lparr>si_data = [], si_end = Sentinel IoEOF\<rparr>, mr_cap = length body\<rparr>)
    \<and> decodeFields body = Some [(CHR ''S'', ''FATAL''), (CHR ''V'', ''FATAL''), (CHR ''C'', ''3D000''),
        (CHR ''M'', ''database '' @ quote_text database @ '' does not exist''),
        (CHR ''D'', ''No PostgresRoute in this cluster claims that database name.'')]"
proof -
  let ?m = "''database '' @ quote_text database @ '' does not exist''"
  let ?d = "''No PostgresRoute in this cluster claims that database name.''"
  let ?sent = "EncodeErrorResponse ''3D000'' ?m ?d"
  have op: "conn_open client" using negotiated(1) [OF assms(3,1)] by (simp add: fresh_conn_def)
  have enc: "\<not> c_encrypted (accepted c)" using assms(2) by simp
  note ok = negotiate_ok [OF assms(3) enc]
  obtain s0 where rd: "ReadStartupPacket s0 = (Inr p, c_in client)"
    using ok(1) by (auto simp: packet_origin_def)
  obtain answers where an: "c_out client = c_out c @ answers" "length answers \<le> 3"
    "set answers \<subseteq> {negotiationAccepted, negotiationRejected}"
    using ok(6) by (auto simp: maxNegotiationRounds_def)
  obtain key where "findParameter key (sp_Parameters p) = Some database"
    using assms(5) by (auto simp: requestedDatabase_def Parameter_of_def split: option.splits if_splits)
  then have "length database \<le> 10000"
    using ReadStartupPacket_parameter [OF rd] by (simp add: MaxStartupPacketLength_def)
  then have "length ''3D000'' + length ?m + length ?d + 100 \<le> MaxMessageLength"
    using quote_text_ok(2) [of database] by (simp add: MaxMessageLength_def)
  moreover have "nul_free ?m" "nul_free ''3D000''" "nul_free ?d"
    using quote_text_ok(1) [of database] by (auto simp: nul_free_def)
  ultimately obtain body where body:
    "Next (NewMessageReader \<lparr>si_data = ?sent @ [], si_end = Sentinel IoEOF\<rparr>)
        = (Inr \<lparr>msg_Type = MsgErrorResponse, msg_Body = body\<rparr>,
           \<lparr>mr_r = \<lparr>si_data = [], si_end = Sentinel IoEOF\<rparr>, mr_cap = length body\<rparr>)"
    "decodeFields body = Some ([(CHR ''S'', ''FATAL''), (CHR ''V'', ''FATAL''), (CHR ''C'', ''3D000''), (CHR ''M'', ?m)]
        @ (if ?d = [] then [] else [(CHR ''D'', ?d)]))"
    using error_response_decodes [of "''3D000''" ?m ?d "[]" "Sentinel IoEOF"] by blast
  let ?r = "\<lparr>sr_err = None, sr_client = writeFatal SQLStateUndefinedDatabase ?m ?d client, sr_backend = None,
    sr_cancels = sv_cancels s, sr_pos = pos, sr_metrics = [ConnectionsInc unroutedLabel outcomeNoRoute]\<rparr>"
  have "handle env cutAt s pos c = Some (Inr ?r)"
    using negotiated(2) [OF assms(3,1)] assms(4-8) by (simp add: handleStartup_def)
  moreover have "c_out (sr_client ?r) = c_out c @ answers @ ?sent"
    using writeFatal_open [OF op] an(1) by (simp add: SQLStateUndefinedDatabase_def)
  ultimately show ?thesis
    using an(2,3) body
    by (intro exI [of _ ?r] exI [of _ answers] exI [of _ ?sent] exI [of _ body]) (simp add: MsgErrorResponse_def)
qed

text \<open>C2: With TLS required, a connection on which no TLS handshake took place never gets as far as
  a lookup, a dial for a session or a relay: all that can happen to it is a failed handshake, with
  no backend connection at all, or the forwarding of a cancel request; the cancel registry
  is left as it was.\<close>

theorem required_tls_is_enforced:
  assumes "cfg_TLS (sv_cfg s) = Some t" and "stls_Required t" and "\<not> c_encrypted rawConn"
    and "handle env cutAt s pos rawConn = Some (Inr r)" and "\<not> c_encrypted (sr_client r)"
  shows "set (sr_metrics r) \<subseteq> {ConnectionsInc unroutedLabel outcomeHandshake} \<union> range CancelRequestsInc
    \<and> sr_cancels r = sv_cancels s
    \<and> (sr_backend r = None \<or> (\<exists>outcome. sr_metrics r = [CancelRequestsInc outcome]))"
  using assms(4)
proof (cases rule: handle_cases)
  case (unrouted conn startup client)
  then have "c_encrypted client" using negotiate_ok(4) [OF unrouted(1)] assms(1-3) by auto
  with unrouted assms(5) show ?thesis by simp
next
  case (routed conn startup client database store table route)
  then have "c_encrypted client" using negotiate_ok(4) [OF routed(1)] assms(1-3) by auto
  from routed(8) this show ?thesis
    using assms(5)
    by (cases rule: proxySession_cases) (auto dest: relay_InrD(1) simp: same_link_def)
qed auto

text \<open>C3: The startup packet a session acts on was read either entirely from the stream the client
  opened with, or entirely from what came out of the TLS handshake: bytes sent in the clear
  behind an SSLRequest are handed to the handshake and never parsed as protocol. Whichever it
  was, before the packet the client was sent at most three one-byte answers and nothing else.\<close>

theorem negotiated_packet_has_one_origin:
  assumes "negotiate env tls rawConn = (Inr p, c)" and "\<not> c_encrypted rawConn"
  shows "(\<exists>s0 pre. ReadStartupPacket s0 = (Inr p, c_in c)
      \<and> (\<not> c_encrypted c \<and> si_data (c_in rawConn) = pre @ si_data s0
         \<or> c_encrypted c \<and> (\<exists>s s' pre0. ge_tlsServer env s = Inr s'
              \<and> si_data (c_in rawConn) = pre0 @ si_data s \<and> si_data s' = pre @ si_data s0)))
    \<and> \<not> IsSSLRequest p \<and> \<not> IsGSSEncRequest p
    \<and> (\<exists>w. c_out c = c_out rawConn @ w \<and> length w \<le> 3 \<and> set w \<subseteq> {negotiationAccepted, negotiationRejected})"
proof -
  note ok = negotiate_ok [OF assms]
  from ok(1) obtain s0 pre where s0: "ReadStartupPacket s0 = (Inr p, c_in c)"
    and o: "if c_encrypted c = c_encrypted rawConn then si_data (c_in rawConn) = pre @ si_data s0
           else \<exists>s s' pre0. ge_tlsServer env s = Inr s' \<and> si_data (c_in rawConn) = pre0 @ si_data s
                  \<and> si_data s' = pre @ si_data s0"
    unfolding packet_origin_def by blast
  have "\<not> c_encrypted c \<and> si_data (c_in rawConn) = pre @ si_data s0
         \<or> c_encrypted c \<and> (\<exists>s s' pre0. ge_tlsServer env s = Inr s'
              \<and> si_data (c_in rawConn) = pre0 @ si_data s \<and> si_data s' = pre @ si_data s0)"
    using o assms(2) by (cases "c_encrypted c") simp_all
  moreover obtain w where "c_out c = c_out rawConn @ w" "length w \<le> 3"
    "set w \<subseteq> {negotiationAccepted, negotiationRejected}"
    using ok(6) by (auto simp: maxNegotiationRounds_def)
  ultimately show ?thesis
    using s0 ok(2,3) by blast
qed

text \<open>A session is accounted for exactly: it adds at most one to the connections counter, its
  label is the fixed bucket or a database of the routing table in force, so a client cannot
  mint metric labels, and the gauge of active sessions ends where it started.\<close>

lemma session_metrics_are_accounted:
  assumes "handle env cutAt s pos rawConn = Some (Inr r)"
  shows "length (outcomes (sr_metrics r)) \<le> 1
    \<and> (\<forall>label outcome. (label, outcome) \<in> set (outcomes (sr_metrics r)) \<longrightarrow>
         label = unroutedLabel
         \<or> (\<exists>store table route. cfg_Routes (sv_cfg s) = Some store \<and> Store_Routes store = Some table
              \<and> Lookup table label = Some route))
    \<and> gauge l (sr_metrics r) = 0"
  using assms
proof (cases rule: handle_cases)
  case (routed conn startup client database store table route)
  from routed(8) show ?thesis
  proof (cases rule: proxySession_cases)
    case (unreachable ms)
    then show ?thesis using routed dial_only [OF unreachable(2)] by auto
  next
    case (proxied client' backend rl)
    then show ?thesis using routed bytes_only [OF relay_metrics [OF proxied(1)]] by auto
  qed auto
qed auto

text \<open>A connection is served with everything it took given back: for a connection not tracked
  before, when \<open>serve\<close> returns the slots in use and the tracked connections are what they
  were, no other session's cancel key was touched, and the client and any backend that was
  dialled are closed.\<close>

lemma serve_gives_everything_back:
  assumes "serve env cutAt pos conn cid s = Some (Inr r)" and "cid \<notin> fst ` set (sv_activeConn s)"
  shows "sv_slots (sv_after r) = sv_slots s \<and> sv_activeConn (sv_after r) = sv_activeConn s
    \<and> (\<forall>k e. cancel_lookup (sv_cancels s) k = Some e \<longrightarrow> cancel_lookup (sv_cancels (sv_after r)) k = Some e)
    \<and> c_closed (sv_client r) \<and> (\<forall>b. sv_backend r = Some b \<longrightarrow> c_closed b)"
proof -
  have tr: "gomap_del (gomap_set (sv_activeConn s) cid ()) cid = sv_activeConn s"
    using assms(2) by (simp add: gomap_del_set_fresh)
  have keep: "(\<forall>k e. cancel_lookup (sv_cancels s1) k = Some e \<longrightarrow> cancel_lookup (sr_cancels h) k = Some e)
      \<and> (\<forall>b. sr_backend h = Some b \<longrightarrow> c_closed b)"
    if "handle env cutAt s1 pos conn = Some (Inr h)" for s1 h
    using that
  proof (cases rule: handle_cases)
    case (routed conn startup client database store table route)
    from routed(8) show ?thesis
      by (cases rule: proxySession_cases)
        (auto simp: conn_Close_def dest!: relay_InrD(5) dest: relayFromBackend_registry)
  qed auto
  obtain ok s1 where en: "serveEnter cid s = (ok, s1)" by fastforce
  have s1: "sv_cancels s1 = sv_cancels s"
    using en by (auto simp: serveEnter_def acquireSlot_def track_def split: option.splits if_splits)
  have ex: "sv_slots s2 = sv_slots s \<and> sv_activeConn s2 = sv_activeConn s \<and> sv_cancels s2 = x"
    if "serveExit cid ok (s1\<lparr>sv_cancels := x\<rparr>) = Some s2" for s2 x
    using en that tr
    by (auto simp: serveEnter_def serveExit_def acquireSlot_def releaseSlot_def track_def untrack_def
        split: option.splits if_splits)
  show ?thesis
  proof (cases ok)
    case True
    with assms(1) en obtain h where "handle env cutAt s1 pos conn = Some (Inr h)"
      and x: "serveExit cid ok (s1\<lparr>sv_cancels := sr_cancels h\<rparr>) = Some (sv_after r)"
      and "sv_client r = conn_Close (sr_client h)" "sv_backend r = sr_backend h"
      by (auto simp: serve_def split: option.splits sum.splits)
    then show ?thesis using keep ex [OF x] s1 by (simp add: conn_Close_def)
  next
    case False
    with assms(1) en have x: "serveExit cid ok (s1\<lparr>sv_cancels := sv_cancels s\<rparr>) = Some (sv_after r)"
      and "sv_client r = conn_Close (rejectFull s1 conn)" "sv_backend r = None"
      by (auto simp: serve_def s1 [symmetric] split: option.splits)
    then show ?thesis using ex [OF x] by (simp add: conn_Close_def)
  qed
qed

text \<open>C34: A startup packet of the right version and length whose parameter list is cut short is taken
  for a peer that hung up: the session ends without an answer to the client and without
  counting a failed handshake.\<close>

theorem malformed_startup_is_silent:
  assumes "fresh_conn c" and "signed_drop_bit 16 code = (3 :: int32)"
    and "parseParameters payload = Inl err" and "length payload + 8 \<le> MaxStartupPacketLength"
    and "c_in c = \<lparr>si_data = uint32_bytes (word_of_nat (length payload + 8)) @ uint32_bytes code @ payload @ rest,
                   si_end = e\<rparr>"
  shows "\<exists>r. handle env cutAt s pos c = Some (Inr r) \<and> sr_metrics r = [] \<and> c_out (sr_client r) = c_out c"
proof -
  have "ReadStartupPacket (c_in c) = (Inl err, \<lparr>si_data = rest, si_end = e\<rparr>)"
    using ReadStartupPacket_framed [of "uint32_bytes code @ payload" "length payload + 8" rest e]
      decodeStartup_version3 [OF assms(2), of payload] assms(3-5)
    by (simp add: startup_limits)
  moreover have "isBenignClose err"
    using parseLoop_InlD assms(3) by (auto simp: isBenignClose_def parseParameters_def)
  ultimately have "negotiate env (cfg_TLS (sv_cfg s)) (c\<lparr>c_deadline := (True, True)\<rparr>) =
      (Inl err, c\<lparr>c_deadline := (True, True), c_in := \<lparr>si_data = rest, si_end = e\<rparr>\<rparr>)"
    by (simp add: negotiate_def maxNegotiationRounds_def numeral_eq_Suc)
  then show ?thesis
    using assms(1) \<open>isBenignClose err\<close> by (simp add: handle_def conn_SetDeadline_def fresh_conn_def)
qed

text \<open>C36: A startup packet that names the database twice is routed by one name and served by the other.
  The gateway looks up the first occurrence and rewrites only that one; the last occurrence, which a
  backend that keeps the last value of a repeated parameter connects to, reaches it as the
  client wrote it, whatever the route's target database is.\<close>

theorem repeated_database_escapes_routing:
  assumes "sp_Parameters p = pre @ \<lparr>par_Key = ''database'', par_Value = named\<rparr> # mid
      @ \<lparr>par_Key = ''database'', par_Value = smuggled\<rparr> # post"
    and "\<forall>q\<in>set (pre @ post). par_Key q \<noteq> ''database''" and "named \<noteq> []"
  shows "requestedDatabase p = Some named
    \<and> findParameter ''database'' (rev (sp_Parameters (rewriteStartup route named p))) = Some smuggled
    \<and> (\<exists>first. sp_Parameters (rewriteStartup route named p) =
         pre @ \<lparr>par_Key = ''database'', par_Value = first\<rparr> # mid @ \<lparr>par_Key = ''database'', par_Value = smuggled\<rparr> # post)"
proof -
  have skip: "findParameter key (xs @ ys) = findParameter key ys" if "\<forall>q\<in>set xs. par_Key q \<noteq> key" for key xs ys
    using that by (induction xs) auto
  have set: "setParameters key v (xs @ \<lparr>par_Key = key, par_Value = w\<rparr> # ys) = xs @ \<lparr>par_Key = key, par_Value = v\<rparr> # ys"
    if "\<forall>q\<in>set xs. par_Key q \<noteq> key" for key v w xs ys
    using that by (induction xs) auto
  have "requestedDatabase p = Some named"
    using assms by (simp add: requestedDatabase_def Parameter_of_def skip)
  moreover have "\<exists>first. sp_Parameters (rewriteStartup route named p) =
      pre @ \<lparr>par_Key = ''database'', par_Value = first\<rparr> # mid @ \<lparr>par_Key = ''database'', par_Value = smuggled\<rparr> # post"
    using assms(1,2) by (simp add: rewriteStartup_def SetParameter_def Let_def set)
  moreover have "findParameter ''database'' (rev (pre @ x # mid @ \<lparr>par_Key = ''database'', par_Value = smuggled\<rparr> # post)) = Some smuggled" for x
    using assms(2) by (simp add: skip)
  ultimately show ?thesis by auto
qed

section \<open>Witnesses\<close>

definition sample_server :: "ServerTLS option \<Rightarrow> (go_string, Route) gomap \<Rightarrow> Server" where
  "sample_server tls routes =
     \<lparr>sv_cfg = \<lparr>cfg_ListenAddress = '':5432'',
        cfg_Routes = Some (Store_Store (Some \<lparr>sn_Table = Some (NewTable (Some routes)), sn_Decisions = []\<rparr>) NewStore),
        cfg_TLS = tls, cfg_MaxConnections = 2, cfg_StartupTimeout = DefaultStartupTimeout,
        cfg_DialTimeout = DefaultDialTimeout, cfg_ShutdownGracePeriod = DefaultShutdownGracePeriod,
        cfg_KeepAlivePeriod = DefaultKeepAlivePeriod\<rparr>,
      sv_cancels = newCancelRegistry, sv_slots = Some \<lparr>sl_cap = 2, sl_used = 0\<rparr>, sv_listening = True, sv_addr = None,
      sv_sessions = 1, sv_activeConn = []\<rparr>"

lemma sample_server_simps:
  "cfg_TLS (sv_cfg (sample_server tls routes)) = tls" "sv_cancels (sample_server tls routes) = newCancelRegistry"
  "\<exists>store. cfg_Routes (sv_cfg (sample_server tls routes)) = Some store \<and> Store_Routes store = Some \<lparr>tb_routes = routes\<rparr>"
  by (simp_all add: sample_server_def Store_Store_def Store_Routes_def NewTable_def Let_def)

lemma sample_startup_database: "requestedDatabase sample_startup = Some ''orders''"
  by (simp add: requestedDatabase_def Parameter_of_def sample_startup_def)

lemma sample_conn_fresh: "fresh_conn (sample_conn input)"
  by (simp add: fresh_conn_def sample_conn_open)

text \<open>A client that hangs up without a word.\<close>

lemma sample_silent:
  "handle (sample_env []) None s 0 (sample_conn []) =
     Some (Inr \<lparr>sr_err = Some (Sentinel IoEOF), sr_client = (sample_conn [])\<lparr>c_deadline := (True, True)\<rparr>, sr_backend = None,
       sr_cancels = sv_cancels s, sr_pos = 0, sr_metrics = []\<rparr>)"
  by (simp add: handle_def conn_SetDeadline_def sample_conn_def negotiate_def maxNegotiationRounds_def numeral_eq_Suc
      ReadStartupPacket_def io_ReadFull_def)

theorem routed_session_end_to_end_witness:
  "\<exists>r b'. handle (sample_env (encodes [sample_message] @ Message_Encode sample_keydata @ encodes []
          @ Message_Encode sample_ready @ ''rows'')) (Some 3) (sample_server None [(''orders'', plain_route)]) 0
        (sample_conn (Encode sample_startup @ ''query'')) = Some (Inr r)
     \<and> sr_err r = None \<and> sr_backend r = Some b' \<and> c_out b' = [] @ Encode sample_startup @ ''que''
     \<and> c_out (sr_client r) = [] @ encodes [sample_message] @ EncodeBackendKeyData sample_key @ encodes []
          @ Message_Encode sample_ready @ ''rows''"
proof -
  let ?stream = "encodes [sample_message] @ Message_Encode sample_keydata @ encodes [] @ Message_Encode sample_ready @ ''rows''"
  let ?env = "sample_env ?stream" and ?s = "sample_server None [(''orders'', plain_route)]"
  let ?c = "sample_conn (Encode sample_startup @ ''query'')" and ?b = "sample_conn ?stream"
  let ?client = "(accepted ?c)\<lparr>c_in := \<lparr>si_data = ''query'', si_end = Sentinel IoEOF\<rparr>\<rparr>"
  obtain store where st: "cfg_Routes (sv_cfg ?s) = Some store" "Store_Routes store = Some \<lparr>tb_routes = [(''orders'', plain_route)]\<rparr>"
    using sample_server_simps(3) by blast
  have 1: "plaintext_allowed ?s" by (simp add: plaintext_allowed_def sample_server_simps)
  have 2: "c_in (accepted ?c) = \<lparr>si_data = Encode sample_startup @ ''query'', si_end = Sentinel IoEOF\<rparr>"
    "c_in ?client = \<lparr>si_data = ''query'', si_end = Sentinel IoEOF\<rparr>"
    "c_in ?b = \<lparr>si_data = ?stream, si_end = Sentinel IoEOF\<rparr>" by (simp_all add: sample_conn_def)
  have 3: "Lookup \<lparr>tb_routes = [(''orders'', plain_route)]\<rparr> ''orders'' = Some plain_route" by (simp add: Lookup_def)
  have 4: "\<not> TLS_Enabled (rt_TLS plain_route)" by (simp add: TLS_Enabled_def plain_route_def)
  have 5: "ge_dial ?env (Address plain_route) = Inr ?b" by (simp add: sample_env_def)
  have 6: "list_all plain [sample_message]" "list_all plain []" using sample_messages(1) by simp_all
  have 7: "issue (ge_rng ?env) 0 (sv_cancels ?s) e = Some (Inr (sample_key, \<lparr>cg_entries = [(sample_key, e)]\<rparr>), 1)" for e
    using sample_issue by (simp add: sample_env_def sample_server_simps)
  have 8: "rewriteStartup plain_route ''orders'' sample_startup = sample_startup" "c_out ?b = []" "c_out ?client = []"
    "(case Some 3 of None \<Rightarrow> ''query'' | Some k \<Rightarrow> take k ''query'') = ''que''"
    by (simp_all add: rewriteStartup_def plain_route_def tls_route_def sample_conn_def)
  have 9: "\<not> IsCancelRequest sample_startup" using sendable_codes [OF sample_startup_ok(5)] by simp
  from routed_session_end_to_end [OF sample_conn_fresh negotiate_plaintext [OF sample_startup_ok(5) 1 2(1)] 9 2(2)
      sample_startup_database st 3 4 5 sample_conn_fresh 6 sample_messages(2,3,4,6,5) 2(3) 7, of "Some 3"]
  show ?thesis unfolding 8 by blast
qed

text \<open>A server that requires TLS, and a client that sends its startup packet in the clear.\<close>

abbreviation strict_server :: Server where
  "strict_server \<equiv> sample_server (Some \<lparr>stls_Config = Some [], stls_Required = True\<rparr>) [(''orders'', plain_route)]"

lemma sample_declined:
  "negotiate env (cfg_TLS (sv_cfg strict_server)) (accepted (sample_conn (Encode sample_startup))) =
     (Inl (ErrorString ''client declined the required TLS upgrade''),
      plaintextRefusal ((accepted (sample_conn (Encode sample_startup)))\<lparr>c_in := \<lparr>si_data = [], si_end = Sentinel IoEOF\<rparr>\<rparr>))"
proof -
  have "ReadStartupPacket (c_in (accepted (sample_conn (Encode sample_startup))))
      = (Inr sample_startup, \<lparr>si_data = [], si_end = Sentinel IoEOF\<rparr>)"
    using ReadStartupPacket_Encode [OF sample_startup_ok(1-4), of "[]"] by (simp add: sample_conn_def)
  then show ?thesis
    using sendable_codes [OF sample_startup_ok(5)]
    by (simp add: negotiate_def maxNegotiationRounds_def numeral_eq_Suc sample_server_simps)
qed

theorem required_tls_is_enforced_witness:
  "\<exists>r. handle (sample_env []) None strict_server 0 (sample_conn (Encode sample_startup)) = Some (Inr r)
     \<and> sr_err r = Some (ErrorString ''client declined the required TLS upgrade'')
     \<and> set (sr_metrics r) \<subseteq> {ConnectionsInc unroutedLabel outcomeHandshake} \<union> range CancelRequestsInc
     \<and> sr_backend r = None \<and> sr_cancels r = sv_cancels strict_server"
proof -
  let ?c = "sample_conn (Encode sample_startup)"
  let ?client = "plaintextRefusal ((accepted ?c)\<lparr>c_in := \<lparr>si_data = [], si_end = Sentinel IoEOF\<rparr>\<rparr>)"
  let ?r = "\<lparr>sr_err = Some (ErrorString ''client declined the required TLS upgrade''), sr_client = ?client,
    sr_backend = None, sr_cancels = sv_cancels strict_server, sr_pos = 0,
    sr_metrics = [ConnectionsInc unroutedLabel outcomeHandshake]\<rparr>"
  have h: "handle (sample_env []) None strict_server 0 ?c = Some (Inr ?r)"
    using sample_declined [of "sample_env []"] sample_conn_fresh [of "Encode sample_startup"]
    by (simp add: handle_def conn_SetDeadline_def fresh_conn_def)
  have "\<not> c_encrypted ?c" "\<not> c_encrypted (sr_client ?r)"
    by (simp_all add: sample_conn_def plaintextRefusal_def)
  from required_tls_is_enforced [OF sample_server_simps(1) _ this(1) h this(2)]
  have "set (sr_metrics ?r) \<subseteq> {ConnectionsInc unroutedLabel outcomeHandshake} \<union> range CancelRequestsInc
      \<and> sr_cancels ?r = sv_cancels strict_server" by simp
  with h show ?thesis by (intro exI [of _ ?r]) simp
qed

theorem negotiated_packet_has_one_origin_witness:
  "\<exists>s0 pre. ReadStartupPacket s0 = (Inr sample_startup, \<lparr>si_data = ''query'', si_end = Sentinel IoEOF\<rparr>)
     \<and> Encode sample_startup @ ''query'' = pre @ si_data s0"
proof -
  let ?c = "sample_conn (Encode sample_startup @ ''query'')"
  let ?c' = "sample_conn ''query''"
  have rd: "ReadStartupPacket (c_in ?c) = (Inr sample_startup, \<lparr>si_data = ''query'', si_end = Sentinel IoEOF\<rparr>)"
    using ReadStartupPacket_Encode [OF sample_startup_ok(1-4)] by (simp add: sample_conn_def)
  have "?c\<lparr>c_in := \<lparr>si_data = ''query'', si_end = Sentinel IoEOF\<rparr>\<rparr> = ?c'" by (simp add: sample_conn_def)
  with rd sendable_codes [OF sample_startup_ok(5)]
  have n: "negotiate (sample_env []) None ?c = (Inr sample_startup, ?c')"
    by (simp add: negotiate_def maxNegotiationRounds_def numeral_eq_Suc)
  have "\<not> c_encrypted ?c" "\<not> c_encrypted ?c'" "c_in ?c' = \<lparr>si_data = ''query'', si_end = Sentinel IoEOF\<rparr>"
    "si_data (c_in ?c) = Encode sample_startup @ ''query''" by (simp_all add: sample_conn_def)
  with negotiated_packet_has_one_origin [OF n] show ?thesis by auto
qed

text \<open>A client that asks for TLS first, on a server that requires it; the sample handshake hands the stream through.\<close>

abbreviation careful_client :: conn where
  "careful_client \<equiv> sample_conn (SSLRequest_bytes @ Encode (SetParameter ''database'' ''nowhere'' sample_startup))"

theorem unrouted_database_is_refused_witness:
  "\<exists>r body. handle (sample_env []) None strict_server 0 careful_client = Some (Inr r)
     \<and> sr_backend r = None \<and> sr_metrics r = [ConnectionsInc unroutedLabel outcomeNoRoute]
     \<and> decodeFields body = Some [(CHR ''S'', ''FATAL''), (CHR ''V'', ''FATAL''), (CHR ''C'', ''3D000''),
        (CHR ''M'', ''database '' @ quote_text ''nowhere'' @ '' does not exist''),
        (CHR ''D'', ''No PostgresRoute in this cluster claims that database name.'')]"
proof -
  let ?p = "SetParameter ''database'' ''nowhere'' sample_startup"
  have p: "sendable ?p" "requestedDatabase ?p = Some ''nowhere''"
    using sample_startup_ok
    by (simp_all add: sendable_def SetParameter_def sample_startup_def MajorVersion_def ProtocolVersion3_def wf_params_def
        wf_param_def nul_free_def MaxStartupPacketLength_def requestedDatabase_def Parameter_of_def)
  obtain store where st: "cfg_Routes (sv_cfg strict_server) = Some store"
    "Store_Routes store = Some \<lparr>tb_routes = [(''orders'', plain_route)]\<rparr>"
    using sample_server_simps(3) by blast
  let ?rest = "\<lparr>si_data = Encode ?p, si_end = Sentinel IoEOF\<rparr>" and ?done = "\<lparr>si_data = [], si_end = Sentinel IoEOF\<rparr>"
  let ?ssl = "\<lparr>sp_Code = SSLRequestCode, sp_Parameters = [], sp_Cancel = zeroCancel\<rparr>"
  let ?client = "(accepted careful_client)\<lparr>c_in := ?done, c_out := [negotiationAccepted], c_encrypted := True\<rparr>"
  have rd1: "ReadStartupPacket \<lparr>si_data = SSLRequest_bytes @ Encode ?p, si_end = Sentinel IoEOF\<rparr> = (Inr ?ssl, ?rest)"
    using ReadStartupPacket_framed [of "uint32_bytes SSLRequestCode" 8 "Encode ?p" "Sentinel IoEOF"]
    by (simp add: SSLRequest_bytes_def wire_simps startup_limits decodeStartup_def)
  have rd2: "ReadStartupPacket ?rest = (Inr ?p, ?done)"
    using p(1) ReadStartupPacket_Encode [of ?p "[]" "Sentinel IoEOF"] by (simp add: sendable_def)
  have n: "negotiate (sample_env []) (cfg_TLS (sv_cfg strict_server)) (accepted careful_client) = (Inr ?p, ?client)"
    using rd1 rd2 sendable_codes [OF p(1)]
    by (simp add: negotiate_def maxNegotiationRounds_def numeral_eq_Suc sample_server_simps sample_conn_def IsSSLRequest_def
        conn_Write_def sample_env_def conn_secure_def)
  have "\<not> c_encrypted careful_client" "\<not> IsCancelRequest ?p"
    using sendable_codes [OF p(1)] by (simp_all add: sample_conn_def)
  from unrouted_database_is_refused [OF sample_conn_fresh this(1) n this(2) p(2) st, of None 0]
  show ?thesis by (auto simp: Lookup_def)
qed

lemma serve_gives_everything_back_witness:
  "\<exists>r. serve (sample_env []) None 0 (sample_conn []) 7 (sample_server None []) = Some (Inr r)
     \<and> sv_slots (sv_after r) = Some \<lparr>sl_cap = 2, sl_used = 0\<rparr> \<and> c_closed (sv_client r)"
proof -
  let ?s = "sample_server None []"
  have "\<exists>r. serve (sample_env []) None 0 (sample_conn []) 7 ?s = Some (Inr r)"
    by (simp add: serve_def serveEnter_def acquireSlot_def track_def serveExit_def releaseSlot_def sample_server_def
        sample_silent)
  then obtain r where r: "serve (sample_env []) None 0 (sample_conn []) 7 ?s = Some (Inr r)" by blast
  have "sv_activeConn ?s = []" "sv_slots ?s = Some \<lparr>sl_cap = 2, sl_used = 0\<rparr>" by (simp_all add: sample_server_def)
  with serve_gives_everything_back [OF r] r show ?thesis by auto
qed

theorem malformed_startup_is_silent_witness:
  "\<exists>r. handle (sample_env []) None (sample_server None []) 0
        (sample_conn (uint32_bytes (word_of_nat (length ''user'' + 8)) @ uint32_bytes ProtocolVersion3 @ ''user'' @ []))
      = Some (Inr r) \<and> sr_metrics r = [] \<and> c_out (sr_client r) = []"
proof -
  let ?in = "uint32_bytes (word_of_nat (length ''user'' + 8)) @ uint32_bytes ProtocolVersion3 @ ''user'' @ []"
  have 1: "signed_drop_bit 16 ProtocolVersion3 = (3 :: int32)" by (simp add: ProtocolVersion3_def)
  obtain err where 2: "parseParameters ''user'' = Inl err"
    by (simp add: parseParameters_def parseLoop.simps readCString_def)
  have 3: "length ''user'' + 8 \<le> MaxStartupPacketLength" by (simp add: startup_limits)
  have 4: "c_in (sample_conn ?in) = \<lparr>si_data = ?in, si_end = Sentinel IoEOF\<rparr>" "c_out (sample_conn ?in) = []"
    by (simp_all add: sample_conn_def)
  from malformed_startup_is_silent [OF sample_conn_fresh 1 2 3 4(1)] show ?thesis unfolding 4(2) by blast
qed

definition twofold_startup :: StartupPacket where
  "twofold_startup = \<lparr>sp_Code = ProtocolVersion3, sp_Parameters = [\<lparr>par_Key = ''user'', par_Value = ''alice''\<rparr>,
     \<lparr>par_Key = ''database'', par_Value = ''orders''\<rparr>, \<lparr>par_Key = ''database'', par_Value = ''billing''\<rparr>], sp_Cancel = zeroCancel\<rparr>"

theorem repeated_database_escapes_routing_witness:
  "requestedDatabase twofold_startup = Some ''orders''
   \<and> findParameter ''database'' (rev (sp_Parameters
        (rewriteStartup (plain_route\<lparr>rt_TargetDatabase := ''orders_v2''\<rparr>) ''orders'' twofold_startup))) = Some ''billing''"
  using repeated_database_escapes_routing [of twofold_startup "[\<lparr>par_Key = ''user'', par_Value = ''alice''\<rparr>]" "''orders''" "[]"
      "''billing''" "[]" "plain_route\<lparr>rt_TargetDatabase := ''orders_v2''\<rparr>"]
  by (simp add: twofold_startup_def)

end
