(* ===== verification/Interleaving.thy ===== *)
theory Interleaving
  imports Session
begin

text \<open>
  Concurrent sessions on one gateway. The relay goroutines of
  \<^verbatim>\<open>src/src/internal/proxy/relay.go\<close> share the cancel registry
  (\<^verbatim>\<open>cancel.go\<close>, one mutex per operation). The body of the framing loop is a function on its own,
  and a step relation lets the bodies of different sessions run in any order on the shared
  registry, with table updates in between. Two results: keys stay attached to the sessions
  they were issued for, and a session cannot tell that it is not alone.
\<close>

section \<open>Definitions\<close>

text \<open>
  One pass of the framing loop: it goes on, the function returns (before its deferred
  release), the random source makes it panic, or issuing a key never ends.
\<close>

datatype turn =
    Turning relay_state
  | Ended "go_error option" relay_state
  | Panicked go_string
  | Diverged

definition relayTurn :: "rand_source \<Rightarrow> Route \<Rightarrow> go_string \<Rightarrow> relay_state \<Rightarrow> turn" where
  "relayTurn rng route label s =
     (case Next (rs_reader s) of
        (Inl err, reader) \<Rightarrow>
          Ended (if isBenignClose err then None else Some (wrapf ''framing backend messages'' err))
            (countFramed label (s\<lparr>rs_reader := reader\<rparr>))
      | (Inr msg, reader) \<Rightarrow>
         (case substituteKey rng route msg s of
            None \<Rightarrow> Diverged
          | Some (Inl panic) \<Rightarrow> Panicked panic
          | Some (Inr (Inl err)) \<Rightarrow> Ended (Some err) (s\<lparr>rs_reader := reader\<rparr>)
          | Some (Inr (Inr (out, cancels, pos, issued))) \<Rightarrow>
             (case conn_Write out (rs_client s) of
                (n, werr, client) \<Rightarrow>
                 (let s1 = s\<lparr>rs_reader := reader, rs_client := client, rs_cancels := cancels,
                             rs_pos := pos, rs_issued := issued, rs_framed := rs_framed s + n\<rparr>
                  in case werr of
                       Some e \<Rightarrow>
                         Ended (if isBenignClose e then None
                                else Some (wrapf ''writing backend message to client'' e))
                           (countFramed label s1)
                     | None \<Rightarrow>
                         if msg_Type msg = MsgReadyForQuery
                         then (case spliceToClient label (countFramed label s1) of (err, s2) \<Rightarrow> Ended err s2)
                         else Turning s1))))"

definition startRelay :: "nat \<Rightarrow> cancelRegistry \<Rightarrow> conn \<Rightarrow> conn \<Rightarrow> relay_state" where
  "startRelay pos cancels client backend =
     \<lparr>rs_reader = NewMessageReader (c_in backend), rs_client = client, rs_cancels = cancels,
      rs_pos = pos, rs_issued = None, rs_framed = 0, rs_metrics = []\<rparr>"

text \<open>
  A session in the gateway: its route and label, its connections as they were when the relay
  began, and how far the relay is. \<open>Finished\<close> lasts from the end of framing to the deferred
  release, the raw splice included, which touches nothing shared. The registry and random
  position inside a session's own state are stale copies; \<open>attend\<close> puts in the shared ones.
\<close>

datatype stage = Relaying (stage_state: relay_state) | Finished "go_error option" (stage_state: relay_state)

record relaying =
  rl_route :: Route
  rl_label :: go_string
  rl_client :: conn
  rl_backend :: conn
  rl_stage :: stage

text \<open>
  The gateway's shared state. \<open>gw_lost\<close> records the keys sessions have lost track of by
  issuing a second one; it is not part of the program.
\<close>

record gateway =
  gw_store :: Store
  gw_cancels :: cancelRegistry
  gw_pos :: nat
  gw_sessions :: "(nat \<times> relaying) list"
  gw_lost :: "CancelRequest list"

definition attend :: "gateway \<Rightarrow> relay_state \<Rightarrow> relay_state" where
  "attend g s = s\<lparr>rs_cancels := gw_cancels g, rs_pos := gw_pos g\<rparr>"

definition overwritten :: "relay_state \<Rightarrow> relay_state \<Rightarrow> CancelRequest list" where
  "overwritten s s1 =
     (case rs_issued s of None \<Rightarrow> [] | Some k \<Rightarrow> if rs_issued s1 = Some k then [] else [k])"

definition advance :: "nat \<Rightarrow> relaying \<Rightarrow> stage \<Rightarrow> gateway \<Rightarrow> gateway" where
  "advance c l st g =
     g\<lparr>gw_cancels := rs_cancels (stage_state st), gw_pos := rs_pos (stage_state st),
       gw_sessions := AList.update c (l\<lparr>rl_stage := st\<rparr>) (gw_sessions g),
       gw_lost := overwritten (stage_state (rl_stage l)) (stage_state st) @ gw_lost g\<rparr>"

inductive gateway_step :: "rand_source \<Rightarrow> gateway \<Rightarrow> gateway \<Rightarrow> bool" for rng where
  gs_publish: "gateway_step rng g (g\<lparr>gw_store := Store_Store sn (gw_store g)\<rparr>)"
| gs_begin: "c \<notin> fst ` set (gw_sessions g) \<Longrightarrow>
     gateway_step rng g (g\<lparr>gw_sessions :=
       (c, \<lparr>rl_route = route, rl_label = label, rl_client = client, rl_backend = backend,
            rl_stage = Relaying (startRelay (gw_pos g) (gw_cancels g) client backend)\<rparr>) # gw_sessions g\<rparr>)"
| gs_turn: "map_of (gw_sessions g) c = Some l \<Longrightarrow> rl_stage l = Relaying s \<Longrightarrow>
     relayTurn rng (rl_route l) (rl_label l) (attend g s) = Turning s1 \<Longrightarrow>
     gateway_step rng g (advance c l (Relaying s1) g)"
| gs_end: "map_of (gw_sessions g) c = Some l \<Longrightarrow> rl_stage l = Relaying s \<Longrightarrow>
     relayTurn rng (rl_route l) (rl_label l) (attend g s) = Ended err s1 \<Longrightarrow>
     gateway_step rng g (advance c l (Finished err s1) g)"
| gs_release: "map_of (gw_sessions g) c = Some l \<Longrightarrow> rl_stage l = Finished err s \<Longrightarrow>
     gateway_step rng g (g\<lparr>gw_cancels := rs_cancels (releaseIssued (attend g s)),
       gw_sessions := AList.delete c (gw_sessions g)\<rparr>)"

inductive gateway_reach :: "rand_source \<Rightarrow> gateway \<Rightarrow> bool" for rng where
  gateway_new: "gateway_reach rng \<lparr>gw_store = NewStore, gw_cancels = newCancelRegistry, gw_pos = 0,
     gw_sessions = [], gw_lost = []\<rparr>"
| gateway_next: "gateway_reach rng g \<Longrightarrow> gateway_step rng g g' \<Longrightarrow> gateway_reach rng g'"

section \<open>The loop is the iteration of its body\<close>

lemma relayLoop_turn:
  "relayLoop rng route label s =
     (case relayTurn rng route label s of
        Turning s1 \<Rightarrow> relayLoop rng route label s1
      | Ended err s1 \<Rightarrow> Some (Inr (err, s1))
      | Panicked panic \<Rightarrow> Some (Inl panic)
      | Diverged \<Rightarrow> None)"
  by (subst relayLoop.simps)
    (auto simp: relayTurn_def Let_def split: prod.splits sum.splits option.splits)

text \<open>
  What one pass does to the registry: nothing, or it issues a key for the message it read. In
  the second case the client was sent that key if the loop goes on.
\<close>

definition keyed :: "rand_source \<Rightarrow> Route \<Rightarrow> relay_state \<Rightarrow> relay_state \<Rightarrow> Message \<Rightarrow> CancelRequest \<Rightarrow> CancelRequest \<Rightarrow> bool" where
  "keyed rng route s s1 msg bk k \<longleftrightarrow>
     msg_Type msg = MsgBackendKeyData \<and> DecodeBackendKeyData (msg_Body msg) = Inr bk
     \<and> issue rng (rs_pos s) (rs_cancels s)
         \<lparr>ce_backendAddr = Address route, ce_backendKey = bk, ce_tls = rt_TLS route\<rparr>
       = Some (Inr (k, rs_cancels s1), rs_pos s1)
     \<and> rs_issued s1 = Some k"

definition quiet :: "relay_state \<Rightarrow> relay_state \<Rightarrow> bool" where
  "quiet s s1 \<longleftrightarrow> rs_cancels s1 = rs_cancels s \<and> rs_pos s1 = rs_pos s \<and> rs_issued s1 = rs_issued s"

lemma countFramed_quiet [simp]:
  "rs_cancels (countFramed label s) = rs_cancels s" "rs_pos (countFramed label s) = rs_pos s"
  "rs_issued (countFramed label s) = rs_issued s" "rs_reader (countFramed label s) = rs_reader s"
  by (simp_all add: countFramed_def)

lemma spliceToClient_quiet:
  "spliceToClient label s = (err, s1) \<Longrightarrow> quiet s s1"
  by (auto simp: spliceToClient_def quiet_def split: prod.splits)

lemma substituteKey_okD:
  assumes "substituteKey rng route msg s = Some (Inr (Inr (out, cancels, pos, issued)))"
  shows "(cancels = rs_cancels s \<and> pos = rs_pos s \<and> issued = rs_issued s)
    \<or> (\<exists>bk k. keyed rng route s (s\<lparr>rs_cancels := cancels, rs_pos := pos, rs_issued := issued\<rparr>) msg bk k
         \<and> out = EncodeBackendKeyData k)"
  using assms
  by (auto simp: substituteKey_def keyed_def split: if_splits sum.splits option.splits)

lemma Turning_cases:
  assumes "relayTurn rng route label s = Turning s1"
  obtains msg reader out where "Next (rs_reader s) = (Inr msg, reader)" "rs_reader s1 = reader"
    "c_out (rs_client s1) = c_out (rs_client s) @ out"
    "quiet s s1 \<or> (\<exists>bk k. keyed rng route s s1 msg bk k \<and> out = EncodeBackendKeyData k)"
proof -
  from assms obtain msg reader out cancels pos issued n client where
    nx: "Next (rs_reader s) = (Inr msg, reader)"
    and sub: "substituteKey rng route msg s = Some (Inr (Inr (out, cancels, pos, issued)))"
    and wr: "conn_Write out (rs_client s) = (n, None, client)"
    and s1: "s1 = s\<lparr>rs_reader := reader, rs_client := client, rs_cancels := cancels,
                   rs_pos := pos, rs_issued := issued, rs_framed := rs_framed s + n\<rparr>"
    by (auto simp: relayTurn_def Let_def split: prod.splits sum.splits option.splits if_splits)
  have "c_out client = c_out (rs_client s) @ out"
    using wr by (auto simp: conn_Write_def split: if_splits option.splits)
  with substituteKey_okD [OF sub] show thesis
    by (intro that [OF nx, of out]) (auto simp: s1 quiet_def keyed_def)
qed

lemma Ended_cases:
  assumes "relayTurn rng route label s = Ended err s1"
  shows "quiet s s1 \<or> (\<exists>msg reader bk k. Next (rs_reader s) = (Inr msg, reader) \<and> keyed rng route s s1 msg bk k)"
proof -
  from assms consider "quiet s s1"
    | msg reader out cancels pos issued n client where
    "Next (rs_reader s) = (Inr msg, reader)"
    "substituteKey rng route msg s = Some (Inr (Inr (out, cancels, pos, issued)))"
    "quiet (s\<lparr>rs_reader := reader, rs_client := client, rs_cancels := cancels,
                   rs_pos := pos, rs_issued := issued, rs_framed := rs_framed s + n\<rparr>) s1"
    by (auto simp: relayTurn_def Let_def quiet_def dest!: spliceToClient_quiet
        split: prod.splits sum.splits option.splits if_splits)
  then show ?thesis
  proof cases
    case 2
    with substituteKey_okD [OF 2(2)] show ?thesis by (auto simp: quiet_def keyed_def)
  qed simp
qed

section \<open>Keys stay with their sessions\<close>

text \<open>
  The bookkeeping of keys over any registry: \<open>h c\<close> is the key session \<open>c\<close> holds, \<open>own c\<close>
  what its entry must satisfy and \<open>lost\<close> the keys no session tracks any more. Every bound
  key is held by one session or lost.
\<close>

definition keys_ok :: "('k \<Rightarrow> 'e option) \<Rightarrow> 'k set \<Rightarrow> ('c \<Rightarrow> 'k option) \<Rightarrow> ('c \<Rightarrow> 'e \<Rightarrow> bool) \<Rightarrow> bool" where
  "keys_ok look lost h own \<longleftrightarrow>
     (\<forall>c k. h c = Some k \<longrightarrow> k \<notin> lost \<and> (\<exists>e. look k = Some e \<and> own c e))
     \<and> (\<forall>c c' k. h c = Some k \<longrightarrow> h c' = Some k \<longrightarrow> c = c')
     \<and> (\<forall>k. look k \<noteq> None \<longleftrightarrow> k \<in> lost \<or> (\<exists>c. h c = Some k))"

lemma keys_ok_bound: "keys_ok look lost h own \<Longrightarrow> h c = Some k \<Longrightarrow> look k \<noteq> None"
  by (auto simp: keys_ok_def)

lemma keys_ok_lost: "keys_ok look lost h own \<Longrightarrow> k \<in> lost \<Longrightarrow> look k \<noteq> None"
  by (simp add: keys_ok_def)

lemma keys_ok_own:
  assumes "keys_ok look lost h own" and "\<And>c e. h c \<noteq> None \<Longrightarrow> own c e \<Longrightarrow> own' c e"
  shows "keys_ok look lost h own'"
proof -
  have "\<exists>e. look k = Some e \<and> own' c e" if "h c = Some k" for c k
  proof -
    have "\<exists>e. look k = Some e \<and> own c e" using assms(1) that by (simp add: keys_ok_def)
    with assms(2) [of c] that show ?thesis by auto
  qed
  then show ?thesis using assms(1) by (simp add: keys_ok_def)
qed

lemma ex_fun_upd: "(\<exists>c'. (h(c := x)) c' = y) \<longleftrightarrow> x = y \<or> (\<exists>c'. c' \<noteq> c \<and> h c' = y)"
  by (metis fun_upd_apply)

context key_registry
begin

lemma keys_ok_issue:
  assumes ok: "keys_ok (look r) lost h own" and iss: "issued r e k r'" and e: "own c e"
  shows "keys_ok (look r') (set_option (h c) \<union> lost) (h(c := Some k)) own"
proof -
  have free: "look r k = None" and look: "\<And>k'. look r' k' = (if k' = k then Some e else look r k')"
    using issued_fresh [OF iss] issued_look [OF iss] by auto
  have iff: "look r k \<noteq> None \<longleftrightarrow> k \<in> lost \<or> (\<exists>c. h c = Some k)" using ok by (simp add: keys_ok_def)
  then have unheld: "k \<notin> lost" "h c' \<noteq> Some k" for c' using free by auto
  show ?thesis
    unfolding keys_ok_def
  proof (intro conjI allI impI)
    fix c' k'
    assume h: "(h(c := Some k)) c' = Some k'"
    show "k' \<notin> set_option (h c) \<union> lost" "\<exists>e. look r' k' = Some e \<and> own c' e"
      using h ok e unheld by (auto simp: keys_ok_def look split: if_splits)
  next
    fix c' c'' k'
    assume "(h(c := Some k)) c' = Some k'" "(h(c := Some k)) c'' = Some k'"
    then show "c' = c''" using ok unheld by (auto simp: keys_ok_def split: if_splits)
  next
    fix k'
    have "(\<exists>c'. h c' = Some k') \<longleftrightarrow> h c = Some k' \<or> (\<exists>c'. c' \<noteq> c \<and> h c' = Some k')" by metis
    then have "look r k' \<noteq> None \<longleftrightarrow> k' \<in> lost \<or> h c = Some k' \<or> (\<exists>c'. c' \<noteq> c \<and> h c' = Some k')"
      using ok by (simp add: keys_ok_def)
    then show "look r' k' \<noteq> None \<longleftrightarrow> k' \<in> set_option (h c) \<union> lost \<or> (\<exists>c'. (h(c := Some k)) c' = Some k')"
      unfolding ex_fun_upd by (cases "k' = k") (auto simp: look)
  qed
qed

lemma keys_ok_release:
  assumes ok: "keys_ok (look r) lost h own" and k: "h c = Some k"
  shows "keys_ok (look (rel k r)) lost (h(c := None)) own"
proof -
  have only: "h c' = Some k \<Longrightarrow> c' = c" and one: "h c' = Some k' \<Longrightarrow> h c'' = Some k' \<Longrightarrow> c' = c''" for c' c'' k'
    using ok k by (auto simp: keys_ok_def)
  have iff: "look r k' \<noteq> None \<longleftrightarrow> k' \<in> lost \<or> (\<exists>c. h c = Some k')" for k' using ok by (simp add: keys_ok_def)
  have own: "k' \<notin> lost \<and> (\<exists>e. look r k' = Some e \<and> own c' e)" if "h c' = Some k'" for c' k'
    using ok that by (simp add: keys_ok_def)
  show ?thesis
    unfolding keys_ok_def
  proof (intro conjI allI impI)
    fix c' k'
    assume h: "(h(c := None)) c' = Some k'"
    then have "k' \<noteq> k" using only by (auto split: if_splits)
    then show "k' \<notin> lost" "\<exists>e. look (rel k r) k' = Some e \<and> own c' e"
      using own [of c' k'] h by (auto simp: rel_look split: if_splits)
  next
    fix k'
    show "look (rel k r) k' \<noteq> None \<longleftrightarrow> k' \<in> lost \<or> (\<exists>c'. (h(c := None)) c' = Some k')"
    proof (cases "k' = k")
      case True
      then show ?thesis using own [OF k] only unfolding ex_fun_upd by (auto simp: rel_look)
    next
      case False
      then have "h c \<noteq> Some k'" using k by simp
      then have "(\<exists>c'. c' \<noteq> c \<and> h c' = Some k') \<longleftrightarrow> (\<exists>c'. h c' = Some k')" by metis
      with iff [of k'] False show ?thesis unfolding ex_fun_upd by (simp add: rel_look)
    qed
  next
    fix c' c'' k'
    assume "(h(c := None)) c' = Some k'" "(h(c := None)) c'' = Some k'"
    then show "c' = c''" using one [of c' k' c''] by (auto split: if_splits)
  qed
qed

end

text \<open>Instantiated: the key a session holds, and what its entry is to say.\<close>

abbreviation held :: "relaying \<Rightarrow> CancelRequest option" where
  "held l \<equiv> rs_issued (stage_state (rl_stage l))"

definition holder :: "gateway \<Rightarrow> nat \<Rightarrow> CancelRequest option" where
  "holder g c = (case map_of (gw_sessions g) c of None \<Rightarrow> None | Some l \<Rightarrow> held l)"

text \<open>The backend of a session sent this key, in a complete key data message.\<close>

definition sent_key :: "conn \<Rightarrow> CancelRequest \<Rightarrow> bool" where
  "sent_key b bk \<longleftrightarrow>
     (\<exists>u body v. si_data (c_in b) = u @ Message_Encode \<lparr>msg_Type = MsgBackendKeyData, msg_Body = body\<rparr> @ v
        \<and> DecodeBackendKeyData body = Inr bk)"

definition own_entry :: "relaying \<Rightarrow> cancelEntry \<Rightarrow> bool" where
  "own_entry l e \<longleftrightarrow> ce_backendAddr e = Address (rl_route l) \<and> ce_tls e = rt_TLS (rl_route l)
     \<and> sent_key (rl_backend l) (ce_backendKey e)"

definition owner :: "gateway \<Rightarrow> nat \<Rightarrow> cancelEntry \<Rightarrow> bool" where
  "owner g c e \<longleftrightarrow> (\<exists>l. map_of (gw_sessions g) c = Some l \<and> own_entry l e)"

text \<open>What holds of each session alone: what is left to read is a suffix of what its backend
  sent, and while it is framing its client has been sent the key it holds.\<close>

definition session_inv :: "relaying \<Rightarrow> bool" where
  "session_inv l \<longleftrightarrow>
     (\<forall>s. rl_stage l = Relaying s \<longrightarrow>
        (\<exists>u. si_data (c_in (rl_backend l)) = u @ si_data (mr_r (rs_reader s)))
        \<and> (\<forall>k. rs_issued s = Some k \<longrightarrow> (\<exists>u v. c_out (rs_client s) = u @ EncodeBackendKeyData k @ v)))"

definition gateway_inv :: "gateway \<Rightarrow> bool" where
  "gateway_inv g \<longleftrightarrow> distinct (map fst (gw_sessions g))
     \<and> keys_ok (cancel_lookup (gw_cancels g)) (set (gw_lost g)) (holder g) (owner g)
     \<and> (\<forall>c l. map_of (gw_sessions g) c = Some l \<longrightarrow> session_inv l)"

lemma keyed_issued:
  "keyed rng route s s1 msg bk k \<Longrightarrow> cancel_issued (rs_cancels s)
     \<lparr>ce_backendAddr = Address route, ce_backendKey = bk, ce_tls = rt_TLS route\<rparr> k (rs_cancels s1)"
  by (auto simp: keyed_def cancel_issued_def)

lemma advance_sel [simp]:
  "gw_cancels (advance c l st g) = rs_cancels (stage_state st)" "gw_pos (advance c l st g) = rs_pos (stage_state st)"
  "gw_store (advance c l st g) = gw_store g"
  "map_of (gw_sessions (advance c l st g)) = (map_of (gw_sessions g))(c \<mapsto> l\<lparr>rl_stage := st\<rparr>)"
  "gw_lost (advance c l st g) = overwritten (stage_state (rl_stage l)) (stage_state st) @ gw_lost g"
  by (simp_all add: advance_def update_conv')

lemma holder_advance: "holder (advance c l st g) = (holder g)(c := rs_issued (stage_state st))"
  by (auto simp: holder_def)

lemma owner_advance: "map_of (gw_sessions g) c = Some l \<Longrightarrow> owner (advance c l st g) = owner g"
  by (auto simp: owner_def own_entry_def fun_eq_iff)

lemma keys_ok_advance:
  assumes ok: "keys_ok (cancel_lookup (gw_cancels g)) (set (gw_lost g)) (holder g) (owner g)"
    and l: "map_of (gw_sessions g) c = Some l" "rl_stage l = Relaying s"
    and st: "quiet (attend g s) (stage_state st)
      \<or> (\<exists>msg bk k. keyed rng (rl_route l) (attend g s) (stage_state st) msg bk k \<and> sent_key (rl_backend l) bk)"
  shows "keys_ok (cancel_lookup (gw_cancels (advance c l st g))) (set (gw_lost (advance c l st g)))
    (holder (advance c l st g)) (owner (advance c l st g))"
  using st
proof
  assume "quiet (attend g s) (stage_state st)"
  then have q: "rs_cancels (stage_state st) = gw_cancels g" "rs_issued (stage_state st) = rs_issued s"
    by (auto simp: quiet_def attend_def)
  moreover have "holder (advance c l st g) = holder g"
    using l q by (auto simp: holder_advance holder_def)
  moreover have "overwritten s (stage_state st) = []"
    using q(2) by (simp add: overwritten_def split: option.split)
  ultimately show ?thesis
    using ok l by (simp add: owner_advance)
next
  assume "\<exists>msg bk k. keyed rng (rl_route l) (attend g s) (stage_state st) msg bk k \<and> sent_key (rl_backend l) bk"
  then obtain msg bk k where k: "keyed rng (rl_route l) (attend g s) (stage_state st) msg bk k"
    and bk: "sent_key (rl_backend l) bk" by blast
  let ?e = "\<lparr>ce_backendAddr = Address (rl_route l), ce_backendKey = bk, ce_tls = rt_TLS (rl_route l)\<rparr>"
  have iss: "cancel_issued (gw_cancels g) ?e k (rs_cancels (stage_state st))"
    using keyed_issued [OF k] by (simp add: attend_def)
  have own: "owner g c ?e" using l bk by (simp add: owner_def own_entry_def)
  have heldk: "rs_issued (stage_state st) = Some k" using k by (simp add: keyed_def)
  have "holder g c \<noteq> Some k"
    using keys_ok_bound [OF ok, of c k] cancels.issued_fresh [OF iss] by blast
  then have "set (overwritten s (stage_state st)) = set_option (holder g c)"
    using l heldk by (auto simp: overwritten_def holder_def split: option.split)
  then show ?thesis
    using cancels.keys_ok_issue [OF ok iss own] l heldk by (simp add: holder_advance owner_advance)
qed

lemma sent_keyI:
  assumes "si_data (c_in b) = u @ si_data (mr_r mr)" and "Next mr = (Inr msg, mr')"
    and "msg_Type msg = MsgBackendKeyData" and "DecodeBackendKeyData (msg_Body msg) = Inr bk"
  shows "sent_key b bk"
proof -
  have "msg = \<lparr>msg_Type = MsgBackendKeyData, msg_Body = msg_Body msg\<rparr>" using assms(3) by simp
  then have "si_data (c_in b) = u @ Message_Encode \<lparr>msg_Type = MsgBackendKeyData, msg_Body = msg_Body msg\<rparr> @ si_data (mr_r mr')"
    using assms(1) Next_okD_bytes(1) [OF assms(2)] by simp
  with assms(4) show ?thesis unfolding sent_key_def by blast
qed

lemma session_inv_turn:
  assumes inv: "session_inv l" and st: "rl_stage l = Relaying s"
    and turn: "relayTurn rng (rl_route l) (rl_label l) (attend g s) = Turning s1"
  shows "session_inv (l\<lparr>rl_stage := Relaying s1\<rparr>)"
    and "quiet (attend g s) s1
      \<or> (\<exists>msg bk k. keyed rng (rl_route l) (attend g s) s1 msg bk k \<and> sent_key (rl_backend l) bk)"
proof -
  from turn obtain msg reader out where nx: "Next (rs_reader s) = (Inr msg, reader)"
    and rd: "rs_reader s1 = reader" and out: "c_out (rs_client s1) = c_out (rs_client s) @ out"
    and st1: "quiet (attend g s) s1
      \<or> (\<exists>bk k. keyed rng (rl_route l) (attend g s) s1 msg bk k \<and> out = EncodeBackendKeyData k)"
    by (rule Turning_cases) (simp add: attend_def)
  obtain u where u: "si_data (c_in (rl_backend l)) = u @ si_data (mr_r (rs_reader s))"
    using inv st by (auto simp: session_inv_def)
  note bytes = Next_okD_bytes(1) [OF nx]
  have told: "\<exists>u v. c_out (rs_client s1) = u @ EncodeBackendKeyData k @ v" if "rs_issued s1 = Some k" for k
  proof (cases "quiet (attend g s) s1")
    case True
    then have "rs_issued s = Some k" using that by (simp add: quiet_def attend_def)
    then show ?thesis using inv st out by (fastforce simp: session_inv_def)
  next
    case False
    with st1 that have "out = EncodeBackendKeyData k" by (auto simp: keyed_def)
    then have "c_out (rs_client s1) = c_out (rs_client s) @ EncodeBackendKeyData k @ []" using out by simp
    then show ?thesis by blast
  qed
  show "session_inv (l\<lparr>rl_stage := Relaying s1\<rparr>)"
    using u bytes rd told by (auto simp: session_inv_def)
  with sent_keyI [OF u nx] st1 show "quiet (attend g s) s1
      \<or> (\<exists>msg bk k. keyed rng (rl_route l) (attend g s) s1 msg bk k \<and> sent_key (rl_backend l) bk)"
    by (auto simp: keyed_def)
qed

lemma ended_keys:
  assumes inv: "session_inv l" and st: "rl_stage l = Relaying s"
    and turn: "relayTurn rng (rl_route l) (rl_label l) (attend g s) = Ended err s1"
  shows "quiet (attend g s) s1
      \<or> (\<exists>msg bk k. keyed rng (rl_route l) (attend g s) s1 msg bk k \<and> sent_key (rl_backend l) bk)"
  using Ended_cases [OF turn]
proof
  assume "\<exists>msg reader bk k. Next (rs_reader (attend g s)) = (Inr msg, reader)
    \<and> keyed rng (rl_route l) (attend g s) s1 msg bk k"
  then obtain msg reader bk k where nx: "Next (rs_reader s) = (Inr msg, reader)"
    and k: "keyed rng (rl_route l) (attend g s) s1 msg bk k" by (auto simp: attend_def)
  obtain u where "si_data (c_in (rl_backend l)) = u @ si_data (mr_r (rs_reader s))"
    using inv st by (auto simp: session_inv_def)
  with sent_keyI [OF _ nx] k show ?thesis by (auto simp: keyed_def)
qed simp

lemma gateway_inv_begin:
  assumes inv: "gateway_inv g" and c: "c \<notin> fst ` set (gw_sessions g)"
    and l: "rl_stage l = Relaying (startRelay pos cs client (rl_backend l))"
  shows "gateway_inv (g\<lparr>gw_sessions := (c, l) # gw_sessions g\<rparr>)"
proof -
  let ?g = "g\<lparr>gw_sessions := (c, l) # gw_sessions g\<rparr>"
  have none: "map_of (gw_sessions g) c = None" using c by (simp add: map_of_eq_None_iff)
  have "held l = None" using l by (simp add: startRelay_def)
  then have h: "holder ?g = holder g" using none by (auto simp: holder_def fun_eq_iff)
  have o: "owner g c' e \<Longrightarrow> owner ?g c' e" for c' e using none by (auto simp: owner_def)
  have "keys_ok (cancel_lookup (gw_cancels g)) (set (gw_lost g)) (holder g) (owner g)"
    using inv by (simp add: gateway_inv_def)
  then have "keys_ok (cancel_lookup (gw_cancels g)) (set (gw_lost g)) (holder g) (owner ?g)"
    using o by (rule keys_ok_own)
  then have "keys_ok (cancel_lookup (gw_cancels ?g)) (set (gw_lost ?g)) (holder ?g) (owner ?g)"
    unfolding h by simp
  moreover have "session_inv l"
    using l by (simp add: session_inv_def startRelay_def NewMessageReader_def)
  ultimately show ?thesis
    using inv c by (simp add: gateway_inv_def)
qed

lemma gateway_inv_advance:
  assumes inv: "gateway_inv g" and l: "map_of (gw_sessions g) c = Some l" "rl_stage l = Relaying s"
    and st: "quiet (attend g s) (stage_state st)
      \<or> (\<exists>msg bk k. keyed rng (rl_route l) (attend g s) (stage_state st) msg bk k \<and> sent_key (rl_backend l) bk)"
    and own: "session_inv (l\<lparr>rl_stage := st\<rparr>)"
  shows "gateway_inv (advance c l st g)"
proof -
  have "distinct (map fst (gw_sessions (advance c l st g)))"
    using inv by (simp add: gateway_inv_def advance_def distinct_update)
  then show ?thesis
    using inv own keys_ok_advance [OF _ l st] by (auto simp: gateway_inv_def)
qed

lemma gateway_inv_release:
  assumes inv: "gateway_inv g" and l: "map_of (gw_sessions g) c = Some l" "rl_stage l = Finished err s"
  shows "gateway_inv (g\<lparr>gw_cancels := rs_cancels (releaseIssued (attend g s)),
       gw_sessions := AList.delete c (gw_sessions g)\<rparr>)" (is "gateway_inv ?g")
proof -
  have ok: "keys_ok (cancel_lookup (gw_cancels g)) (set (gw_lost g)) (holder g) (owner g)"
    using inv by (simp add: gateway_inv_def)
  have h: "holder ?g = (holder g)(c := None)" and hc: "holder g c = rs_issued s"
    using l by (auto simp: holder_def delete_conv' fun_eq_iff)
  have "keys_ok (cancel_lookup (gw_cancels ?g)) (set (gw_lost g)) ((holder g)(c := None)) (owner g)"
  proof (cases "rs_issued s")
    case None
    then have "(holder g)(c := None) = holder g" using hc by (auto simp: fun_eq_iff)
    with ok None show ?thesis by (simp add: releaseIssued_def attend_def)
  next
    case (Some k)
    with cancels.keys_ok_release [OF ok, of c k] hc show ?thesis by (simp add: releaseIssued_def attend_def)
  qed
  moreover have "owner ?g c' e" if "((holder g)(c := None)) c' \<noteq> None" "owner g c' e" for c' e
    using that by (auto simp: owner_def delete_conv' split: if_splits)
  ultimately have "keys_ok (cancel_lookup (gw_cancels ?g)) (set (gw_lost g)) ((holder g)(c := None)) (owner ?g)"
    by (rule keys_ok_own)
  then have "keys_ok (cancel_lookup (gw_cancels ?g)) (set (gw_lost ?g)) (holder ?g) (owner ?g)"
    unfolding h by simp
  moreover have "session_inv l'" if "map_of (AList.delete c (gw_sessions g)) c' = Some l'" for c' l'
    using inv that by (auto simp: gateway_inv_def delete_conv' split: if_splits)
  ultimately show ?thesis
    using inv by (auto simp: gateway_inv_def intro: distinct_delete)
qed

lemma gateway_inv_step: "gateway_step rng g g' \<Longrightarrow> gateway_inv g \<Longrightarrow> gateway_inv g'"
proof (induction rule: gateway_step.induct)
  case (gs_publish g sn)
  have "holder (g\<lparr>gw_store := Store_Store sn (gw_store g)\<rparr>) = holder g"
    "owner (g\<lparr>gw_store := Store_Store sn (gw_store g)\<rparr>) = owner g"
    by (simp_all add: holder_def owner_def fun_eq_iff)
  with gs_publish show ?case by (simp add: gateway_inv_def)
next
  case (gs_begin c g route label client backend)
  then show ?case by (intro gateway_inv_begin) auto
next
  case (gs_turn g c l s s1)
  have "session_inv l" using gs_turn by (auto simp: gateway_inv_def)
  from session_inv_turn [OF this gs_turn.hyps(2,3)] show ?case
    using gs_turn by (intro gateway_inv_advance [OF gs_turn.prems gs_turn.hyps(1,2)]) auto
next
  case (gs_end g c l s err s1)
  have "session_inv l" using gs_end by (auto simp: gateway_inv_def)
  from ended_keys [OF this gs_end.hyps(2,3)] show ?case
    using gs_end by (intro gateway_inv_advance [OF gs_end.prems gs_end.hyps(1,2)]) (auto simp: session_inv_def)
next
  case (gs_release g c l err s)
  then show ?case by (intro gateway_inv_release)
qed

lemma gateway_reach_inv: "gateway_reach rng g \<Longrightarrow> gateway_inv g"
proof (induction rule: gateway_reach.induct)
  case gateway_new
  then show ?case
    by (simp add: gateway_inv_def keys_ok_def holder_def newCancelRegistry_def cancel_lookup_def)
next
  case (gateway_next g g')
  then show ?case by (blast intro: gateway_inv_step)
qed

section \<open>A session cannot tell that it is not alone\<close>

text \<open>
  The same pass with another registry and random position: if it issues no key, or the same
  key, everything else it does is the same.
\<close>

fun swap :: "cancelRegistry \<Rightarrow> nat \<Rightarrow> turn \<Rightarrow> turn" where
  "swap cs n (Turning s) = Turning (s\<lparr>rs_cancels := cs, rs_pos := n\<rparr>)"
| "swap cs n (Ended err s) = Ended err (s\<lparr>rs_cancels := cs, rs_pos := n\<rparr>)"
| "swap cs n t = t"

lemma swap_keyless:
  assumes "\<And>msg reader bk. Next (rs_reader s) = (Inr msg, reader) \<Longrightarrow> msg_Type msg = MsgBackendKeyData
    \<Longrightarrow> DecodeBackendKeyData (msg_Body msg) \<noteq> Inr bk"
  shows "relayTurn rng' route label (s\<lparr>rs_cancels := cs, rs_pos := n\<rparr>) = swap cs n (relayTurn rng route label s)"
proof -
  let ?s = "s\<lparr>rs_cancels := cs, rs_pos := n\<rparr>"
  obtain res reader where nx: "Next (rs_reader s) = (res, reader)" by fastforce
  show ?thesis
  proof (cases res)
    case (Inl e)
    with nx show ?thesis by (cases s) (simp add: relayTurn_def countFramed_def)
  next
    case (Inr msg)
    note nx = nx [unfolded Inr]
    show ?thesis
    proof (cases "msg_Type msg = MsgBackendKeyData")
      case True
      with assms [OF nx True] obtain e where "DecodeBackendKeyData (msg_Body msg) = Inl e"
        by (cases "DecodeBackendKeyData (msg_Body msg)") auto
      then have "substituteKey rng route msg s = Some (Inr (Inl e))" "substituteKey rng' route msg ?s = Some (Inr (Inl e))"
        using True by (simp_all add: substituteKey_def)
      with nx show ?thesis by (cases s) (simp add: relayTurn_def)
    next
      case False
      then have sub: "substituteKey rng route msg s = Some (Inr (Inr (Message_Encode msg, rs_cancels s, rs_pos s, rs_issued s)))"
        "substituteKey rng' route msg ?s = Some (Inr (Inr (Message_Encode msg, cs, n, rs_issued s)))"
        by (simp_all add: substituteKey_def)
      obtain n0 werr client where w: "conn_Write (Message_Encode msg) (rs_client s) = (n0, werr, client)"
        by (rule prod_cases3)
      have "swap cs n (case spliceToClient label x of (err, s2) \<Rightarrow> Ended err s2)
          = (case spliceToClient label (x\<lparr>rs_cancels := cs, rs_pos := n\<rparr>) of (err, s2) \<Rightarrow> Ended err s2)" for x
        by (cases x) (simp add: spliceToClient_def split: prod.split)
      note splice = this
      show ?thesis
        by (cases s; cases werr)
          (use nx sub w in \<open>simp_all add: relayTurn_def countFramed_def Let_def splice\<close>)
    qed
  qed
qed

lemma swap_keyed:
  assumes "Next (rs_reader s) = (Inr msg, reader)" and "msg_Type msg = MsgBackendKeyData"
    and "DecodeBackendKeyData (msg_Body msg) = Inr bk"
    and "issue rng (rs_pos s) (rs_cancels s) \<lparr>ce_backendAddr = Address route, ce_backendKey = bk, ce_tls = rt_TLS route\<rparr>
      = Some (Inr (k, cancels), pos)"
    and "issue rng' n cs \<lparr>ce_backendAddr = Address route, ce_backendKey = bk, ce_tls = rt_TLS route\<rparr>
      = Some (Inr (k, cs'), n')"
  shows "relayTurn rng' route label (s\<lparr>rs_cancels := cs, rs_pos := n\<rparr>) = swap cs' n' (relayTurn rng route label s)"
proof -
  obtain n0 werr client where w: "conn_Write (EncodeBackendKeyData k) (rs_client s) = (n0, werr, client)"
    by (rule prod_cases3)
  have sub: "substituteKey rng route msg s = Some (Inr (Inr (EncodeBackendKeyData k, cancels, pos, Some k)))"
    "substituteKey rng' route msg (s\<lparr>rs_cancels := cs, rs_pos := n\<rparr>) =
      Some (Inr (Inr (EncodeBackendKeyData k, cs', n', Some k)))"
    unfolding substituteKey_def by (simp_all add: assms(2-))
  have "msg_Type msg \<noteq> MsgReadyForQuery" using assms(2) by (simp add: MsgBackendKeyData_def MsgReadyForQuery_def)
  then show ?thesis
    unfolding relayTurn_def by (cases werr) (simp_all add: assms(1) sub w countFramed_def)
qed

text \<open>
  A run that has drawn the random values \<open>bufs\<close> and built the registry \<open>cs\<close> on its own. The
  first says this of a session that goes on, the second of one whose loop has returned.
\<close>

definition agrees :: "bytes list \<Rightarrow> rand_source \<Rightarrow> bool" where
  "agrees bufs rng \<longleftrightarrow> (\<forall>i<length bufs. rng i = Inr (bufs ! i))"

definition alone_so_far :: "relaying \<Rightarrow> bytes list \<Rightarrow> cancelRegistry \<Rightarrow> relay_state \<Rightarrow> bool" where
  "alone_so_far l bufs cs s \<longleftrightarrow> (\<forall>rng. agrees bufs rng \<longrightarrow>
     relayLoop rng (rl_route l) (rl_label l) (startRelay 0 newCancelRegistry (rl_client l) (rl_backend l))
     = relayLoop rng (rl_route l) (rl_label l) (s\<lparr>rs_cancels := cs, rs_pos := length bufs\<rparr>))"

definition alone_to_end :: "relaying \<Rightarrow> bytes list \<Rightarrow> cancelRegistry \<Rightarrow> go_error option \<Rightarrow> relay_state \<Rightarrow> bool" where
  "alone_to_end l bufs cs err s \<longleftrightarrow> (\<forall>rng. agrees bufs rng \<longrightarrow>
     relayLoop rng (rl_route l) (rl_label l) (startRelay 0 newCancelRegistry (rl_client l) (rl_backend l))
     = Some (Inr (err, s\<lparr>rs_cancels := cs, rs_pos := length bufs\<rparr>)))"

lemma agrees_snoc: "agrees (bufs @ [b]) rng \<longleftrightarrow> agrees bufs rng \<and> rng (length bufs) = Inr b"
  by (auto simp: agrees_def nth_append less_Suc_eq)

text \<open>The registry a session would have alone holds only keys it holds or lost.\<close>

definition own_keys :: "gateway \<Rightarrow> relaying \<Rightarrow> cancelRegistry \<Rightarrow> bool" where
  "own_keys g l cs \<longleftrightarrow> (\<forall>k. cancel_lookup cs k \<noteq> None \<longrightarrow> held l = Some k \<or> k \<in> set (gw_lost g))"

definition alone_inv :: "gateway \<Rightarrow> relaying \<Rightarrow> bool" where
  "alone_inv g l \<longleftrightarrow>
     (case rl_stage l of
        Relaying s \<Rightarrow> \<exists>bufs cs. own_keys g l cs \<and> alone_so_far l bufs cs s
      | Finished err s \<Rightarrow> \<exists>bufs cs. alone_to_end l bufs cs err s)"

lemma relayTurn_keyed:
  assumes nx: "Next (rs_reader s) = (Inr msg, reader)" and key: "msg_Type msg = MsgBackendKeyData"
    and dec: "DecodeBackendKeyData (msg_Body msg) = Inr bk"
    and turn: "relayTurn rng route label s = t" "t = Turning s1 \<or> t = Ended err s1"
  shows "\<exists>k. keyed rng route s s1 msg bk k"
proof -
  let ?e = "\<lparr>ce_backendAddr = Address route, ce_backendKey = bk, ce_tls = rt_TLS route\<rparr>"
  have sub: "substituteKey rng route msg s = (case issue rng (rs_pos s) (rs_cancels s) ?e of
       None \<Rightarrow> None | Some (Inl panic, _) \<Rightarrow> Some (Inl panic)
     | Some (Inr (issued, cancels), pos) \<Rightarrow>
         Some (Inr (Inr (EncodeBackendKeyData issued, cancels, pos, Some issued))))"
    unfolding substituteKey_def by (simp add: key dec)
  obtain k cancels pos where iss: "issue rng (rs_pos s) (rs_cancels s) ?e = Some (Inr (k, cancels), pos)"
  proof (cases "issue rng (rs_pos s) (rs_cancels s) ?e")
    case None
    then have "substituteKey rng route msg s = None" using sub by simp
    with turn nx show thesis by (auto simp: relayTurn_def)
  next
    case (Some r)
    show thesis
    proof (cases "fst r")
      case (Inl panic)
      then have "substituteKey rng route msg s = Some (Inl panic)" using sub Some by (cases r) simp
      with turn nx show thesis by (auto simp: relayTurn_def)
    next
      case (Inr x)
      with Some that show thesis by (cases r; cases x) auto
    qed
  qed
  have sub: "substituteKey rng route msg s = Some (Inr (Inr (EncodeBackendKeyData k, cancels, pos, Some k)))"
    using sub iss by simp
  obtain n werr client where w: "conn_Write (EncodeBackendKeyData k) (rs_client s) = (n, werr, client)"
    by (rule prod_cases3)
  have "msg_Type msg \<noteq> MsgReadyForQuery" using key by (simp add: MsgBackendKeyData_def MsgReadyForQuery_def)
  then have "rs_cancels s1 = cancels \<and> rs_pos s1 = pos \<and> rs_issued s1 = Some k"
    using turn by (cases werr) (auto simp: relayTurn_def nx sub w Let_def)
  with iss key dec show ?thesis by (auto simp: keyed_def)
qed

lemma issue_first_draw:
  assumes "randomCancelKey (rng pos) = Inr k" and "cancel_lookup cs k = None"
  shows "issue rng pos cs e = Some (Inr (k, cs\<lparr>cg_entries := gomap_set (cg_entries cs) k e\<rparr>), Suc pos)"
  using issue_reaches [of 0 rng pos cs k e] assms by (simp add: cancel_lookup_def)

text \<open>A pass on the shared registry can be repeated alone, with at most one more random value.\<close>

lemma turn_alone_keyless:
  assumes l: "map_of (gw_sessions g) c = Some l" "rl_stage l = Relaying s"
    and own: "own_keys g l cs" and turn: "relayTurn rng (rl_route l) (rl_label l) (attend g s) = t"
    and t: "t = Turning s1 \<or> t = Ended err s1"
    and False: "\<not> (\<exists>msg reader bk. Next (rs_reader s) = (Inr msg, reader) \<and> msg_Type msg = MsgBackendKeyData
    \<and> DecodeBackendKeyData (msg_Body msg) = Inr bk)"
  shows "\<exists>bufs' cs'. (\<forall>rng'. agrees (bufs @ bufs') rng' \<longrightarrow>
      relayTurn rng' (rl_route l) (rl_label l) (s\<lparr>rs_cancels := cs, rs_pos := length bufs\<rparr>)
      = swap cs' (length (bufs @ bufs')) t)
    \<and> (\<forall>k. cancel_lookup cs' k \<noteq> None \<longrightarrow> rs_issued s1 = Some k \<or> k \<in> set (overwritten s s1) \<union> set (gw_lost g))"
proof -
  from False have eq: "relayTurn rng' (rl_route l) (rl_label l) ((attend g s)\<lparr>rs_cancels := cs, rs_pos := length bufs\<rparr>)
      = swap cs (length bufs) t" for rng'
    unfolding turn [symmetric] by (intro swap_keyless) (auto simp: attend_def)
  have "quiet (attend g s) s1"
    using t turn Turning_cases [of rng "rl_route l" "rl_label l" "attend g s" s1]
      Ended_cases [of rng "rl_route l" "rl_label l" "attend g s" err s1] False
    by (auto simp: keyed_def attend_def)
  then have "rs_issued s1 = rs_issued s" by (simp add: quiet_def attend_def)
  with own l(2) eq show ?thesis
    by (intro exI [of _ "[]"] exI [of _ cs]) (auto simp: attend_def own_keys_def)
qed

lemma turn_alone_keyed:
  assumes inv: "gateway_inv g" and l: "map_of (gw_sessions g) c = Some l" "rl_stage l = Relaying s"
    and own: "own_keys g l cs" and turn: "relayTurn rng (rl_route l) (rl_label l) (attend g s) = t"
    and t: "t = Turning s1 \<or> t = Ended err s1"
    and nx: "Next (rs_reader s) = (Inr msg, reader)"
    and key: "msg_Type msg = MsgBackendKeyData" "DecodeBackendKeyData (msg_Body msg) = Inr bk"
  shows "\<exists>bufs' cs'. (\<forall>rng'. agrees (bufs @ bufs') rng' \<longrightarrow>
      relayTurn rng' (rl_route l) (rl_label l) (s\<lparr>rs_cancels := cs, rs_pos := length bufs\<rparr>)
      = swap cs' (length (bufs @ bufs')) t)
    \<and> (\<forall>k. cancel_lookup cs' k \<noteq> None \<longrightarrow> rs_issued s1 = Some k \<or> k \<in> set (overwritten s s1) \<union> set (gw_lost g))"
proof -
  let ?e = "\<lparr>ce_backendAddr = Address (rl_route l), ce_backendKey = bk, ce_tls = rt_TLS (rl_route l)\<rparr>"
  have nx': "Next (rs_reader (attend g s)) = (Inr msg, reader)" using nx by (simp add: attend_def)
  obtain k where k: "keyed rng (rl_route l) (attend g s) s1 msg bk k"
    using relayTurn_keyed [OF nx' key turn t] by blast
  then have iss: "issue rng (rs_pos (attend g s)) (rs_cancels (attend g s)) ?e = Some (Inr (k, rs_cancels s1), rs_pos s1)"
    by (simp add: keyed_def)
  obtain buf where buf: "randomCancelKey (Inr buf) = Inr k"
    using issue_InrD [OF iss] by (cases "rng (rs_pos s1 - 1)") (auto simp: randomCancelKey_def)
  have free: "cancel_lookup (gw_cancels g) k = None"
    using cancels.issued_fresh [OF keyed_issued [OF k]] by (simp add: attend_def)
  have ok: "keys_ok (cancel_lookup (gw_cancels g)) (set (gw_lost g)) (holder g) (owner g)"
    using inv by (simp add: gateway_inv_def)
  have "held l \<noteq> Some k" "k \<notin> set (gw_lost g)"
    using free l keys_ok_bound [OF ok, of c k] keys_ok_lost [OF ok, of k] by (auto simp: holder_def)
  then have fresh: "cancel_lookup cs k = None" using own by (auto simp: own_keys_def)
  let ?cs = "cs\<lparr>cg_entries := gomap_set (cg_entries cs) k ?e\<rparr>"
  have "relayTurn rng' (rl_route l) (rl_label l) (s\<lparr>rs_cancels := cs, rs_pos := length bufs\<rparr>)
      = swap ?cs (Suc (length bufs)) t" if "agrees (bufs @ [buf]) rng'" for rng'
  proof -
    have "issue rng' (length bufs) cs ?e = Some (Inr (k, ?cs), Suc (length bufs))"
      using that buf fresh by (intro issue_first_draw) (simp_all add: agrees_snoc)
    from swap_keyed [OF nx' key iss this, of "rl_label l"] turn show ?thesis by (simp add: attend_def)
  qed
  moreover have "rs_issued s1 = Some k'  \<or> k' \<in> set (overwritten s s1) \<union> set (gw_lost g)"
    if "cancel_lookup ?cs k' \<noteq> None" for k'
  proof (cases "k' = k")
    case True
    then show ?thesis using k by (simp add: keyed_def)
  next
    case False
    then have "held l = Some k' \<or> k' \<in> set (gw_lost g)"
      using that own by (auto simp: own_keys_def cancel_lookup_def)
    with False k l(2) show ?thesis by (auto simp: keyed_def overwritten_def)
  qed
  ultimately show ?thesis by (intro exI [of _ "[buf]"] exI [of _ ?cs]) simp
qed

lemma turn_alone:
  assumes inv: "gateway_inv g" and l: "map_of (gw_sessions g) c = Some l" "rl_stage l = Relaying s"
    and own: "own_keys g l cs" and turn: "relayTurn rng (rl_route l) (rl_label l) (attend g s) = t"
    and t: "t = Turning s1 \<or> t = Ended err s1"
  shows "\<exists>bufs' cs'. (\<forall>rng'. agrees (bufs @ bufs') rng' \<longrightarrow>
      relayTurn rng' (rl_route l) (rl_label l) (s\<lparr>rs_cancels := cs, rs_pos := length bufs\<rparr>)
      = swap cs' (length (bufs @ bufs')) t)
    \<and> (\<forall>k. cancel_lookup cs' k \<noteq> None \<longrightarrow> rs_issued s1 = Some k \<or> k \<in> set (overwritten s s1) \<union> set (gw_lost g))"
proof (cases "\<exists>msg reader bk. Next (rs_reader s) = (Inr msg, reader) \<and> msg_Type msg = MsgBackendKeyData
    \<and> DecodeBackendKeyData (msg_Body msg) = Inr bk")
  case False
  show ?thesis by (rule turn_alone_keyless [OF l own turn t False])
next
  case True
  with turn_alone_keyed [OF assms] show ?thesis by blast
qed

text \<open>The state of a session's own loop does not change while others move, and lost keys stay lost.\<close>

lemma alone_inv_mono:
  "alone_inv g l \<Longrightarrow> set (gw_lost g) \<subseteq> set (gw_lost g') \<Longrightarrow> alone_inv g' l"
  unfolding alone_inv_def own_keys_def by (cases "rl_stage l") (auto, blast)

lemma alone_inv_turn:
  assumes inv: "gateway_inv g" and l: "map_of (gw_sessions g) c = Some l" "rl_stage l = Relaying s"
    and al: "alone_inv g l" and turn: "relayTurn rng (rl_route l) (rl_label l) (attend g s) = t"
    and t: "t = Turning s1 \<and> st = Relaying s1 \<or> t = Ended err s1 \<and> st = Finished err s1"
  shows "alone_inv (advance c l st g) (l\<lparr>rl_stage := st\<rparr>)"
proof -
  obtain bufs cs where own: "own_keys g l cs" and so_far: "alone_so_far l bufs cs s"
    using al l(2) by (auto simp: alone_inv_def)
  obtain bufs' cs' where step: "\<And>rng'. agrees (bufs @ bufs') rng' \<Longrightarrow>
      relayTurn rng' (rl_route l) (rl_label l) (s\<lparr>rs_cancels := cs, rs_pos := length bufs\<rparr>)
      = swap cs' (length (bufs @ bufs')) t"
    and keys: "\<And>k. cancel_lookup cs' k \<noteq> None \<Longrightarrow>
      rs_issued s1 = Some k \<or> k \<in> set (overwritten s s1) \<union> set (gw_lost g)"
    using turn_alone [OF inv l own turn, of s1 err bufs] t by blast
  have run: "relayLoop rng' (rl_route l) (rl_label l) (startRelay 0 newCancelRegistry (rl_client l) (rl_backend l))
      = (case swap cs' (length (bufs @ bufs')) t of
           Turning s1 \<Rightarrow> relayLoop rng' (rl_route l) (rl_label l) s1
         | Ended err s1 \<Rightarrow> Some (Inr (err, s1))
         | Panicked panic \<Rightarrow> Some (Inl panic)
         | Diverged \<Rightarrow> None)"
    if "agrees (bufs @ bufs') rng'" for rng'
  proof -
    have "agrees bufs rng'" using that by (auto simp: agrees_def nth_append split: if_splits)
    then have "relayLoop rng' (rl_route l) (rl_label l) (startRelay 0 newCancelRegistry (rl_client l) (rl_backend l))
        = relayLoop rng' (rl_route l) (rl_label l) (s\<lparr>rs_cancels := cs, rs_pos := length bufs\<rparr>)"
      using so_far by (simp add: alone_so_far_def)
    then show ?thesis using step [OF that] by (simp add: relayLoop_turn [of _ _ _ "s\<lparr>rs_cancels := cs, rs_pos := length bufs\<rparr>"])
  qed
  from t show ?thesis
  proof
    assume t: "t = Turning s1 \<and> st = Relaying s1"
    then have "alone_so_far (l\<lparr>rl_stage := st\<rparr>) (bufs @ bufs') cs' s1"
      using run by (simp add: alone_so_far_def)
    moreover have "own_keys (advance c l st g) (l\<lparr>rl_stage := st\<rparr>) cs'"
      using keys t l(2) by (auto simp: own_keys_def)
    ultimately show ?thesis using t by (auto simp: alone_inv_def)
  next
    assume t: "t = Ended err s1 \<and> st = Finished err s1"
    then have "alone_to_end (l\<lparr>rl_stage := st\<rparr>) (bufs @ bufs') cs' err s1"
      using run by (simp add: alone_to_end_def)
    then show ?thesis using t by (auto simp: alone_inv_def)
  qed
qed

lemma gateway_alone_step:
  assumes "gateway_step rng g g'" and "gateway_inv g"
    and "\<And>c l. map_of (gw_sessions g) c = Some l \<Longrightarrow> alone_inv g l"
    and "map_of (gw_sessions g') c = Some l"
  shows "alone_inv g' l"
  using assms
proof (induction rule: gateway_step.induct)
  case (gs_publish g sn)
  then show ?case using alone_inv_mono [of g l] by simp
next
  case (gs_begin c' g route label client backend)
  show ?case
  proof (cases "c = c'")
    case True
    have "alone_so_far l [] newCancelRegistry (startRelay (gw_pos g) (gw_cancels g) client backend)"
      using gs_begin.prems(3) True by (auto simp: alone_so_far_def startRelay_def)
    moreover have "own_keys g' l newCancelRegistry" for g'
      by (simp add: own_keys_def newCancelRegistry_def cancel_lookup_def)
    moreover have "rl_stage l = Relaying (startRelay (gw_pos g) (gw_cancels g) client backend)"
      using gs_begin.prems(3) True by auto
    ultimately show ?thesis unfolding alone_inv_def by simp blast
  next
    case False
    then show ?thesis using gs_begin.prems(2,3) alone_inv_mono [of g l] by simp
  qed
next
  case (gs_turn g c' l' s s1)
  then show ?case
    using alone_inv_turn [OF gs_turn.prems(1) gs_turn.hyps(1,2) _ gs_turn.hyps(3), of s1 "Relaying s1"]
      alone_inv_mono [of g l "advance c' l' (Relaying s1) g"]
    by (cases "c = c'") auto
next
  case (gs_end g c' l' s err s1)
  then show ?case
    using alone_inv_turn [OF gs_end.prems(1) gs_end.hyps(1,2) _ gs_end.hyps(3), of s1 "Finished err s1" err]
      alone_inv_mono [of g l "advance c' l' (Finished err s1) g"]
    by (cases "c = c'") auto
next
  case (gs_release g c' l' err s)
  then have "map_of (gw_sessions g) c = Some l" by (auto simp: delete_conv' split: if_splits)
  with gs_release.prems(2) show ?case using alone_inv_mono [of g l] by fastforce
qed

lemma gateway_reach_alone:
  "gateway_reach rng g \<Longrightarrow> map_of (gw_sessions g) c = Some l \<Longrightarrow> alone_inv g l"
proof (induction arbitrary: c l rule: gateway_reach.induct)
  case (gateway_next g g')
  then show ?case using gateway_alone_step gateway_reach_inv by blast
qed simp

text \<open>So a session whose relay has ended ended as on a gateway of its own.\<close>

lemma finished_alone:
  assumes "gateway_reach rng g" and "map_of (gw_sessions g) c = Some l" and "rl_stage l = Finished err s"
  shows "\<exists>rng' cs pos. relayFromBackend rng' 0 newCancelRegistry (rl_client l) (rl_backend l) (rl_route l) (rl_label l)
      = Some (Inr (err, releaseIssued (s\<lparr>rs_cancels := cs, rs_pos := pos\<rparr>)))"
proof -
  obtain bufs cs where "alone_to_end l bufs cs err s"
    using gateway_reach_alone [OF assms(1,2)] assms(3) by (auto simp: alone_inv_def)
  then have "relayLoop (\<lambda>i. Inr (bufs ! i)) (rl_route l) (rl_label l) (startRelay 0 newCancelRegistry (rl_client l) (rl_backend l))
      = Some (Inr (err, s\<lparr>rs_cancels := cs, rs_pos := length bufs\<rparr>))"
    by (simp add: alone_to_end_def agrees_def)
  then show ?thesis
    by (intro exI [of _ "\<lambda>i. Inr (bufs ! i)"] exI [of _ cs] exI [of _ "length bufs"]) (simp add: relayFromBackend_def startRelay_def)
qed

section \<open>Properties\<close>

text \<open>C7: Keys stay with their sessions however the sessions interleave. At every moment of every run
  of a gateway, with sessions framing, splicing and ending in any order on the one registry
  and routing tables replaced in between: the key a session holds maps to its own backend's
  address, with its own TLS policy and a key that backend sent it, and while it frames its client
  has been sent that key; no two sessions hold the same key; and the registry holds
  exactly the keys sessions hold, and those lost to a repeated key data message.\<close>

theorem interleaved_keys_stay_with_their_sessions:
  assumes "gateway_reach rng g"
  shows "(\<forall>c l k. map_of (gw_sessions g) c = Some l \<and> held l = Some k \<longrightarrow>
        (\<exists>e. cancel_lookup (gw_cancels g) k = Some e \<and> ce_backendAddr e = Address (rl_route l)
           \<and> ce_tls e = rt_TLS (rl_route l) \<and> sent_key (rl_backend l) (ce_backendKey e))
        \<and> (\<forall>s. rl_stage l = Relaying s \<longrightarrow> (\<exists>u v. c_out (rs_client s) = u @ EncodeBackendKeyData k @ v)))
    \<and> (\<forall>c c' l l' k. map_of (gw_sessions g) c = Some l \<and> map_of (gw_sessions g) c' = Some l'
         \<and> held l = Some k \<and> held l' = Some k \<longrightarrow> c = c')
    \<and> (\<forall>k. cancel_lookup (gw_cancels g) k \<noteq> None \<longleftrightarrow>
         k \<in> set (gw_lost g) \<or> (\<exists>c l. map_of (gw_sessions g) c = Some l \<and> held l = Some k))"
proof -
  note inv = gateway_reach_inv [OF assms]
  then have ok: "keys_ok (cancel_lookup (gw_cancels g)) (set (gw_lost g)) (holder g) (owner g)"
    by (simp add: gateway_inv_def)
  have h: "holder g c = Some k \<longleftrightarrow> (\<exists>l. map_of (gw_sessions g) c = Some l \<and> held l = Some k)" for c k
    by (auto simp: holder_def split: option.split)
  show ?thesis
  proof (intro conjI allI impI)
    fix c l k
    assume l: "map_of (gw_sessions g) c = Some l \<and> held l = Some k"
    then have "\<exists>e. cancel_lookup (gw_cancels g) k = Some e \<and> owner g c e"
      using ok h unfolding keys_ok_def by blast
    then show "\<exists>e. cancel_lookup (gw_cancels g) k = Some e \<and> ce_backendAddr e = Address (rl_route l)
        \<and> ce_tls e = rt_TLS (rl_route l) \<and> sent_key (rl_backend l) (ce_backendKey e)"
      using l by (auto simp: owner_def own_entry_def)
    show "\<exists>u v. c_out (rs_client s) = u @ EncodeBackendKeyData k @ v" if "rl_stage l = Relaying s" for s
      using inv l that by (auto simp: gateway_inv_def session_inv_def)
  next
    fix c c' l l' k
    assume "map_of (gw_sessions g) c = Some l \<and> map_of (gw_sessions g) c' = Some l'
      \<and> held l = Some k \<and> held l' = Some k"
    then have "holder g c = Some k" "holder g c' = Some k" using h by blast+
    then show "c = c'" using ok unfolding keys_ok_def by blast
  next
    fix k
    show "cancel_lookup (gw_cancels g) k \<noteq> None \<longleftrightarrow>
        k \<in> set (gw_lost g) \<or> (\<exists>c l. map_of (gw_sessions g) c = Some l \<and> held l = Some k)"
      using ok unfolding keys_ok_def h by blast
  qed
qed

section \<open>Witnesses\<close>

lemma key_step:
  assumes "gateway_reach rng g" and "map_of (gw_sessions g) c = Some l" and "rl_stage l = Relaying s"
    and "fits m" and "msg_Type m = MsgBackendKeyData" and "DecodeBackendKeyData (msg_Body m) = Inr bk"
    and "si_data (mr_r (rs_reader s)) = Message_Encode m @ rest" and "conn_open (rs_client s)"
    and "randomCancelKey (rng (gw_pos g)) = Inr k" and "cancel_lookup (gw_cancels g) k = None"
  shows "\<exists>s1. gateway_reach rng (advance c l (Relaying s1) g) \<and> rs_issued s1 = Some k \<and> rs_pos s1 = Suc (gw_pos g)
    \<and> mr_r (rs_reader s1) = (mr_r (rs_reader s))\<lparr>si_data := rest\<rparr>
    \<and> (\<forall>k'. cancel_lookup (rs_cancels s1) k' = None \<longleftrightarrow> k' \<noteq> k \<and> cancel_lookup (gw_cancels g) k' = None)"
proof -
  let ?e = "\<lparr>ce_backendAddr = Address (rl_route l), ce_backendKey = bk, ce_tls = rt_TLS (rl_route l)\<rparr>"
  note iss = issue_first_draw [of rng "gw_pos g" k "gw_cancels g" ?e, OF assms(9,10)]
  have "substituteKey rng (rl_route l) m (attend g s) = Some (Inr (Inr (EncodeBackendKeyData k,
      (gw_cancels g)\<lparr>cg_entries := gomap_set (cg_entries (gw_cancels g)) k ?e\<rparr>, Suc (gw_pos g), Some k)))"
    unfolding substituteKey_def by (simp add: assms(5,6) attend_def iss)
  moreover have "msg_Type m \<noteq> MsgReadyForQuery" using assms(5) by (simp add: MsgBackendKeyData_def MsgReadyForQuery_def)
  moreover have "Next (rs_reader (attend g s)) = (Inr m, \<lparr>mr_r = (mr_r (rs_reader s))\<lparr>si_data := rest\<rparr>,
      mr_cap = max (mr_cap (rs_reader s)) (length (msg_Body m))\<rparr>)"
    using Next_fits [OF assms(4,7)] by (simp add: attend_def)
  moreover have "conn_open (rs_client (attend g s))" using assms(8) by (simp add: attend_def)
  ultimately have "\<exists>s1. relayTurn rng (rl_route l) (rl_label l) (attend g s) = Turning s1 \<and> rs_issued s1 = Some k
      \<and> rs_pos s1 = Suc (gw_pos g) \<and> mr_r (rs_reader s1) = (mr_r (rs_reader s))\<lparr>si_data := rest\<rparr>
      \<and> rs_cancels s1 = (gw_cancels g)\<lparr>cg_entries := gomap_set (cg_entries (gw_cancels g)) k ?e\<rparr>"
    by (simp add: relayTurn_def conn_Write_open Let_def)
  then obtain s1 where s1: "relayTurn rng (rl_route l) (rl_label l) (attend g s) = Turning s1" "rs_issued s1 = Some k"
    "rs_pos s1 = Suc (gw_pos g)" "mr_r (rs_reader s1) = (mr_r (rs_reader s))\<lparr>si_data := rest\<rparr>"
    "rs_cancels s1 = (gw_cancels g)\<lparr>cg_entries := gomap_set (cg_entries (gw_cancels g)) k ?e\<rparr>" by blast
  have "gateway_reach rng (advance c l (Relaying s1) g)"
    by (rule gateway_next [OF assms(1) gs_turn [OF assms(2,3) s1(1)]])
  with s1 assms(10) show ?thesis by (intro exI [of _ s1]) (auto simp: cancel_lookup_def)
qed

text \<open>Two sessions, one of which has ended after both were given keys.\<close>

definition sample_table :: Snapshot where
  "sample_table = \<lparr>sn_Table = Some (NewTable (Some [(''orders'', plain_route)])), sn_Decisions = []\<rparr>"

definition sample_relaying :: "gateway \<Rightarrow> relaying" where
  "sample_relaying g =
     \<lparr>rl_route = plain_route, rl_label = databaseLabel ''orders'' True, rl_client = sample_conn [],
      rl_backend = sample_conn (Message_Encode sample_keydata),
      rl_stage = Relaying (startRelay (gw_pos g) (gw_cancels g) (sample_conn []) (sample_conn (Message_Encode sample_keydata)))\<rparr>"

lemma sample_begin:
  assumes "gateway_reach rng g" and "c \<notin> fst ` set (gw_sessions g)"
  shows "gateway_reach rng (g\<lparr>gw_sessions := (c, sample_relaying g) # gw_sessions g\<rparr>)"
  unfolding sample_relaying_def by (rule gateway_next [OF assms(1) gs_begin [OF assms(2)]])

lemma sample_two_sessions:
  "\<exists>g l1 l2 s. gateway_reach sample_rng g \<and> map_of (gw_sessions g) 1 = Some l1 \<and> map_of (gw_sessions g) 2 = Some l2
     \<and> rl_stage l1 = Relaying s \<and> held l1 = Some sample_key \<and> held l2 = Some \<lparr>ProcessID = 1, SecretKey = 1\<rparr>
     \<and> si_data (mr_r (rs_reader s)) = [] \<and> si_end (mr_r (rs_reader s)) = Sentinel IoEOF"
proof -
  let ?k2 = "\<lparr>ProcessID = 1, SecretKey = 1\<rparr> :: CancelRequest"
  let ?g0 = "\<lparr>gw_store = NewStore, gw_cancels = newCancelRegistry, gw_pos = 0, gw_sessions = [], gw_lost = []\<rparr>"
  let ?g1 = "?g0\<lparr>gw_store := Store_Store (Some sample_table) (gw_store ?g0)\<rparr>"
  let ?g2 = "?g1\<lparr>gw_sessions := (1, sample_relaying ?g1) # gw_sessions ?g1\<rparr>"
  let ?g3 = "?g2\<lparr>gw_sessions := (2, sample_relaying ?g2) # gw_sessions ?g2\<rparr>"
  have g1: "gateway_reach sample_rng ?g1" by (rule gateway_next [OF gateway_new gs_publish])
  have g2: "gateway_reach sample_rng ?g2" by (rule sample_begin [OF g1]) simp_all
  have g3: "gateway_reach sample_rng ?g3" by (rule sample_begin [OF g2]) simp_all
  let ?s = "\<lambda>g. startRelay (gw_pos g) (gw_cancels g) (sample_conn []) (sample_conn (Message_Encode sample_keydata))"
  have l1: "map_of (gw_sessions ?g3) 1 = Some (sample_relaying ?g1)" by simp
  have st: "rl_stage (sample_relaying g) = Relaying (?s g)" for g by (simp add: sample_relaying_def)
  have data: "si_data (mr_r (rs_reader (?s g))) = Message_Encode sample_keydata @ []" and opn: "conn_open (rs_client (?s g))" for g
    by (simp_all add: startRelay_def NewMessageReader_def sample_conn_def conn_open_def)
  have d1: "randomCancelKey (sample_rng (gw_pos ?g3)) = Inr sample_key" "cancel_lookup (gw_cancels ?g3) sample_key = None"
    using sample_draw by (simp_all add: newCancelRegistry_def cancel_lookup_def)
  obtain s1 where s1: "gateway_reach sample_rng (advance 1 (sample_relaying ?g1) (Relaying s1) ?g3)"
    "rs_issued s1 = Some sample_key" "rs_pos s1 = Suc 0"
    "mr_r (rs_reader s1) = (mr_r (rs_reader (?s ?g1)))\<lparr>si_data := []\<rparr>"
    "\<And>k. cancel_lookup (rs_cancels s1) k = None \<longleftrightarrow> k \<noteq> sample_key"
    using key_step [OF g3 l1 st sample_messages(2,4,6) data opn d1]
    by (auto simp: newCancelRegistry_def cancel_lookup_def)
  let ?g4 = "advance 1 (sample_relaying ?g1) (Relaying s1) ?g3"
  have l2: "map_of (gw_sessions ?g4) 2 = Some (sample_relaying ?g2)" by simp
  have d2: "randomCancelKey (sample_rng (gw_pos ?g4)) = Inr ?k2" "cancel_lookup (gw_cancels ?g4) ?k2 = None"
    by (simp_all add: s1 randomCancelKey_def sample_rng_def sample_key_def)
  obtain s2 where s2: "gateway_reach sample_rng (advance 2 (sample_relaying ?g2) (Relaying s2) ?g4)" "rs_issued s2 = Some ?k2"
    using key_step [OF s1(1) l2 st sample_messages(2,4,6) data opn d2] by blast
  let ?g5 = "advance 2 (sample_relaying ?g2) (Relaying s2) ?g4"
  have "si_data (mr_r (rs_reader s1)) = []" "si_end (mr_r (rs_reader s1)) = Sentinel IoEOF"
    by (simp_all add: s1(4) startRelay_def NewMessageReader_def sample_conn_def)
  moreover have "map_of (gw_sessions ?g5) 1 = Some ((sample_relaying ?g1)\<lparr>rl_stage := Relaying s1\<rparr>)"
    "map_of (gw_sessions ?g5) 2 = Some ((sample_relaying ?g2)\<lparr>rl_stage := Relaying s2\<rparr>)" by simp_all
  ultimately show ?thesis
    using s2 s1(2) by (intro exI [of _ ?g5] exI conjI) (assumption | simp)+
qed

theorem interleaved_keys_stay_with_their_sessions_witness:
  "\<exists>g l1 l2 e1 e2. gateway_reach sample_rng g \<and> map_of (gw_sessions g) 1 = Some l1 \<and> map_of (gw_sessions g) 2 = Some l2
     \<and> cancel_lookup (gw_cancels g) sample_key = Some e1 \<and> ce_backendAddr e1 = Address (rl_route l1)
     \<and> cancel_lookup (gw_cancels g) \<lparr>ProcessID = 1, SecretKey = 1\<rparr> = Some e2 \<and> ce_backendAddr e2 = Address (rl_route l2)"
proof -
  obtain g l1 l2 where g: "gateway_reach sample_rng g" "map_of (gw_sessions g) 1 = Some l1"
    "map_of (gw_sessions g) 2 = Some l2" "held l1 = Some sample_key" "held l2 = Some \<lparr>ProcessID = 1, SecretKey = 1\<rparr>"
    using sample_two_sessions by blast
  with interleaved_keys_stay_with_their_sessions [OF g(1)] show ?thesis by meson
qed

end
