(* ===== verification/Concurrent_Gateway.thy ===== *)
theory Concurrent_Gateway
  imports Interleaving
begin

text \<open>
  Whole sessions, side by side (\<open>handle\<close> and what it calls, of
  \<^verbatim>\<open>src/src/internal/proxy/session.go\<close>). A session is accepted, negotiates with its client,
  looks its database up in the table published at that moment (or its cancellation key in the
  registry as it is then), dials its backend, relays and ends; between any two of these steps, and
  between the passes of its framing loop, other sessions and the control plane go on. Shown:
  every session ends as the sequential \<open>handle\<close> does, given the store it looked at.
\<close>

section \<open>Definitions\<close>

text \<open>
  Where a session is. \<open>Proxying\<close> has the route, the database name, both connections as they
  were when the relay began, and the metric operations so far; its relay is the session of the
  same number in the \<open>gateway\<close>.
\<close>

datatype session_phase =
    Arrived
  | Negotiated conn StartupPacket
  | Found conn StartupPacket go_string Route
  | Proxying go_string Route conn conn "metric list"
  | Served "go_error option" conn "conn option" "metric list"

text \<open>\<open>handle\<close> up to the end of negotiation.\<close>

definition opened :: "gateway_env \<Rightarrow> Server \<Rightarrow> conn \<Rightarrow> session_phase" where
  "opened env s rawConn =
     (case conn_SetDeadline True rawConn of
        (Some err, conn) \<Rightarrow> Served (Some (wrapf ''setting handshake deadline'' err)) conn None []
      | (None, conn) \<Rightarrow>
         (case negotiate env (cfg_TLS (sv_cfg s)) conn of
            (Inl err, client) \<Rightarrow>
              Served (Some err) client None
                (if isBenignClose err then [] else [ConnectionsInc unroutedLabel outcomeHandshake])
          | (Inr startup, client) \<Rightarrow> Negotiated client startup))"

text \<open>The part that reads what is shared: the registry for a cancellation, the table otherwise.\<close>

definition looked :: "gateway_env \<Rightarrow> cancelRegistry \<Rightarrow> Store \<Rightarrow> conn \<Rightarrow> StartupPacket \<Rightarrow> session_phase option" where
  "looked env cancels store client startup =
     (if IsCancelRequest startup then
        (case forwardCancel env cancels (sp_Cancel startup) of
           (backend, ms) \<Rightarrow> Some (Served None client backend ms))
      else (case requestedDatabase startup of
        None \<Rightarrow>
          Some (Served (Some (ErrorString noDatabaseText))
            (writeFatal SQLStateProtocolViolation noDatabaseText [] client) None
            [ConnectionsInc unroutedLabel outcomeHandshake])
      | Some database \<Rightarrow>
         (case Store_Routes store of
            None \<Rightarrow> None
          | Some table \<Rightarrow>
             (case Lookup table database of
                None \<Rightarrow>
                  Some (Served None
                    (writeFatal SQLStateUndefinedDatabase
                       (''database '' @ quote_text database @ '' does not exist'')
                       ''No PostgresRoute in this cluster claims that database name.'' client)
                    None [ConnectionsInc unroutedLabel outcomeNoRoute])
              | Some route \<Rightarrow> Some (Found client startup database route)))))"

text \<open>\<open>proxySession\<close> up to the relay.\<close>

definition dialled :: "gateway_env \<Rightarrow> conn \<Rightarrow> StartupPacket \<Rightarrow> go_string \<Rightarrow> Route \<Rightarrow> session_phase" where
  "dialled env client startup database route =
     (let label = databaseLabel database True in
      case dialBackend env route of
        (Inl (err, left), ms) \<Rightarrow>
          Served None
            (writeFatal SQLStateConnectionFailure
               (''the gateway could not reach the backend for database '' @ quote_text database)
               ''Check the status of the PostgresRoute and of the backend Service.'' client)
            left (ms @ [ConnectionsInc label outcomeBackendFailed])
      | (Inr backend, ms) \<Rightarrow>
         (case conn_Write (Encode (rewriteStartup route database startup)) backend of
            (_, Some err, backend) \<Rightarrow>
              Served (Some (wrapf ''forwarding startup packet to backend'' err)) client
                (Some (conn_Close backend)) (ms @ [ConnectionsInc label outcomeBackendFailed])
          | (_, None, backend) \<Rightarrow>
             (case conn_SetDeadline False client of
                (Some err, client) \<Rightarrow>
                  Served (Some (wrapf ''clearing handshake deadline'' err)) client (Some (conn_Close backend)) ms
              | (None, client) \<Rightarrow>
                 (case conn_SetDeadline False backend of
                    (Some err, backend) \<Rightarrow>
                      Served (Some (wrapf ''clearing backend deadline'' err)) client (Some (conn_Close backend)) ms
                  | (None, backend) \<Rightarrow> Proxying database route client backend ms))))"

text \<open>What follows the framing loop, in \<open>relay\<close> and then in \<open>proxySession\<close>.\<close>

definition ended :: "nat option \<Rightarrow> go_string \<Rightarrow> conn \<Rightarrow> conn \<Rightarrow> metric list \<Rightarrow> go_error option \<Rightarrow> relay_state \<Rightarrow> session_phase" where
  "ended cutAt database client backend ms downstreamErr s =
     (let label = databaseLabel database True in
      case io_Copy cutAt backend (c_in client) of
        (n, err, backend') \<Rightarrow>
         (let upstreamErr = (case err of
                Some e \<Rightarrow> if isBenignClose e then None else Some (wrapf ''relaying client to backend'' e)
              | None \<Rightarrow> None)
          in Served (errors_Join [downstreamErr, upstreamErr])
               (conn_Close (conn_CloseWrite (rs_client s)))
               (Some (conn_Close (conn_CloseWrite (backend'\<lparr>c_in := mr_r (rs_reader s)\<rparr>))))
               (ms @ [ConnectionsInc label outcomeProxied, ActiveInc label]
                 @ (rs_metrics s @ [BytesAdd label directionToBackend n]) @ [ActiveDec label, SessionObserve label])))"

text \<open>
  A session with its raw connection and what its own dialling and handshakes will yield, which
  differs between sessions. \<open>fs_store\<close> and \<open>fs_cancels\<close> record the store and, for a
  cancellation, the registry it looked at; they are not part of the program.
\<close>

record front_session =
  fs_env :: gateway_env
  fs_raw :: conn
  fs_phase :: session_phase
  fs_store :: Store
  fs_cancels :: cancelRegistry

record front =
  fr_gateway :: gateway
  fr_sessions :: "(nat \<times> front_session) list"

inductive front_step :: "rand_source \<Rightarrow> Server \<Rightarrow> front \<Rightarrow> front \<Rightarrow> bool" for rng srv where
  fr_accept: "c \<notin> fst ` set (fr_sessions f) \<Longrightarrow>
     front_step rng srv f (f\<lparr>fr_sessions := AList.update c
       \<lparr>fs_env = env, fs_raw = raw, fs_phase = Arrived, fs_store = NewStore, fs_cancels = newCancelRegistry\<rparr> (fr_sessions f)\<rparr>)"
| fr_negotiate: "map_of (fr_sessions f) c = Some x \<Longrightarrow> fs_phase x = Arrived \<Longrightarrow>
     front_step rng srv f (f\<lparr>fr_sessions := AList.update c (x\<lparr>fs_phase := opened (fs_env x) srv (fs_raw x)\<rparr>) (fr_sessions f)\<rparr>)"
| fr_look: "map_of (fr_sessions f) c = Some x \<Longrightarrow> fs_phase x = Negotiated client startup \<Longrightarrow>
     looked (fs_env x) (gw_cancels (fr_gateway f)) (gw_store (fr_gateway f)) client startup = Some ph \<Longrightarrow>
     front_step rng srv f (f\<lparr>fr_sessions := AList.update c
       (x\<lparr>fs_phase := ph, fs_store := gw_store (fr_gateway f),
          fs_cancels := (if IsCancelRequest startup then gw_cancels (fr_gateway f) else newCancelRegistry)\<rparr>) (fr_sessions f)\<rparr>)"
| fr_refused: "map_of (fr_sessions f) c = Some x \<Longrightarrow> fs_phase x = Found client startup database route \<Longrightarrow>
     dialled (fs_env x) client startup database route = Served err client' backend ms \<Longrightarrow>
     front_step rng srv f (f\<lparr>fr_sessions := AList.update c (x\<lparr>fs_phase := Served err client' backend ms\<rparr>) (fr_sessions f)\<rparr>)"
| fr_begin: "map_of (fr_sessions f) c = Some x \<Longrightarrow> fs_phase x = Found client startup database route \<Longrightarrow>
     dialled (fs_env x) client startup database route = Proxying database route client' backend ms \<Longrightarrow>
     c \<notin> fst ` set (gw_sessions (fr_gateway f)) \<Longrightarrow>
     front_step rng srv f (f\<lparr>
       fr_gateway := (fr_gateway f)\<lparr>gw_sessions :=
         (c, \<lparr>rl_route = route, rl_label = databaseLabel database True, rl_client = client', rl_backend = backend,
              rl_stage = Relaying (startRelay (gw_pos (fr_gateway f)) (gw_cancels (fr_gateway f)) client' backend)\<rparr>)
         # gw_sessions (fr_gateway f)\<rparr>,
       fr_sessions := AList.update c (x\<lparr>fs_phase := Proxying database route client' backend ms\<rparr>) (fr_sessions f)\<rparr>)"
| fr_inner: "gateway_step rng (fr_gateway f) g \<Longrightarrow>
     fst ` set (gw_sessions g) = fst ` set (gw_sessions (fr_gateway f)) \<Longrightarrow>
     front_step rng srv f (f\<lparr>fr_gateway := g\<rparr>)"
| fr_end: "map_of (fr_sessions f) c = Some x \<Longrightarrow> fs_phase x = Proxying database route client backend ms \<Longrightarrow>
     map_of (gw_sessions (fr_gateway f)) c = Some l \<Longrightarrow> rl_stage l = Finished err s \<Longrightarrow>
     front_step rng srv f (f\<lparr>
       fr_gateway := (fr_gateway f)\<lparr>gw_cancels := rs_cancels (releaseIssued (attend (fr_gateway f) s)),
         gw_sessions := AList.delete c (gw_sessions (fr_gateway f))\<rparr>,
       fr_sessions := AList.update c (x\<lparr>fs_phase := ended cutAt database client backend ms err s\<rparr>) (fr_sessions f)\<rparr>)"

inductive front_reach :: "rand_source \<Rightarrow> Server \<Rightarrow> front \<Rightarrow> bool" for rng srv where
  front_new: "front_reach rng srv
     \<lparr>fr_gateway = \<lparr>gw_store = NewStore, gw_cancels = newCancelRegistry, gw_pos = 0, gw_sessions = [], gw_lost = []\<rparr>,
      fr_sessions = []\<rparr>"
| front_next: "front_reach rng srv f \<Longrightarrow> front_step rng srv f f' \<Longrightarrow> front_reach rng srv f'"

text \<open>A step of the sessions there are.\<close>

abbreviation front_move :: "rand_source \<Rightarrow> Server \<Rightarrow> front \<Rightarrow> front \<Rightarrow> bool" where
  "front_move rng srv f f' \<equiv> front_step rng srv f f' \<and> fst ` set (fr_sessions f') = fst ` set (fr_sessions f)"

text \<open>The gateway as a session sees it that is alone: the given store and registry.\<close>

definition facing :: "Server \<Rightarrow> front_session \<Rightarrow> Server" where
  "facing srv x = srv\<lparr>sv_cfg := (sv_cfg srv)\<lparr>cfg_Routes := Some (fs_store x)\<rparr>, sv_cancels := fs_cancels x\<rparr>"

section \<open>The random source is only used by the relay\<close>

lemma env_rng:
  "ge_dial (env\<lparr>ge_rng := rng\<rparr>) = ge_dial env" "ge_tlsClient (env\<lparr>ge_rng := rng\<rparr>) = ge_tlsClient env"
  "ge_tlsServer (env\<lparr>ge_rng := rng\<rparr>) = ge_tlsServer env" "ge_verify (env\<lparr>ge_rng := rng\<rparr>) = ge_verify env"
  by simp_all

lemma negotiate_rng [simp]: "negotiate (env\<lparr>ge_rng := rng\<rparr>) tls conn = negotiate env tls conn"
proof -
  have "negotiateRounds (env\<lparr>ge_rng := rng\<rparr>) tls n e c = negotiateRounds env tls n e c" for n e c
  proof (induction n arbitrary: e c)
    case (Suc n)
    show ?case unfolding negotiateRounds.simps Suc.IH env_rng by (rule refl)
  qed simp
  then show ?thesis by (simp add: negotiate_def)
qed

lemma verifyChainOnly_rng: "verifyChainOnly (env\<lparr>ge_rng := rng\<rparr>) = verifyChainOnly env"
  unfolding fun_eq_iff verifyChainOnly_def env_rng by simp

lemma upgradeBackendTLS_rng: "upgradeBackendTLS (env\<lparr>ge_rng := rng\<rparr>) = upgradeBackendTLS env"
  unfolding fun_eq_iff upgradeBackendTLS_def env_rng verifyChainOnly_rng by simp

lemma dialBackend_rng [simp]: "dialBackend (env\<lparr>ge_rng := rng\<rparr>) = dialBackend env"
  unfolding fun_eq_iff dialBackend_def env_rng upgradeBackendTLS_rng by simp

lemma forwardCancel_rng [simp]: "forwardCancel (env\<lparr>ge_rng := rng\<rparr>) = forwardCancel env"
  unfolding fun_eq_iff forwardCancel_def env_rng upgradeBackendTLS_rng by simp

section \<open>The steps are the pieces of the sequential session\<close>

text \<open>The sequential result with what it says of the session; registry and random position are the session's own.\<close>

definition results :: "(go_string + session_result) option \<Rightarrow> go_error option \<Rightarrow> conn \<Rightarrow> conn option \<Rightarrow> metric list \<Rightarrow> bool" where
  "results out err client backend ms \<longleftrightarrow> (\<exists>r. out = Some (Inr r) \<and> sr_err r = err \<and> sr_client r = client
     \<and> sr_backend r = backend \<and> sr_metrics r = ms)"

lemma opened_rng [simp]: "opened (env\<lparr>ge_rng := rng\<rparr>) = opened env"
  unfolding fun_eq_iff opened_def negotiate_rng by simp

lemma opened_facing [simp]: "opened env (facing srv x) = opened env srv"
proof -
  have "cfg_TLS (sv_cfg (facing srv x)) = cfg_TLS (sv_cfg srv)" by (simp add: facing_def)
  then show ?thesis unfolding fun_eq_iff opened_def by presburger
qed

lemma opened_handle:
  "opened env s raw = Served err client backend ms \<Longrightarrow> results (handle env cutAt s pos raw) err client backend ms"
  "opened env s raw = Negotiated client startup \<Longrightarrow> handle env cutAt s pos raw = handleStartup env cutAt s pos client startup"
  by (auto simp: opened_def handle_def results_def Let_def split: prod.splits option.splits sum.splits)

lemma opened_phase:
  "(\<exists>err client backend ms. opened env s raw = Served err client backend ms)
   \<or> (\<exists>client startup. opened env s raw = Negotiated client startup)"
  by (auto simp: opened_def split: prod.splits option.splits sum.splits)

lemma looked_rng [simp]: "looked (env\<lparr>ge_rng := rng\<rparr>) = looked env"
  unfolding fun_eq_iff looked_def forwardCancel_rng by simp

lemma looked_registry: "\<not> IsCancelRequest startup \<Longrightarrow> looked env cs store client startup = looked env cs' store client startup"
  by (simp add: looked_def)

lemma looked_handle:
  assumes "cfg_Routes (sv_cfg s) = Some store"
  shows "looked env (sv_cancels s) store client startup = Some (Served err client' backend ms) \<Longrightarrow>
      results (handleStartup env cutAt s pos client startup) err client' backend ms"
    and "looked env (sv_cancels s) store client startup = Some (Found client' startup' database route) \<Longrightarrow>
      client' = client \<and> startup' = startup \<and> \<not> IsCancelRequest startup
      \<and> handleStartup env cutAt s pos client startup = proxySession env cutAt pos (sv_cancels s) client startup database route"
  using assms by (auto simp: looked_def handleStartup_def results_def Let_def split: prod.splits option.splits if_splits)

lemma looked_phase:
  "looked env cs store client startup = Some ph \<Longrightarrow>
     (\<exists>err client' backend ms. ph = Served err client' backend ms) \<or> (\<exists>database route. ph = Found client startup database route)"
  by (auto simp: looked_def split: prod.splits option.splits if_splits)

lemma dialled_rng [simp]: "dialled (env\<lparr>ge_rng := rng\<rparr>) = dialled env"
  unfolding fun_eq_iff dialled_def dialBackend_rng by simp

lemma dialled_proxySession:
  "dialled env client startup database route = Served err client' backend ms \<Longrightarrow>
     results (proxySession env cutAt pos cancels client startup database route) err client' backend ms"
  "dialled env client startup database route = Proxying db rt client' b ms \<Longrightarrow>
     relay (ge_rng env) cutAt pos cancels client' b route (databaseLabel database True) = Some (Inr rr) \<Longrightarrow>
     results (proxySession env cutAt pos cancels client startup database route) (rr_err rr) (rr_client rr)
       (Some (conn_Close (rr_backend rr)))
       (ms @ [ConnectionsInc (databaseLabel database True) outcomeProxied, ActiveInc (databaseLabel database True)]
         @ rr_metrics rr @ [ActiveDec (databaseLabel database True), SessionObserve (databaseLabel database True)])"
  by (auto simp: dialled_def proxySession_def results_def Let_def split: prod.splits option.splits sum.splits)

lemma ended_phase: "\<exists>e client' b ms'. ended cutAt database client backend ms err s = Served e client' b ms'"
  by (simp add: ended_def Let_def split: prod.split)

lemma ended_relay:
  assumes "relayFromBackend rng pos cancels client backend route (databaseLabel database True) = Some (Inr (err, s'))"
    and "rs_client s' = rs_client s" and "rs_reader s' = rs_reader s" and "rs_metrics s' = rs_metrics s"
    and "ended cutAt database client backend ms err s = Served e client' b ms'"
  shows "\<exists>rr. relay rng cutAt pos cancels client backend route (databaseLabel database True) = Some (Inr rr)
    \<and> e = rr_err rr \<and> client' = rr_client rr \<and> b = Some (conn_Close (rr_backend rr))
    \<and> ms' = ms @ [ConnectionsInc (databaseLabel database True) outcomeProxied, ActiveInc (databaseLabel database True)]
        @ rr_metrics rr @ [ActiveDec (databaseLabel database True), SessionObserve (databaseLabel database True)]"
  using assms by (auto simp: ended_def relay_def Let_def split: prod.splits)

section \<open>Every session runs as alone\<close>

definition as_handled :: "gateway_env \<Rightarrow> Server \<Rightarrow> front_session \<Rightarrow> go_error option \<Rightarrow> conn \<Rightarrow> conn option \<Rightarrow> metric list \<Rightarrow> bool" where
  "as_handled env srv x err client backend ms \<longleftrightarrow>
     (\<exists>rng cutAt. results (handle (env\<lparr>ge_rng := rng\<rparr>) cutAt (facing srv x) 0 (fs_raw x)) err client backend ms)"

definition at_route :: "gateway_env \<Rightarrow> Server \<Rightarrow> front_session \<Rightarrow> conn \<Rightarrow> StartupPacket \<Rightarrow> go_string \<Rightarrow> Route \<Rightarrow> bool" where
  "at_route env srv x client startup database route \<longleftrightarrow> opened env srv (fs_raw x) = Negotiated client startup
     \<and> fs_cancels x = newCancelRegistry
     \<and> looked env newCancelRegistry (fs_store x) client startup = Some (Found client startup database route)"

definition relays :: "gateway \<Rightarrow> nat \<Rightarrow> go_string \<Rightarrow> Route \<Rightarrow> conn \<Rightarrow> conn \<Rightarrow> bool" where
  "relays g c database route client backend \<longleftrightarrow> (\<exists>l. map_of (gw_sessions g) c = Some l \<and> rl_route l = route
     \<and> rl_label l = databaseLabel database True \<and> rl_client l = client \<and> rl_backend l = backend)"

definition front_inv :: "gateway_env \<Rightarrow> Server \<Rightarrow> gateway \<Rightarrow> nat \<Rightarrow> front_session \<Rightarrow> bool" where
  "front_inv env srv g c x \<longleftrightarrow>
     (case fs_phase x of
        Arrived \<Rightarrow> True
      | Negotiated client startup \<Rightarrow> opened env srv (fs_raw x) = Negotiated client startup
      | Found client startup database route \<Rightarrow> at_route env srv x client startup database route
      | Proxying database route client backend ms \<Rightarrow> relays g c database route client backend
          \<and> (\<exists>client0 startup. at_route env srv x client0 startup database route
               \<and> dialled env client0 startup database route = Proxying database route client backend ms)
      | Served err client backend ms \<Rightarrow> as_handled env srv x err client backend ms)"

lemma facing_sel [simp]: "cfg_Routes (sv_cfg (facing srv x)) = Some (fs_store x)" "sv_cancels (facing srv x) = fs_cancels x"
  by (simp_all add: facing_def)

lemma at_route_handle:
  assumes "at_route env srv x client startup database route"
  shows "handle (env\<lparr>ge_rng := rng\<rparr>) cutAt (facing srv x) 0 (fs_raw x)
    = proxySession (env\<lparr>ge_rng := rng\<rparr>) cutAt 0 (fs_cancels x) client startup database route"
  using assms looked_handle(2) [of "facing srv x" "fs_store x" "env\<lparr>ge_rng := rng\<rparr>"]
    opened_handle(2) [of "env\<lparr>ge_rng := rng\<rparr>" "facing srv x"] by (simp add: at_route_def)

text \<open>The steps of the session itself.\<close>

lemma front_inv_opened: "front_inv env srv g c (x\<lparr>fs_phase := opened env srv (fs_raw x)\<rparr>)"
proof -
  let ?x = "x\<lparr>fs_phase := opened env srv (fs_raw x)\<rparr>"
  have raw: "fs_raw ?x = fs_raw x" by simp
  consider (served) err client backend ms where "opened env srv (fs_raw x) = Served err client backend ms"
    | (on) client startup where "opened env srv (fs_raw x) = Negotiated client startup"
    using opened_phase [of env srv "fs_raw x"] by blast
  then show ?thesis
  proof cases
    case served
    have "as_handled env srv ?x err client backend ms"
      unfolding as_handled_def using served by (intro exI opened_handle(1)) simp
    with served show ?thesis by (simp add: front_inv_def)
  qed (simp add: front_inv_def)
qed

lemma front_inv_looked:
  assumes "front_inv env srv g c x" and "fs_phase x = Negotiated client startup" and "looked env cs store client startup = Some ph"
  shows "front_inv env srv g' c (x\<lparr>fs_phase := ph, fs_store := store,
    fs_cancels := (if IsCancelRequest startup then cs else newCancelRegistry)\<rparr>)" (is "front_inv env srv g' c ?x")
proof -
  have op: "opened env srv (fs_raw ?x) = Negotiated client startup" using assms(1,2) by (simp add: front_inv_def)
  have lk: "looked env (fs_cancels ?x) (fs_store ?x) client startup = Some ph"
    using assms(3) looked_registry [of startup env cs store client newCancelRegistry] by simp
  from looked_phase [OF assms(3)] show ?thesis
  proof (elim disjE exE)
    fix err client' backend ms
    assume ph: "ph = Served err client' backend ms"
    have "results (handleStartup (env\<lparr>ge_rng := ge_rng env\<rparr>) None (facing srv ?x) 0 client startup) err client' backend ms"
      using lk ph by (intro looked_handle(1)) simp_all
    then have "as_handled env srv ?x err client' backend ms"
      unfolding as_handled_def using op by (metis opened_facing opened_handle(2) opened_rng)
    with ph show ?thesis by (simp add: front_inv_def)
  next
    fix database route
    assume ph: "ph = Found client startup database route"
    then have "\<not> IsCancelRequest startup" using assms(3) by (auto simp: looked_def split: prod.splits)
    with ph op lk show ?thesis by (simp add: front_inv_def at_route_def)
  qed
qed

lemma front_inv_refused:
  assumes "front_inv env srv g c x" and "fs_phase x = Found client startup database route"
    and "dialled env client startup database route = Served err client' backend ms"
  shows "front_inv env srv g' c (x\<lparr>fs_phase := Served err client' backend ms\<rparr>)" (is "front_inv env srv g' c ?x")
proof -
  have at: "at_route env srv ?x client startup database route" using assms(1,2) by (simp add: front_inv_def at_route_def)
  have "as_handled env srv ?x err client' backend ms"
    unfolding as_handled_def at_route_handle [OF at] using assms(3) by (intro exI dialled_proxySession(1)) simp
  then show ?thesis by (simp add: front_inv_def)
qed

lemma front_inv_ended:
  assumes "front_inv env srv g c x" and "fs_phase x = Proxying database route client backend ms"
    and "gateway_reach rng g" and "map_of (gw_sessions g) c = Some l" and "rl_stage l = Finished err s"
  shows "front_inv env srv g' c (x\<lparr>fs_phase := ended cutAt database client backend ms err s\<rparr>)" (is "front_inv env srv g' c ?x")
proof -
  obtain client0 startup where at: "at_route env srv x client0 startup database route"
    and dl: "dialled env client0 startup database route = Proxying database route client backend ms"
    and l: "rl_route l = route" "rl_label l = databaseLabel database True" "rl_client l = client" "rl_backend l = backend"
    using assms(1,2,4) by (auto simp: front_inv_def relays_def)
  have at: "at_route env srv ?x client0 startup database route" using at by (simp add: at_route_def)
  obtain rng' cs pos where run: "relayFromBackend rng' 0 newCancelRegistry client backend route (databaseLabel database True)
      = Some (Inr (err, releaseIssued (s\<lparr>rs_cancels := cs, rs_pos := pos\<rparr>)))"
    using finished_alone [OF assms(3-5)] l by auto
  obtain e client' b ms' where e: "ended cutAt database client backend ms err s = Served e client' b ms'"
    using ended_phase by blast
  have same: "rs_client (releaseIssued (s\<lparr>rs_cancels := cs, rs_pos := pos\<rparr>)) = rs_client s"
    "rs_reader (releaseIssued (s\<lparr>rs_cancels := cs, rs_pos := pos\<rparr>)) = rs_reader s"
    "rs_metrics (releaseIssued (s\<lparr>rs_cancels := cs, rs_pos := pos\<rparr>)) = rs_metrics s"
    by (simp_all add: releaseIssued_def split: option.split)
  obtain rr where rr: "relay rng' cutAt 0 newCancelRegistry client backend route (databaseLabel database True) = Some (Inr rr)"
    "e = rr_err rr" "client' = rr_client rr" "b = Some (conn_Close (rr_backend rr))"
    "ms' = ms @ [ConnectionsInc (databaseLabel database True) outcomeProxied, ActiveInc (databaseLabel database True)]
        @ rr_metrics rr @ [ActiveDec (databaseLabel database True), SessionObserve (databaseLabel database True)]"
    using ended_relay [OF run same e] by blast
  have "fs_cancels ?x = newCancelRegistry" using at by (simp add: at_route_def)
  then have "results (proxySession (env\<lparr>ge_rng := rng'\<rparr>) cutAt 0 (fs_cancels ?x) client0 startup database route) e client' b ms'"
    unfolding rr(2-5) using dl rr(1) by (intro dialled_proxySession(2)) simp_all
  then have "as_handled env srv ?x e client' b ms'"
    unfolding as_handled_def at_route_handle [OF at] by blast
  with e show ?thesis by (simp add: front_inv_def)
qed

text \<open>Steps of the gateway below leave the other sessions' relays in place.\<close>

lemma relays_kept:
  assumes "gateway_step rng g g'" and "fst ` set (gw_sessions g') = fst ` set (gw_sessions g)" and "relays g c database route client backend"
  shows "relays g' c database route client backend"
  using assms(1)
proof cases
  case (gs_begin c' route label client backend)
  with assms(2) show ?thesis by auto
next
  case (gs_release c' l err s)
  then have "c' \<in> fst ` set (gw_sessions g)" "c' \<notin> fst ` set (gw_sessions g')"
    by (auto simp: delete_conv' map_of_eq_None_iff [symmetric] dest: map_of_SomeD intro: rev_image_eqI)
  with assms(2) show ?thesis by simp
qed (use assms(3) in \<open>auto simp: relays_def\<close>)

lemma front_inv_frame:
  assumes "front_inv env srv g c x" and "\<And>database route client backend. relays g c database route client backend \<Longrightarrow> relays g' c database route client backend"
  shows "front_inv env srv g' c x"
  using assms by (auto simp: front_inv_def split: session_phase.splits)

definition front_ok :: "rand_source \<Rightarrow> Server \<Rightarrow> front \<Rightarrow> bool" where
  "front_ok rng srv f \<longleftrightarrow> gateway_reach rng (fr_gateway f)
     \<and> (\<forall>c x. map_of (fr_sessions f) c = Some x \<longrightarrow> front_inv (fs_env x) srv (fr_gateway f) c x)"

lemma front_ok_update:
  assumes "front_ok rng srv f" and "gateway_reach rng g" and "front_inv (fs_env x) srv g c x"
    and "\<And>c' database route client backend. c' \<noteq> c \<Longrightarrow> relays (fr_gateway f) c' database route client backend \<Longrightarrow> relays g c' database route client backend"
  shows "front_ok rng srv (f\<lparr>fr_gateway := g, fr_sessions := AList.update c x (fr_sessions f)\<rparr>)"
  using assms front_inv_frame [of _ srv "fr_gateway f" _ _ g] by (auto simp: front_ok_def update_conv')

lemma front_ok_step:
  assumes "front_step rng srv f f'" and "front_ok rng srv f"
  shows "front_ok rng srv f'"
proof -
  have reach: "gateway_reach rng (fr_gateway f)" using assms(2) by (simp add: front_ok_def)
  have inv: "map_of (fr_sessions f) c = Some x \<Longrightarrow> front_inv (fs_env x) srv (fr_gateway f) c x" for c x
    using assms(2) by (simp add: front_ok_def)
  have own: "front_ok rng srv (f\<lparr>fr_sessions := AList.update c x (fr_sessions f)\<rparr>)" if "front_inv (fs_env x) srv (fr_gateway f) c x" for c x
    using front_ok_update [OF assms(2) reach that] by simp
  show ?thesis
    using assms(1)
  proof cases
    case (fr_accept c raw)
    then show ?thesis by (auto intro: own simp: front_inv_def)
  next
    case (fr_negotiate c x)
    then show ?thesis by (auto intro!: own simp: front_inv_opened)
  next
    case (fr_look c x client startup ph)
    with front_inv_looked [OF inv [OF fr_look(2)] fr_look(3,4)] show ?thesis by (auto intro!: own)
  next
    case (fr_refused c x client startup database route err client' backend ms)
    with front_inv_refused [OF inv [OF fr_refused(2)] fr_refused(3,4)] show ?thesis by (auto intro!: own)
  next
    case (fr_begin c x client startup database route client' backend ms)
    let ?l = "\<lparr>rl_route = route, rl_label = databaseLabel database True, rl_client = client', rl_backend = backend,
      rl_stage = Relaying (startRelay (gw_pos (fr_gateway f)) (gw_cancels (fr_gateway f)) client' backend)\<rparr>"
    let ?g = "(fr_gateway f)\<lparr>gw_sessions := (c, ?l) # gw_sessions (fr_gateway f)\<rparr>"
    have "at_route (fs_env x) srv x client startup database route" using inv [OF fr_begin(2)] fr_begin(3) by (simp add: front_inv_def)
    then have "front_inv (fs_env x) srv ?g c (x\<lparr>fs_phase := Proxying database route client' backend ms\<rparr>)"
      using fr_begin(4) by (auto simp: front_inv_def relays_def at_route_def)
    moreover have "gateway_reach rng ?g" by (rule gateway_next [OF reach gs_begin [OF fr_begin(5)]])
    ultimately show ?thesis
      unfolding fr_begin(1) by (intro front_ok_update [OF assms(2)]) (auto simp: relays_def)
  next
    case (fr_inner g)
    have "gateway_reach rng g" by (rule gateway_next [OF reach fr_inner(2)])
    moreover have "front_inv (fs_env x) srv g c x" if "map_of (fr_sessions f) c = Some x" for c x
      by (rule front_inv_frame [OF inv [OF that]]) (rule relays_kept [OF fr_inner(2,3)])
    ultimately show ?thesis by (simp add: front_ok_def fr_inner(1))
  next
    case (fr_end c x database route client backend ms l err s cutAt)
    let ?g = "(fr_gateway f)\<lparr>gw_cancels := rs_cancels (releaseIssued (attend (fr_gateway f) s)),
      gw_sessions := AList.delete c (gw_sessions (fr_gateway f))\<rparr>"
    have "gateway_reach rng ?g" by (rule gateway_next [OF reach gs_release [OF fr_end(4,5)]])
    then show ?thesis
      unfolding fr_end(1)
      using front_inv_ended [OF inv [OF fr_end(2)] fr_end(3) reach fr_end(4,5), of ?g cutAt]
      by (intro front_ok_update [OF assms(2)]) (auto simp: relays_def delete_conv')
  qed
qed

lemma front_reach_ok: "front_reach rng srv f \<Longrightarrow> front_ok rng srv f"
proof (induction rule: front_reach.induct)
  case front_new
  show ?case by (simp add: front_ok_def gateway_new)
next
  case (front_next f f')
  then show ?case by (blast intro: front_ok_step)
qed

text \<open>Only sessions in the relay phase have a relay, and a session that has ended stays as it is.\<close>

fun relaying_phase :: "session_phase \<Rightarrow> bool" where
  "relaying_phase (Proxying _ _ _ _ _) = True"
| "relaying_phase _ = False"

lemma relay_phase:
  assumes "front_reach rng srv f" and "map_of (gw_sessions (fr_gateway f)) c = Some l"
  shows "\<exists>x. map_of (fr_sessions f) c = Some x \<and> relaying_phase (fs_phase x)"
  using assms
proof (induction arbitrary: c l rule: front_reach.induct)
  case (front_next f f')
  have other: "\<exists>x. map_of (AList.update c' y (fr_sessions f)) c = Some x \<and> relaying_phase (fs_phase x)"
    if "map_of (gw_sessions (fr_gateway f)) c = Some l" "\<And>x. map_of (fr_sessions f) c' = Some x \<Longrightarrow> \<not> relaying_phase (fs_phase x)" for c' y l
    using front_next.IH [OF that(1)] that(2) by (auto simp: update_conv')
  from front_next.hyps(2) show ?case
  proof cases
    case (fr_accept c' env raw)
    then have "map_of (fr_sessions f) c' = None" by (simp add: map_of_eq_None_iff)
    with front_next.prems other [of l c'] show ?thesis by (simp add: fr_accept(1))
  next
    case (fr_inner g)
    have "c \<in> fst ` set (gw_sessions g)" using front_next.prems fr_inner(1) by (force dest: map_of_SomeD)
    then have "map_of (gw_sessions (fr_gateway f)) c \<noteq> None" unfolding fr_inner(3) by (simp add: map_of_eq_None_iff)
    with front_next.IH fr_inner(1) show ?thesis by auto
  next
    case (fr_begin c' x client startup database route client' backend ms)
    then show ?thesis using front_next.prems other [of _ c'] by (cases "c = c'") (auto simp: update_conv')
  next
    case (fr_end c' x database route client backend ms l' err s cutAt)
    then have "c \<noteq> c'" "map_of (gw_sessions (fr_gateway f)) c = Some l"
      using front_next.prems by (auto simp: delete_conv' split: if_splits)
    with front_next.IH [OF this(2)] show ?thesis by (auto simp: fr_end(1) update_conv')
  next
    case (fr_negotiate c' x)
    then show ?thesis using front_next.prems other [of l c'] by simp
  next
    case (fr_look c' x client startup ph)
    then show ?thesis using front_next.prems other [of l c'] by simp
  next
    case (fr_refused c' x client startup database route err client' backend ms)
    then show ?thesis using front_next.prems other [of l c'] by simp
  qed
qed simp

lemma front_step_keeps:
  assumes "front_step rng srv f f'" and "map_of (fr_sessions f) c = Some x"
  shows "\<exists>x'. map_of (fr_sessions f') c = Some x' \<and> fs_env x' = fs_env x \<and> fs_raw x' = fs_raw x
    \<and> (\<forall>err client backend ms. fs_phase x = Served err client backend ms \<longrightarrow> x' = x)"
  using assms
proof cases
  case (fr_accept c' env raw)
  then have "c' \<noteq> c" using assms(2) by (force dest: map_of_SomeD)
  with fr_accept assms(2) show ?thesis by (auto simp: update_conv')
qed (use assms(2) in \<open>auto simp: update_conv'\<close>)

text \<open>Concurrency does not change what a session does. In every run of a gateway, with any number
  of sessions negotiating, looking up, dialling, relaying and ending in any order on the shared
  registry, and with routing tables published in between, a session that has ended ended as the
  sequential \<open>handle\<close> does on a gateway of its own, with the store the session looked at and, for a
  cancellation, the registry as it was then: with the same error, the same bytes to client and
  backend, both connections closed alike, and the same metric operations. Only the random values
  behind its key and the moment the client is hung up on are not fixed.\<close>

lemma concurrent_sessions_are_handled:
  assumes "front_reach rng srv f" and "map_of (fr_sessions f) c = Some x" and "fs_phase x = Served err client backend ms"
  shows "as_handled (fs_env x) srv x err client backend ms"
  using front_reach_ok [OF assms(1)] assms(2,3) by (fastforce simp: front_ok_def front_inv_def)

section \<open>A sample session\<close>

abbreviation plain_client :: conn where "plain_client \<equiv> sample_conn (Encode sample_startup)"

abbreviation waiting_client :: conn where "waiting_client \<equiv> (sample_conn [])\<lparr>c_deadline := (True, True)\<rparr>"

lemma sample_opened:
  assumes "cfg_TLS (sv_cfg srv) = None"
  shows "opened (sample_env []) srv plain_client = Negotiated waiting_client sample_startup"
proof -
  have "ReadStartupPacket (c_in plain_client) = (Inr sample_startup, \<lparr>si_data = [], si_end = Sentinel IoEOF\<rparr>)"
    using ReadStartupPacket_Encode [OF sample_startup_ok(1-4), of "[]"] by (simp add: sample_conn_def)
  moreover have "plain_client\<lparr>c_deadline := (True, True), c_in := \<lparr>si_data = [], si_end = Sentinel IoEOF\<rparr>\<rparr> = waiting_client"
    by (simp add: sample_conn_def)
  moreover have "conn_SetDeadline True plain_client = (None, plain_client\<lparr>c_deadline := (True, True)\<rparr>)"
    by (simp add: conn_SetDeadline_def sample_conn_def)
  ultimately have "negotiate (sample_env []) None (plain_client\<lparr>c_deadline := (True, True)\<rparr>) = (Inr sample_startup, waiting_client)"
    using sendable_codes [OF sample_startup_ok(5)] by (simp add: negotiate_def maxNegotiationRounds_def numeral_eq_Suc)
  with \<open>conn_SetDeadline True plain_client = _\<close> assms show ?thesis by (simp add: opened_def)
qed

lemma sample_looked:
  "looked env cs (Store_Store (Some sample_table) NewStore) client sample_startup = Some (Found client sample_startup ''orders'' plain_route)"
  using sendable_codes [OF sample_startup_ok(5)]
  by (simp add: looked_def sample_startup_database sample_table_def Store_Store_def Store_Routes_def NewTable_def Lookup_def Let_def)

lemma sample_dialled:
  "\<exists>b ms. dialled (sample_env []) waiting_client sample_startup ''orders'' plain_route
     = Proxying ''orders'' plain_route (sample_conn []) b ms \<and> c_in b = \<lparr>si_data = [], si_end = Sentinel IoEOF\<rparr>"
proof -
  have plain: "\<not> TLS_Enabled (rt_TLS plain_route)" by (simp add: TLS_Enabled_def plain_route_def)
  have "conn_SetDeadline False waiting_client = (None, sample_conn [])"
    by (simp add: conn_SetDeadline_def sample_conn_def)
  moreover have "dialBackend (sample_env []) plain_route = (Inr (waiting_client), [BackendDialObserve (rt_Database plain_route)])"
    using plain by (simp add: dialBackend_def sample_env_def conn_SetDeadline_def Let_def) (simp add: sample_conn_def)
  ultimately show ?thesis
    by (simp add: dialled_def conn_Write_open conn_open_def conn_SetDeadline_def sample_conn_def)
qed

abbreviation sample_gateway :: gateway where
  "sample_gateway \<equiv> \<lparr>gw_store = NewStore, gw_cancels = newCancelRegistry, gw_pos = 0, gw_sessions = [], gw_lost = []\<rparr>"

abbreviation sample_published :: gateway where
  "sample_published \<equiv> sample_gateway\<lparr>gw_store := Store_Store (Some sample_table) NewStore\<rparr>"

abbreviation sample_visit :: "session_phase \<Rightarrow> Store \<Rightarrow> front_session" where
  "sample_visit ph store \<equiv> \<lparr>fs_env = sample_env [], fs_raw = plain_client, fs_phase = ph, fs_store = store, fs_cancels = newCancelRegistry\<rparr>"

abbreviation sample_front :: "gateway \<Rightarrow> front_session \<Rightarrow> front" where
  "sample_front g x \<equiv> \<lparr>fr_gateway = g, fr_sessions = [(1, x)]\<rparr>"

lemma three_steps: "r a b \<Longrightarrow> r b c \<Longrightarrow> r c d \<Longrightarrow> r\<^sup>*\<^sup>* a d"
  by (meson converse_rtranclp_into_rtranclp rtranclp.rtrancl_refl)

text \<open>The client has sent its startup packet when there is no table; it is looked up in the table published next.\<close>

lemma sample_found:
  assumes "cfg_TLS (sv_cfg srv) = None"
  shows "(front_move rng srv)\<^sup>*\<^sup>* (sample_front sample_gateway (sample_visit Arrived NewStore))
    (sample_front sample_published (sample_visit (Found waiting_client sample_startup ''orders'' plain_route) (gw_store sample_published)))"
proof -
  let ?n = "sample_visit (Negotiated waiting_client sample_startup) NewStore"
  have 1: "front_move rng srv (sample_front sample_gateway (sample_visit Arrived NewStore)) (sample_front sample_gateway ?n)"
    using fr_negotiate [of "sample_front sample_gateway (sample_visit Arrived NewStore)" 1 "sample_visit Arrived NewStore" rng srv] by (simp add: sample_opened [OF assms])
  have 2: "front_move rng srv (sample_front sample_gateway ?n) (sample_front sample_published ?n)"
    using fr_inner [of rng "sample_front sample_gateway ?n" sample_published] gs_publish [of rng sample_gateway "Some sample_table"] by simp
  have 3: "front_move rng srv (sample_front sample_published ?n)
      (sample_front sample_published (sample_visit (Found waiting_client sample_startup ''orders'' plain_route) (gw_store sample_published)))"
    using fr_look [of "sample_front sample_published ?n" 1 ?n waiting_client sample_startup] sendable_codes [OF sample_startup_ok(5)]
    by (simp add: sample_looked)
  show ?thesis by (rule three_steps [of "front_move rng srv", OF 1 2 3])
qed

lemma sample_ended:
  "\<exists>g err client backend ms. (front_move rng srv)\<^sup>*\<^sup>*
      (sample_front sample_published (sample_visit (Found waiting_client sample_startup ''orders'' plain_route) st))
      (sample_front g (sample_visit (Served err client backend ms) st))
    \<and> ConnectionsInc (databaseLabel ''orders'' True) outcomeProxied \<in> set ms"
proof -
  obtain b ms where dl: "dialled (sample_env []) waiting_client sample_startup ''orders'' plain_route
      = Proxying ''orders'' plain_route (sample_conn []) b ms" and b: "c_in b = \<lparr>si_data = [], si_end = Sentinel IoEOF\<rparr>"
    using sample_dialled by blast
  let ?label = "databaseLabel ''orders'' True"
  let ?s = "startRelay 0 newCancelRegistry (sample_conn []) b"
  let ?x = "sample_visit (Proxying ''orders'' plain_route (sample_conn []) b ms) st"
  define l where "l stage = \<lparr>rl_route = plain_route, rl_label = ?label, rl_client = sample_conn [], rl_backend = b, rl_stage = stage\<rparr>" for stage
  define g where "g stage = sample_published\<lparr>gw_sessions := [(1, l stage)]\<rparr>" for stage
  let ?f = "sample_front sample_published (sample_visit (Found waiting_client sample_startup ''orders'' plain_route) st)"
  have begins: "front_move rng srv ?f (sample_front (g (Relaying ?s)) ?x)"
    using fr_begin [of ?f 1 "sample_visit (Found waiting_client sample_startup ''orders'' plain_route) st" waiting_client sample_startup
        "''orders''" plain_route "sample_conn []" b ms rng srv] dl by (simp add: g_def l_def)
  have "\<exists>s. relayTurn rng plain_route ?label (attend (g (Relaying ?s)) ?s) = Ended None s"
    using b by (simp add: relayTurn_def attend_def startRelay_def NewMessageReader_def Next_def io_ReadFull_def)
  then obtain s where s: "relayTurn rng plain_route ?label (attend (g (Relaying ?s)) ?s) = Ended None s" by blast
  let ?g = "advance 1 (l (Relaying ?s)) (Finished None s) (g (Relaying ?s))"
  have "gateway_step rng (g (Relaying ?s)) ?g"
    using s by (intro gs_end [where s = ?s]) (simp_all add: g_def l_def)
  then have runs: "front_move rng srv (sample_front (g (Relaying ?s)) ?x) (sample_front ?g ?x)"
    using fr_inner [of rng "sample_front (g (Relaying ?s)) ?x" ?g] by (simp add: g_def advance_def)
  obtain err client backend ms' where e: "ended None ''orders'' (sample_conn []) b ms None s = Served err client backend ms'"
    using ended_phase by blast
  then have ms': "ConnectionsInc ?label outcomeProxied \<in> set ms'" by (auto simp: ended_def Let_def split: prod.splits)
  then obtain g' where ends: "front_move rng srv (sample_front ?g ?x) (sample_front g' (sample_visit (Served err client backend ms') st))"
    using fr_end [of "sample_front ?g ?x" 1 ?x "''orders''" plain_route "sample_conn []" b ms "l (Finished None s)" None s rng srv None] e
    by (auto simp: g_def l_def advance_def)
  show ?thesis
    by (rule exI [of _ g'], rule exI [of _ err], rule exI [of _ client],
        rule exI [of _ backend], rule exI [of _ ms'], rule conjI, rule three_steps [of "front_move rng srv", OF begins runs ends]) (rule ms')
qed

lemma sample_session:
  assumes "cfg_TLS (sv_cfg srv) = None"
  shows "\<exists>g err client backend ms. (front_move rng srv)\<^sup>*\<^sup>* (sample_front sample_gateway (sample_visit Arrived NewStore))
      (sample_front g (sample_visit (Served err client backend ms) (gw_store sample_published)))
    \<and> ConnectionsInc (databaseLabel ''orders'' True) outcomeProxied \<in> set ms"
  using sample_found [OF assms] sample_ended by (meson rtranclp_trans)

end
