(* ===== verification/Server_Loop.thy ===== *)
theory Server_Loop
  imports Session
begin

text \<open>
  The accept loop, its back-off, draining and the server as a state machine
  (\<^verbatim>\<open>src/src/internal/proxy/server.go\<close>). The accept loop is a function of what successive
  \<^verbatim>\<open>Accept\<close> calls report; with the list used up it is still accepting. Sessions run
  concurrently: the step relation \<open>server_step\<close> interleaves the critical pieces of
  \<open>acceptLoop\<close> and \<open>serve\<close>, each of which holds a mutex or is one channel operation.
\<close>

section \<open>Definitions\<close>

definition minBackoff :: Duration where "minBackoff = 5 * time_Millisecond"
definition maxBackoff :: Duration where "maxBackoff = time_Second"

definition nextBackoff :: "Duration \<Rightarrow> Duration" where
  "nextBackoff current =
     (if current = 0 then minBackoff
      else let doubled = current * 2 in
           if sint doubled < sint maxBackoff then doubled else maxBackoff)"

text \<open>
  What one \<^verbatim>\<open>Accept\<close> reports: a connection, or an error together with whether the
  context is done by then, whether the error is a timeout of the network layer, and, if the
  loop then waits, whether the context ends before the wait does.
\<close>

datatype accepted =
    Accepted nat
  | AcceptFailed go_error (ctxDone: bool) (isTimeout: bool) (doneWhileWaiting: bool)

datatype loop_end = Accepting | Draining | Returned "go_error option"

text \<open>The result holds the connections handed to \<open>serve\<close> and the waits, both in order.\<close>

fun acceptLoop :: "Duration \<Rightarrow> accepted list \<Rightarrow> loop_end \<times> nat list \<times> Duration list" where
  "acceptLoop backoff [] = (Accepting, [], [])"
| "acceptLoop backoff (Accepted conn # rest) =
     (case acceptLoop 0 rest of (res, conns, waits) \<Rightarrow> (res, conn # conns, waits))"
| "acceptLoop backoff (AcceptFailed err done timeout interrupted # rest) =
     (if done then (Returned None, [], [])
      else if timeout then
        (let backoff = nextBackoff backoff in
         if interrupted then (Returned None, [], [backoff])
         else (case acceptLoop backoff rest of (res, conns, waits) \<Rightarrow> (res, conns, backoff # waits)))
      else (Returned (Some (wrapf ''proxy: accepting connections'' err)), [], []))"

text \<open>
  \<open>drain\<close>: \<open>inGrace\<close> is what the session goroutines do until the wait group is empty or the
  grace period ends, \<open>rest\<close> what they do from then until the wait group is empty, \<open>None\<close> if it
  never is. When the period ends first every connection then tracked is closed, and \<open>drain\<close>
  goes on waiting. The result holds the connections closed and the server, if \<open>drain\<close> returns.
\<close>

definition drain :: "(Server \<Rightarrow> Server) \<Rightarrow> (Server \<Rightarrow> Server option) \<Rightarrow> Server \<Rightarrow> nat list \<times> Server option" where
  "drain inGrace rest s =
     (let s = inGrace s in
      if sv_sessions s = 0 then ([], Some s) else (map fst (sv_activeConn s), rest s))"

text \<open>
  \<open>Start\<close>: \<open>listened\<close> is what listening yields, an error or the bound TCP address
  (\<open>None\<close> when the listener's address is not one); \<open>sessions\<close> is what the session
  goroutines do to the server while the loop runs. A loop that is still accepting has not
  drained and is still listening; the deferred store runs after \<open>drain\<close>. The result holds
  how \<open>Start\<close> stands, the connections \<open>drain\<close> closed and the server.
\<close>

definition startListening :: "go_string option \<Rightarrow> Server \<Rightarrow> Server" where
  "startListening addr s =
     s\<lparr>sv_addr := (case addr of Some a \<Rightarrow> Some a | None \<Rightarrow> sv_addr s), sv_listening := True\<rparr>"

definition Start ::
    "go_error + go_string option \<Rightarrow> accepted list \<Rightarrow> (Server \<Rightarrow> Server) \<Rightarrow> (Server \<Rightarrow> Server)
     \<Rightarrow> (Server \<Rightarrow> Server option) \<Rightarrow> Server \<Rightarrow> loop_end \<times> nat list \<times> Server" where
  "Start listened accepts sessions inGrace rest s =
     (case listened of
        Inl err \<Rightarrow>
          (Returned (Some (wrapf (''proxy: listening on '' @ cfg_ListenAddress (sv_cfg s)) err)), [], s)
      | Inr addr \<Rightarrow>
         (let s1 = sessions (startListening addr s) in
          case acceptLoop 0 accepts of
            (Returned err, conns, waits) \<Rightarrow>
              (case drain inGrace rest s1 of
                 (closed, Some s2) \<Rightarrow> (Returned err, closed, s2\<lparr>sv_listening := False\<rparr>)
               | (closed, None) \<Rightarrow> (Draining, closed, inGrace s1))
          | (_, conns, waits) \<Rightarrow> (Accepting, [], s1)))"

text \<open>
  A session goroutine between the accept that started it and its end: not yet tracked,
  running with or without a slot, or past its deferred calls.
\<close>

datatype phase = Spawned | Running bool | Finishing

record world =
  w_server :: Server
  w_sessions :: "(nat \<times> phase) list"

text \<open>
  One step of the server: accepting a connection, a goroutine entering \<open>serve\<close>, running
  the deferred calls of \<open>serve\<close>, and telling the wait group; \<open>Some\<close> in the third rule
  says that releasing the slot does not block.
\<close>

inductive server_step :: "world \<Rightarrow> world \<Rightarrow> bool" where
  step_accept: "c \<notin> fst ` set (w_sessions w) \<Longrightarrow>
     server_step w (w\<lparr>w_server := (w_server w)\<lparr>sv_sessions := sv_sessions (w_server w) + 1\<rparr>,
                      w_sessions := (c, Spawned) # w_sessions w\<rparr>)"
| step_enter: "map_of (w_sessions w) c = Some Spawned \<Longrightarrow> serveEnter c (w_server w) = (ok, s) \<Longrightarrow>
     server_step w (w\<lparr>w_server := s, w_sessions := AList.update c (Running ok) (w_sessions w)\<rparr>)"
| step_handle: "map_of (w_sessions w) c = Some (Running True) \<Longrightarrow>
     server_step w (w\<lparr>w_server := (w_server w)\<lparr>sv_cancels := cancels\<rparr>\<rparr>)"
| step_exit: "map_of (w_sessions w) c = Some (Running ok) \<Longrightarrow> serveExit c ok (w_server w) = Some s \<Longrightarrow>
     server_step w (w\<lparr>w_server := s, w_sessions := AList.update c Finishing (w_sessions w)\<rparr>)"
| step_done: "map_of (w_sessions w) c = Some Finishing \<Longrightarrow>
     server_step w (w\<lparr>w_server := (w_server w)\<lparr>sv_sessions := sv_sessions (w_server w) - 1\<rparr>,
                      w_sessions := AList.delete c (w_sessions w)\<rparr>)"

inductive server_reach :: "Config \<Rightarrow> world \<Rightarrow> bool" for cfg where
  reach_new: "New cfg = Inr s \<Longrightarrow> server_reach cfg \<lparr>w_server = s, w_sessions = []\<rparr>"
| reach_step: "server_reach cfg w \<Longrightarrow> server_step w w' \<Longrightarrow> server_reach cfg w'"

section \<open>The server's invariant\<close>

abbreviation holding :: "(nat \<times> phase) list \<Rightarrow> nat" where
  "holding ss \<equiv> length (filter (\<lambda>x. snd x = Running True) ss)"

definition tracked :: "phase \<Rightarrow> bool" where
  "tracked ph \<longleftrightarrow> (case ph of Running _ \<Rightarrow> True | _ \<Rightarrow> False)"

definition server_inv :: "Config \<Rightarrow> world \<Rightarrow> bool" where
  "server_inv cfg w \<longleftrightarrow>
     sv_cfg (w_server w) = applyDefaults cfg
     \<and> distinct (map fst (w_sessions w))
     \<and> sv_sessions (w_server w) = length (w_sessions w)
     \<and> (\<forall>c. gomap_get (sv_activeConn (w_server w)) c \<noteq> None \<longleftrightarrow>
          (\<exists>ph. map_of (w_sessions w) c = Some ph \<and> tracked ph))
     \<and> (if cfg_MaxConnections cfg = 0 then sv_slots (w_server w) = None
        else \<exists>ch. sv_slots (w_server w) = Some ch \<and> int (sl_cap ch) = cfg_MaxConnections cfg
               \<and> sl_used ch = holding (w_sessions w) \<and> sl_used ch \<le> sl_cap ch)"

lemma holding_update:
  assumes "map_of ss c = Some ph" and "distinct (map fst ss)"
  shows "holding (AList.update c ph' ss) + (if ph = Running True then 1 else 0)
    = holding ss + (if ph' = Running True then 1 else 0)"
  using assms
proof (induction ss)
  case (Cons x ss)
  show ?case
  proof (cases "fst x = c")
    case False
    then show ?thesis using Cons by (cases x) auto
  next
    case True
    then show ?thesis using Cons.prems by (cases x) auto
  qed
qed simp

lemma holding_delete:
  assumes "map_of ss c = Some Finishing" and "distinct (map fst ss)"
  shows "holding (AList.delete c ss) = holding ss" "length (AList.delete c ss) + 1 = length ss"
proof -
  have "holding (AList.delete c ss) = holding ss \<and> length (AList.delete c ss) + 1 = length ss"
    using assms
  proof (induction ss)
    case (Cons x ss)
    show ?case
    proof (cases "fst x = c")
      case True
      then have "AList.delete c ss = ss"
        using Cons.prems(2) by (intro delete_id) auto
      then show ?thesis using True Cons.prems by (cases x) auto
    next
      case False
      then show ?thesis using Cons by (cases x) auto
    qed
  qed simp
  then show "holding (AList.delete c ss) = holding ss" "length (AList.delete c ss) + 1 = length ss" by auto
qed

lemma server_inv_new: "New cfg = Inr s \<Longrightarrow> server_inv cfg \<lparr>w_server = s, w_sessions = []\<rparr>"
  by (auto simp: server_inv_def New_def Let_def split: if_splits)

lemma update_length: "map_of ss c \<noteq> None \<Longrightarrow> length (AList.update c v ss) = length ss"
  by (induction ss) auto

lemma holding_pos: "map_of ss c = Some (Running True) \<Longrightarrow> 0 < holding ss"
  by (force dest!: map_of_SomeD simp: length_greater_0_conv filter_empty_conv)

lemma exit_not_blocked:
  assumes "server_inv cfg w" and "map_of (w_sessions w) c = Some (Running ok)"
  shows "\<exists>s. serveExit c ok (w_server w) = Some s"
  using assms holding_pos [of "w_sessions w" c]
  by (cases ok) (auto simp: server_inv_def serveExit_def releaseSlot_def split: option.splits if_splits)

lemma server_inv_step: "server_step w w' \<Longrightarrow> server_inv cfg w \<Longrightarrow> server_inv cfg w'"
proof (induction rule: server_step.induct)
  case (step_accept c w)
  then have "map_of (w_sessions w) c = None" by (simp add: map_of_eq_None_iff)
  moreover have "\<not> tracked Spawned" by (simp add: tracked_def)
  ultimately show ?case
    using step_accept by (auto simp: server_inv_def split: if_splits)
next
  case (step_enter w c ok s)
  have h: "holding (AList.update c (Running ok) (w_sessions w)) = holding (w_sessions w) + (if ok then 1 else 0)"
    using holding_update [OF step_enter(1), of "Running ok"] step_enter.prems by (simp add: server_inv_def)
  have l: "length (AList.update c (Running ok) (w_sessions w)) = length (w_sessions w)"
    using step_enter(1) by (simp add: update_length)
  have "\<not> tracked Spawned" "tracked (Running ok)" by (simp_all add: tracked_def)
  then show ?case
    using step_enter h l
    by (auto simp: server_inv_def serveEnter_def acquireSlot_def track_def update_conv' distinct_update
        split: option.splits if_splits)
next
  case (step_handle w c cancels)
  then show ?case by (simp add: server_inv_def)
next
  case (step_exit w c ok s)
  have h: "holding (AList.update c Finishing (w_sessions w)) + (if ok then 1 else 0) = holding (w_sessions w)"
    using holding_update [OF step_exit(1), of Finishing] step_exit.prems by (auto simp: server_inv_def)
  have l: "length (AList.update c Finishing (w_sessions w)) = length (w_sessions w)"
    using step_exit(1) by (simp add: update_length)
  have "\<not> tracked Finishing" by (simp add: tracked_def)
  then show ?case
    using step_exit h l
    by (auto simp: server_inv_def serveExit_def releaseSlot_def untrack_def update_conv' distinct_update
        split: option.splits if_splits)
next
  case (step_done w c)
  have "distinct (map fst (w_sessions w))" using step_done.prems by (simp add: server_inv_def)
  note d = holding_delete [OF step_done(1) this]
  have "\<not> tracked Finishing" by (simp add: tracked_def)
  then show ?case
    using step_done d
    by (auto simp: server_inv_def delete_conv' distinct_delete simp del: map_of_eq_Some_iff split: if_splits)
qed

lemma server_reach_inv: "server_reach cfg w \<Longrightarrow> server_inv cfg w"
  by (induction rule: server_reach.induct) (auto intro: server_inv_new server_inv_step)

section \<open>The accept loop\<close>

fun connections :: "accepted list \<Rightarrow> nat list" where
  "connections [] = []"
| "connections (Accepted c # as) = c # connections as"
| "connections (AcceptFailed _ _ _ _ # as) = connections as"

section \<open>Properties\<close>

text \<open>C16: Through any interleaving of accepts, sessions starting, running and ending, a server with a
  connection limit never runs more sessions than the limit, releasing a slot never blocks, a
  client is turned away only while the limit is reached, the wait group counts exactly the
  sessions that have not ended and the tracked connections are exactly those being served.\<close>

theorem connection_limit_is_respected:
  assumes "server_reach cfg w"
  shows "(0 < cfg_MaxConnections cfg \<longrightarrow> int (holding (w_sessions w)) \<le> cfg_MaxConnections cfg)
    \<and> (\<forall>c ok. map_of (w_sessions w) c = Some (Running ok) \<longrightarrow> serveExit c ok (w_server w) \<noteq> None)
    \<and> (\<forall>c. \<not> fst (serveEnter c (w_server w)) \<longrightarrow>
         0 < cfg_MaxConnections cfg \<and> int (holding (w_sessions w)) = cfg_MaxConnections cfg)
    \<and> sv_sessions (w_server w) = length (w_sessions w)
    \<and> (\<forall>c. gomap_get (sv_activeConn (w_server w)) c \<noteq> None \<longleftrightarrow> (\<exists>ok. map_of (w_sessions w) c = Some (Running ok)))"
proof (intro conjI allI impI)
  note inv = server_reach_inv [OF assms]
  show "int (holding (w_sessions w)) \<le> cfg_MaxConnections cfg" if "0 < cfg_MaxConnections cfg"
    using inv that by (auto simp: server_inv_def)
  show "serveExit c ok (w_server w) \<noteq> None" if "map_of (w_sessions w) c = Some (Running ok)" for c ok
    using exit_not_blocked [OF inv that] by auto
  have full: "\<exists>ch. sv_slots (w_server w) = Some ch \<and> sl_cap ch \<le> sl_used ch"
    if "\<not> fst (serveEnter c (w_server w))" for c
    using that by (auto simp: serveEnter_def acquireSlot_def track_def split: option.splits if_splits)
  have nonneg: "0 \<le> cfg_MaxConnections cfg"
    using assms by (induction rule: server_reach.induct) (auto dest: New_okD)
  show "0 < cfg_MaxConnections cfg" "int (holding (w_sessions w)) = cfg_MaxConnections cfg"
    if "\<not> fst (serveEnter c (w_server w))" for c
    using full [OF that] inv nonneg by (auto simp: server_inv_def split: if_splits)
  show "sv_sessions (w_server w) = length (w_sessions w)" using inv by (simp add: server_inv_def)
  have act: "gomap_get (sv_activeConn (w_server w)) c \<noteq> None \<longleftrightarrow>
      (\<exists>ph. map_of (w_sessions w) c = Some ph \<and> tracked ph)" for c
    using inv by (simp add: server_inv_def)
  have tr: "tracked ph \<longleftrightarrow> (\<exists>ok. ph = Running ok)" for ph
    by (auto simp: tracked_def split: phase.splits)
  show "gomap_get (sv_activeConn (w_server w)) c \<noteq> None \<longleftrightarrow> (\<exists>ok. map_of (w_sessions w) c = Some (Running ok))" for c
    using act [of c] by (auto simp: tr)
qed

text \<open>The back-off after n + 1 consecutive failures is 5 ms doubled n times, capped at one
  second: it never overflows and never exceeds the cap.\<close>

lemma backoff_doubles_up_to_the_cap:
  "sint ((nextBackoff ^^ Suc n) 0) = min (5000000 * 2 ^ n) 1000000000"
proof (induction n)
  case 0
  then show ?case by (simp add: nextBackoff_def minBackoff_def time_Millisecond_def)
next
  case (Suc n)
  define x where "x = (nextBackoff ^^ Suc n) 0"
  have x: "sint x = min (5000000 * 2 ^ n) 1000000000" using Suc by (simp add: x_def)
  have pos: "0 < sint x" and le: "sint x \<le> 1000000000" by (simp_all add: x)
  then have nz: "x \<noteq> 0" by auto
  have "sint (x * 2) = sint x * 2"
    using pos le by (simp add: sint_word_ariths signed_take_bit_int_eq_self)
  then have "sint (nextBackoff x) = min (sint x * 2) 1000000000"
    using nz by (simp add: nextBackoff_def maxBackoff_def time_Second_def min_def)
  moreover have "(nextBackoff ^^ Suc (Suc n)) 0 = nextBackoff x" by (simp add: x_def)
  ultimately have "sint ((nextBackoff ^^ Suc (Suc n)) 0) = min (min (5000000 * 2 ^ n) 1000000000 * 2) 1000000000"
    by (simp only: x)
  then show ?case by (simp add: min_def del: funpow.simps)
qed

text \<open>The session goroutines leave the server's address and its listening flag alone.\<close>

lemma server_steps_keep_listening:
  assumes "server_step\<^sup>*\<^sup>* w w'"
  shows "sv_listening (w_server w') = sv_listening (w_server w) \<and> sv_addr (w_server w') = sv_addr (w_server w)"
  using assms
proof (induction rule: rtranclp_induct)
  case (step w1 w2)
  from step.hyps(2) have "sv_listening (w_server w2) = sv_listening (w_server w1)
      \<and> sv_addr (w_server w2) = sv_addr (w_server w1)"
    by cases (auto simp: serveEnter_def serveExit_def acquireSlot_def releaseSlot_def track_def untrack_def
        split: option.splits if_splits)
  with step.IH show ?case by simp
qed simp

lemma acceptLoop_survives_timeouts:
  assumes "\<forall>a\<in>set as. (\<exists>c. a = Accepted c) \<or> (\<exists>e. a = AcceptFailed e False True False)"
  shows "\<exists>waits. acceptLoop b as = (Accepting, connections as, waits)
    \<and> length waits + length (connections as) = length as
    \<and> acceptLoop b (as @ [AcceptFailed err True t i]) = (Returned None, connections as, waits)"
  using assms
proof (induction as arbitrary: b)
  case (Cons a as)
  show ?case
  proof (cases a)
    case (Accepted c)
    have "\<forall>a\<in>set as. (\<exists>c. a = Accepted c) \<or> (\<exists>e. a = AcceptFailed e False True False)"
      using Cons.prems by simp
    from Cons.IH [OF this, of 0] Accepted show ?thesis by auto
  next
    case (AcceptFailed e d tm iw)
    then have "\<not> d" "tm" "\<not> iw" using Cons.prems by auto
    moreover have "\<forall>a\<in>set as. (\<exists>c. a = Accepted c) \<or> (\<exists>e. a = AcceptFailed e False True False)"
      using Cons.prems by simp
    note Cons.IH [OF this, of "nextBackoff b"]
    ultimately show ?thesis using AcceptFailed by auto
  qed
qed simp

text \<open>Temporary failures do not take the gateway down. Once it listens, after any mix of
  connections and timeouts with shutdown not requested, the accept loop still accepts and has
  handed every connection to a session, in order, waiting once per failure; whatever the
  sessions did meanwhile, the gateway still reports that it listens. After a shutdown it returns
  exactly when \<open>drain\<close> does, without an error and no longer listening.\<close>

lemma accept_loop_survives_timeouts:
  assumes "\<forall>a\<in>set as. (\<exists>c. a = Accepted c) \<or> (\<exists>e. a = AcceptFailed e False True False)"
    and "server_step\<^sup>*\<^sup>* \<lparr>w_server = startListening addr s, w_sessions = []\<rparr>
           \<lparr>w_server = sessions (startListening addr s), w_sessions = ss\<rparr>"
  shows "(\<exists>waits. acceptLoop 0 as = (Accepting, connections as, waits)
        \<and> length waits + length (connections as) = length as)
    \<and> (\<exists>s1. Start (Inr addr) as sessions inGrace rest s = (Accepting, [], s1) \<and> Listening s1)
    \<and> (case drain inGrace rest (sessions (startListening addr s)) of
         (closed, Some s2) \<Rightarrow> Start (Inr addr) (as @ [AcceptFailed err True t i]) sessions inGrace rest s
           = (Returned None, closed, s2\<lparr>sv_listening := False\<rparr>)
       | (closed, None) \<Rightarrow> fst (Start (Inr addr) (as @ [AcceptFailed err True t i]) sessions inGrace rest s) = Draining)"
proof -
  obtain waits where w: "acceptLoop 0 as = (Accepting, connections as, waits)"
      "length waits + length (connections as) = length as"
      "acceptLoop 0 (as @ [AcceptFailed err True t i]) = (Returned None, connections as, waits)"
    using acceptLoop_survives_timeouts [OF assms(1)] by blast
  have "sv_listening (sessions (startListening addr s))"
    using server_steps_keep_listening [OF assms(2)] by (simp add: startListening_def)
  with w show ?thesis by (auto simp: Start_def Listening_def Let_def split: prod.split option.split)
qed

section \<open>Witnesses\<close>

text \<open>A server with room for two sessions after three connections: the third is turned away.\<close>

definition sample_full :: "Server \<Rightarrow> Server" where
  "sample_full s = s\<lparr>sv_sessions := 3, sv_slots := Some \<lparr>sl_cap = 2, sl_used = 2\<rparr>,
     sv_activeConn := [(1, ()), (2, ()), (3, ())]\<rparr>"

lemma sample_full_steps:
  assumes "sv_slots s = Some \<lparr>sl_cap = 2, sl_used = 0\<rparr>" "sv_sessions s = 0" "sv_activeConn s = []"
  shows "server_step\<^sup>*\<^sup>* \<lparr>w_server = s, w_sessions = []\<rparr>
    \<lparr>w_server = sample_full s, w_sessions = [(3, Running False), (2, Running True), (1, Running True)]\<rparr>"
proof -
  let ?W = "\<lambda>n u a ss. \<lparr>w_server = s\<lparr>sv_sessions := n, sv_slots := Some \<lparr>sl_cap = 2, sl_used = u\<rparr>,
    sv_activeConn := a\<rparr>, w_sessions = ss\<rparr>"
  have acc: "server_step (?W n u a ss) (?W (n + 1) u a ((c, Spawned) # ss))" if "c \<notin> fst ` set ss" for n u a ss c
    using step_accept [of c "?W n u a ss"] that by (cases s) simp
  have ent: "server_step (?W n u a ((c, Spawned) # ss))
      (?W n (if u < 2 then u + 1 else u) (gomap_set a c ()) ((c, Running (u < 2)) # ss))" for n u a ss c
    using step_enter [of "?W n u a ((c, Spawned) # ss)" c]
    by (cases s) (simp add: serveEnter_def acquireSlot_def track_def)
  have join: "server_step\<^sup>*\<^sup>* (?W n u a ss)
      (?W (n + 1) (if u < 2 then u + 1 else u) (gomap_set a c ()) ((c, Running (u < 2)) # ss))"
    if "c \<notin> fst ` set ss" for n u a ss c
  proof (rule converse_rtranclp_into_rtranclp)
    show "server_step (?W n u a ss) (?W (n + 1) u a ((c, Spawned) # ss))" using that by (rule acc)
    show "server_step\<^sup>*\<^sup>* (?W (n + 1) u a ((c, Spawned) # ss))
      (?W (n + 1) (if u < 2 then u + 1 else u) (gomap_set a c ()) ((c, Running (u < 2)) # ss))"
      using ent by (rule r_into_rtranclp)
  qed
  have 0: "\<lparr>w_server = s, w_sessions = []\<rparr> = ?W 0 0 [] []" using assms by simp
  have 1: "server_step\<^sup>*\<^sup>* (?W 0 0 [] []) (?W 1 1 [(1, ())] [(1, Running True)])"
    using join [where c = 1 and ss = "[]" and n = 0 and u = 0 and a = "[]"] by (simp add: gomap_set_def)
  have 2: "server_step\<^sup>*\<^sup>* (?W 1 1 [(1, ())] [(1, Running True)])
      (?W 2 2 [(1, ()), (2, ())] [(2, Running True), (1, Running True)])"
    using join [where c = 2 and ss = "[(1, Running True)]" and n = 1 and u = 1 and a = "[(1, ())]"]
    by (simp add: gomap_set_def numeral_2_eq_2)
  have 3: "server_step\<^sup>*\<^sup>* (?W 2 2 [(1, ()), (2, ())] [(2, Running True), (1, Running True)])
      (?W 3 2 [(1, ()), (2, ()), (3, ())] [(3, Running False), (2, Running True), (1, Running True)])"
    using join [where c = 3 and ss = "[(2, Running True), (1, Running True)]" and n = 2 and u = 2
        and a = "[(1, ()), (2, ())]"]
    by (simp add: gomap_set_def eval_nat_numeral)
  show ?thesis unfolding 0 sample_full_def by (rule rtranclp_trans [OF rtranclp_trans [OF 1 2] 3])
qed

lemma server_reach_steps: "server_step\<^sup>*\<^sup>* w w' \<Longrightarrow> server_reach cfg w \<Longrightarrow> server_reach cfg w'"
  by (induction rule: rtranclp_induct) (auto intro: reach_step)

theorem connection_limit_is_respected_witness:
  "\<exists>s. New (sv_cfg (sample_server None [])) = Inr s
     \<and> \<not> fst (serveEnter 4 (sample_full s))
     \<and> int (holding [(3, Running False), (2, Running True), (1, Running True)])
         = cfg_MaxConnections (sv_cfg (sample_server None []))
     \<and> serveExit 2 True (sample_full s) \<noteq> None \<and> gomap_get (sv_activeConn (sample_full s)) 3 \<noteq> None"
proof -
  have "\<exists>s. New (sv_cfg (sample_server None [])) = Inr s"
    by (rule New_ok) (simp_all add: sample_server_def)
  then obtain s where s: "New (sv_cfg (sample_server None [])) = Inr s" by blast
  have init: "sv_slots s = Some \<lparr>sl_cap = 2, sl_used = 0\<rparr>" "sv_sessions s = 0" "sv_activeConn s = []"
    using s by (auto simp: New_def sample_server_def applyDefaults_def Let_def split: if_splits)
  have full: "\<not> fst (serveEnter 4 (sample_full s))"
    by (simp add: sample_full_def serveEnter_def acquireSlot_def track_def)
  from connection_limit_is_respected [OF server_reach_steps [OF sample_full_steps [OF init] reach_new [OF s]]]
  show ?thesis using s full by auto
qed

end
