(* ===== verification/Duplex.thy ===== *)
theory Duplex
  imports Interleaving
begin

text \<open>
  The two goroutines of one relayed session (\<^verbatim>\<open>relay\<close>, \<^verbatim>\<open>relayFromBackend\<close> and
  \<^verbatim>\<open>spliceToClient\<close> of \<^verbatim>\<open>src/src/internal/proxy/relay.go\<close>) as one step relation. Each
  \<^verbatim>\<open>io.Copy\<close> is a machine that reads some bytes, writes them and reads again, so the two
  directions interleave read by read and write by write, and hanging up on the client cuts the
  upstream copy short wherever it is. \<open>Relay.relay\<close> takes that point as a parameter; here it
  is an outcome. A client may stay silent for ever and so may a backend. Shown: the results of
  complete runs are exactly the results of \<open>Relay.relay\<close> over all cut points, every run is finite,
  and a schedule gets stuck only in a read from a backend that has nothing to send and keeps its
  stream open, for which the code has no timeout. Writes are taken to return: a peer that keeps its
  connection open and reads nothing, so that a write waits, is not modelled.
\<close>

section \<open>Definitions\<close>

text \<open>
  \<^verbatim>\<open>io.Copy\<close> in steps. It may read any part of what is there; \<open>ends\<close> says that the end of
  the source arrives once its bytes are read, which a silent peer never lets happen, and \<open>hup\<close>
  that the source has been closed under the copy, so that the next read fails.
\<close>

datatype copy_mode = Reading | Writing bytes | Copied "go_error option"

record copying =
  cp_src :: stream_in
  cp_dst :: conn
  cp_n :: nat
  cp_mode :: copy_mode

definition startCopy :: "conn \<Rightarrow> stream_in \<Rightarrow> copying" where
  "startCopy dst src = \<lparr>cp_src = src, cp_dst = dst, cp_n = 0, cp_mode = Reading\<rparr>"

inductive copy_step :: "bool \<Rightarrow> bool \<Rightarrow> copying \<Rightarrow> copying \<Rightarrow> bool" for ends hup where
  cs_read: "cp_mode cp = Reading \<Longrightarrow> \<not> hup \<Longrightarrow> chunk \<noteq> [] \<Longrightarrow> si_data (cp_src cp) = chunk @ rest \<Longrightarrow>
     copy_step ends hup cp (cp\<lparr>cp_src := (cp_src cp)\<lparr>si_data := rest\<rparr>, cp_mode := Writing chunk\<rparr>)"
| cs_eof: "cp_mode cp = Reading \<Longrightarrow> \<not> hup \<Longrightarrow> ends \<Longrightarrow> si_data (cp_src cp) = [] \<Longrightarrow>
     copy_step ends hup cp
       (cp\<lparr>cp_mode := Copied (if si_end (cp_src cp) = Sentinel IoEOF then None else Some (si_end (cp_src cp)))\<rparr>)"
| cs_cut: "cp_mode cp = Reading \<Longrightarrow> hup \<Longrightarrow>
     copy_step ends hup cp (cp\<lparr>cp_mode := Copied (Some (Sentinel NetErrClosed))\<rparr>)"
| cs_write: "cp_mode cp = Writing chunk \<Longrightarrow> conn_Write chunk (cp_dst cp) = (n, err, dst) \<Longrightarrow>
     copy_step ends hup cp
       (cp\<lparr>cp_dst := dst, cp_n := cp_n cp + n, cp_mode := (case err of None \<Rightarrow> Reading | Some e \<Rightarrow> Copied (Some e))\<rparr>)"

text \<open>
  One pass of the framing loop, up to the point where the raw copy takes over: \<open>Inr\<close> is the
  state at the call of \<^verbatim>\<open>spliceToClient\<close>.
\<close>

definition frameTurn :: "rand_source \<Rightarrow> Route \<Rightarrow> go_string \<Rightarrow> relay_state \<Rightarrow> turn + relay_state" where
  "frameTurn rng route label s =
     (case Next (rs_reader s) of
        (Inl err, reader) \<Rightarrow>
          Inl (Ended (if isBenignClose err then None else Some (wrapf ''framing backend messages'' err))
            (countFramed label (s\<lparr>rs_reader := reader\<rparr>)))
      | (Inr msg, reader) \<Rightarrow>
         (case substituteKey rng route msg s of
            None \<Rightarrow> Inl Diverged
          | Some (Inl panic) \<Rightarrow> Inl (Panicked panic)
          | Some (Inr (Inl err)) \<Rightarrow> Inl (Ended (Some err) (s\<lparr>rs_reader := reader\<rparr>))
          | Some (Inr (Inr (out, cancels, pos, issued))) \<Rightarrow>
             (case conn_Write out (rs_client s) of
                (n, werr, client) \<Rightarrow>
                 (let s1 = s\<lparr>rs_reader := reader, rs_client := client, rs_cancels := cancels,
                             rs_pos := pos, rs_issued := issued, rs_framed := rs_framed s + n\<rparr>
                  in case werr of
                       Some e \<Rightarrow>
                         Inl (Ended (if isBenignClose e then None
                                else Some (wrapf ''writing backend message to client'' e))
                           (countFramed label s1))
                     | None \<Rightarrow>
                         if msg_Type msg = MsgReadyForQuery then Inr (countFramed label s1)
                         else Inl (Turning s1)))))"

text \<open>What \<^verbatim>\<open>spliceToClient\<close> returns once its copy has ended.\<close>

definition spliced :: "go_string \<Rightarrow> relay_state \<Rightarrow> nat \<Rightarrow> go_error option \<Rightarrow> conn \<Rightarrow> go_error option \<times> relay_state" where
  "spliced label s n err client =
     (case err of
        Some e \<Rightarrow> if isBenignClose e then None else Some (wrapf ''relaying backend to client'' e)
      | None \<Rightarrow> None,
      s\<lparr>rs_client := client, rs_metrics := rs_metrics s @ [BytesAdd label directionToClient n]\<rparr>)"

text \<open>
  Where the two directions are. Downstream: framing, copying raw bytes, back from
  \<^verbatim>\<open>relayFromBackend\<close> with the key released, and waiting after it has hung up on the
  client. Upstream: copying, and done, with the backend half-closed.
\<close>

datatype downstream =
    Framing relay_state
  | Splicing relay_state copying
  | Back "go_error option" relay_state
  | HungUp "go_error option" relay_state

datatype upstream = Pumping copying | Pumped "go_error option" nat conn

record duplex =
  dx_up :: upstream
  dx_down :: downstream

definition duplex_start :: "nat \<Rightarrow> cancelRegistry \<Rightarrow> conn \<Rightarrow> conn \<Rightarrow> duplex" where
  "duplex_start pos cancels client backend =
     \<lparr>dx_up = Pumping (startCopy backend (c_in client)),
      dx_down = Framing (startRelay pos cancels client backend)\<rparr>"

definition hungUp :: "downstream \<Rightarrow> bool" where
  "hungUp d = (case d of HungUp err s \<Rightarrow> True | _ \<Rightarrow> False)"

definition upstreamErr :: "go_error option \<Rightarrow> go_error option" where
  "upstreamErr err =
     (case err of
        Some e \<Rightarrow> if isBenignClose e then None else Some (wrapf ''relaying client to backend'' e)
      | None \<Rightarrow> None)"

text \<open>
  What a backend does once it has sent its bytes: it ends its stream of its own accord, or when it
  sees the end of its input, which the upstream goroutine gives it by half-closing, or never. A
  read that asks for more than its bytes waits for that end.
\<close>

datatype farewell = HangsUp | Follows | Stays

definition backendEnds :: "farewell \<Rightarrow> duplex \<Rightarrow> bool" where
  "backendEnds bye d =
     (case bye of
        HangsUp \<Rightarrow> True
      | Follows \<Rightarrow> (case dx_up d of Pumped err n backend \<Rightarrow> True | Pumping cp \<Rightarrow> False)
      | Stays \<Rightarrow> False)"

inductive duplex_step :: "rand_source \<Rightarrow> Route \<Rightarrow> go_string \<Rightarrow> bool \<Rightarrow> farewell \<Rightarrow> duplex \<Rightarrow> duplex \<Rightarrow> bool"
  for rng route label ends bye where
  up_copy: "dx_up d = Pumping cp \<Longrightarrow> copy_step ends (hungUp (dx_down d)) cp cp' \<Longrightarrow>
     duplex_step rng route label ends bye d (d\<lparr>dx_up := Pumping cp'\<rparr>)"
| up_done: "dx_up d = Pumping cp \<Longrightarrow> cp_mode cp = Copied err \<Longrightarrow>
     duplex_step rng route label ends bye d
       (d\<lparr>dx_up := Pumped (upstreamErr err) (cp_n cp) (conn_CloseWrite (cp_dst cp))\<rparr>)"
| down_frame: "dx_down d = Framing s \<Longrightarrow> frameTurn rng route label s = Inl (Turning s1) \<Longrightarrow>
     duplex_step rng route label ends bye d (d\<lparr>dx_down := Framing s1\<rparr>)"
| down_end: "dx_down d = Framing s \<Longrightarrow> frameTurn rng route label s = Inl (Ended err s1) \<Longrightarrow>
     awaitsMore (rs_reader s) \<longrightarrow> backendEnds bye d \<Longrightarrow>
     duplex_step rng route label ends bye d (d\<lparr>dx_down := Back err (releaseIssued s1)\<rparr>)"
| down_ready: "dx_down d = Framing s \<Longrightarrow> frameTurn rng route label s = Inr s1 \<Longrightarrow>
     duplex_step rng route label ends bye d
       (d\<lparr>dx_down := Splicing s1 (startCopy (rs_client s1) (mr_r (rs_reader s1)))\<rparr>)"
| down_copy: "dx_down d = Splicing s cp \<Longrightarrow> copy_step (backendEnds bye d) False cp cp' \<Longrightarrow>
     duplex_step rng route label ends bye d (d\<lparr>dx_down := Splicing s cp'\<rparr>)"
| down_copied: "dx_down d = Splicing s cp \<Longrightarrow> cp_mode cp = Copied err \<Longrightarrow>
     spliced label s (cp_n cp) err (cp_dst cp) = (err', s1) \<Longrightarrow>
     duplex_step rng route label ends bye d (d\<lparr>dx_down := Back err' (releaseIssued s1)\<rparr>)"
| down_close: "dx_down d = Back err s \<Longrightarrow>
     duplex_step rng route label ends bye d
       (d\<lparr>dx_down := HungUp err (s\<lparr>rs_client := conn_Close (conn_CloseWrite (rs_client s))\<rparr>)\<rparr>)"

text \<open>
  What \<^verbatim>\<open>relay\<close> returns and leaves behind, once the wait is over. The backend connection is
  written by one goroutine and read by the other. The counters are sums, so the order of the
  two goroutines' additions does not matter and the downstream ones are listed first.
\<close>

definition duplex_result :: "go_string \<Rightarrow> duplex \<Rightarrow> relay_result option" where
  "duplex_result label d =
     (case dx_up d of
        Pumping cp \<Rightarrow> None
      | Pumped uerr n backend \<Rightarrow>
         (case dx_down d of
            HungUp derr s \<Rightarrow>
              Some \<lparr>rr_err = errors_Join [derr, uerr], rr_client = rs_client s,
                    rr_backend = backend\<lparr>c_in := mr_r (rs_reader s)\<rparr>, rr_cancels = rs_cancels s,
                    rr_pos = rs_pos s, rr_metrics = rs_metrics s @ [BytesAdd label directionToBackend n]\<rparr>
          | _ \<Rightarrow> None))"

inductive_cases copy_stepE: "copy_step ends hup cp cp'"
inductive_cases duplex_stepE: "duplex_step rng route label ends bye d d'"

section \<open>The pieces against their sequential counterparts\<close>

lemma backendEnds_HangsUp [simp]: "backendEnds HangsUp d"
  by (simp add: backendEnds_def)

text \<open>A backend that waits, or stays, takes fewer steps than one that hangs up, and no others.\<close>

lemma copy_step_ends: "copy_step ends hup cp cp' \<Longrightarrow> copy_step True hup cp cp'"
proof (erule copy_stepE)
  assume "cp' = cp\<lparr>cp_mode := Copied (if si_end (cp_src cp) = Sentinel IoEOF then None else Some (si_end (cp_src cp)))\<rparr>"
    and "cp_mode cp = Reading" and "\<not> hup" and "si_data (cp_src cp) = []"
  then show "copy_step True hup cp cp'" using cs_eof [of cp hup True] by simp
qed (auto intro: copy_step.intros)

lemma duplex_step_HangsUp: "duplex_step rng route label ends bye d d' \<Longrightarrow> duplex_step rng route label ends HangsUp d d'"
proof (erule duplex_stepE)
  fix s cp cp'
  assume "d' = d\<lparr>dx_down := Splicing s cp'\<rparr>" "dx_down d = Splicing s cp" "copy_step (backendEnds bye d) False cp cp'"
  then show "duplex_step rng route label ends HangsUp d d'" using down_copy [of d s cp HangsUp cp'] copy_step_ends by simp
qed (auto intro: duplex_step.intros)

lemma duplex_run_HangsUp:
  "(duplex_step rng route label ends bye)\<^sup>*\<^sup>* d d' \<Longrightarrow> (duplex_step rng route label ends HangsUp)\<^sup>*\<^sup>* d d'"
  by (erule rtranclp_mono [THEN predicate2D, rotated]) (auto intro: duplex_step_HangsUp)

lemma relayTurn_frameTurn:
  "relayTurn rng route label s =
     (case frameTurn rng route label s of
        Inl t \<Rightarrow> t
      | Inr s1 \<Rightarrow> (case spliceToClient label s1 of (err, s2) \<Rightarrow> Ended err s2))"
  by (auto simp: relayTurn_def frameTurn_def Let_def split: prod.splits sum.splits option.splits)

lemma spliceToClient_spliced:
  "spliceToClient label s =
     (case io_Copy None (rs_client s) (mr_r (rs_reader s)) of (n, err, client) \<Rightarrow> spliced label s n err client)"
  by (simp add: spliceToClient_def spliced_def)

lemma relayLoop_frameTurn:
  "relayLoop rng route label s =
     (case frameTurn rng route label s of
        Inl (Turning s1) \<Rightarrow> relayLoop rng route label s1
      | Inl (Ended err s1) \<Rightarrow> Some (Inr (err, s1))
      | Inl (Panicked panic) \<Rightarrow> Some (Inl panic)
      | Inl Diverged \<Rightarrow> None
      | Inr s1 \<Rightarrow> Some (Inr (spliceToClient label s1)))"
  by (subst relayLoop_turn)
    (auto simp: relayTurn_frameTurn split: sum.splits turn.splits prod.splits)

lemma frameTurn_consumes:
  assumes "frameTurn rng route label s = Inl (Turning s1) \<or> frameTurn rng route label s = Inr s1"
  shows "length (si_data (mr_r (rs_reader s1))) < length (si_data (mr_r (rs_reader s)))"
  using assms
  by (auto simp: frameTurn_def Let_def dest!: Next_consumes [OF sym] dest: Next_consumes
      split: prod.splits sum.splits option.splits if_splits)

lemma conn_Write_append:
  assumes "conn_Write a c = (n, None, c1)" and "conn_Write b c1 = (m, err, c2)"
  shows "conn_Write (a @ b) c = (n + m, err, c2)"
  using assms by (cases c) (auto simp: conn_Write_def split: if_splits option.splits)

lemma conn_Write_fail_append:
  assumes "conn_Write a c = (n, Some e, c1)"
  shows "conn_Write (a @ b) c = (n, Some e, c1)"
  using assms by (cases c) (auto simp: conn_Write_def split: if_splits option.splits)

section \<open>The stepwise copy is the copy\<close>

text \<open>\<open>moved bs dst0 cp\<close>: the copy has taken \<open>bs\<close> off the source and written all of it.\<close>

definition moved :: "bytes \<Rightarrow> conn \<Rightarrow> copying \<Rightarrow> bool" where
  "moved bs dst0 cp \<longleftrightarrow>
     (if bs = [] then cp_n cp = 0 \<and> cp_dst cp = dst0 else conn_Write bs dst0 = (cp_n cp, None, cp_dst cp))"

lemma moved_frame [simp]:
  "moved bs dst0 (cp\<lparr>cp_src := src\<rparr>) = moved bs dst0 cp" "moved bs dst0 (cp\<lparr>cp_mode := m\<rparr>) = moved bs dst0 cp"
  by (simp_all add: moved_def)

text \<open>The copy so far, with \<open>ok\<close> the cut points that account for its end.\<close>

definition copy_inv :: "(nat option \<Rightarrow> bool) \<Rightarrow> stream_in \<Rightarrow> conn \<Rightarrow> copying \<Rightarrow> bool" where
  "copy_inv ok src0 dst0 cp \<longleftrightarrow>
     (case cp_mode cp of
        Reading \<Rightarrow> \<exists>bs. src0 = (cp_src cp)\<lparr>si_data := bs @ si_data (cp_src cp)\<rparr> \<and> moved bs dst0 cp
      | Writing chunk \<Rightarrow>
          chunk \<noteq> [] \<and> (\<exists>bs. src0 = (cp_src cp)\<lparr>si_data := bs @ chunk @ si_data (cp_src cp)\<rparr> \<and> moved bs dst0 cp)
      | Copied err \<Rightarrow> \<exists>cutAt. ok cutAt \<and> io_Copy cutAt dst0 src0 = (cp_n cp, err, cp_dst cp))"

lemma copy_inv_start: "copy_inv ok src dst (startCopy dst src)"
  by (cases src) (auto simp: copy_inv_def startCopy_def moved_def intro!: exI [of _ "[]"])

lemma moved_io_Copy:
  assumes "moved bs dst0 cp"
  shows "io_Copy None dst0 \<lparr>si_data = bs, si_end = e\<rparr> = (cp_n cp, if e = Sentinel IoEOF then None else Some e, cp_dst cp)"
    and "io_Copy (Some (length bs)) dst0 \<lparr>si_data = bs @ rest, si_end = e\<rparr>
      = (cp_n cp, Some (Sentinel NetErrClosed), cp_dst cp)"
  using assms by (auto simp: moved_def io_Copy_def Let_def split: if_splits)

lemma moved_write:
  assumes "moved bs dst0 cp" and "chunk \<noteq> []" and "conn_Write chunk (cp_dst cp) = (n, err, dst)"
  shows "conn_Write (bs @ chunk) dst0 = (cp_n cp + n, err, dst)"
  using assms conn_Write_append by (auto simp: moved_def split: if_splits)

lemma failed_io_Copy:
  assumes "conn_Write bs dst0 = (n, Some e, dst)" and "bs \<noteq> []"
  shows "io_Copy None dst0 \<lparr>si_data = bs @ rest, si_end = end\<rparr> = (n, Some e, dst)"
    and "io_Copy (Some (length bs)) dst0 \<lparr>si_data = bs @ rest, si_end = end\<rparr> = (n, Some e, dst)"
  using assms by (auto simp: io_Copy_def Let_def conn_Write_fail_append)

lemma copy_inv_step:
  assumes "copy_step ends hup cp cp'" and inv: "copy_inv ok src0 dst0 cp"
    and ends: "ends \<Longrightarrow> ok None"
    and hup: "hup \<or> \<not> ends \<Longrightarrow> (\<And>k. k \<le> length (si_data src0) \<Longrightarrow> ok (Some k))"
  shows "copy_inv ok src0 dst0 cp'"
  using assms(1)
proof cases
  case (cs_read chunk rest)
  with inv show ?thesis by (simp add: copy_inv_def)
next
  case cs_eof
  then obtain bs where "src0 = (cp_src cp)\<lparr>si_data := bs\<rparr>" "moved bs dst0 cp"
    using inv by (auto simp: copy_inv_def)
  with cs_eof moved_io_Copy(1) [of bs dst0 cp "si_end (cp_src cp)"] ends show ?thesis
    by (cases "cp_src cp") (auto simp: copy_inv_def)
next
  case cs_cut
  then obtain bs where "src0 = (cp_src cp)\<lparr>si_data := bs @ si_data (cp_src cp)\<rparr>" "moved bs dst0 cp"
    using inv by (auto simp: copy_inv_def)
  with cs_cut moved_io_Copy(2) [of bs dst0 cp "si_data (cp_src cp)" "si_end (cp_src cp)"] hup [of "length bs"] show ?thesis
    by (cases "cp_src cp") (auto simp: copy_inv_def)
next
  case (cs_write chunk n err dst)
  then obtain bs where src0: "src0 = (cp_src cp)\<lparr>si_data := bs @ chunk @ si_data (cp_src cp)\<rparr>" and chunk: "chunk \<noteq> []"
    and moved: "moved bs dst0 cp"
    using inv by (auto simp: copy_inv_def)
  note wr = moved_write [OF moved chunk cs_write(3)]
  show ?thesis
  proof (cases err)
    case None
    with cs_write src0 wr chunk show ?thesis
      by (simp add: copy_inv_def moved_def exI [of _ "bs @ chunk"])
  next
    case (Some e)
    note fail = failed_io_Copy [of "bs @ chunk" dst0 "cp_n cp + n" e dst "si_data (cp_src cp)" "si_end (cp_src cp)"]
    have "ok None \<or> ok (Some (length (bs @ chunk)))"
      using ends hup [of "length (bs @ chunk)"] src0 by (cases ends) auto
    then have "\<exists>cutAt. ok cutAt \<and> io_Copy cutAt dst0 src0 = (cp_n cp + n, Some e, dst)"
      using wr chunk fail src0 Some by (cases "cp_src cp") auto
    with cs_write Some show ?thesis by (simp add: copy_inv_def)
  qed
qed

text \<open>Conversely, every copy can be run: read up to the cut in one piece, write it, and end.\<close>

lemma copy_steps_write:
  assumes "copy_step ends hup cp cp1" and "copy_step ends hup cp1 cp2"
  shows "(copy_step ends hup)\<^sup>*\<^sup>* cp cp2"
  using assms by (meson r_into_rtranclp rtranclp.rtrancl_into_rtrancl)

lemma copy_run_piece:
  assumes "si_data src = bs @ rest" and "bs \<noteq> []" and "conn_Write bs dst = (n, err, dst')"
  shows "(copy_step ends False)\<^sup>*\<^sup>* (startCopy dst src)
    \<lparr>cp_src = src\<lparr>si_data := rest\<rparr>, cp_dst = dst', cp_n = n,
     cp_mode = (case err of None \<Rightarrow> Reading | Some e \<Rightarrow> Copied (Some e))\<rparr>"
proof -
  let ?cp = "(startCopy dst src)\<lparr>cp_src := src\<lparr>si_data := rest\<rparr>, cp_mode := Writing bs\<rparr>"
  have "copy_step ends False (startCopy dst src) ?cp"
    using cs_read [of "startCopy dst src" False bs rest ends] assms by (simp add: startCopy_def)
  moreover have "copy_step ends False ?cp (?cp\<lparr>cp_dst := dst', cp_n := cp_n ?cp + n,
      cp_mode := (case err of None \<Rightarrow> Reading | Some e \<Rightarrow> Copied (Some e))\<rparr>)"
    using cs_write [of ?cp bs n err dst' ends False] assms by (simp add: startCopy_def)
  ultimately show ?thesis
    using copy_steps_write by (fastforce simp: startCopy_def)
qed

text \<open>
  The state in which a copy waits for its source to end or to be closed at the cut, or in
  which it has failed before.
\<close>

definition copy_end :: "nat option \<Rightarrow> stream_in \<Rightarrow> go_error option" where
  "copy_end cutAt src =
     (case cutAt of
        Some k \<Rightarrow> if k \<le> length (si_data src) then Some (Sentinel NetErrClosed)
                  else if si_end src = Sentinel IoEOF then None else Some (si_end src)
      | None \<Rightarrow> if si_end src = Sentinel IoEOF then None else Some (si_end src))"

lemma copy_run:
  assumes "io_Copy cutAt dst src = (n, err, dst')"
  defines "rest \<equiv> (case cutAt of None \<Rightarrow> [] | Some k \<Rightarrow> drop k (si_data src))"
  obtains (failed) src' where "(copy_step ends False)\<^sup>*\<^sup>* (startCopy dst src)
      \<lparr>cp_src = src', cp_dst = dst', cp_n = n, cp_mode = Copied err\<rparr>"
  | (waits) "(copy_step ends False)\<^sup>*\<^sup>* (startCopy dst src)
      \<lparr>cp_src = src\<lparr>si_data := rest\<rparr>, cp_dst = dst', cp_n = n, cp_mode = Reading\<rparr>"
    "err = copy_end cutAt src"
proof -
  define bs where "bs = (case cutAt of None \<Rightarrow> si_data src | Some k \<Rightarrow> take k (si_data src))"
  have data: "si_data src = bs @ rest" by (simp add: bs_def rest_def split: option.split)
  have io: "io_Copy cutAt dst src =
      (if bs = [] then (0, copy_end cutAt src, dst)
       else (case conn_Write bs dst of
               (n, None, dst') \<Rightarrow> (n, copy_end cutAt src, dst') | (n, Some e, dst') \<Rightarrow> (n, Some e, dst')))"
    by (auto simp: io_Copy_def bs_def copy_end_def Let_def split: option.split prod.split)
  show thesis
  proof (cases "bs = []")
    case True
    moreover have "src\<lparr>si_data := rest\<rparr> = src" using data True by (cases src) simp
    ultimately show thesis using assms(1) io waits by (simp add: startCopy_def)
  next
    case False
    obtain m e d where wr: "conn_Write bs dst = (m, e, d)" by (cases "conn_Write bs dst") auto
    note run = copy_run_piece [OF data False wr, of ends]
    show thesis
    proof (cases e)
      case None
      with run assms(1) io wr False waits show thesis by simp
    next
      case (Some e')
      with run assms(1) io wr False failed show thesis by simp
    qed
  qed
qed

section \<open>Every complete run is a run of the sequential relay\<close>

text \<open>The cut points a client allows: one that never ends its stream has to be cut off.\<close>

definition cut_ok :: "bool \<Rightarrow> conn \<Rightarrow> nat option \<Rightarrow> bool" where
  "cut_ok ends client cutAt \<longleftrightarrow> ends \<or> (\<exists>k \<le> length (si_data (c_in client)). cutAt = Some k)"

definition up_inv :: "bool \<Rightarrow> conn \<Rightarrow> conn \<Rightarrow> upstream \<Rightarrow> bool" where
  "up_inv ends client backend u \<longleftrightarrow>
     (case u of
        Pumping cp \<Rightarrow> copy_inv (cut_ok ends client) (c_in client) backend cp
      | Pumped e n b \<Rightarrow> \<exists>cutAt err b0. cut_ok ends client cutAt \<and> io_Copy cutAt backend (c_in client) = (n, err, b0)
          \<and> e = upstreamErr err \<and> b = conn_CloseWrite b0)"

definition down_inv ::
    "rand_source \<Rightarrow> Route \<Rightarrow> go_string \<Rightarrow> (go_string + (go_error option \<times> relay_state)) option \<Rightarrow> downstream \<Rightarrow> bool" where
  "down_inv rng route label res d \<longleftrightarrow>
     (case d of
        Framing s \<Rightarrow> relayLoop rng route label s = res
      | Splicing s cp \<Rightarrow> res = Some (Inr (spliceToClient label s))
          \<and> copy_inv (\<lambda>cutAt. cutAt = None) (mr_r (rs_reader s)) (rs_client s) cp
      | Back err s \<Rightarrow> \<exists>s0. res = Some (Inr (err, s0)) \<and> s = releaseIssued s0
      | HungUp err s \<Rightarrow> \<exists>s0. res = Some (Inr (err, s0))
          \<and> s = (releaseIssued s0)\<lparr>rs_client := conn_Close (conn_CloseWrite (rs_client (releaseIssued s0)))\<rparr>)"

definition duplex_inv :: "rand_source \<Rightarrow> Route \<Rightarrow> go_string \<Rightarrow> bool \<Rightarrow> nat \<Rightarrow> cancelRegistry \<Rightarrow> conn \<Rightarrow> conn \<Rightarrow> duplex \<Rightarrow> bool" where
  "duplex_inv rng route label ends pos cancels client backend d \<longleftrightarrow>
     up_inv ends client backend (dx_up d)
     \<and> down_inv rng route label (relayLoop rng route label (startRelay pos cancels client backend)) (dx_down d)"

lemma up_inv_step:
  assumes "copy_step ends hup cp cp'" and "up_inv ends client backend (Pumping cp)"
  shows "up_inv ends client backend (Pumping cp')"
  using copy_inv_step [OF assms(1)] assms(2) by (auto simp: up_inv_def cut_ok_def)

lemma down_inv_copy:
  assumes "copy_step True False cp cp'" and "down_inv rng route label res (Splicing s cp)"
  shows "down_inv rng route label res (Splicing s cp')"
  using copy_inv_step [OF assms(1)] assms(2) by (auto simp: down_inv_def)

lemma down_inv_frame:
  assumes "down_inv rng route label res (Framing s)"
  shows "frameTurn rng route label s = Inl (Turning s1) \<Longrightarrow> down_inv rng route label res (Framing s1)"
    and "frameTurn rng route label s = Inl (Ended err s1) \<Longrightarrow> down_inv rng route label res (Back err (releaseIssued s1))"
    and "frameTurn rng route label s = Inr s1 \<Longrightarrow>
      down_inv rng route label res (Splicing s1 (startCopy (rs_client s1) (mr_r (rs_reader s1))))"
  using assms by (auto simp: down_inv_def copy_inv_start relayLoop_frameTurn [of rng route label s])

lemma down_inv_copied:
  assumes "down_inv rng route label res (Splicing s cp)" and "cp_mode cp = Copied err"
    and "spliced label s (cp_n cp) err (cp_dst cp) = (err', s1)"
  shows "down_inv rng route label res (Back err' (releaseIssued s1))"
  using assms by (auto simp: down_inv_def copy_inv_def spliceToClient_spliced)

lemma duplex_inv_step:
  assumes "duplex_step rng route label ends HangsUp d d'" and "duplex_inv rng route label ends pos cancels client backend d"
  shows "duplex_inv rng route label ends pos cancels client backend d'"
  using assms(1)
proof cases
  case (up_copy cp cp')
  with assms(2) up_inv_step [OF up_copy(3)] show ?thesis by (simp add: duplex_inv_def)
next
  case (up_done cp err)
  with assms(2) show ?thesis by (auto simp: duplex_inv_def up_inv_def copy_inv_def)
next
  case (down_close err s)
  with assms(2) show ?thesis by (auto simp: duplex_inv_def down_inv_def)
qed (use assms(2) in \<open>auto simp: duplex_inv_def intro: down_inv_frame down_inv_copied down_inv_copy\<close>)

lemma duplex_inv_run:
  assumes "(duplex_step rng route label ends HangsUp)\<^sup>*\<^sup>* (duplex_start pos cancels client backend) d"
  shows "duplex_inv rng route label ends pos cancels client backend d"
  using assms
proof (induction rule: rtranclp_induct)
  case base
  show ?case by (simp add: duplex_inv_def duplex_start_def up_inv_def down_inv_def copy_inv_start)
next
  case (step d d')
  then show ?case using duplex_inv_step by blast
qed

lemma relayFromBackend_start:
  "relayFromBackend rng pos cancels client backend route label =
     (case relayLoop rng route label (startRelay pos cancels client backend) of
        None \<Rightarrow> None | Some (Inl panic) \<Rightarrow> Some (Inl panic) | Some (Inr (err, s1)) \<Rightarrow> Some (Inr (err, releaseIssued s1)))"
  by (simp add: relayFromBackend_def startRelay_def Let_def)

lemma duplex_sound:
  assumes "(duplex_step rng route label ends HangsUp)\<^sup>*\<^sup>* (duplex_start pos cancels client backend) d"
    and "duplex_result label d = Some r"
  obtains cutAt where "cut_ok ends client cutAt" "relay rng cutAt pos cancels client backend route label = Some (Inr r)"
proof -
  from assms(2) obtain uerr n b derr s where d: "dx_up d = Pumped uerr n b" "dx_down d = HungUp derr s"
    by (auto simp: duplex_result_def split: upstream.splits downstream.splits)
  with duplex_inv_run [OF assms(1)] obtain cutAt err b0 s0 where
    up: "cut_ok ends client cutAt" "io_Copy cutAt backend (c_in client) = (n, err, b0)" "uerr = upstreamErr err" "b = conn_CloseWrite b0"
    and down: "relayLoop rng route label (startRelay pos cancels client backend) = Some (Inr (derr, s0))"
    "s = (releaseIssued s0)\<lparr>rs_client := conn_Close (conn_CloseWrite (rs_client (releaseIssued s0)))\<rparr>"
    by (auto simp: duplex_inv_def up_inv_def down_inv_def)
  have "relay rng cutAt pos cancels client backend route label = Some (Inr r)"
    using assms(2) d up down
    by (cases b0) (simp add: duplex_result_def relay_def relayFromBackend_start upstreamErr_def conn_CloseWrite_def Let_def)
  with up(1) show thesis by (rule that)
qed

section \<open>Every cut point of the sequential relay is a run\<close>

lemma up_steps:
  assumes "(copy_step ends (hungUp down))\<^sup>*\<^sup>* cp cp'"
  shows "(duplex_step rng route label ends HangsUp)\<^sup>*\<^sup>* \<lparr>dx_up = Pumping cp, dx_down = down\<rparr> \<lparr>dx_up = Pumping cp', dx_down = down\<rparr>"
  using assms
proof (induction rule: rtranclp_induct)
  case (step cp1 cp2)
  have "duplex_step rng route label ends HangsUp \<lparr>dx_up = Pumping cp1, dx_down = down\<rparr> \<lparr>dx_up = Pumping cp2, dx_down = down\<rparr>"
    using up_copy [where d = "\<lparr>dx_up = Pumping cp1, dx_down = down\<rparr>" and cp = cp1 and cp' = cp2 and ends = ends and bye = HangsUp] step(2) by simp
  with step.IH show ?case by (rule rtranclp.rtrancl_into_rtrancl)
qed simp

lemma down_steps:
  assumes "(copy_step True False)\<^sup>*\<^sup>* cp cp'"
  shows "(duplex_step rng route label ends HangsUp)\<^sup>*\<^sup>* \<lparr>dx_up = up, dx_down = Splicing s cp\<rparr> \<lparr>dx_up = up, dx_down = Splicing s cp'\<rparr>"
  using assms
proof (induction rule: rtranclp_induct)
  case (step cp1 cp2)
  have "duplex_step rng route label ends HangsUp \<lparr>dx_up = up, dx_down = Splicing s cp1\<rparr> \<lparr>dx_up = up, dx_down = Splicing s cp2\<rparr>"
    using down_copy [where d = "\<lparr>dx_up = up, dx_down = Splicing s cp1\<rparr>" and cp = cp1 and cp' = cp2 and bye = HangsUp] step(2) by simp
  with step.IH show ?case by (rule rtranclp.rtrancl_into_rtrancl)
qed simp

lemma copy_run_None:
  assumes "io_Copy None dst src = (n, err, dst')"
  shows "\<exists>src'. (copy_step True False)\<^sup>*\<^sup>* (startCopy dst src) \<lparr>cp_src = src', cp_dst = dst', cp_n = n, cp_mode = Copied err\<rparr>"
  using assms
proof (cases rule: copy_run [where ends = True])
  case waits
  let ?cp = "\<lparr>cp_src = src\<lparr>si_data := []\<rparr>, cp_dst = dst', cp_n = n, cp_mode = Reading\<rparr>"
  have "copy_step True False ?cp (?cp\<lparr>cp_mode := Copied err\<rparr>)"
    using cs_eof [of ?cp False True] waits(2) by (simp add: copy_end_def split: if_splits)
  with waits(1) show ?thesis by (auto intro: rtranclp.rtrancl_into_rtrancl)
qed blast

lemma down_run:
  assumes "relayLoop rng route label s = Some (Inr (err, s0))"
  shows "(duplex_step rng route label ends HangsUp)\<^sup>*\<^sup>* \<lparr>dx_up = up, dx_down = Framing s\<rparr> \<lparr>dx_up = up, dx_down = Back err (releaseIssued s0)\<rparr>"
  using assms
proof (induction "length (si_data (mr_r (rs_reader s)))" arbitrary: s rule: less_induct)
  case less
  let ?d = "\<lparr>dx_up = up, dx_down = Framing s\<rparr>"
  consider (turn) s1 where "frameTurn rng route label s = Inl (Turning s1)" "relayLoop rng route label s1 = Some (Inr (err, s0))"
    | (ended) "frameTurn rng route label s = Inl (Ended err s0)"
    | (ready) s1 where "frameTurn rng route label s = Inr s1" "spliceToClient label s1 = (err, s0)"
    using less.prems by (subst (asm) relayLoop_frameTurn) (auto split: sum.splits turn.splits)
  then show ?case
  proof cases
    case turn
    have "duplex_step rng route label ends HangsUp ?d \<lparr>dx_up = up, dx_down = Framing s1\<rparr>"
      using down_frame [of ?d s rng route label s1 ends HangsUp] turn(1) by simp
    then show ?thesis
      using less.hyps [OF _ turn(2)] frameTurn_consumes [of rng route label s s1] turn(1)
      by (auto intro: converse_rtranclp_into_rtranclp)
  next
    case ended
    then show ?thesis using down_end [of ?d s rng route label err s0 HangsUp ends] by (auto intro!: r_into_rtranclp)
  next
    case ready
    let ?start = "startCopy (rs_client s1) (mr_r (rs_reader s1))"
    obtain n cerr client where io: "io_Copy None (rs_client s1) (mr_r (rs_reader s1)) = (n, cerr, client)"
      by (cases "io_Copy None (rs_client s1) (mr_r (rs_reader s1))") auto
    then have sp: "spliced label s1 n cerr client = (err, s0)" using ready(2) by (simp add: spliceToClient_spliced)
    obtain src' where run: "(copy_step True False)\<^sup>*\<^sup>* ?start \<lparr>cp_src = src', cp_dst = client, cp_n = n, cp_mode = Copied cerr\<rparr>"
      using copy_run_None [OF io] by blast
    let ?cp = "\<lparr>cp_src = src', cp_dst = client, cp_n = n, cp_mode = Copied cerr\<rparr>"
    have "duplex_step rng route label ends HangsUp ?d \<lparr>dx_up = up, dx_down = Splicing s1 ?start\<rparr>"
      using down_ready [of ?d s rng route label s1 ends HangsUp] ready(1) by simp
    moreover note down_steps [OF run, of rng route label ends up s1]
    moreover have "duplex_step rng route label ends HangsUp \<lparr>dx_up = up, dx_down = Splicing s1 ?cp\<rparr>
        \<lparr>dx_up = up, dx_down = Back err (releaseIssued s0)\<rparr>"
      using down_copied [of "\<lparr>dx_up = up, dx_down = Splicing s1 ?cp\<rparr>" s1 ?cp cerr label err s0] sp by simp
    ultimately show ?thesis
      by (meson converse_rtranclp_into_rtranclp rtranclp.rtrancl_into_rtrancl)
  qed
qed

definition hung_up :: "relay_state \<Rightarrow> relay_state" where
  "hung_up s = (releaseIssued s)\<lparr>rs_client := conn_Close (conn_CloseWrite (rs_client (releaseIssued s)))\<rparr>"

lemma down_run_close:
  assumes "relayLoop rng route label s = Some (Inr (err, s0))"
  shows "(duplex_step rng route label ends HangsUp)\<^sup>*\<^sup>* \<lparr>dx_up = up, dx_down = Framing s\<rparr> \<lparr>dx_up = up, dx_down = HungUp err (hung_up s0)\<rparr>"
  using down_run [OF assms, of ends up]
    down_close [of "\<lparr>dx_up = up, dx_down = Back err (releaseIssued s0)\<rparr>" err "releaseIssued s0" rng route label ends HangsUp]
  by (auto simp: hung_up_def intro: rtranclp.rtrancl_into_rtrancl)

lemma duplex_run_copied:
  assumes loop: "relayLoop rng route label s = Some (Inr (derr, s0))"
    and io: "io_Copy cutAt backend (c_in client) = (n, err, b)" and ok: "cut_ok ends client cutAt"
  shows "\<exists>cp. cp_mode cp = Copied err \<and> cp_n cp = n \<and> cp_dst cp = b \<and> (duplex_step rng route label ends HangsUp)\<^sup>*\<^sup>*
    \<lparr>dx_up = Pumping (startCopy backend (c_in client)), dx_down = Framing s\<rparr>
    \<lparr>dx_up = Pumping cp, dx_down = HungUp derr (hung_up s0)\<rparr>"
proof -
  note close = down_run_close [OF loop, of ends]
  have early: ?thesis if "(copy_step ends False)\<^sup>*\<^sup>* (startCopy backend (c_in client)) cp"
    "cp_mode cp = Copied err" "cp_n cp = n" "cp_dst cp = b" for cp
    using up_steps [of ends "Framing s" "startCopy backend (c_in client)" cp rng route label] that close [of "Pumping cp"]
    by (auto simp: hungUp_def intro: rtranclp_trans)
  from io show ?thesis
  proof (cases rule: copy_run [where ends = ends])
    case (failed src')
    then show ?thesis by (rule early) simp_all
  next
    case waits
    define rest where "rest = (case cutAt of None \<Rightarrow> [] | Some k \<Rightarrow> drop k (si_data (c_in client)))"
    let ?cp = "\<lparr>cp_src = (c_in client)\<lparr>si_data := rest\<rparr>, cp_dst = b, cp_n = n, cp_mode = Reading\<rparr>"
    let ?cp' = "?cp\<lparr>cp_mode := Copied err\<rparr>"
    note run = waits(1) [folded rest_def]
    show ?thesis
    proof (cases "\<exists>k \<le> length (si_data (c_in client)). cutAt = Some k")
      case True
      then have "err = Some (Sentinel NetErrClosed)" using waits(2) by (auto simp: copy_end_def)
      then have "copy_step ends True ?cp ?cp'" using cs_cut [of ?cp True ends] by simp
      then have "(duplex_step rng route label ends HangsUp)\<^sup>*\<^sup>* \<lparr>dx_up = Pumping ?cp, dx_down = HungUp derr (hung_up s0)\<rparr>
          \<lparr>dx_up = Pumping ?cp', dx_down = HungUp derr (hung_up s0)\<rparr>"
        by (intro up_steps) (auto simp: hungUp_def)
      moreover note up_steps [of ends "Framing s" "startCopy backend (c_in client)" ?cp rng route label]
      ultimately show ?thesis
        using run close [of "Pumping ?cp"]
        by (intro exI [of _ ?cp']) (auto simp: hungUp_def intro: rtranclp_trans)
    next
      case False
      then have far: "length (si_data (c_in client)) < k" if "cutAt = Some k" for k using that by (rule_tac ccontr) (auto simp: not_less)
      have "ends" using ok False by (auto simp: cut_ok_def)
      moreover have "rest = []" "err = copy_end None (c_in client)"
        using far waits(2) by (cases cutAt; simp add: rest_def copy_end_def less_imp_le)+
      ultimately have "copy_step ends False ?cp ?cp'"
        using cs_eof [of ?cp False ends] by (simp add: copy_end_def split: if_splits)
      with run have "(copy_step ends False)\<^sup>*\<^sup>* (startCopy backend (c_in client)) ?cp'"
        by (rule rtranclp.rtrancl_into_rtrancl)
      then show ?thesis by (rule early) simp_all
    qed
  qed
qed

lemma duplex_complete:
  assumes "relay rng cutAt pos cancels client backend route label = Some (Inr r)" and "cut_ok ends client cutAt"
  obtains d where "(duplex_step rng route label ends HangsUp)\<^sup>*\<^sup>* (duplex_start pos cancels client backend) d"
    "duplex_result label d = Some r"
proof -
  obtain derr s0 where loop: "relayLoop rng route label (startRelay pos cancels client backend) = Some (Inr (derr, s0))"
    using assms(1) by (auto simp: relay_def relayFromBackend_start split: option.splits sum.splits)
  obtain n err b where io: "io_Copy cutAt backend (c_in client) = (n, err, b)"
    by (cases "io_Copy cutAt backend (c_in client)") auto
  obtain cp where cp: "cp_mode cp = Copied err" "cp_n cp = n" "cp_dst cp = b"
    and run: "(duplex_step rng route label ends HangsUp)\<^sup>*\<^sup>* (duplex_start pos cancels client backend)
      \<lparr>dx_up = Pumping cp, dx_down = HungUp derr (hung_up s0)\<rparr>" (is "(_)\<^sup>*\<^sup>* _ ?d")
    using duplex_run_copied [OF loop io assms(2)] by (auto simp: duplex_start_def)
  let ?d' = "?d\<lparr>dx_up := Pumped (upstreamErr err) n (conn_CloseWrite b)\<rparr>"
  have "duplex_step rng route label ends HangsUp ?d ?d'"
    using up_done [of ?d cp err rng route label ends] cp by simp
  with run have "(duplex_step rng route label ends HangsUp)\<^sup>*\<^sup>* (duplex_start pos cancels client backend) ?d'"
    by (rule rtranclp.rtrancl_into_rtrancl)
  moreover have "duplex_result label ?d' = Some r"
    using assms(1)
    by (cases b) (simp add: duplex_result_def relay_def relayFromBackend_start loop io upstreamErr_def conn_CloseWrite_def
        hung_up_def Let_def)
  ultimately show thesis by (rule that)
qed

section \<open>Every run ends\<close>

text \<open>Every step of a copy, and every step of the relay, lowers a rank.\<close>

definition copy_rank :: "copying \<Rightarrow> nat" where
  "copy_rank cp =
     (case cp_mode cp of
        Reading \<Rightarrow> 2 * length (si_data (cp_src cp)) + 1
      | Writing chunk \<Rightarrow> 2 * length (si_data (cp_src cp)) + 2
      | Copied err \<Rightarrow> 0)"

definition duplex_rank :: "duplex \<Rightarrow> nat" where
  "duplex_rank d =
     (case dx_up d of Pumping cp \<Rightarrow> copy_rank cp + 1 | Pumped e n b \<Rightarrow> 0)
     + (case dx_down d of
          Framing s \<Rightarrow> 2 * length (si_data (mr_r (rs_reader s))) + 3
        | Splicing s cp \<Rightarrow> copy_rank cp + 2
        | Back err s \<Rightarrow> 1
        | HungUp err s \<Rightarrow> 0)"

lemma copy_rank_step: "copy_step ends hup cp cp' \<Longrightarrow> copy_rank cp' < copy_rank cp"
  by (erule copy_stepE) (auto simp: copy_rank_def neq_Nil_conv split: option.splits)

interpretation piecewise: ranked_steps "copy_step ends hup" copy_rank for ends hup
  by unfold_locales (rule copy_rank_step)

interpretation dx: ranked_steps "duplex_step rng route label ends bye" duplex_rank for rng route label ends bye
proof unfold_locales
  fix d d'
  assume "duplex_step rng route label ends bye d d'"
  then show "duplex_rank d' < duplex_rank d"
  proof cases
    case (down_frame s s1)
    with frameTurn_consumes [of rng route label s s1] show ?thesis by (simp add: duplex_rank_def)
  next
    case (down_ready s s1)
    with frameTurn_consumes [of rng route label s s1] show ?thesis
      by (simp add: duplex_rank_def copy_rank_def startCopy_def)
  qed (auto simp: duplex_rank_def dest!: piecewise.step_lowers)
qed

lemma copy_stuck:
  assumes "\<forall>cp'. \<not> copy_step ends hup cp cp'"
  shows "(\<exists>err. cp_mode cp = Copied err) \<or> (\<not> hup \<and> \<not> ends \<and> cp_mode cp = Reading \<and> si_data (cp_src cp) = [])"
proof (cases "cp_mode cp")
  case Reading
  then show ?thesis
    using assms cs_read [OF Reading, of hup "si_data (cp_src cp)" "[]" ends] cs_eof [OF Reading, of hup ends] cs_cut [OF Reading, of hup ends]
    by (metis append_Nil2)
next
  case (Writing chunk)
  then show ?thesis using assms cs_write [OF Writing] by (metis prod_cases3)
qed auto

text \<open>The downstream direction is in a read that the backend's bytes do not answer.\<close>

definition awaitsBackend :: "duplex \<Rightarrow> bool" where
  "awaitsBackend d \<longleftrightarrow>
     (case dx_down d of
        Framing s \<Rightarrow> awaitsMore (rs_reader s)
      | Splicing s cp \<Rightarrow> cp_mode cp = Reading \<and> si_data (cp_src cp) = []
      | _ \<Rightarrow> False)"

definition keyFails :: "rand_source \<Rightarrow> Route \<Rightarrow> go_string \<Rightarrow> duplex \<Rightarrow> bool" where
  "keyFails rng route label d \<longleftrightarrow> (\<exists>s. dx_down d = Framing s
     \<and> (frameTurn rng route label s = Inl Diverged \<or> (\<exists>p. frameTurn rng route label s = Inl (Panicked p))))"

text \<open>An upstream copy that cannot go on is that of a silent client.\<close>

lemma upstream_stuck:
  assumes "\<forall>d'. \<not> duplex_step rng route label ends bye d d'" and "dx_up d = Pumping cp"
  shows "\<not> ends \<and> \<not> hungUp (dx_down d)"
proof -
  have "\<forall>cp'. \<not> copy_step ends (hungUp (dx_down d)) cp cp'"
    using assms(1) up_copy [OF assms(2)] by blast
  moreover have "cp_mode cp \<noteq> Copied err" for err using assms(1) up_done [OF assms(2)] by blast
  ultimately show ?thesis using copy_stuck by blast
qed

lemma duplex_stuck:
  assumes stuck: "\<forall>d'. \<not> duplex_step rng route label ends bye d d'" and none: "duplex_result label d = None"
  shows "keyFails rng route label d \<or> awaitsBackend d \<and> (bye = Stays \<or> bye = Follows \<and> \<not> ends)"
proof -
  have bye: "bye = Stays \<or> bye = Follows \<and> \<not> ends" if "\<not> backendEnds bye d"
    using that upstream_stuck [OF stuck] by (auto simp: backendEnds_def split: farewell.splits upstream.splits)
  show ?thesis
  proof (cases "dx_down d")
    case (Framing s)
    consider "frameTurn rng route label s = Inl Diverged \<or> (\<exists>p. frameTurn rng route label s = Inl (Panicked p))"
      | err s1 where "frameTurn rng route label s = Inl (Ended err s1)" "awaitsMore (rs_reader s)" "\<not> backendEnds bye d"
      using stuck down_frame [OF Framing] down_end [OF Framing] down_ready [OF Framing] by (metis obj_sumE turn.exhaust)
    then show ?thesis
    proof cases
      case 2
      then show ?thesis using Framing bye by (simp add: awaitsBackend_def)
    qed (use Framing in \<open>auto simp: keyFails_def\<close>)
  next
    case (Splicing s cp)
    have "\<forall>cp'. \<not> copy_step (backendEnds bye d) False cp cp'" using stuck down_copy [OF Splicing] by blast
    moreover have "cp_mode cp \<noteq> Copied err" for err using stuck down_copied [OF Splicing] by (meson surj_pair)
    ultimately have "\<not> backendEnds bye d" "cp_mode cp = Reading" "si_data (cp_src cp) = []" using copy_stuck by blast+
    with Splicing bye show ?thesis by (simp add: awaitsBackend_def)
  next
    case (Back err s)
    with stuck down_close [OF Back] show ?thesis by blast
  next
    case (HungUp err s)
    then obtain cp where "dx_up d = Pumping cp"
      using none by (auto simp: duplex_result_def split: upstream.splits)
    with upstream_stuck [OF stuck] HungUp show ?thesis by (auto simp: hungUp_def)
  qed
qed

lemma started_not_keyFails:
  assumes "relayFromBackend rng pos cancels client backend route label = Some (Inr res)"
    and "(duplex_step rng route label ends bye)\<^sup>*\<^sup>* (duplex_start pos cancels client backend) d"
  shows "\<not> keyFails rng route label d"
proof -
  have "down_inv rng route label (relayLoop rng route label (startRelay pos cancels client backend)) (dx_down d)"
    using duplex_inv_run [OF duplex_run_HangsUp [OF assms(2)]] by (simp add: duplex_inv_def)
  with assms(1) show ?thesis
    by (auto simp: keyFails_def down_inv_def relayFromBackend_start relayLoop_frameTurn split: option.splits sum.splits)
qed

lemma duplex_result_final: "duplex_result label d = Some r \<Longrightarrow> \<not> duplex_step rng route label ends bye d d'"
  by (auto simp: duplex_result_def elim!: duplex_stepE split: upstream.splits downstream.splits)

section \<open>Properties\<close>

text \<open>C9: The relay computes what its two goroutines compute together. For a client whose stream ends, and for
  one that stays silent and has to be cut off, with a backend that hangs up in the end, the results of
  complete interleaved runs, chunk by chunk in any order, are exactly the results of the sequential
  relay over the cut points such a client allows: the same error, connections, cancel registry and
  byte counts. With a backend that only hangs up after the client, or never, the results are still
  among them.\<close>

theorem relay_is_its_interleavings:
  "((\<exists>d. (duplex_step rng route label ends HangsUp)\<^sup>*\<^sup>* (duplex_start pos cancels client backend) d \<and> duplex_result label d = Some r)
   \<longleftrightarrow> (\<exists>cutAt. cut_ok ends client cutAt \<and> relay rng cutAt pos cancels client backend route label = Some (Inr r)))
   \<and> ((\<exists>bye d. (duplex_step rng route label ends bye)\<^sup>*\<^sup>* (duplex_start pos cancels client backend) d \<and> duplex_result label d = Some r)
   \<longleftrightarrow> (\<exists>cutAt. cut_ok ends client cutAt \<and> relay rng cutAt pos cancels client backend route label = Some (Inr r)))"
  using duplex_sound duplex_complete duplex_run_HangsUp by (metis (no_types))

text \<open>C10: A relay lasts as long as its backend makes it and no longer. Every schedule of the two
  goroutines is finite, bounded by the bytes the two peers send. Unless issuing a cancel key panics
  or never returns, it can only stop with both of them done, or in a read from a backend that has
  sent all it will send and keeps its stream open. The latter is impossible if the backend ends its
  stream of its own accord, whatever the client does: the wait for the upstream copy is answered
  even if the client is silent, because hanging up on it makes the blocked read return. It is
  impossible too if the backend ends its stream on seeing the end of its input and the client ends
  its own. That leaves a backend that never ends its stream, or waits for a client that stays
  silent; both do occur (lemma \<open>silent_backend_blocks\<close>), since the code sets no timeout on a session.
  (Writes are taken to return.)\<close>

theorem relay_always_winds_up:
  assumes "relayFromBackend rng pos cancels client backend route label = Some (Inr res)"
    and "(duplex_step rng route label ends bye ^^ n) (duplex_start pos cancels client backend) d"
  shows "n \<le> 2 * length (si_data (c_in client)) + 2 * length (si_data (c_in backend)) + 5
    \<and> (duplex_result label d \<noteq> None \<longrightarrow> \<not> (\<exists>d'. duplex_step rng route label ends bye d d'))
    \<and> (duplex_result label d = None \<longrightarrow> (\<exists>d'. duplex_step rng route label ends bye d d')
         \<or> awaitsBackend d \<and> (bye = Stays \<or> bye = Follows \<and> \<not> ends))"
proof (intro conjI impI)
  have "duplex_rank (duplex_start pos cancels client backend) = 2 * length (si_data (c_in client)) + 2 * length (si_data (c_in backend)) + 5"
    by (simp add: duplex_rank_def duplex_start_def copy_rank_def startCopy_def startRelay_def NewMessageReader_def)
  then show "n \<le> 2 * length (si_data (c_in client)) + 2 * length (si_data (c_in backend)) + 5"
    using dx.bounded [OF assms(2)] by simp
next
  assume "duplex_result label d \<noteq> None"
  then show "\<not> (\<exists>d'. duplex_step rng route label ends bye d d')" using duplex_result_final by blast
next
  assume "duplex_result label d = None"
  then show "(\<exists>d'. duplex_step rng route label ends bye d d') \<or> awaitsBackend d \<and> (bye = Stays \<or> bye = Follows \<and> \<not> ends)"
    using duplex_stuck started_not_keyFails [OF assms(1) relpowp_imp_rtranclp [OF assms(2)]] by blast
qed

text \<open>
  The reservation is real: a backend that never ends its stream and a client that is silent leave
  the relay in that read.
\<close>

lemma silent_backend_blocks:
  assumes "dx_down d = Splicing s cp" and "cp_mode cp = Reading" and "si_data (cp_src cp) = []"
    and "dx_up d = Pumping up" and "cp_mode up = Reading" and "si_data (cp_src up) = []"
  shows "\<not> duplex_step rng route label False Stays d d'" and "\<not> duplex_step rng route label False Follows d d'"
  using assms by (auto elim!: duplex_stepE copy_stepE simp: backendEnds_def hungUp_def)

section \<open>Witnesses\<close>

text \<open>
  A client that has sent a byte and then stays silent, and a backend that sends its key data,
  a ReadyForQuery message and three more bytes before it hangs up.
\<close>

definition silent_client :: conn where
  "silent_client = sample_conn ''q''"

definition talking_backend :: conn where
  "talking_backend = sample_conn (Message_Encode sample_keydata @ Message_Encode sample_ready @ ''row'')"

lemma sample_talk:
  obtains res where "relayFromBackend sample_rng 0 newCancelRegistry silent_client talking_backend plain_route ''orders'' = Some (Inr res)"
proof -
  let ?s = "startRelay 0 newCancelRegistry silent_client talking_backend"
  have s: "si_data (mr_r (rs_reader ?s)) = encodes [] @ Message_Encode sample_keydata @ encodes [] @ Message_Encode sample_ready @ ''row''"
    "si_end (mr_r (rs_reader ?s)) = Sentinel IoEOF" "conn_open (rs_client ?s)" "rs_pos ?s = 0" "rs_cancels ?s = newCancelRegistry"
    by (simp_all add: startRelay_def NewMessageReader_def talking_backend_def silent_client_def sample_conn_def conn_open_def)
  have "\<exists>s'. relayLoop sample_rng plain_route ''orders'' ?s = Some (Inr (None, s'))"
    using relayLoop_session [where pre = "[]" and mid = "[]", OF _ _ sample_messages(2,3,4,6,5) s(1-3)] sample_issue s(4,5)
    by fastforce
  with that show thesis by (auto simp: relayFromBackend_start)
qed

theorem relay_always_winds_up_witness:
  "\<exists>n d r. (duplex_step sample_rng plain_route ''orders'' False HangsUp ^^ n)
       (duplex_start 0 newCancelRegistry silent_client talking_backend) d
     \<and> duplex_result ''orders'' d = Some r
     \<and> n \<le> 2 * length (si_data (c_in silent_client)) + 2 * length (si_data (c_in talking_backend)) + 5
     \<and> \<not> (\<exists>d'. duplex_step sample_rng plain_route ''orders'' False HangsUp d d')"
proof -
  let ?start = "duplex_start 0 newCancelRegistry silent_client talking_backend"
  let ?step = "duplex_step sample_rng plain_route ''orders'' False HangsUp"
  obtain res where res: "relayFromBackend sample_rng 0 newCancelRegistry silent_client talking_backend plain_route ''orders'' = Some (Inr res)"
    by (rule sample_talk)
  then obtain r where "relay sample_rng (Some 1) 0 newCancelRegistry silent_client talking_backend plain_route ''orders'' = Some (Inr r)"
    by (cases res; cases "io_Copy (Some 1) talking_backend (c_in silent_client)") (simp add: relay_def Let_def)
  moreover have "cut_ok False silent_client (Some 1)" by (simp add: cut_ok_def silent_client_def sample_conn_def)
  ultimately obtain d where d: "?step\<^sup>*\<^sup>* ?start d" "duplex_result ''orders'' d = Some r"
    by (rule duplex_complete)
  then obtain n where n: "(?step ^^ n) ?start d" by (meson rtranclp_imp_relpowp)
  from relay_always_winds_up [OF res n] n d(2) show ?thesis
    by (intro exI [of _ n] exI [of _ d] exI [of _ r]) simp
qed

end
