(* ===== verification/Serving.thy ===== *)
theory Serving
  imports Concurrent_Gateway Server_Loop Duplex
begin

text \<open>
  The gateway as a whole: \<open>Start\<close>, \<open>acceptLoop\<close>, \<open>drain\<close> of
  \<^verbatim>\<open>src/src/internal/proxy/server.go\<close> and \<open>serve\<close> of \<^verbatim>\<open>session.go\<close> around the sessions of
  \<^verbatim>\<open>Concurrent_Gateway\<close>. Connections are accepted, tracked, given a slot or turned away, served
  and let go, all in any order; the context ends, the goroutine that waits for it closes the
  listener, the loop returns, the gateway drains, closes what is left after the grace period and
  returns. A session whose backend has nothing to send and keeps its stream open waits in its
  read; closing its client connection, as \<open>drain\<close> does, half-closes the backend connection
  and so ends the wait if the backend answers that. Shown: every connection is served as the
  sequential \<open>serve\<close> serves it alone, and a gateway that has returned has left nothing behind.
\<close>

section \<open>Definitions\<close>

text \<open>Where \<open>Start\<close> is: accepting, waiting in \<open>drain\<close> before and after the grace period, returned.\<close>

datatype run_stage =
    Open
  | Closing "go_error option"
  | Forced "go_error option" "nat list"
  | Closed "go_error option"

text \<open>How a connection was served: whether it got a slot, both connections in the end, metrics.\<close>

record outcome =
  oc_admitted :: bool
  oc_client :: conn
  oc_backend :: "conn option"
  oc_metrics :: "metric list"

text \<open>
  The server with its goroutines, the sessions that got a slot, and what has happened: whether the
  context has ended and the listener is open, what the accepts reported, the connections with what
  their sessions will meet, and the outcomes. Which bytes a session still gets to read and write
  when its connection is closed by \<open>drain\<close> is part of what it meets, like every other way a
  connection ends; that a blocked session goes on then is part of \<open>plant_step\<close>.
\<close>

record plant =
  pl_world :: world
  pl_front :: front
  pl_stage :: run_stage
  pl_done :: bool
  pl_listener :: bool
  pl_accepts :: "accepted list"
  pl_conns :: "(nat \<times> gateway_env \<times> conn) list"
  pl_served :: "(nat \<times> outcome) list"

abbreviation pl_server :: "plant \<Rightarrow> Server" where
  "pl_server p \<equiv> w_server (pl_world p)"

abbreviation pl_goroutine :: "plant \<Rightarrow> nat \<Rightarrow> Server_Loop.phase option" where
  "pl_goroutine p \<equiv> map_of (w_sessions (pl_world p))"

definition inFront :: "nat \<Rightarrow> gateway_env \<Rightarrow> conn \<Rightarrow> front \<Rightarrow> front" where
  "inFront c env raw f = f\<lparr>fr_sessions := AList.update c
     \<lparr>fs_env = env, fs_raw = raw, fs_phase = Arrived, fs_store = NewStore, fs_cancels = newCancelRegistry\<rparr> (fr_sessions f)\<rparr>"

definition turnedAway :: "Server \<Rightarrow> conn \<Rightarrow> outcome" where
  "turnedAway s raw = \<lparr>oc_admitted = False, oc_client = conn_Close (rejectFull s raw), oc_backend = None,
     oc_metrics = [ConnectionsInc unroutedLabel outcomeRejected]\<rparr>"

text \<open>
  What the two peers of a connection do once they have sent their bytes: whether the client ends
  its stream, and how the backend ends its own. The upstream copy half-closes the backend connection
  when the client's stream ends and when the client connection is closed under it.
\<close>

record peers =
  pe_clientEnds :: bool
  pe_farewell :: farewell

definition endComes :: "peers \<Rightarrow> bool \<Rightarrow> bool" where
  "endComes pe closed =
     (case pe_farewell pe of HangsUp \<Rightarrow> True | Follows \<Rightarrow> pe_clientEnds pe \<or> closed | Stays \<Rightarrow> False)"

text \<open>
  The pass of the framing loop that a relay is about to make, together with the raw copy if it
  leads there, asks for more than the backend's bytes: it cannot end before the backend's stream
  does.
\<close>

definition awaitsEnd :: "rand_source \<Rightarrow> Route \<Rightarrow> go_string \<Rightarrow> relay_state \<Rightarrow> bool" where
  "awaitsEnd rng route label s =
     (awaitsMore (rs_reader s) \<or>
      (case frameTurn rng route label s of
         Inl t \<Rightarrow> False
       | Inr s1 \<Rightarrow> (let data = si_data (mr_r (rs_reader s1)) in
                   data = [] \<or> fst (snd (conn_Write data (rs_client s1))) = None)))"

text \<open>\<open>drain\<close> has closed the connection.\<close>

definition forceClosed :: "plant \<Rightarrow> nat \<Rightarrow> bool" where
  "forceClosed p c = (case pl_stage p of Forced e closed \<Rightarrow> c \<in> set closed | _ \<Rightarrow> False)"

definition awaiting :: "rand_source \<Rightarrow> plant \<Rightarrow> nat \<Rightarrow> bool" where
  "awaiting rng p c =
     (case map_of (gw_sessions (fr_gateway (pl_front p))) c of
        None \<Rightarrow> False
      | Some l \<Rightarrow> (case rl_stage l of
                    Relaying s \<Rightarrow> awaitsEnd rng (rl_route l) (rl_label l) (attend (fr_gateway (pl_front p)) s)
                  | Finished err s \<Rightarrow> False))"

definition blocked :: "rand_source \<Rightarrow> (nat \<Rightarrow> peers) \<Rightarrow> plant \<Rightarrow> nat \<Rightarrow> bool" where
  "blocked rng tie p c \<longleftrightarrow> awaiting rng p c \<and> \<not> endComes (tie c) (forceClosed p c)"

text \<open>
  A step of the gateway. The context may end at any time, and only then the listener is closed;
  \<open>Accept\<close> yields connections while it is open. A step of the sessions leaves the blocked ones
  where they are.
\<close>

inductive plant_step :: "rand_source \<Rightarrow> Server \<Rightarrow> (nat \<Rightarrow> peers) \<Rightarrow> plant \<Rightarrow> plant \<Rightarrow> bool" for rng srv tie where
  ps_cancel: "plant_step rng srv tie p (p\<lparr>pl_done := True\<rparr>)"
| ps_unlisten: "pl_done p \<Longrightarrow> plant_step rng srv tie p (p\<lparr>pl_listener := False\<rparr>)"
| ps_accept: "pl_stage p = Open \<Longrightarrow> pl_listener p \<Longrightarrow> c \<notin> fst ` set (pl_conns p) \<Longrightarrow>
     plant_step rng srv tie p (p\<lparr>
       pl_world := (pl_world p)\<lparr>w_server := (pl_server p)\<lparr>sv_sessions := sv_sessions (pl_server p) + 1\<rparr>,
         w_sessions := (c, Spawned) # w_sessions (pl_world p)\<rparr>,
       pl_accepts := pl_accepts p @ [Accepted c], pl_conns := (c, env, raw) # pl_conns p\<rparr>)"
| ps_retry: "pl_stage p = Open \<Longrightarrow> \<not> pl_done p \<Longrightarrow>
     plant_step rng srv tie p (p\<lparr>pl_accepts := pl_accepts p @ [AcceptFailed err False True False]\<rparr>)"
| ps_shut: "pl_stage p = Open \<Longrightarrow> a = AcceptFailed err (pl_done p) timeout interrupted \<Longrightarrow>
     acceptLoop 0 (pl_accepts p @ [a]) = (Returned e, conns, waits) \<Longrightarrow>
     plant_step rng srv tie p (p\<lparr>pl_stage := Closing e, pl_done := pl_done p \<or> timeout \<and> interrupted, pl_accepts := pl_accepts p @ [a]\<rparr>)"
| ps_enter: "pl_goroutine p c = Some Spawned \<Longrightarrow> map_of (pl_conns p) c = Some (env, raw) \<Longrightarrow>
     serveEnter c (pl_server p) = (ok, s) \<Longrightarrow>
     plant_step rng srv tie p (p\<lparr>
       pl_world := (pl_world p)\<lparr>w_server := s, w_sessions := AList.update c (Running ok) (w_sessions (pl_world p))\<rparr>,
       pl_front := (if ok then inFront c env raw (pl_front p) else pl_front p)\<rparr>)"
| ps_session: "front_step rng srv (pl_front p) f \<Longrightarrow> fst ` set (fr_sessions f) = fst ` set (fr_sessions (pl_front p)) \<Longrightarrow>
     (\<And>c. blocked rng tie p c \<Longrightarrow> map_of (gw_sessions (fr_gateway f)) c = map_of (gw_sessions (fr_gateway (pl_front p))) c) \<Longrightarrow>
     plant_step rng srv tie p (p\<lparr>pl_front := f,
       pl_world := (pl_world p)\<lparr>w_server := (pl_server p)\<lparr>sv_cancels := gw_cancels (fr_gateway f)\<rparr>\<rparr>\<rparr>)"
| ps_reject: "pl_goroutine p c = Some (Running False) \<Longrightarrow> map_of (pl_conns p) c = Some (env, raw) \<Longrightarrow>
     serveExit c False (pl_server p) = Some s \<Longrightarrow>
     plant_step rng srv tie p (p\<lparr>
       pl_world := (pl_world p)\<lparr>w_server := s, w_sessions := AList.update c Finishing (w_sessions (pl_world p))\<rparr>,
       pl_served := (c, turnedAway (pl_server p) raw) # pl_served p\<rparr>)"
| ps_exit: "pl_goroutine p c = Some (Running True) \<Longrightarrow> map_of (fr_sessions (pl_front p)) c = Some x \<Longrightarrow>
     fs_phase x = Served err client backend ms \<Longrightarrow> serveExit c True (pl_server p) = Some s \<Longrightarrow>
     plant_step rng srv tie p (p\<lparr>
       pl_world := (pl_world p)\<lparr>w_server := s, w_sessions := AList.update c Finishing (w_sessions (pl_world p))\<rparr>,
       pl_served := (c, \<lparr>oc_admitted = True, oc_client = conn_Close client, oc_backend = backend, oc_metrics = ms\<rparr>) # pl_served p\<rparr>)"
| ps_done: "pl_goroutine p c = Some Finishing \<Longrightarrow>
     plant_step rng srv tie p (p\<lparr>
       pl_world := (pl_world p)\<lparr>w_server := (pl_server p)\<lparr>sv_sessions := sv_sessions (pl_server p) - 1\<rparr>,
         w_sessions := AList.delete c (w_sessions (pl_world p))\<rparr>\<rparr>)"
| ps_drained: "pl_stage p = Closing e \<Longrightarrow> sv_sessions (pl_server p) = 0 \<Longrightarrow>
     plant_step rng srv tie p (p\<lparr>pl_stage := Closed e,
       pl_world := (pl_world p)\<lparr>w_server := (pl_server p)\<lparr>sv_listening := False\<rparr>\<rparr>\<rparr>)"
| ps_expire: "pl_stage p = Closing e \<Longrightarrow>
     plant_step rng srv tie p (p\<lparr>pl_stage := Forced e (map fst (sv_activeConn (pl_server p)))\<rparr>)"
| ps_waited: "pl_stage p = Forced e cs \<Longrightarrow> sv_sessions (pl_server p) = 0 \<Longrightarrow>
     plant_step rng srv tie p (p\<lparr>pl_stage := Closed e,
       pl_world := (pl_world p)\<lparr>w_server := (pl_server p)\<lparr>sv_listening := False\<rparr>\<rparr>\<rparr>)"

text \<open>A new server that has started to listen.\<close>

inductive plant_reach :: "rand_source \<Rightarrow> Config \<Rightarrow> Server \<Rightarrow> (nat \<Rightarrow> peers) \<Rightarrow> plant \<Rightarrow> bool" for rng cfg srv tie where
  plant_start: "New cfg = Inr srv \<Longrightarrow>
     plant_reach rng cfg srv tie
       \<lparr>pl_world = \<lparr>w_server = startListening addr srv, w_sessions = []\<rparr>,
        pl_front = \<lparr>fr_gateway = \<lparr>gw_store = NewStore, gw_cancels = newCancelRegistry, gw_pos = 0, gw_sessions = [], gw_lost = []\<rparr>,
          fr_sessions = []\<rparr>,
        pl_stage = Open, pl_done = False, pl_listener = True, pl_accepts = [], pl_conns = [], pl_served = []\<rparr>"
| plant_next: "plant_reach rng cfg srv tie p \<Longrightarrow> plant_step rng srv tie p p' \<Longrightarrow> plant_reach rng cfg srv tie p'"

text \<open>The server a connection met: with the table its session looked at, or with every slot taken.\<close>

definition crowded :: "Server \<Rightarrow> Server" where
  "crowded srv = srv\<lparr>sv_slots := map_option (\<lambda>ch. ch\<lparr>sl_used := sl_cap ch\<rparr>) (sv_slots srv)\<rparr>"

section \<open>The server's side\<close>

lemma server_inv_parts:
  "server_inv cfg (w\<lparr>w_server := (w_server w)\<lparr>sv_cancels := cs\<rparr>\<rparr>) = server_inv cfg w"
  "server_inv cfg (w\<lparr>w_server := (w_server w)\<lparr>sv_listening := b\<rparr>\<rparr>) = server_inv cfg w"
  by (simp_all add: server_inv_def)

text \<open>\<open>handle\<close> looks at the configuration and the registry, and the refusal at the configuration only.\<close>

lemma handle_cong:
  assumes "sv_cfg s = sv_cfg s'" and "sv_cancels s = sv_cancels s'"
  shows "handle env cutAt s pos conn = handle env cutAt s' pos conn"
  unfolding handle_def handleStartup_def assms by (rule refl)

lemma rejectFull_cong: "sv_cfg s = sv_cfg s' \<Longrightarrow> rejectFull s = rejectFull s'"
  by (simp add: rejectFull_def)

definition serves :: "gateway_env \<Rightarrow> conn \<Rightarrow> nat \<Rightarrow> Server \<Rightarrow> outcome \<Rightarrow> bool" where
  "serves env raw c s u \<longleftrightarrow> (\<exists>rng cutAt r. serve (env\<lparr>ge_rng := rng\<rparr>) cutAt 0 raw c s = Some (Inr r)
     \<and> sv_client r = oc_client u \<and> sv_backend r = oc_backend u \<and> sv_emitted r = oc_metrics u)"

lemma serves_admitted:
  assumes "New cfg = Inr srv" and "as_handled (fs_env x) srv x err client backend ms"
  shows "serves (fs_env x) (fs_raw x) c (facing srv x)
    \<lparr>oc_admitted = True, oc_client = conn_Close client, oc_backend = backend, oc_metrics = ms\<rparr>"
proof -
  obtain rng cutAt r where r: "handle ((fs_env x)\<lparr>ge_rng := rng\<rparr>) cutAt (facing srv x) 0 (fs_raw x) = Some (Inr r)"
    "sr_client r = client" "sr_backend r = backend" "sr_metrics r = ms"
    using assms(2) by (auto simp: as_handled_def results_def)
  obtain s1 where enter: "serveEnter c (facing srv x) = (True, s1)" "sv_cfg s1 = sv_cfg (facing srv x)" "sv_cancels s1 = sv_cancels (facing srv x)"
    and exit: "\<And>cs. \<exists>s2. serveExit c True (s1\<lparr>sv_cancels := cs\<rparr>) = Some s2"
    using assms(1) by (auto simp: New_def facing_def serveEnter_def acquireSlot_def track_def serveExit_def releaseSlot_def
        Let_def split: if_splits)
  have "handle ((fs_env x)\<lparr>ge_rng := rng\<rparr>) cutAt s1 0 (fs_raw x) = Some (Inr r)"
    using handle_cong [OF enter(2,3)] r(1) by simp
  with r enter(1) exit [of "sr_cancels r"] show ?thesis
    unfolding serves_def by (intro exI [of _ rng] exI [of _ cutAt]) (auto simp: serve_def)
qed

lemma serves_rejected:
  assumes "sv_slots srv = Some ch" and "sv_cfg s = sv_cfg srv"
  shows "serves env raw c (crowded srv) (turnedAway s raw)"
proof -
  have "rejectFull s = rejectFull (track c (crowded srv))"
    using assms(2) by (intro rejectFull_cong) (simp add: track_def crowded_def)
  moreover have "serveEnter c (crowded srv) = (False, track c (crowded srv))"
    using assms(1) by (simp add: serveEnter_def acquireSlot_def track_def crowded_def)
  ultimately show ?thesis by (simp add: serves_def serve_def serveExit_def turnedAway_def)
qed

section \<open>Which connection is where\<close>

fun served_phase :: "session_phase \<Rightarrow> bool" where
  "served_phase (Served _ _ _ _) = True"
| "served_phase _ = False"

definition meets :: "Server \<Rightarrow> front_session option \<Rightarrow> Server" where
  "meets srv x = (case x of None \<Rightarrow> crowded srv | Some y \<Rightarrow> facing srv y)"

definition placed ::
    "Server \<Rightarrow> nat \<Rightarrow> (gateway_env \<times> conn) option \<Rightarrow> Server_Loop.phase option \<Rightarrow> front_session option \<Rightarrow> outcome option \<Rightarrow> bool" where
  "placed srv c cn g x u \<longleftrightarrow>
     (case cn of
        None \<Rightarrow> g = None \<and> x = None \<and> u = None
      | Some (env, raw) \<Rightarrow> (\<forall>y. x = Some y \<longrightarrow> fs_env y = env \<and> fs_raw y = raw) \<and>
         (case g of
            Some Spawned \<Rightarrow> x = None \<and> u = None
          | Some (Running ok) \<Rightarrow> (x \<noteq> None \<longleftrightarrow> ok) \<and> u = None \<and> (\<not> ok \<longrightarrow> sv_slots srv \<noteq> None)
          | _ \<Rightarrow> (\<exists>v. u = Some v \<and> oc_admitted v = (x \<noteq> None) \<and> serves env raw c (meets srv x) v)
                 \<and> (\<forall>y. x = Some y \<longrightarrow> served_phase (fs_phase y))))"

lemma placed_served:
  "placed srv c (Some (env, raw)) (Some Finishing) x u \<longleftrightarrow> placed srv c (Some (env, raw)) None x u"
  by (simp add: placed_def)

abbreviation pl_placed :: "Server \<Rightarrow> plant \<Rightarrow> nat \<Rightarrow> bool" where
  "pl_placed srv p c \<equiv> placed srv c (map_of (pl_conns p) c) (pl_goroutine p c) (map_of (fr_sessions (pl_front p)) c) (map_of (pl_served p) c)"

lemma placed_session:
  assumes "placed srv c cn g x u" and "\<And>y. x = Some y \<Longrightarrow> \<exists>y'. x' = Some y' \<and> fs_env y' = fs_env y \<and> fs_raw y' = fs_raw y
      \<and> (served_phase (fs_phase y) \<longrightarrow> y' = y)" and "x = None \<Longrightarrow> x' = None"
  shows "placed srv c cn g x' u"
proof (cases x)
  case None
  with assms(1,3) show ?thesis by simp
next
  case (Some y)
  then obtain y' where y': "x' = Some y'" "fs_env y' = fs_env y" "fs_raw y' = fs_raw y" "served_phase (fs_phase y) \<longrightarrow> y' = y"
    using assms(2) by blast
  show ?thesis
  proof (cases "served_phase (fs_phase y)")
    case False
    have cn: "cn = Some (fs_env y, fs_raw y)" using assms(1) Some by (cases cn) (auto simp: placed_def)
    then have "g = Some (Running True) \<and> u = None"
      using assms(1) Some False by (cases g; cases "the g") (simp_all add: placed_def)
    with cn y' show ?thesis by (simp add: placed_def)
  qed (use y' assms(1) Some in simp)
qed

definition accepts_ok :: "run_stage \<Rightarrow> accepted list \<Rightarrow> nat set \<Rightarrow> bool" where
  "accepts_ok st as cs \<longleftrightarrow> set (connections as) = cs
     \<and> (case st of
          Open \<Rightarrow> \<forall>a\<in>set as. (\<exists>c. a = Accepted c) \<or> (\<exists>e. a = AcceptFailed e False True False)
        | Closing e \<Rightarrow> \<exists>waits. acceptLoop 0 as = (Returned e, connections as, waits)
        | Forced e closed \<Rightarrow> \<exists>waits. acceptLoop 0 as = (Returned e, connections as, waits)
        | Closed e \<Rightarrow> \<exists>waits. acceptLoop 0 as = (Returned e, connections as, waits))"

fun ended_nil :: "run_stage \<Rightarrow> bool" where
  "ended_nil Open = False"
| "ended_nil (Closing e) = (e = None)"
| "ended_nil (Forced e cs) = (e = None)"
| "ended_nil (Closed e) = (e = None)"

definition plant_inv :: "rand_source \<Rightarrow> Config \<Rightarrow> Server \<Rightarrow> plant \<Rightarrow> bool" where
  "plant_inv rng cfg srv p \<longleftrightarrow> server_inv cfg (pl_world p) \<and> front_reach rng srv (pl_front p) \<and> (\<forall>c. pl_placed srv p c)
     \<and> accepts_ok (pl_stage p) (pl_accepts p) (fst ` set (pl_conns p)) \<and> sv_cancels (pl_server p) = gw_cancels (fr_gateway (pl_front p))
     \<and> (sv_listening (pl_server p) \<longleftrightarrow> (\<forall>e. pl_stage p \<noteq> Closed e))
     \<and> (\<forall>e. pl_stage p = Closed e \<longrightarrow> sv_sessions (pl_server p) = 0)
     \<and> (pl_listener p \<or> pl_done p) \<and> (ended_nil (pl_stage p) \<longrightarrow> pl_done p)"

section \<open>The invariant\<close>

lemma connections_append [simp]: "connections (as @ bs) = connections as @ connections bs"
  by (induction as rule: connections.induct) auto

lemma acceptLoop_append:
  assumes "\<forall>a\<in>set as. (\<exists>c. a = Accepted c) \<or> (\<exists>e. a = AcceptFailed e False True False)"
  shows "\<exists>b' ws res cs ws'. acceptLoop b' [x] = (res, cs, ws') \<and> acceptLoop b (as @ [x]) = (res, connections as @ cs, ws @ ws')"
  using assms
proof (induction as arbitrary: b)
  case Nil
  show ?case by (cases "acceptLoop b [x]") auto
next
  case (Cons a as)
  then have rest: "\<forall>a\<in>set as. (\<exists>c. a = Accepted c) \<or> (\<exists>e. a = AcceptFailed e False True False)" by simp
  from Cons.prems consider (conn) c where "a = Accepted c" | (fail) e where "a = AcceptFailed e False True False" by auto
  then show ?case
  proof cases
    case conn
    with Cons.IH [OF rest, of 0] show ?thesis by fastforce
  next
    case fail
    obtain b' ws res cs ws' where run: "acceptLoop b' [x] = (res, cs, ws')"
      "acceptLoop (nextBackoff b) (as @ [x]) = (res, connections as @ cs, ws @ ws')"
      using Cons.IH [OF rest] by blast
    then have "acceptLoop b ((a # as) @ [x]) = (res, connections (a # as) @ cs, (nextBackoff b # ws) @ ws')"
      using fail by (simp add: Let_def)
    with run(1) show ?thesis by blast
  qed
qed

lemma acceptLoop_returns:
  assumes "\<forall>a\<in>set as. (\<exists>c. a = Accepted c) \<or> (\<exists>e. a = AcceptFailed e False True False)"
    and "acceptLoop 0 (as @ [x]) = (Returned e, conns, waits)"
  shows "conns = connections (as @ [x]) \<and> connections [x] = [] \<and> (e = None \<longrightarrow> ctxDone x \<or> isTimeout x \<and> doneWhileWaiting x)"
proof -
  obtain b' ws res cs ws' where "acceptLoop b' [x] = (res, cs, ws')" "acceptLoop 0 (as @ [x]) = (res, connections as @ cs, ws @ ws')"
    using acceptLoop_append [OF assms(1)] by blast
  with assms(2) show ?thesis by (cases x) (auto simp: Let_def split: if_splits)
qed

text \<open>A step that moves one connection.\<close>

lemma placed_other:
  assumes "\<forall>c. pl_placed srv p c" and "pl_placed srv p' c"
    and "\<And>c'. c' \<noteq> c \<Longrightarrow> map_of (pl_conns p') c' = map_of (pl_conns p) c' \<and> pl_goroutine p' c' = pl_goroutine p c'
      \<and> map_of (fr_sessions (pl_front p')) c' = map_of (fr_sessions (pl_front p)) c' \<and> map_of (pl_served p') c' = map_of (pl_served p) c'"
  shows "\<forall>c. pl_placed srv p' c"
proof
  fix c'
  show "pl_placed srv p' c'" using assms(1,2) assms(3) [of c'] by (cases "c' = c") simp_all
qed

lemma serve_keeps:
  assumes "serveEnter c s = (ok, s') \<or> serveExit c ok s = Some s'"
  shows "sv_cancels s' = sv_cancels s" "sv_listening s' = sv_listening s" "sv_sessions s' = sv_sessions s" "sv_cfg s' = sv_cfg s"
  using assms by (auto simp: serveEnter_def acquireSlot_def track_def serveExit_def releaseSlot_def untrack_def split: option.splits if_splits)

lemma plant_inv_moved:
  assumes inv: "plant_inv rng cfg srv p" and "server_step (pl_world p) w" and "serveEnter c (pl_server p) = (ok, w_server w) \<or> serveExit c ok (pl_server p) = Some (w_server w)"
    and "front_reach rng srv f" and "gw_cancels (fr_gateway f) = gw_cancels (fr_gateway (pl_front p))"
    and "\<forall>c. pl_placed srv (p\<lparr>pl_world := w, pl_front := f, pl_served := us\<rparr>) c"
  shows "plant_inv rng cfg srv (p\<lparr>pl_world := w, pl_front := f, pl_served := us\<rparr>)"
  using inv assms(4-6) serve_keeps [OF assms(3)] server_inv_step [OF assms(2)] by (simp add: plant_inv_def)

lemma sessions_zero:
  assumes "server_inv cfg w" and "sv_sessions (w_server w) = 0"
  shows "w_sessions w = []"
  using assms by (simp add: server_inv_def)

lemma refused_is_limited:
  assumes "New cfg = Inr srv" and "server_inv cfg w" and "serveEnter c (w_server w) = (ok, s)" and "\<not> ok"
  shows "sv_slots srv \<noteq> None"
proof -
  have "sv_slots (w_server w) \<noteq> None" using assms(3,4) by (auto simp: serveEnter_def acquireSlot_def track_def split: option.splits)
  then have "cfg_MaxConnections cfg \<noteq> 0" using assms(2) by (auto simp: server_inv_def)
  then show ?thesis using server_inv_new [OF assms(1)] by (auto simp: server_inv_def)
qed

lemma plant_invD:
  assumes "plant_inv rng cfg srv p"
  shows "server_inv cfg (pl_world p)" "front_reach rng srv (pl_front p)" "\<forall>c. pl_placed srv p c"
    "accepts_ok (pl_stage p) (pl_accepts p) (fst ` set (pl_conns p))" "sv_cancels (pl_server p) = gw_cancels (fr_gateway (pl_front p))"
  using assms by (simp_all add: plant_inv_def)

lemma plant_inv_accept:
  assumes inv: "plant_inv rng cfg srv p" and st: "pl_stage p = Open" and fresh: "c \<notin> fst ` set (pl_conns p)"
  shows "plant_inv rng cfg srv (p\<lparr>
       pl_world := (pl_world p)\<lparr>w_server := (pl_server p)\<lparr>sv_sessions := sv_sessions (pl_server p) + 1\<rparr>,
         w_sessions := (c, Spawned) # w_sessions (pl_world p)\<rparr>,
       pl_accepts := pl_accepts p @ [Accepted c], pl_conns := (c, env, raw) # pl_conns p\<rparr>)" (is "plant_inv rng cfg srv ?p")
proof -
  have none: "map_of (pl_conns p) c = None" using fresh by (simp add: map_of_eq_None_iff)
  then have gone: "pl_goroutine p c = None" "map_of (fr_sessions (pl_front p)) c = None" "map_of (pl_served p) c = None"
    using plant_invD(3) [OF inv] by (auto simp: placed_def dest: spec [of _ c])
  have "c \<notin> fst ` set (w_sessions (pl_world p))" using gone(1) by (simp add: map_of_eq_None_iff)
  from server_inv_step [OF step_accept [OF this] plant_invD(1) [OF inv]] have "server_inv cfg (pl_world ?p)" by simp
  moreover have "\<forall>c. pl_placed srv ?p c"
    by (rule placed_other [OF plant_invD(3) [OF inv], where c = c]) (simp_all add: gone placed_def)
  ultimately show ?thesis
    using inv st by (auto simp: plant_inv_def accepts_ok_def)
qed

lemma plant_inv_enter:
  assumes inv: "plant_inv rng cfg srv p" and new: "New cfg = Inr srv" and g: "pl_goroutine p c = Some Spawned"
    and cn: "map_of (pl_conns p) c = Some (env, raw)" and ent: "serveEnter c (pl_server p) = (ok, s)"
  shows "plant_inv rng cfg srv (p\<lparr>
       pl_world := (pl_world p)\<lparr>w_server := s, w_sessions := AList.update c (Running ok) (w_sessions (pl_world p))\<rparr>,
       pl_front := (if ok then inFront c env raw (pl_front p) else pl_front p)\<rparr>)"
proof -
  let ?w = "(pl_world p)\<lparr>w_server := s, w_sessions := AList.update c (Running ok) (w_sessions (pl_world p))\<rparr>"
  let ?f = "if ok then inFront c env raw (pl_front p) else pl_front p"
  note at = plant_invD(3) [OF inv] and front = plant_invD(2) [OF inv]
  have none: "map_of (fr_sessions (pl_front p)) c = None" "map_of (pl_served p) c = None"
    using spec [OF at, of c] g cn by (simp_all add: placed_def)
  have "front_reach rng srv ?f"
    using front_next [OF front fr_accept [of c]] none(1) front by (simp add: inFront_def map_of_eq_None_iff)
  moreover have "\<not> ok \<longrightarrow> sv_slots srv \<noteq> None"
    using refused_is_limited [OF new plant_invD(1) [OF inv] ent] by simp
  then have "\<forall>c. pl_placed srv (p\<lparr>pl_world := ?w, pl_front := ?f, pl_served := pl_served p\<rparr>) c"
    by (intro placed_other [OF at, where c = c]) (simp_all add: update_conv' inFront_def placed_def cn none)
  ultimately have "plant_inv rng cfg srv (p\<lparr>pl_world := ?w, pl_front := ?f, pl_served := pl_served p\<rparr>)"
    using ent by (intro plant_inv_moved [OF inv step_enter [OF g ent], where c = c and ok = ok]) (simp_all add: inFront_def)
  then show ?thesis by simp
qed

lemma plant_inv_session:
  assumes inv: "plant_inv rng cfg srv p" and st: "front_step rng srv (pl_front p) f"
    and keys: "fst ` set (fr_sessions f) = fst ` set (fr_sessions (pl_front p))"
  shows "plant_inv rng cfg srv (p\<lparr>pl_front := f,
       pl_world := (pl_world p)\<lparr>w_server := (pl_server p)\<lparr>sv_cancels := gw_cancels (fr_gateway f)\<rparr>\<rparr>\<rparr>)" (is "plant_inv rng cfg srv ?p")
proof -
  have "front_reach rng srv f" by (rule front_next [OF plant_invD(2) [OF inv] st])
  moreover have "pl_placed srv ?p c" for c
  proof -
    have "map_of (fr_sessions (pl_front p)) c = None \<longleftrightarrow> map_of (fr_sessions f) c = None"
      using keys by (simp add: map_of_eq_None_iff)
    moreover have "\<exists>y'. map_of (fr_sessions f) c = Some y' \<and> fs_env y' = fs_env y \<and> fs_raw y' = fs_raw y
        \<and> (served_phase (fs_phase y) \<longrightarrow> y' = y)" if "map_of (fr_sessions (pl_front p)) c = Some y" for y
      using front_step_keeps [OF st that] by (cases "fs_phase y") auto
    ultimately have "placed srv c (map_of (pl_conns p) c) (pl_goroutine p c) (map_of (fr_sessions f) c) (map_of (pl_served p) c)"
      by (intro placed_session [OF spec [OF plant_invD(3) [OF inv], of c]]) simp_all
    then show ?thesis by simp
  qed
  ultimately show ?thesis using inv by (simp add: plant_inv_def server_inv_parts)
qed

text \<open>A connection gets its outcome: the deferred calls of \<open>serve\<close> run and the goroutine is past its work.\<close>

lemma plant_inv_outcome:
  assumes inv: "plant_inv rng cfg srv p" and g: "pl_goroutine p c = Some (Running ok)" and ex: "serveExit c ok (pl_server p) = Some s"
    and cn: "map_of (pl_conns p) c = Some (env, raw)" and u: "oc_admitted u = (map_of (fr_sessions (pl_front p)) c \<noteq> None)"
    "serves env raw c (meets srv (map_of (fr_sessions (pl_front p)) c)) u"
    "\<And>y. map_of (fr_sessions (pl_front p)) c = Some y \<Longrightarrow> fs_env y = env \<and> fs_raw y = raw \<and> served_phase (fs_phase y)"
  shows "plant_inv rng cfg srv (p\<lparr>
       pl_world := (pl_world p)\<lparr>w_server := s, w_sessions := AList.update c Finishing (w_sessions (pl_world p))\<rparr>,
       pl_served := (c, u) # pl_served p\<rparr>)"
proof -
  let ?w = "(pl_world p)\<lparr>w_server := s, w_sessions := AList.update c Finishing (w_sessions (pl_world p))\<rparr>"
  have "\<forall>c'. pl_placed srv (p\<lparr>pl_world := ?w, pl_front := pl_front p, pl_served := (c, u) # pl_served p\<rparr>) c'"
    using u by (intro placed_other [OF plant_invD(3) [OF inv], where c = c]) (simp_all add: update_conv' placed_def cn)
  then have "plant_inv rng cfg srv (p\<lparr>pl_world := ?w, pl_front := pl_front p, pl_served := (c, u) # pl_served p\<rparr>)"
    using ex plant_invD(2) [OF inv] by (intro plant_inv_moved [OF inv step_exit [OF g ex], where c = c and ok = ok]) simp_all
  then show ?thesis by simp
qed

lemma plant_inv_done:
  assumes inv: "plant_inv rng cfg srv p" and g: "pl_goroutine p c = Some Finishing"
  shows "plant_inv rng cfg srv (p\<lparr>
       pl_world := (pl_world p)\<lparr>w_server := (pl_server p)\<lparr>sv_sessions := sv_sessions (pl_server p) - 1\<rparr>,
         w_sessions := AList.delete c (w_sessions (pl_world p))\<rparr>\<rparr>)" (is "plant_inv rng cfg srv ?p")
proof -
  have "pl_placed srv p c \<and> map_of (pl_conns p) c \<noteq> None"
    using spec [OF plant_invD(3) [OF inv], of c] g by (cases "map_of (pl_conns p) c") (auto simp: placed_def)
  then have "\<forall>c. pl_placed srv ?p c"
    using g placed_served by (intro placed_other [OF plant_invD(3) [OF inv], where c = c]) (auto simp: delete_conv')
  then show ?thesis
    using inv server_inv_step [OF step_done [OF g] plant_invD(1) [OF inv]] by (simp add: plant_inv_def)
qed

lemma plant_inv_step:
  assumes step: "plant_step rng srv tie p p'" and inv: "plant_inv rng cfg srv p" and new: "New cfg = Inr srv"
  shows "plant_inv rng cfg srv p'"
  using step
proof cases
  case (ps_accept c env raw)
  with plant_inv_accept [OF inv] show ?thesis by simp
next
  case (ps_retry err)
  then show ?thesis using inv by (auto simp: plant_inv_def accepts_ok_def)
next
  case (ps_shut a err timeout interrupted e conns waits)
  have "conns = connections (pl_accepts p @ [a]) \<and> connections [a] = [] \<and> (e = None \<longrightarrow> ctxDone a \<or> isTimeout a \<and> doneWhileWaiting a)"
    by (rule acceptLoop_returns [OF _ ps_shut(4)]) (use plant_invD(4) [OF inv] ps_shut(2) in \<open>simp add: accepts_ok_def\<close>)
  with ps_shut inv show ?thesis by (auto simp: plant_inv_def accepts_ok_def)
next
  case (ps_enter c env raw ok s)
  with plant_inv_enter [OF inv new] show ?thesis by simp
next
  case (ps_session f)
  with plant_inv_session [OF inv] show ?thesis by simp
next
  case (ps_reject c env raw s)
  have x: "map_of (fr_sessions (pl_front p)) c = None" and "sv_slots srv \<noteq> None"
    using spec [OF plant_invD(3) [OF inv], of c] ps_reject(2,3) by (simp_all add: placed_def)
  then have "serves env raw c (crowded srv) (turnedAway (pl_server p) raw)"
    using serves_rejected [of srv] plant_invD(1) [OF inv] new by (auto simp: server_inv_def New_def Let_def split: if_splits)
  then show ?thesis
    unfolding ps_reject(1) using x by (intro plant_inv_outcome [OF inv ps_reject(2,4,3)]) (simp_all add: meets_def turnedAway_def)
next
  case (ps_exit c x err client backend ms s)
  have cn: "map_of (pl_conns p) c = Some (fs_env x, fs_raw x)"
    using spec [OF plant_invD(3) [OF inv], of c] ps_exit(2,3) by (cases "map_of (pl_conns p) c") (auto simp: placed_def)
  from serves_admitted [OF new concurrent_sessions_are_handled [OF plant_invD(2) [OF inv] ps_exit(3,4)]] show ?thesis
    unfolding ps_exit(1) using ps_exit(3,4) by (intro plant_inv_outcome [OF inv ps_exit(2,5) cn]) (simp_all add: meets_def)
next
  case (ps_done c)
  with plant_inv_done [OF inv] show ?thesis by simp
qed (use inv in \<open>simp_all add: plant_inv_def accepts_ok_def server_inv_parts\<close>)

lemma plant_reach_inv:
  assumes "plant_reach rng cfg srv tie p"
  shows "New cfg = Inr srv \<and> plant_inv rng cfg srv p"
  using assms
proof (induction rule: plant_reach.induct)
  case (plant_start addr)
  have "server_inv cfg \<lparr>w_server = startListening addr srv, w_sessions = []\<rparr>"
    using server_inv_new [OF plant_start] by (simp add: server_inv_def startListening_def split: if_splits)
  moreover have "sv_cancels srv = newCancelRegistry" using plant_start by (auto simp: New_def Let_def split: if_splits)
  moreover note front_new [of rng srv]
  ultimately show ?case using plant_start by (simp add: plant_inv_def placed_def accepts_ok_def startListening_def)
next
  case (plant_next p p')
  then show ?case using plant_inv_step by blast
qed

text \<open>A connection with an outcome is one that was accepted; its goroutine is past its work.\<close>

lemma served_placed:
  assumes "plant_inv rng cfg srv p" and "map_of (pl_served p) c = Some u"
  shows "\<exists>env raw. map_of (pl_conns p) c = Some (env, raw) \<and> oc_admitted u = (map_of (fr_sessions (pl_front p)) c \<noteq> None)
    \<and> serves env raw c (meets srv (map_of (fr_sessions (pl_front p)) c)) u"
proof -
  have "pl_placed srv p c" using assms(1) by (simp add: plant_inv_def)
  with assms(2) show ?thesis
    by (cases "map_of (pl_conns p) c"; cases "pl_goroutine p c"; cases "the (pl_goroutine p c)") (auto simp: placed_def)
qed

lemma serves_closed:
  assumes "serves env raw c s u" and "sv_activeConn s = []"
  shows "c_closed (oc_client u) \<and> (\<forall>b. oc_backend u = Some b \<longrightarrow> c_closed b)"
  using assms serve_gives_everything_back by (fastforce simp: serves_def)

text \<open>With no goroutine left there is no relay left, and every connection has its outcome.\<close>

lemma idle_no_relay:
  assumes "plant_inv rng cfg srv p" and "w_sessions (pl_world p) = []"
  shows "gw_sessions (fr_gateway (pl_front p)) = []"
proof (rule ccontr)
  assume "gw_sessions (fr_gateway (pl_front p)) \<noteq> []"
  then obtain c l where "map_of (gw_sessions (fr_gateway (pl_front p))) c = Some l"
    by (metis map_of_eq_None_iff list.map_disc_iff list.set_map not_None_eq set_empty ex_in_conv)
  then obtain x where x: "map_of (fr_sessions (pl_front p)) c = Some x" "relaying_phase (fs_phase x)"
    using relay_phase assms(1) unfolding plant_inv_def by blast
  have "pl_placed srv p c" using assms(1) by (simp add: plant_inv_def)
  with x assms(2) show False
    by (cases "map_of (pl_conns p) c"; cases "fs_phase x") (auto simp: placed_def)
qed

lemma idle_registry:
  assumes "plant_inv rng cfg srv p" and "w_sessions (pl_world p) = []"
  shows "cancel_lookup (sv_cancels (pl_server p)) k \<noteq> None \<longleftrightarrow> k \<in> set (gw_lost (fr_gateway (pl_front p)))"
proof -
  have "gateway_reach rng (fr_gateway (pl_front p))"
    using assms(1) front_reach_ok unfolding plant_inv_def front_ok_def by blast
  from gateway_reach_inv [OF this] have "keys_ok (cancel_lookup (sv_cancels (pl_server p)))
      (set (gw_lost (fr_gateway (pl_front p)))) (\<lambda>_. None) (owner (fr_gateway (pl_front p)))"
    using idle_no_relay [OF assms] assms(1) by (simp add: gateway_inv_def plant_inv_def holder_def [abs_def])
  then show ?thesis by (simp add: keys_ok_def)
qed

lemma idle_served:
  assumes "New cfg = Inr srv" and "plant_inv rng cfg srv p" and "w_sessions (pl_world p) = []" and "c \<in> fst ` set (pl_conns p)"
  shows "\<exists>u. map_of (pl_served p) c = Some u \<and> c_closed (oc_client u) \<and> (\<forall>b. oc_backend u = Some b \<longrightarrow> c_closed b)"
proof -
  obtain env raw where "map_of (pl_conns p) c = Some (env, raw)"
    using assms(4) by (cases "map_of (pl_conns p) c") (auto simp: map_of_eq_None_iff)
  moreover have "pl_placed srv p c" using assms(2) by (simp add: plant_inv_def)
  ultimately obtain u where u: "map_of (pl_served p) c = Some u" "serves env raw c (meets srv (map_of (fr_sessions (pl_front p)) c)) u"
    using assms(3) by (auto simp: placed_def)
  have "sv_activeConn srv = []" using assms(1) by (auto simp: New_def Let_def split: if_splits)
  then have "sv_activeConn (meets srv (map_of (fr_sessions (pl_front p)) c)) = []"
    by (simp add: meets_def crowded_def facing_def split: option.split)
  with u serves_closed show ?thesis by blast
qed

section \<open>Properties\<close>

text \<open>C8: Every connection of a serving gateway is served as the sequential \<open>serve\<close> serves it
  alone. Whatever other connections and the control plane do meanwhile, in whichever order, a
  connection that is done with was an accepted one, and \<open>serve\<close> on it, against a server with the
  table that its session looked at and, for a cancellation, the registry as it was then, or
  against one whose slots are all taken if it got none, gives the same bytes to client and
  backend, closes both alike and records the same metrics. Only the random values behind its
  key and the moment the client is hung up on are not fixed.\<close>

theorem every_connection_is_served:
  assumes "plant_reach rng cfg srv tie p" and "map_of (pl_served p) c = Some u"
  shows "\<exists>env raw rng' cutAt r. map_of (pl_conns p) c = Some (env, raw)
    \<and> oc_admitted u = (map_of (fr_sessions (pl_front p)) c \<noteq> None)
    \<and> serve (env\<lparr>ge_rng := rng'\<rparr>) cutAt 0 raw c
        (case map_of (fr_sessions (pl_front p)) c of None \<Rightarrow> crowded srv | Some x \<Rightarrow> facing srv x) = Some (Inr r)
    \<and> sv_client r = oc_client u \<and> sv_backend r = oc_backend u \<and> sv_emitted r = oc_metrics u"
  using served_placed [OF conjunct2 [OF plant_reach_inv [OF assms(1)]] assms(2)]
  unfolding serves_def meets_def by blast

text \<open>C21: A gateway whose \<open>Start\<close> has returned has left nothing behind. Its accept loop ended with
  the error that \<open>Start\<close> returns; every connection the loop handed out was served, its client
  connection and any backend connection closed; the wait group is empty, no connection is
  tracked, every slot is free, the gateway no longer reports that it listens, and the cancel
  registry holds only keys that a session overwrote. This holds whether or not the grace period
  expired first, since \<open>drain\<close> waits for the sessions in both cases. If it returned without an
  error the context had ended, so that its listener is closed or about to be; after an accept error
  the listener stays open until the context ends.\<close>

theorem returned_gateway_leaves_nothing:
  assumes "plant_reach rng cfg srv tie p" and "pl_stage p = Closed e"
  shows "(\<exists>conns waits. acceptLoop 0 (pl_accepts p) = (Returned e, conns, waits)
        \<and> (\<forall>c\<in>set conns. \<exists>u. map_of (pl_served p) c = Some u \<and> c_closed (oc_client u)
             \<and> (\<forall>b. oc_backend u = Some b \<longrightarrow> c_closed b)))
    \<and> sv_sessions (pl_server p) = 0 \<and> (\<forall>c. gomap_get (sv_activeConn (pl_server p)) c = None)
    \<and> (\<forall>ch. sv_slots (pl_server p) = Some ch \<longrightarrow> sl_used ch = 0) \<and> \<not> Listening (pl_server p)
    \<and> (\<forall>k. cancel_lookup (sv_cancels (pl_server p)) k \<noteq> None \<longleftrightarrow> k \<in> set (gw_lost (fr_gateway (pl_front p))))
    \<and> (e = None \<longrightarrow> pl_done p) \<and> (pl_listener p \<or> pl_done p)"
proof -
  have new: "New cfg = Inr srv" and inv: "plant_inv rng cfg srv p" using plant_reach_inv [OF assms(1)] by blast+
  have server: "server_inv cfg (pl_world p)" and zero: "sv_sessions (pl_server p) = 0" "\<not> Listening (pl_server p)"
    and acc: "accepts_ok (Closed e) (pl_accepts p) (fst ` set (pl_conns p))" "e = None \<longrightarrow> pl_done p" "pl_listener p \<or> pl_done p"
    using inv assms(2) by (auto simp: plant_inv_def Listening_def)
  have idle: "w_sessions (pl_world p) = []" using server zero(1) by (rule sessions_zero)
  have "\<exists>conns waits. acceptLoop 0 (pl_accepts p) = (Returned e, conns, waits) \<and> set conns = fst ` set (pl_conns p)"
    using acc(1) by (auto simp: accepts_ok_def)
  then have "\<exists>conns waits. acceptLoop 0 (pl_accepts p) = (Returned e, conns, waits)
      \<and> (\<forall>c\<in>set conns. \<exists>u. map_of (pl_served p) c = Some u \<and> c_closed (oc_client u) \<and> (\<forall>b. oc_backend u = Some b \<longrightarrow> c_closed b))"
    using idle_served [OF new inv idle] by metis
  moreover have "gomap_get (sv_activeConn (pl_server p)) c = None" for c
    using server idle by (cases "gomap_get (sv_activeConn (pl_server p)) c") (simp_all add: server_inv_def)
  moreover have "\<forall>ch. sv_slots (pl_server p) = Some ch \<longrightarrow> sl_used ch = 0"
    using server idle by (auto simp: server_inv_def split: if_splits)
  ultimately show ?thesis using zero acc(2,3) idle_registry [OF inv idle] by blast
qed

section \<open>Witnesses\<close>

text \<open>A client connects before there is a table and is routed by the one published next; then the gateway is shut down.\<close>

abbreviation sample_cfg :: Config where "sample_cfg \<equiv> sv_cfg (sample_server None [])"

abbreviation sample_stop :: accepted where "sample_stop \<equiv> AcceptFailed (Sentinel NetErrClosed) True False False"

abbreviation sample_tie :: "nat \<Rightarrow> peers" where
  "sample_tie \<equiv> \<lambda>c. \<lparr>pe_clientEnds = True, pe_farewell = HangsUp\<rparr>"

definition sample_at ::
    "Server \<Rightarrow> nat \<Rightarrow> nat \<Rightarrow> (nat \<times> unit) list \<Rightarrow> (nat \<times> Server_Loop.phase) list \<Rightarrow> front \<Rightarrow> run_stage
     \<Rightarrow> accepted list \<Rightarrow> (nat \<times> outcome) list \<Rightarrow> plant" where
  "sample_at srv n used act ss f st as us = \<lparr>pl_world = \<lparr>w_server = \<lparr>sv_cfg = sv_cfg srv, sv_cancels = gw_cancels (fr_gateway f),
      sv_slots = Some \<lparr>sl_cap = 2, sl_used = used\<rparr>, sv_listening = True, sv_addr = None, sv_sessions = n, sv_activeConn = act\<rparr>,
      w_sessions = ss\<rparr>, pl_front = f, pl_stage = st, pl_done = (st \<noteq> Open), pl_listener = (st = Open), pl_accepts = as,
      pl_conns = (if as = [] then [] else [(1, sample_env [], plain_client)]), pl_served = us\<rparr>"

abbreviation sample_idle :: front where "sample_idle \<equiv> \<lparr>fr_gateway = sample_gateway, fr_sessions = []\<rparr>"

lemma sample_new:
  "\<exists>srv. New sample_cfg = Inr srv \<and> cfg_TLS (sv_cfg srv) = None
     \<and> plant_reach sample_rng sample_cfg srv tie (sample_at srv 1 0 [] [(1, Spawned)] sample_idle Open [Accepted 1] [])"
proof -
  have "\<exists>srv. New sample_cfg = Inr srv" by (simp add: New_def sample_server_def Let_def)
  then obtain srv where new: "New sample_cfg = Inr srv" by blast
  then have srv: "srv = \<lparr>sv_cfg = sv_cfg srv, sv_cancels = newCancelRegistry, sv_slots = Some \<lparr>sl_cap = 2, sl_used = 0\<rparr>,
      sv_listening = False, sv_addr = None, sv_sessions = 0, sv_activeConn = []\<rparr>" "cfg_TLS (sv_cfg srv) = None"
    by (auto simp: New_def sample_server_def Let_def applyDefaults_def split: if_splits)
  have "startListening None srv = \<lparr>sv_cfg = sv_cfg srv, sv_cancels = newCancelRegistry, sv_slots = Some \<lparr>sl_cap = 2, sl_used = 0\<rparr>,
      sv_listening = True, sv_addr = None, sv_sessions = 0, sv_activeConn = []\<rparr>" by (subst srv(1)) (simp add: startListening_def)
  then have "plant_reach sample_rng sample_cfg srv tie (sample_at srv 0 0 [] [] sample_idle Open [] [])"
    using plant_start [OF new, of sample_rng tie None] by (simp add: sample_at_def)
  then have "plant_reach sample_rng sample_cfg srv tie (sample_at srv 1 0 [] [(1, Spawned)] sample_idle Open [Accepted 1] [])"
    by (rule plant_next)
      (use ps_accept [of "sample_at srv 0 0 [] [] sample_idle Open [] []" 1 sample_rng srv tie "sample_env []" plain_client] in \<open>simp add: sample_at_def\<close>)
  with new srv(2) show ?thesis by blast
qed

text \<open>Steps of the sessions are steps of the gateway if none can be blocked.\<close>

lemma never_blocked: "pe_farewell (tie c) = HangsUp \<Longrightarrow> \<not> blocked rng tie p c"
  by (simp add: blocked_def endComes_def)

lemma plant_moves:
  assumes "(front_move rng srv)\<^sup>*\<^sup>* (pl_front p) f" and "plant_reach rng cfg srv tie p" and "\<And>c. pe_farewell (tie c) = HangsUp"
  shows "plant_reach rng cfg srv tie (p\<lparr>pl_front := f,
    pl_world := (pl_world p)\<lparr>w_server := (pl_server p)\<lparr>sv_cancels := gw_cancels (fr_gateway f)\<rparr>\<rparr>\<rparr>)"
  using assms(1)
proof (induction rule: rtranclp_induct)
  case base
  have "sv_cancels (pl_server p) = gw_cancels (fr_gateway (pl_front p))" using plant_reach_inv [OF assms(2)] plant_invD(5) by blast
  from this [symmetric] show ?case using assms(2) by simp
next
  case (step f f')
  let ?p = "\<lambda>f. p\<lparr>pl_front := f, pl_world := (pl_world p)\<lparr>w_server := (pl_server p)\<lparr>sv_cancels := gw_cancels (fr_gateway f)\<rparr>\<rparr>\<rparr>"
  have "plant_step rng srv tie (?p f) (?p f')" using ps_session [of rng srv "?p f" f' tie] step.hyps(2) never_blocked [OF assms(3)] by simp
  with step.IH show ?case by (rule plant_next)
qed

text \<open>The context ends, the listener is closed and the accept loop returns.\<close>

lemma plant_stopped:
  assumes "plant_reach rng cfg srv tie p" and "pl_stage p = Open"
    and "acceptLoop 0 (pl_accepts p @ [sample_stop]) = (Returned None, conns, waits)"
  shows "plant_reach rng cfg srv tie (p\<lparr>pl_listener := False, pl_stage := Closing None, pl_done := True,
    pl_accepts := pl_accepts p @ [sample_stop]\<rparr>)"
proof -
  note plant_next [OF assms(1) ps_cancel]
  note plant_next [OF this ps_unlisten]
  from plant_next [OF this ps_shut [OF _ refl, where err = "Sentinel NetErrClosed" and timeout = False and interrupted = False]] assms(2,3)
  show ?thesis by simp
qed

lemma sample_plant:
  "\<exists>srv p err client backend ms. New sample_cfg = Inr srv \<and> plant_reach sample_rng sample_cfg srv sample_tie p
     \<and> pl_stage p = Closed None \<and> pl_accepts p = [Accepted 1, sample_stop]
     \<and> map_of (pl_conns p) 1 = Some (sample_env [], plain_client)
     \<and> map_of (fr_sessions (pl_front p)) 1 = Some (sample_visit (Served err client backend ms) (Store_Store (Some sample_table) NewStore))
     \<and> map_of (pl_served p) 1 = Some \<lparr>oc_admitted = True, oc_client = conn_Close client, oc_backend = backend, oc_metrics = ms\<rparr>
     \<and> ConnectionsInc (databaseLabel ''orders'' True) outcomeProxied \<in> set ms"
proof -
  obtain srv where new: "New sample_cfg = Inr srv" "cfg_TLS (sv_cfg srv) = None"
    and "plant_reach sample_rng sample_cfg srv sample_tie (sample_at srv 1 0 [] [(1, Spawned)] sample_idle Open [Accepted 1] [])"
    using sample_new [of sample_tie] by blast
  let ?R = "plant_reach sample_rng sample_cfg srv sample_tie" and ?P = "sample_at srv"
  obtain g err client backend ms where run: "(front_move sample_rng srv)\<^sup>*\<^sup>* (sample_front sample_gateway (sample_visit Arrived NewStore))
      (sample_front g (sample_visit (Served err client backend ms) (gw_store sample_published)))"
    and ms: "ConnectionsInc (databaseLabel ''orders'' True) outcomeProxied \<in> set ms"
    using sample_session [OF new(2)] by blast
  let ?x = "sample_visit (Served err client backend ms) (gw_store sample_published)"
  let ?u = "\<lparr>oc_admitted = True, oc_client = conn_Close client, oc_backend = backend, oc_metrics = ms\<rparr>"
  have "?R (?P 1 1 [(1, ())] [(1, Running True)] (sample_front sample_gateway (sample_visit Arrived NewStore)) Open [Accepted 1] [])"
    by (rule plant_next, fact) (use ps_enter [of "?P 1 0 [] [(1, Spawned)] sample_idle Open [Accepted 1] []" 1 "sample_env []" plain_client _ _ sample_rng srv sample_tie] in
      \<open>simp add: sample_at_def inFront_def serveEnter_def acquireSlot_def track_def gomap_set_def\<close>)
  from plant_moves [OF _ this, of "sample_front g ?x"] run
  have "?R (?P 1 1 [(1, ())] [(1, Running True)] (sample_front g ?x) Open [Accepted 1] [])" by (simp add: sample_at_def)
  then have "?R (?P 1 0 [] [(1, Finishing)] (sample_front g ?x) Open [Accepted 1] [(1, ?u)])"
    by (rule plant_next) (use ps_exit [of "?P 1 1 [(1, ())] [(1, Running True)] (sample_front g ?x) Open [Accepted 1] []" 1
      ?x err client backend ms _ sample_rng srv sample_tie] in \<open>simp add: sample_at_def serveExit_def releaseSlot_def untrack_def gomap_del_def\<close>)
  then have "?R (?P 0 0 [] [] (sample_front g ?x) Open [Accepted 1] [(1, ?u)])"
    by (rule plant_next) (use ps_done [of "?P 1 0 [] [(1, Finishing)] (sample_front g ?x) Open [Accepted 1] [(1, ?u)]"
      1 sample_rng srv sample_tie] in \<open>simp add: sample_at_def\<close>)
  from plant_stopped [OF this] have "?R (?P 0 0 [] [] (sample_front g ?x) (Closing None) [Accepted 1, sample_stop] [(1, ?u)])"
    by (simp add: sample_at_def)
  note last = plant_next [OF this ps_drained [of _ None]]
  show ?thesis
    by (rule exI [of _ srv], rule exI, rule exI [of _ err], rule exI [of _ client], rule exI [of _ backend], rule exI [of _ ms],
        rule conjI, rule new, rule conjI, rule last) (simp_all add: sample_at_def ms)
qed

theorem every_connection_is_served_witness:
  "\<exists>srv p x rng cutAt r. New sample_cfg = Inr srv \<and> plant_reach sample_rng sample_cfg srv sample_tie p
     \<and> fs_store x = Store_Store (Some sample_table) NewStore
     \<and> serve ((sample_env [])\<lparr>ge_rng := rng\<rparr>) cutAt 0 plain_client 1 (facing srv x) = Some (Inr r)
     \<and> ConnectionsInc (databaseLabel ''orders'' True) outcomeProxied \<in> set (sv_emitted r)"
proof -
  obtain srv p err client backend ms where p: "New sample_cfg = Inr srv" "plant_reach sample_rng sample_cfg srv sample_tie p"
    "map_of (pl_conns p) 1 = Some (sample_env [], plain_client)"
    and x: "map_of (fr_sessions (pl_front p)) 1 = Some (sample_visit (Served err client backend ms) (Store_Store (Some sample_table) NewStore))"
    and u: "map_of (pl_served p) 1 = Some \<lparr>oc_admitted = True, oc_client = conn_Close client, oc_backend = backend, oc_metrics = ms\<rparr>"
    and ms: "ConnectionsInc (databaseLabel ''orders'' True) outcomeProxied \<in> set ms"
    using sample_plant by blast
  from every_connection_is_served [OF p(2) u] p(3) x obtain rng cutAt r where
    "serve ((sample_env [])\<lparr>ge_rng := rng\<rparr>) cutAt 0 plain_client 1
       (facing srv (sample_visit (Served err client backend ms) (Store_Store (Some sample_table) NewStore))) = Some (Inr r)"
    "sv_emitted r = ms"
    by auto
  then show ?thesis
    using p(1,2) ms by (intro exI [of _ srv] exI [of _ p] exI [of _ "sample_visit (Served err client backend ms) (Store_Store (Some sample_table) NewStore)"]
      exI [of _ rng] exI [of _ cutAt] exI [of _ r]) simp
qed

theorem returned_gateway_leaves_nothing_witness:
  "\<exists>srv p. New sample_cfg = Inr srv \<and> plant_reach sample_rng sample_cfg srv sample_tie p
     \<and> pl_accepts p = [Accepted 1, sample_stop]
     \<and> map_of (pl_served p) 1 \<noteq> None \<and> sv_sessions (pl_server p) = 0 \<and> \<not> Listening (pl_server p)"
proof -
  obtain srv p where p: "New sample_cfg = Inr srv" "plant_reach sample_rng sample_cfg srv sample_tie p"
    "pl_stage p = Closed None" "pl_accepts p = [Accepted 1, sample_stop]"
    "map_of (pl_served p) 1 \<noteq> None"
    using sample_plant by force
  with returned_gateway_leaves_nothing [OF p(2,3)] show ?thesis by blast
qed

end
