(* ===== verification/Shutdown.thy ===== *)
theory Shutdown
  imports Serving
begin

text \<open>
  When a gateway that has been told to stop comes to an end (\<open>Start\<close> and \<open>drain\<close> of
  \<^verbatim>\<open>src/src/internal/proxy/server.go\<close>, \<open>serve\<close> of \<^verbatim>\<open>session.go\<close>): whichever order its sessions run
  in, they run out of steps, and then \<open>Start\<close> has returned, unless issuing a cancel key
  panics or never returns, a backend keeps its stream open although its input has ended, or one
  waits for a silent client whose connection \<open>drain\<close> did not find in the map of tracked ones.
\<close>

section \<open>Definitions\<close>

text \<open>
  A step of the gateway itself: one that changes something and neither publishes a table nor
  ends the context, which others may do at any time.
\<close>

definition work :: "rand_source \<Rightarrow> Server \<Rightarrow> (nat \<Rightarrow> peers) \<Rightarrow> plant \<Rightarrow> plant \<Rightarrow> bool" where
  "work rng srv tie p p' \<longleftrightarrow> plant_step rng srv tie p p' \<and> p' \<noteq> p \<and> pl_done p' = pl_done p
     \<and> gw_store (fr_gateway (pl_front p')) = gw_store (fr_gateway (pl_front p))"

text \<open>The listener is closed, or the accept loop has returned; the grace period has not expired.\<close>

definition stopping :: "plant \<Rightarrow> bool" where
  "stopping p = (case pl_stage p of Open \<Rightarrow> \<not> pl_listener p | Closing e \<Rightarrow> True | _ \<Rightarrow> False)"

text \<open>The relay of a session cannot go on: the next key is not issued.\<close>

definition keyless :: "rand_source \<Rightarrow> plant \<Rightarrow> nat \<Rightarrow> bool" where
  "keyless rng p c \<longleftrightarrow> (\<exists>l s. map_of (gw_sessions (fr_gateway (pl_front p))) c = Some l \<and> rl_stage l = Relaying s
     \<and> (case relayTurn rng (rl_route l) (rl_label l) (attend (fr_gateway (pl_front p)) s) of
          Panicked panic \<Rightarrow> True | Diverged \<Rightarrow> True | _ \<Rightarrow> False))"

text \<open>How far a session is from its end, in steps other than passes of its framing loop.\<close>

fun phase_left :: "session_phase \<Rightarrow> relaying option \<Rightarrow> nat" where
  "phase_left Arrived l = 7"
| "phase_left (Negotiated _ _) l = 6"
| "phase_left (Found _ _ _ _) l = 5"
| "phase_left (Proxying _ _ _ _ _) l = (case l of Some l' \<Rightarrow> (case rl_stage l' of Relaying s \<Rightarrow> 4 | Finished e s \<Rightarrow> 3) | None \<Rightarrow> 3)"
| "phase_left (Served _ _ _ _) l = 2"

fun left :: "Server_Loop.phase option \<Rightarrow> front_session option \<Rightarrow> relaying option \<Rightarrow> nat" where
  "left None x l = 0"
| "left (Some Spawned) x l = 8"
| "left (Some (Running ok)) None l = 2"
| "left (Some (Running ok)) (Some y) l = phase_left (fs_phase y) l"
| "left (Some Finishing) x l = 1"

fun stage_left :: "run_stage \<Rightarrow> nat" where
  "stage_left Open = 3"
| "stage_left (Closing e) = 2"
| "stage_left (Forced e cs) = 1"
| "stage_left (Closed e) = 0"

text \<open>What the backend still has to say to a relay that is framing.\<close>

definition unread :: "relaying option \<Rightarrow> nat" where
  "unread l = (case l of Some l' \<Rightarrow> (case rl_stage l' of Relaying s \<Rightarrow> length (si_data (mr_r (rs_reader s))) | Finished e s \<Rightarrow> 0) | None \<Rightarrow> 0)"

abbreviation pl_relay :: "plant \<Rightarrow> nat \<Rightarrow> relaying option" where
  "pl_relay p \<equiv> map_of (gw_sessions (fr_gateway (pl_front p)))"

abbreviation goroutines :: "plant \<Rightarrow> nat set" where
  "goroutines p \<equiv> fst ` set (w_sessions (pl_world p))"

definition plant_left :: "plant \<Rightarrow> nat \<times> nat" where
  "plant_left p =
     (stage_left (pl_stage p) + of_bool (pl_listener p) + (\<Sum>c\<in>goroutines p. left (pl_goroutine p c) (map_of (fr_sessions (pl_front p)) c) (pl_relay p c)),
      \<Sum>c\<in>goroutines p. unread (pl_relay p c))"

abbreviation nearer :: "((nat \<times> nat) \<times> nat \<times> nat) set" where
  "nearer \<equiv> less_than <*lex*> less_than"

section \<open>Every step brings the end nearer\<close>

lemma sum_lowered:
  assumes "finite A" and "c \<in> A" and "f c < (g c :: nat)" and "\<And>x. x \<noteq> c \<Longrightarrow> f x = g x"
  shows "sum f A < sum g A"
proof (rule sum_strict_mono_ex1)
  show "\<forall>x\<in>A. f x \<le> g x" using assms(3,4) by (metis less_imp_le order_refl)
qed (use assms in auto)

text \<open>One session moves, the others and the server's stage stay.\<close>

lemma moved_nearer:
  assumes "goroutines p' = goroutines p" and "pl_stage p' = pl_stage p \<and> pl_listener p' = pl_listener p" and "c \<in> goroutines p"
    and "left (pl_goroutine p' c) (map_of (fr_sessions (pl_front p')) c) (pl_relay p' c)
       < left (pl_goroutine p c) (map_of (fr_sessions (pl_front p)) c) (pl_relay p c)"
    and "\<And>c'. c' \<noteq> c \<Longrightarrow> pl_goroutine p' c' = pl_goroutine p c' \<and> map_of (fr_sessions (pl_front p')) c' = map_of (fr_sessions (pl_front p)) c'
       \<and> pl_relay p' c' = pl_relay p c'"
  shows "(plant_left p', plant_left p) \<in> nearer"
  using sum_lowered [OF _ assms(3), where f = "\<lambda>c. left (pl_goroutine p' c) (map_of (fr_sessions (pl_front p')) c) (pl_relay p' c)"
      and g = "\<lambda>c. left (pl_goroutine p c) (map_of (fr_sessions (pl_front p)) c) (pl_relay p c)"] assms
  by (simp add: plant_left_def)

lemma read_nearer:
  assumes "goroutines p' = goroutines p" and "pl_stage p' = pl_stage p \<and> pl_listener p' = pl_listener p" and "c \<in> goroutines p"
    and "pl_goroutine p' = pl_goroutine p" and "map_of (fr_sessions (pl_front p')) = map_of (fr_sessions (pl_front p))"
    and "\<And>ph. phase_left ph (pl_relay p' c) = phase_left ph (pl_relay p c)"
    and "unread (pl_relay p' c) < unread (pl_relay p c)" and "\<And>c'. c' \<noteq> c \<Longrightarrow> pl_relay p' c' = pl_relay p c'"
  shows "(plant_left p', plant_left p) \<in> nearer"
proof -
  have "left g x (pl_relay p' c') = left g x (pl_relay p c')" for g x c'
    using assms(6,8) by (cases "c' = c"; cases "(g, x, pl_relay p c')" rule: left.cases) simp_all
  then show ?thesis
    using sum_lowered [OF _ assms(3), where f = "\<lambda>c. unread (pl_relay p' c)" and g = "\<lambda>c. unread (pl_relay p c)"] assms
    by (simp add: plant_left_def)
qed

text \<open>A session that has not ended has a goroutine with a slot.\<close>

lemma unserved_running:
  assumes "plant_inv rng cfg srv p" and "map_of (fr_sessions (pl_front p)) c = Some x" and "\<not> served_phase (fs_phase x)"
  shows "pl_goroutine p c = Some (Running True)" "c \<in> goroutines p"
proof -
  have "pl_placed srv p c" using assms(1) by (simp add: plant_inv_def)
  with assms(2,3) show g: "pl_goroutine p c = Some (Running True)"
    by (cases "map_of (pl_conns p) c"; cases "pl_goroutine p c"; cases "the (pl_goroutine p c)") (auto simp: placed_def)
  show "c \<in> goroutines p" using map_of_SomeD [OF g] by force
qed

lemma relay_running:
  assumes inv: "plant_inv rng cfg srv p" and relay: "pl_relay p c = Some l"
  shows "\<exists>x. map_of (fr_sessions (pl_front p)) c = Some x \<and> relaying_phase (fs_phase x)
    \<and> pl_goroutine p c = Some (Running True) \<and> c \<in> goroutines p"
proof -
  obtain x where x: "map_of (fr_sessions (pl_front p)) c = Some x" "relaying_phase (fs_phase x)"
    using relay_phase [OF plant_invD(2) [OF inv] relay] by blast
  then have "\<not> served_phase (fs_phase x)" by (cases "fs_phase x") simp_all
  with x unserved_running [OF inv] show ?thesis by blast
qed

lemma Turning_consumes:
  assumes "relayTurn rng route label s = Turning s1"
  shows "length (si_data (mr_r (rs_reader s1))) < length (si_data (mr_r (rs_reader s)))"
  using assms by (rule Turning_cases) (auto dest: Next_consumes)

abbreviation pl_moved :: "plant \<Rightarrow> front \<Rightarrow> plant" where
  "pl_moved p f \<equiv> p\<lparr>pl_front := f,
     pl_world := (pl_world p)\<lparr>w_server := (pl_server p)\<lparr>sv_cancels := gw_cancels (fr_gateway f)\<rparr>\<rparr>\<rparr>"

lemma own_step_nearer:
  assumes inv: "plant_inv rng cfg srv p" and x: "map_of (fr_sessions (pl_front p)) c = Some x" "\<not> served_phase (fs_phase x)"
    and less: "phase_left (fs_phase y) (map_of (gw_sessions g) c) < phase_left (fs_phase x) (pl_relay p c)"
    and other: "\<And>c'. c' \<noteq> c \<Longrightarrow> map_of (gw_sessions g) c' = pl_relay p c'"
  shows "(plant_left (pl_moved p ((pl_front p)\<lparr>fr_gateway := g, fr_sessions := AList.update c y (fr_sessions (pl_front p))\<rparr>)), plant_left p) \<in> nearer"
  using less other unserved_running [OF inv x] x(1) by (intro moved_nearer [where c = c]) (simp_all add: update_conv')

lemma inner_step_nearer:
  assumes inv: "plant_inv rng cfg srv p" and st: "gateway_step rng (fr_gateway (pl_front p)) g"
    and keys: "fst ` set (gw_sessions g) = fst ` set (gw_sessions (fr_gateway (pl_front p)))"
    and store: "gw_store g = gw_store (fr_gateway (pl_front p))" and ne: "g \<noteq> fr_gateway (pl_front p)"
  shows "(plant_left (pl_moved p ((pl_front p)\<lparr>fr_gateway := g\<rparr>)), plant_left p) \<in> nearer"
proof -
  let ?p = "pl_moved p ((pl_front p)\<lparr>fr_gateway := g\<rparr>)"
  note run = relay_running [OF inv]
  from st show ?thesis
  proof cases
    case (gs_publish sn)
    with store have "g = fr_gateway (pl_front p)" by simp
    with ne show ?thesis by simp
  next
    case (gs_begin c route label client backend)
    with keys show ?thesis by auto
  next
    case (gs_turn c l s s1)
    have "pl_relay ?p = (pl_relay p)(c \<mapsto> l\<lparr>rl_stage := Relaying s1\<rparr>)" by (simp add: gs_turn(1))
    moreover have "phase_left ph (Some (l\<lparr>rl_stage := Relaying s1\<rparr>)) = phase_left ph (Some l)" for ph
      using gs_turn(3) by (cases ph) simp_all
    moreover have "unread (Some (l\<lparr>rl_stage := Relaying s1\<rparr>)) < unread (Some l)"
      using Turning_consumes [OF gs_turn(4)] gs_turn(3) by (simp add: unread_def attend_def)
    ultimately show ?thesis using run [OF gs_turn(2)] gs_turn(2) by (intro read_nearer [where c = c]) auto
  next
    case (gs_end c l s err s1)
    obtain x where x: "map_of (fr_sessions (pl_front p)) c = Some x" "relaying_phase (fs_phase x)"
      "pl_goroutine p c = Some (Running True)" "c \<in> goroutines p"
      using run [OF gs_end(2)] by blast
    have "pl_relay ?p = (pl_relay p)(c \<mapsto> l\<lparr>rl_stage := Finished err s1\<rparr>)" by (simp add: gs_end(1))
    moreover have "phase_left (fs_phase x) (Some (l\<lparr>rl_stage := Finished err s1\<rparr>)) < phase_left (fs_phase x) (Some l)"
      using gs_end(3) x(2) by (cases "fs_phase x") simp_all
    ultimately show ?thesis using x gs_end(2) by (intro moved_nearer [where c = c]) simp_all
  next
    case (gs_release c l err s)
    then have "c \<in> fst ` set (gw_sessions (fr_gateway (pl_front p)))" "c \<notin> fst ` set (gw_sessions g)"
      by (auto simp: delete_conv' map_of_eq_None_iff [symmetric] dest: map_of_SomeD intro: rev_image_eqI)
    with keys show ?thesis by simp
  qed
qed

lemma session_step_nearer:
  assumes inv: "plant_inv rng cfg srv p" and st: "front_step rng srv (pl_front p) f"
    and keys: "fst ` set (fr_sessions f) = fst ` set (fr_sessions (pl_front p))"
    and store: "gw_store (fr_gateway f) = gw_store (fr_gateway (pl_front p))" and ne: "f \<noteq> pl_front p"
  shows "(plant_left (pl_moved p f), plant_left p) \<in> nearer"
proof -
  have own: "(plant_left (pl_moved p ((pl_front p)\<lparr>fr_sessions := AList.update c y (fr_sessions (pl_front p))\<rparr>)), plant_left p) \<in> nearer"
    if "map_of (fr_sessions (pl_front p)) c = Some x" "\<not> served_phase (fs_phase x)"
      "phase_left (fs_phase y) (pl_relay p c) < phase_left (fs_phase x) (pl_relay p c)" for c x y
    using own_step_nearer [OF inv that(1,2), of y "fr_gateway (pl_front p)"] that(3) by simp
  from st show ?thesis
  proof cases
    case (fr_accept c env raw)
    with keys show ?thesis by (simp add: dom_update) blast
  next
    case (fr_negotiate c x)
    then show ?thesis
      using opened_phase [of "fs_env x" srv "fs_raw x"] unfolding fr_negotiate(1) by (intro own [OF fr_negotiate(2)]) auto
  next
    case (fr_look c x client startup ph)
    then show ?thesis using looked_phase [OF fr_look(4)] unfolding fr_look(1) by (intro own [OF fr_look(2)]) auto
  next
    case (fr_refused c x client startup database route err client' backend ms)
    then show ?thesis unfolding fr_refused(1) by (intro own [OF fr_refused(2)]) simp_all
  next
    case (fr_begin c x client startup database route client' backend ms)
    then show ?thesis unfolding fr_begin(1) by (intro own_step_nearer [OF inv fr_begin(2)]) simp_all
  next
    case (fr_inner g)
    have "g \<noteq> fr_gateway (pl_front p)" using ne fr_inner(1) by auto
    with fr_inner store inner_step_nearer [OF inv fr_inner(2,3)] show ?thesis by simp
  next
    case (fr_end c x database route client backend ms l err s cutAt)
    then show ?thesis
      using ended_phase [of cutAt database client backend ms err s]
      unfolding fr_end(1) by (intro own_step_nearer [OF inv fr_end(2)]) (auto simp: delete_conv')
  qed
qed

lemma done_nearer:
  assumes "pl_goroutine p c = Some Finishing"
  shows "(plant_left (p\<lparr>pl_world := (pl_world p)\<lparr>w_server := s, w_sessions := AList.delete c (w_sessions (pl_world p))\<rparr>\<rparr>), plant_left p) \<in> nearer"
proof -
  let ?p = "p\<lparr>pl_world := (pl_world p)\<lparr>w_server := s, w_sessions := AList.delete c (w_sessions (pl_world p))\<rparr>\<rparr>"
  let ?l = "\<lambda>p c. left (pl_goroutine p c) (map_of (fr_sessions (pl_front p)) c) (pl_relay p c)"
  have c: "c \<in> goroutines p" using map_of_SomeD [OF assms] by force
  have "goroutines ?p = goroutines p - {c}" by (simp flip: set_map add: delete_keys)
  moreover have "(\<Sum>c\<in>goroutines p - {c}. ?l ?p c) = (\<Sum>c\<in>goroutines p - {c}. ?l p c)"
    by (rule sum.cong) (auto simp: delete_conv')
  moreover have "(\<Sum>c\<in>goroutines p. ?l p c) = 1 + (\<Sum>c\<in>goroutines p - {c}. ?l p c)"
    using sum.remove [OF _ c, of "?l p"] assms by simp
  ultimately show ?thesis by (simp add: plant_left_def)
qed

lemma plant_step_nearer:
  assumes st: "plant_step rng srv tie p p'" and inv: "plant_inv rng cfg srv p" and shut: "pl_stage p \<noteq> Open \<or> \<not> pl_listener p"
    and store: "gw_store (fr_gateway (pl_front p')) = gw_store (fr_gateway (pl_front p))" and ne: "p' \<noteq> p"
    and same: "pl_done p' = pl_done p"
  shows "(plant_left p', plant_left p) \<in> nearer"
proof -
  have member: "c \<in> goroutines p" if "pl_goroutine p c = Some g" for c g using map_of_SomeD [OF that] by force
  have keys: "fst ` set (AList.update c v (w_sessions (pl_world p))) = goroutines p" if "pl_goroutine p c = Some g" for c v g
    using member [OF that] by (simp add: dom_update insert_absorb)
  from st show ?thesis
  proof cases
    case ps_cancel
    then have "p' = p" using same by simp
    with ne show ?thesis by simp
  next
    case ps_unlisten
    then have "pl_listener p" using ne by (cases p) auto
    then show ?thesis by (simp add: ps_unlisten(1) plant_left_def)
  next
    case (ps_retry err)
    then show ?thesis using shut inv by (auto simp: plant_inv_def)
  next
    case (ps_enter c env raw ok s)
    then show ?thesis
      unfolding ps_enter(1) using member [OF ps_enter(2)] keys [OF ps_enter(2)] spec [OF plant_invD(3) [OF inv], of c]
      by (intro moved_nearer [where c = c]) (auto simp: update_conv' inFront_def placed_def)
  next
    case (ps_session f)
    have "f \<noteq> pl_front p" using ne ps_session(1) plant_invD(5) [OF inv] by auto
    with session_step_nearer [OF inv ps_session(2,3)] store show ?thesis by (simp add: ps_session(1))
  next
    case (ps_reject c env raw s)
    then show ?thesis
      unfolding ps_reject(1) using member [OF ps_reject(2)] keys [OF ps_reject(2)] spec [OF plant_invD(3) [OF inv], of c]
      by (intro moved_nearer [where c = c]) (auto simp: update_conv' placed_def)
  next
    case (ps_exit c x err client backend ms s)
    then show ?thesis
      unfolding ps_exit(1) using member [OF ps_exit(2)] keys [OF ps_exit(2)]
      by (intro moved_nearer [where c = c]) (auto simp: update_conv')
  next
    case (ps_done c)
    show ?thesis unfolding ps_done(1) by (rule done_nearer [OF ps_done(2)])
  qed (use shut in \<open>simp_all add: plant_left_def\<close>)
qed

text \<open>Once shut, a gateway does not open again.\<close>

lemma stays_shut:
  "plant_step rng srv tie p p' \<Longrightarrow> pl_stage p \<noteq> Open \<or> \<not> pl_listener p \<Longrightarrow> pl_stage p' \<noteq> Open \<or> \<not> pl_listener p'"
  by (erule plant_step.cases) auto

definition shutting :: "rand_source \<Rightarrow> Config \<Rightarrow> Server \<Rightarrow> (nat \<Rightarrow> peers) \<Rightarrow> plant \<Rightarrow> bool" where
  "shutting rng cfg srv tie p \<longleftrightarrow> plant_reach rng cfg srv tie p \<and> (pl_stage p \<noteq> Open \<or> \<not> pl_listener p)"

lemma shutting_work: "shutting rng cfg srv tie p \<Longrightarrow> work rng srv tie p p' \<Longrightarrow> shutting rng cfg srv tie p'"
  unfolding shutting_def work_def using plant_next stays_shut by blast

interpretation winding: guarded_steps "shutting rng cfg srv tie" "work rng srv tie" plant_left nearer for rng cfg srv tie
proof unfold_locales
  show "wf nearer" by auto
  show "shutting rng cfg srv tie p'" if "shutting rng cfg srv tie p" "work rng srv tie p p'" for p p'
    using that by (rule shutting_work)
  show "(plant_left p', plant_left p) \<in> nearer" if "shutting rng cfg srv tie p" "work rng srv tie p p'" for p p'
    using that plant_reach_inv plant_step_nearer unfolding shutting_def work_def by blast
qed

section \<open>There is always a step to take\<close>

lemma gateway_store: "gateway_reach rng g \<Longrightarrow> Store_Routes (gw_store g) \<noteq> None"
proof (induction rule: gateway_reach.induct)
  case gateway_new
  show ?case by (simp add: Store_Routes_def NewStore_def)
next
  case (gateway_next g g')
  from gateway_next(2) gateway_next.IH show ?case
    by cases (auto simp: Store_Routes_def Store_Store_def Let_def split: option.split)
qed

lemma looked_some: "Store_Routes store \<noteq> None \<Longrightarrow> \<exists>ph. looked env cs store client startup = Some ph"
  by (auto simp: looked_def split: prod.split option.split)

lemma dialled_phase:
  "(\<exists>err client' backend ms. dialled env client startup database route = Served err client' backend ms)
   \<or> (\<exists>client' backend ms. dialled env client startup database route = Proxying database route client' backend ms)"
  by (auto simp: dialled_def Let_def split: prod.splits option.splits sum.splits)

text \<open>A step that leaves the relays in \<open>B\<close> alone.\<close>

definition moves :: "rand_source \<Rightarrow> Server \<Rightarrow> (nat \<Rightarrow> bool) \<Rightarrow> front \<Rightarrow> bool" where
  "moves rng srv B f \<longleftrightarrow> (\<exists>f'. front_step rng srv f f' \<and> fst ` set (fr_sessions f') = fst ` set (fr_sessions f)
     \<and> gw_store (fr_gateway f') = gw_store (fr_gateway f) \<and> f' \<noteq> f
     \<and> (\<forall>c. B c \<longrightarrow> map_of (gw_sessions (fr_gateway f')) c = map_of (gw_sessions (fr_gateway f)) c))"

lemma own_moves:
  assumes "map_of (fr_sessions f) c = Some x" and "fs_phase y \<noteq> fs_phase x" and "gw_store g = gw_store (fr_gateway f)"
    and "front_step rng srv f (f\<lparr>fr_gateway := g, fr_sessions := AList.update c y (fr_sessions f)\<rparr>)"
    and "\<And>c'. B c' \<Longrightarrow> map_of (gw_sessions g) c' = map_of (gw_sessions (fr_gateway f)) c'"
  shows "moves rng srv B f"
proof -
  let ?f = "f\<lparr>fr_gateway := g, fr_sessions := AList.update c y (fr_sessions f)\<rparr>"
  have "c \<in> fst ` set (fr_sessions f)" using map_of_SomeD [OF assms(1)] by force
  then have "fst ` set (fr_sessions ?f) = fst ` set (fr_sessions f)" by (simp add: dom_update insert_absorb)
  moreover have "map_of (fr_sessions ?f) c \<noteq> map_of (fr_sessions f) c" using assms(1,2) by (auto simp: update_conv')
  then have "?f \<noteq> f" by metis
  ultimately show ?thesis using assms(3-5) unfolding moves_def by (intro exI [of _ ?f]) simp
qed

lemma relay_moves:
  assumes "map_of (gw_sessions (fr_gateway f)) c = Some l" and "rl_stage l = Relaying s"
    and "relayTurn rng (rl_route l) (rl_label l) (attend (fr_gateway f) s) = Turning s1 \<and> st = Relaying s1
      \<or> relayTurn rng (rl_route l) (rl_label l) (attend (fr_gateway f) s) = Ended err s1 \<and> st = Finished err s1"
    and "\<not> B c"
  shows "moves rng srv B f"
proof -
  let ?g = "advance c l st (fr_gateway f)"
  have "gateway_step rng (fr_gateway f) ?g" using assms(1-3) gs_turn gs_end by metis
  moreover have "c \<in> fst ` set (gw_sessions (fr_gateway f))" using map_of_SomeD [OF assms(1)] by force
  then have "fst ` set (gw_sessions ?g) = fst ` set (gw_sessions (fr_gateway f))"
    by (simp add: advance_def dom_update insert_absorb)
  ultimately have "front_step rng srv f (f\<lparr>fr_gateway := ?g\<rparr>)" by (rule fr_inner)
  moreover have "rl_stage l \<noteq> st" using assms(2,3) Turning_consumes [of rng "rl_route l" "rl_label l" "attend (fr_gateway f) s" s1]
    by (auto simp: attend_def)
  then have "map_of (gw_sessions ?g) c \<noteq> map_of (gw_sessions (fr_gateway f)) c" using assms(1) by (auto dest: arg_cong [of _ _ rl_stage])
  then have "f\<lparr>fr_gateway := ?g\<rparr> \<noteq> f" by (metis front.select_convs(1) front.surjective front.update_convs(1))
  moreover have "map_of (gw_sessions ?g) c' = map_of (gw_sessions (fr_gateway f)) c'" if "B c'" for c'
    using assms(4) that by (auto simp: advance_def update_conv')
  ultimately show ?thesis unfolding moves_def by (intro exI [of _ "f\<lparr>fr_gateway := ?g\<rparr>"]) simp
qed

lemma session_moves:
  assumes inv: "plant_inv rng cfg srv p" and x: "map_of (fr_sessions (pl_front p)) c = Some x" "\<not> served_phase (fs_phase x)"
    and key: "\<not> keyless rng p c" "\<not> blocked rng tie p c"
  shows "moves rng srv (blocked rng tie p) (pl_front p)"
proof -
  let ?F = "pl_front p" and ?G = "fr_gateway (pl_front p)"
  note reach = plant_invD(2) [OF inv]
  have ok: "gateway_reach rng ?G" "front_inv (fs_env x) srv ?G c x" using front_reach_ok [OF reach] x(1) by (simp_all add: front_ok_def)
  let ?M = "moves rng srv (blocked rng tie p)"
  have own: "?M ?F" if "fs_phase y \<noteq> fs_phase x" "front_step rng srv ?F (?F\<lparr>fr_sessions := AList.update c y (fr_sessions ?F)\<rparr>)" for y
    using own_moves [OF x(1) that(1), of ?G] that(2) by simp
  show ?thesis
  proof (cases "fs_phase x")
    case Arrived
    with opened_phase [of "fs_env x" srv "fs_raw x"] show ?thesis by (intro own [OF _ fr_negotiate [OF x(1)]]) auto
  next
    case (Negotiated client startup)
    obtain ph where ph: "looked (fs_env x) (gw_cancels ?G) (gw_store ?G) client startup = Some ph"
      using looked_some [OF gateway_store [OF ok(1)]] by blast
    with Negotiated looked_phase [OF ph] show ?thesis by (intro own [OF _ fr_look [OF x(1) Negotiated ph]]) auto
  next
    case (Found client startup database route)
    have "c \<notin> fst ` set (gw_sessions ?G)"
      using relay_phase [OF reach, of c] x(1) Found by (cases "pl_relay p c") (auto simp: map_of_eq_None_iff)
    note starts = fr_begin [OF x(1) Found _ this]
    from dialled_phase [of "fs_env x" client startup database route] consider
        (refused) err client' backend ms where "dialled (fs_env x) client startup database route = Served err client' backend ms"
      | (begun) client' backend ms where "dialled (fs_env x) client startup database route = Proxying database route client' backend ms"
      by blast
    then show ?thesis
    proof cases
      case refused
      with own [OF _ fr_refused [OF x(1) Found refused]] Found show ?thesis by simp
    next
      case begun
      then show ?thesis by (intro own_moves [OF x(1) _ _ starts [OF begun]]) (use Found key(2) in auto)
    qed
  next
    case (Proxying database route client backend ms)
    then obtain l where l: "pl_relay p c = Some l" using ok(2) by (auto simp: front_inv_def relays_def)
    show ?thesis
    proof (cases "rl_stage l")
      case (Relaying s)
      then show ?thesis
        using key relay_moves [OF l Relaying] l
        by (cases "relayTurn rng (rl_route l) (rl_label l) (attend ?G s)") (auto simp: keyless_def)
    next
      case (Finished err s)
      obtain e client' b ms' where "ended None database client backend ms err s = Served e client' b ms'" using ended_phase by blast
      with Proxying show ?thesis by (intro own_moves [OF x(1) _ _ fr_end [OF x(1) Proxying l Finished, where cutAt = None]])
        (use key(2) in \<open>auto simp: delete_conv'\<close>)
    qed
  qed (use x(2) in simp)
qed

lemma moves_works:
  assumes "moves rng srv (blocked rng tie p) (pl_front p)"
  shows "\<exists>p'. work rng srv tie p p'"
proof -
  obtain f where f: "front_step rng srv (pl_front p) f" "fst ` set (fr_sessions f) = fst ` set (fr_sessions (pl_front p))"
    "gw_store (fr_gateway f) = gw_store (fr_gateway (pl_front p))" "f \<noteq> pl_front p"
    "\<And>c. blocked rng tie p c \<Longrightarrow> map_of (gw_sessions (fr_gateway f)) c = pl_relay p c"
    using assms unfolding moves_def by blast
  have "pl_moved p f \<noteq> p" using f(4) by (auto dest: arg_cong [of _ _ pl_front])
  with ps_session [OF f(1,2,5)] f(3) show ?thesis unfolding work_def by (intro exI [of _ "pl_moved p f"]) simp
qed

lemma goroutine_moved:
  assumes "plant_step rng srv tie p p'" and "pl_goroutine p' c \<noteq> pl_goroutine p c" and "pl_done p' = pl_done p"
    and "gw_store (fr_gateway (pl_front p')) = gw_store (fr_gateway (pl_front p))"
  shows "\<exists>p'. work rng srv tie p p'"
  using assms unfolding work_def by metis

lemma stage_moved:
  assumes "plant_step rng srv tie p p'" and "pl_stage p' \<noteq> pl_stage p" and "pl_done p' = pl_done p"
    and "gw_store (fr_gateway (pl_front p')) = gw_store (fr_gateway (pl_front p))"
  shows "\<exists>p'. work rng srv tie p p'"
  using assms unfolding work_def by metis

text \<open>A goroutine can go on unless its key is not issued or it is blocked, and with none left the drain ends.\<close>

lemma goroutine_works:
  assumes inv: "plant_inv rng cfg srv p" and g: "pl_goroutine p c = Some ph" and key: "\<not> keyless rng p c" "\<not> blocked rng tie p c"
  shows "\<exists>p'. work rng srv tie p p'"
proof -
  have at: "pl_placed srv p c" using inv by (simp add: plant_inv_def)
  obtain env raw where cn: "map_of (pl_conns p) c = Some (env, raw)"
    using at g by (cases "map_of (pl_conns p) c") (auto simp: placed_def)
  note exit = exit_not_blocked [OF plant_invD(1) [OF inv]]
  show ?thesis
  proof (cases ph)
    case Spawned
    obtain ok s where "serveEnter c (pl_server p) = (ok, s)" by fastforce
    note st = ps_enter [OF _ cn this]
    show ?thesis by (rule goroutine_moved [OF st, where c = c]) (use g Spawned in \<open>simp_all add: update_conv' inFront_def\<close>)
  next
    case Finishing
    show ?thesis by (rule goroutine_moved [OF ps_done [of p c], where c = c]) (use g Finishing in \<open>simp_all add: delete_conv'\<close>)
  next
    case (Running ok)
    with exit [of c ok] g obtain s where s: "serveExit c ok (pl_server p) = Some s" by blast
    show ?thesis
    proof (cases ok)
      case False
      show ?thesis
        by (rule goroutine_moved [OF ps_reject [OF _ cn, of s], where c = c]) (use False s g Running in \<open>simp_all add: update_conv'\<close>)
    next
      case True
      then obtain x where x: "map_of (fr_sessions (pl_front p)) c = Some x" using at g cn Running by (auto simp: placed_def)
      show ?thesis
      proof (cases "fs_phase x")
        case (Served err client backend ms)
        show ?thesis
          by (rule goroutine_moved [OF ps_exit [OF _ x Served, of s], where c = c]) (use True s g Running in \<open>simp_all add: update_conv'\<close>)
      qed (use session_moves [OF inv x _ key] moves_works in auto)
    qed
  qed
qed

lemma idle_works:
  assumes inv: "plant_inv rng cfg srv p" and "pl_stage p \<noteq> Open" and "\<And>e. pl_stage p \<noteq> Closed e" and "w_sessions (pl_world p) = []"
  shows "\<exists>p'. work rng srv tie p p'"
proof -
  have zero: "sv_sessions (pl_server p) = 0" using plant_invD(1) [OF inv] assms(4) by (simp add: server_inv_def)
  consider e where "pl_stage p = Closing e" | e cs where "pl_stage p = Forced e cs" using assms(2,3) by (cases "pl_stage p") auto
  then obtain e where st: "plant_step rng srv tie p (p\<lparr>pl_stage := Closed e,
      pl_world := (pl_world p)\<lparr>w_server := (pl_server p)\<lparr>sv_listening := False\<rparr>\<rparr>\<rparr>)" (is "plant_step rng srv tie p (?p e)")
    using ps_drained [of p] ps_waited [of p] zero by metis
  from stage_moved [OF st] assms(3) [of e] show ?thesis by simp
qed

text \<open>With the listener closed \<open>Accept\<close> fails and the loop returns.\<close>

lemma unlistened_works:
  assumes inv: "plant_inv rng cfg srv p" and "pl_stage p = Open" and "\<not> pl_listener p"
  shows "\<exists>p'. work rng srv tie p p'"
proof -
  let ?a = "AcceptFailed (Sentinel NetErrClosed) (pl_done p) False False"
  have ctx: "pl_done p" using inv assms(3) by (simp add: plant_inv_def)
  obtain waits where "acceptLoop 0 (pl_accepts p @ [?a]) = (Returned None, connections (pl_accepts p), waits)"
    using acceptLoop_append [of "pl_accepts p" ?a 0] plant_invD(4) [OF inv] assms(2) ctx by (fastforce simp: accepts_ok_def)
  from stage_moved [OF ps_shut [OF assms(2) refl this]] ctx assms(2) show ?thesis by simp
qed

lemma shutdown_works:
  assumes "shutting rng cfg srv tie p" and "\<And>e. pl_stage p \<noteq> Closed e" and "\<And>c. \<not> keyless rng p c \<and> \<not> blocked rng tie p c"
  shows "\<exists>p'. work rng srv tie p p'"
proof -
  have inv: "plant_inv rng cfg srv p" using assms(1) plant_reach_inv unfolding shutting_def by blast
  show ?thesis
  proof (cases "w_sessions (pl_world p)")
    case Nil
    with idle_works [OF inv _ assms(2)] unlistened_works [OF inv] assms(1) show ?thesis unfolding shutting_def by blast
  next
    case (Cons a ss)
    then have "pl_goroutine p (fst a) = Some (snd a)" by simp
    with goroutine_works [OF inv] assms(3) show ?thesis by blast
  qed
qed

lemma expiry_works:
  assumes "pl_stage p = Closing e"
  shows "\<exists>p'. work rng srv tie p p'"
  using stage_moved [OF ps_expire [OF assms]] assms by simp

section \<open>Which connections the expiry closes\<close>

text \<open>
  \<open>found p p'\<close>: of the goroutines that had begun to serve in \<open>p\<close>, those still at it in \<open>p'\<close>
  after the expiry are among those whose connections \<open>drain\<close> closed.
\<close>

definition found :: "plant \<Rightarrow> plant \<Rightarrow> bool" where
  "found p p' \<longleftrightarrow> (\<forall>c. pl_goroutine p c \<noteq> Some Spawned \<longrightarrow> pl_goroutine p' c \<noteq> Some Spawned
     \<and> (\<forall>e cs ok. pl_stage p' = Forced e cs \<longrightarrow> pl_goroutine p' c = Some (Running ok) \<longrightarrow> c \<in> set cs))"

lemma tracked_closed:
  assumes "plant_inv rng cfg srv p" and "pl_goroutine p c = Some (Running ok)"
  shows "c \<in> set (map fst (sv_activeConn (pl_server p)))"
proof -
  have "gomap_get (sv_activeConn (pl_server p)) c \<noteq> None"
    using plant_invD(1) [OF assms(1)] assms(2) by (auto simp: server_inv_def tracked_def)
  then show ?thesis by (auto dest!: map_of_SomeD intro: rev_image_eqI)
qed

lemma found_step:
  assumes "plant_step rng srv tie p1 p2" and inv: "plant_inv rng cfg srv p1" and shut: "pl_stage p1 \<noteq> Open \<or> \<not> pl_listener p1"
    and f: "found p p1"
  shows "found p p2"
  using assms(1)
proof cases
  case (ps_expire e)
  with f tracked_closed [OF inv] show ?thesis by (auto simp: found_def)
qed (use f shut in \<open>auto simp: found_def update_conv' delete_conv' split: if_splits\<close>)

lemma found_run:
  assumes "(work rng srv tie)\<^sup>*\<^sup>* p p'" and "shutting rng cfg srv tie p" and "stopping p"
  shows "found p p'"
  using assms(1)
proof (induction rule: rtranclp_induct)
  case base
  show ?case using assms(3) by (auto simp: found_def stopping_def)
next
  case (step p1 p2)
  have "shutting rng cfg srv tie p1" using winding.kept_by_moves [OF step.hyps(1) assms(2)] .
  with step found_step show ?case unfolding shutting_def work_def using plant_reach_inv by blast
qed

section \<open>Properties\<close>

text \<open>C11: When a shutdown comes to an end. Take a gateway whose listener has been closed, or whose accept
  loop has returned, and whose grace period has not expired yet. Whichever order sessions,
  \<open>drain\<close> and the expiry of the grace period run in and whatever is published meanwhile, there is no
  endless run of steps of the gateway, and a gateway with no step left has returned from
  \<open>Start\<close>, with three exceptions. A session may be unable to issue its cancel key, because the
  random source fails or only repeats keys in use. A session may be in a read from a backend that never
  ends its stream: closing the client connection does not help there and \<open>drain\<close> has no second
  timeout. And a session may be in a read from a backend that ends its stream only when its
  input ends while its client is silent; for those the expiry closes the client connection, which
  ends the read, so only a connection whose goroutine had not reached \<open>track\<close> when the shutdown began can be
  left. (Writes are taken to return.)\<close>

theorem shutdown_comes_to_an_end:
  assumes "plant_reach rng cfg srv tie p" and "stopping p"
  shows "(\<nexists>run. run 0 = p \<and> (\<forall>i. work rng srv tie (run i) (run (Suc i))))
    \<and> (\<forall>p'. (work rng srv tie)\<^sup>*\<^sup>* p p' \<longrightarrow> (\<nexists>p''. work rng srv tie p' p'')
         \<longrightarrow> (\<exists>e. pl_stage p' = Closed e) \<or> (\<exists>c. keyless rng p' c)
           \<or> (\<exists>c. awaiting rng p' c \<and> (pe_farewell (tie c) = Stays
                \<or> pe_farewell (tie c) = Follows \<and> \<not> pe_clientEnds (tie c) \<and> pl_goroutine p c = Some Spawned)))"
proof -
  have start: "shutting rng cfg srv tie p"
    unfolding shutting_def using assms by (auto simp: stopping_def split: run_stage.splits)
  have "\<exists>c. awaiting rng p' c \<and> (pe_farewell (tie c) = Stays
       \<or> pe_farewell (tie c) = Follows \<and> \<not> pe_clientEnds (tie c) \<and> pl_goroutine p c = Some Spawned)"
    if run: "(work rng srv tie)\<^sup>*\<^sup>* p p'" and stuck: "\<nexists>p''. work rng srv tie p' p''"
      and not: "\<nexists>e. pl_stage p' = Closed e" "\<nexists>c. keyless rng p' c" for p'
  proof -
    have shut: "shutting rng cfg srv tie p'" by (rule winding.kept_by_moves [OF run start])
    then have inv: "plant_inv rng cfg srv p'" using plant_reach_inv unfolding shutting_def by blast
    obtain c where c: "blocked rng tie p' c" using shutdown_works [OF shut] stuck not by blast
    obtain e cs where forced: "pl_stage p' = Forced e cs"
      using stuck not(1) expiry_works unlistened_works [OF inv] shut unfolding shutting_def by (metis run_stage.exhaust)
    obtain l where "pl_relay p' c = Some l" using c by (auto simp: blocked_def awaiting_def split: option.splits)
    then have "pl_goroutine p' c = Some (Running True)" using relay_running [OF inv] by blast
    then have "pl_goroutine p c = Some Spawned" if "c \<notin> set cs"
      using found_run [OF run start assms(2)] forced that unfolding found_def by blast
    with c forced show ?thesis
      by (intro exI [of _ c]) (auto simp: blocked_def endComes_def forceClosed_def split: farewell.splits)
  qed
  with winding.no_run_from [OF start] show ?thesis by (intro conjI allI impI) blast+
qed

section \<open>Witnesses\<close>

text \<open>
  A gateway is shut down with one session under way, whose client is silent and whose backend waits
  for it: the expiry of the grace period leaves nothing that could block.
\<close>

theorem shutdown_comes_to_an_end_witness:
  "\<exists>srv p. New sample_cfg = Inr srv \<and> plant_reach sample_rng sample_cfg srv (\<lambda>c. \<lparr>pe_clientEnds = False, pe_farewell = Follows\<rparr>) p
     \<and> pl_stage p = Closing None \<and> pl_goroutine p 1 = Some (Running True)
     \<and> (\<nexists>p'. (work sample_rng srv (\<lambda>c. \<lparr>pe_clientEnds = False, pe_farewell = Follows\<rparr>))\<^sup>*\<^sup>* p p'
          \<and> (\<nexists>p''. work sample_rng srv (\<lambda>c. \<lparr>pe_clientEnds = False, pe_farewell = Follows\<rparr>) p' p'')
          \<and> (\<nexists>e. pl_stage p' = Closed e) \<and> (\<nexists>c. keyless sample_rng p' c))"
proof -
  let ?t = "\<lambda>c :: nat. \<lparr>pe_clientEnds = False, pe_farewell = Follows\<rparr>"
  obtain srv where new: "New sample_cfg = Inr srv"
    and start: "plant_reach sample_rng sample_cfg srv ?t (sample_at srv 1 0 [] [(1, Spawned)] sample_idle Open [Accepted 1] [])"
    using sample_new [of ?t] by blast
  let ?f = "sample_front sample_gateway (sample_visit Arrived NewStore)"
  let ?p = "sample_at srv 1 1 [(1, ())] [(1, Running True)] ?f (Closing None) [Accepted 1, sample_stop] []"
  have "plant_reach sample_rng sample_cfg srv ?t (sample_at srv 1 1 [(1, ())] [(1, Running True)] ?f Open [Accepted 1] [])"
    using start by (rule plant_next) (use ps_enter [of "sample_at srv 1 0 [] [(1, Spawned)] sample_idle Open [Accepted 1] []" 1 "sample_env []"
      plain_client _ _ sample_rng srv ?t] in \<open>simp add: sample_at_def inFront_def serveEnter_def acquireSlot_def track_def gomap_set_def\<close>)
  from plant_stopped [OF this] have reach: "plant_reach sample_rng sample_cfg srv ?t ?p" by (simp add: sample_at_def)
  have p: "pl_stage ?p = Closing None" "pl_goroutine ?p 1 = Some (Running True)" "stopping ?p" "\<And>c. pl_goroutine ?p c \<noteq> Some Spawned"
    by (auto simp: sample_at_def stopping_def)
  from conjunct2 [OF shutdown_comes_to_an_end [OF reach p(3)]] p(4)
  have "\<nexists>p'. (work sample_rng srv ?t)\<^sup>*\<^sup>* ?p p' \<and> (\<nexists>p''. work sample_rng srv ?t p' p'')
      \<and> (\<nexists>e. pl_stage p' = Closed e) \<and> (\<nexists>c. keyless sample_rng p' c)" by simp blast
  with new reach p(1,2) show ?thesis by blast
qed

end
