(* ===== verification/Resolver.thy ===== *)
theory Resolver
  imports Registry
begin

text \<open>
  The cache-backed resolver (\<^verbatim>\<open>src/src/internal/registry/resolver.go\<close>). The
  Kubernetes client it reads through is outside the program: reading a Service or a Secret
  is a function of the context and the object's name, with any error it likes, and
  \<open>isNotFound\<close> (the API machinery's IsNotFound) and \<open>pemCerts\<close> (the certificates found in
  PEM data) are parameters.
\<close>

section \<open>Definitions\<close>

definition CABundleLabel :: go_string where "CABundleLabel = ''pgproxy.io/ca-bundle''"

record ServicePort =
  svp_Name :: go_string
  svp_Port :: int32

record Service =
  svc_Meta :: ObjectMeta
  svc_Ports :: "ServicePort list"

record Secret =
  sec_Data :: "(go_string, bytes) gomap"

record ClientResolver =
  cr_getService :: "go_ctx \<Rightarrow> NamespacedName \<Rightarrow> go_error + Service"
  cr_getSecret :: "go_ctx \<Rightarrow> NamespacedName \<Rightarrow> go_error + Secret"
  cr_CABundles :: bool

definition NewClientResolver ::
    "(go_ctx \<Rightarrow> NamespacedName \<Rightarrow> go_error + Service) \<Rightarrow> (go_ctx \<Rightarrow> NamespacedName \<Rightarrow> go_error + Secret)
     \<Rightarrow> ClientResolver" where
  "NewClientResolver getService getSecret =
     \<lparr>cr_getService = getService, cr_getSecret = getSecret, cr_CABundles = False\<rparr>"

definition WithCABundles :: "bool \<Rightarrow> ClientResolver \<Rightarrow> ClientResolver" where
  "WithCABundles enabled r = r\<lparr>cr_CABundles := enabled\<rparr>"

text \<open>\<open>None\<close> is any parse error; the only caller looks at no more than that.\<close>

definition parsePortNumber :: "go_string \<Rightarrow> int32 option" where
  "parsePortNumber s =
     (case parse_uint 16 s of
        None \<Rightarrow> None
      | Some port \<Rightarrow> if port = 0 then None else Some (word_of_nat port))"

fun findPortNumber :: "int32 \<Rightarrow> ServicePort list \<Rightarrow> int32 option" where
  "findPortNumber want [] = None"
| "findPortNumber want (p # ps) = (if svp_Port p = want then Some want else findPortNumber want ps)"

fun findPortName :: "go_string \<Rightarrow> ServicePort list \<Rightarrow> int32 option" where
  "findPortName name [] = None"
| "findPortName name (p # ps) = (if svp_Name p = name then Some (svp_Port p) else findPortName name ps)"

definition ResolveServicePort ::
    "(go_error \<Rightarrow> bool) \<Rightarrow> ClientResolver \<Rightarrow> go_ctx \<Rightarrow> go_string \<Rightarrow> go_string \<Rightarrow> IntOrString
     \<Rightarrow> go_error + int32" where
  "ResolveServicePort isNotFound r ctx namespace name port =
     (let svcname = ''service '' @ namespace @ ''/'' @ name in
      case cr_getService r ctx (NamespacedName namespace name) of
        Inl err \<Rightarrow>
          if isNotFound err then Inl (wrap_pre (Sentinel ErrBackendNotFound) svcname)
          else Inl (wrapf (''reading '' @ svcname) err)
      | Inr svc \<Rightarrow>
          if ios_Type port = 0 then
            (case findPortNumber (ios_IntVal port) (svc_Ports svc) of
               Some want \<Rightarrow> Inr want
             | None \<Rightarrow> Inl (ErrorString (svcname @ '' exposes no port '' @ int_text (sint (ios_IntVal port)))))
          else if ios_Type port = 1 then
            (case parsePortNumber (ios_StrVal port) of
               Some numeric \<Rightarrow>
                 (case findPortNumber numeric (svc_Ports svc) of
                    Some p \<Rightarrow> Inr p
                  | None \<Rightarrow> Inl (wrap_pre (Sentinel ErrPortNotFound)
                             (svcname @ '' exposes no port '' @ int_text (sint numeric))))
             | None \<Rightarrow>
                 (case findPortName (ios_StrVal port) (svc_Ports svc) of
                    Some p \<Rightarrow> Inr p
                  | None \<Rightarrow> Inl (wrap_pre (Sentinel ErrPortNotFound)
                             (svcname @ '' has no port named '' @ quote_text (ios_StrVal port)))))
          else Inl (wrap_pre (Sentinel ErrInvalidBackend)
                 (svcname @ '' has an unrecognised port reference'')))"

definition LoadCABundle ::
    "(bytes \<Rightarrow> CertPool) \<Rightarrow> ClientResolver \<Rightarrow> go_ctx \<Rightarrow> go_string \<Rightarrow> go_string \<Rightarrow> go_string
     \<Rightarrow> go_error + CertPool" where
  "LoadCABundle pemCerts r ctx namespace secretName key =
     (let secret = namespace @ ''/'' @ secretName in
      if \<not> cr_CABundles r then
        Inl (ErrorString (''route refers to the CA bundle Secret '' @ secret
          @ '', but reading Secrets is disabled; install the chart with rbac.readCABundleSecrets=true''))
      else case cr_getSecret r ctx (NamespacedName namespace secretName) of
        Inl err \<Rightarrow>
          Inl (wrapf (''secret '' @ secret @ '' (it must carry the label '' @ CABundleLabel
            @ ''=true to be readable)'') err)
      | Inr sec \<Rightarrow>
          (case gomap_get (sec_Data sec) key of
             None \<Rightarrow> Inl (ErrorString (''secret '' @ secret @ '' has no key '' @ quote_text key))
           | Some pem \<Rightarrow>
               if pemCerts pem = []
               then Inl (ErrorString (''secret '' @ secret @ '' key '' @ quote_text key
                      @ '' holds no PEM certificates''))
               else Inr (pemCerts pem)))"

text \<open>The resolver as the record of functions package registry calls.\<close>

definition asResolver :: "(go_error \<Rightarrow> bool) \<Rightarrow> (bytes \<Rightarrow> CertPool) \<Rightarrow> ClientResolver \<Rightarrow> Resolver" where
  "asResolver isNotFound pemCerts r =
     \<lparr>rv_ResolveServicePort = ResolveServicePort isNotFound r,
      rv_LoadCABundle = LoadCABundle pemCerts r\<rparr>"

section \<open>Lemmas\<close>

lemma findPortNumber_SomeD: "findPortNumber w ps = Some p \<Longrightarrow> p = w \<and> w \<in> svp_Port ` set ps"
  by (induction ps) (auto split: if_splits)

lemma findPortNumber_None_iff: "findPortNumber w ps = None \<longleftrightarrow> w \<notin> svp_Port ` set ps"
  by (induction ps) auto

lemma findPortName_SomeD: "findPortName n ps = Some p \<Longrightarrow> \<exists>q\<in>set ps. svp_Name q = n \<and> svp_Port q = p"
  by (induction ps) (auto split: if_splits)

lemma findPortName_None_iff: "findPortName n ps = None \<longleftrightarrow> n \<notin> svp_Name ` set ps"
  by (induction ps) auto

definition serviceExposes :: "ClientResolver \<Rightarrow> go_string \<Rightarrow> go_string \<Rightarrow> int32 \<Rightarrow> bool" where
  "serviceExposes r ns name p \<longleftrightarrow>
     (\<exists>ctx svc. cr_getService r ctx (NamespacedName ns name) = Inr svc \<and> p \<in> svp_Port ` set (svc_Ports svc))"

interpretation client_ports: port_contract "ResolveServicePort isNotFound r" "serviceExposes r"
  for isNotFound r
  by unfold_locales
    (auto simp: ResolveServicePort_def serviceExposes_def Let_def dest!: findPortNumber_SomeD findPortName_SomeD
      split: sum.splits if_splits option.splits)

section \<open>Properties\<close>

text \<open>Every Service-backed entry of a table built through the cache-backed resolver dials a port
  that Service declares, in the route's own namespace unless the backend names another: a
  typo in a port reference never yields a route that hangs.\<close>

lemma table_dials_declared_ports:
  assumes "distinct (map route_key routes)"
    and "sn_Table (Build ctx routes (asResolver isNotFound pemCerts cr) clusterDomain) = Some t"
    and "Lookup t d = Some x"
  shows "\<exists>r\<in>set routes. rt_Source x = route_key r
    \<and> (\<forall>b. be_Type (prs_Backend (pr_Spec r)) = BackendTypeService
          \<and> be_Service (prs_Backend (pr_Spec r)) = Some b \<longrightarrow>
          serviceExposes cr (backendNamespace r b) (sb_Name b) (rt_Port x))"
  using assms by (intro client_ports.table_ports_exposed) (auto simp: asResolver_def)

text \<open>The outcome of a port lookup on an existing Service, on every branch. A number, given as
  an integer or as digits, succeeds exactly when the Service declares it; any other string
  is looked up by name and gives the port of that name; a string reference that is not
  found fails as ErrPortNotFound and an unknown reference type as ErrInvalidBackend.\<close>

lemma resolve_port_on_existing_service:
  assumes "cr_getService r ctx (NamespacedName ns name) = Inr svc"
  shows "(ios_Type port = 0 \<longrightarrow>
       (\<exists>p. ResolveServicePort isNotFound r ctx ns name port = Inr p) =
         (ios_IntVal port \<in> svp_Port ` set (svc_Ports svc)))
   \<and> (\<forall>n. ios_Type port = 1 \<and> parsePortNumber (ios_StrVal port) = Some n \<longrightarrow>
       (if n \<in> svp_Port ` set (svc_Ports svc)
        then ResolveServicePort isNotFound r ctx ns name port = Inr n
        else \<exists>e. ResolveServicePort isNotFound r ctx ns name port = Inl e \<and> errors_Is e ErrPortNotFound))
   \<and> (ios_Type port = 1 \<and> parsePortNumber (ios_StrVal port) = None \<longrightarrow>
       (if ios_StrVal port \<in> svp_Name ` set (svc_Ports svc)
        then \<exists>q\<in>set (svc_Ports svc). svp_Name q = ios_StrVal port
               \<and> ResolveServicePort isNotFound r ctx ns name port = Inr (svp_Port q)
        else \<exists>e. ResolveServicePort isNotFound r ctx ns name port = Inl e \<and> errors_Is e ErrPortNotFound))
   \<and> (ios_Type port \<noteq> 0 \<and> ios_Type port \<noteq> 1 \<longrightarrow>
       (\<exists>e. ResolveServicePort isNotFound r ctx ns name port = Inl e \<and> errors_Is e ErrInvalidBackend))"
proof -
  have num: "findPortNumber w ps = (if w \<in> svp_Port ` set ps then Some w else None)" for w ps
    by (induction ps) auto
  show ?thesis
    using assms findPortName_None_iff [of "ios_StrVal port" "svc_Ports svc"]
    by (auto simp: ResolveServicePort_def Let_def num split: option.splits dest: findPortName_SomeD)
qed

text \<open>An integer port reference the Service does not declare fails with an error that is not
  ErrPortNotFound, nor any other of the failure classes, while the same number written as a
  string fails as ErrPortNotFound.\<close>

lemma integer_port_miss_is_unclassified:
  assumes "cr_getService r ctx (NamespacedName ns name) = Inr svc" and "0 < n" and "n < 2 ^ 16"
    and "word_of_nat n \<notin> svp_Port ` set (svc_Ports svc)"
  shows "(\<exists>e. ResolveServicePort isNotFound r ctx ns name (intstr_FromInt32 (word_of_nat n)) = Inl e
            \<and> \<not> errors_Is e ErrPortNotFound \<and> \<not> errors_Is e ErrBackendNotFound
            \<and> \<not> errors_Is e ErrInvalidBackend \<and> \<not> errors_Is e ErrCABundle)
     \<and> (\<exists>e. ResolveServicePort isNotFound r ctx ns name (intstr_FromString (nat_text n)) = Inl e
            \<and> errors_Is e ErrPortNotFound)"
proof -
  have "parsePortNumber (nat_text n) = Some (word_of_nat n)"
    using assms(2,3) by (simp add: parsePortNumber_def parse_uint_nat_text)
  moreover have "findPortNumber (word_of_nat n) (svc_Ports svc) = None"
    using assms(4) by (simp add: findPortNumber_None_iff)
  ultimately show ?thesis
    using assms(1) by (simp add: ResolveServicePort_def intstr_FromInt32_def intstr_FromString_def)
qed

text \<open>A string is taken for a port number exactly when it is decimal digits for a value from 1 to
  65535; the decimal rendering of every such value is read back as that value.\<close>

lemma port_number_roundtrip:
  "(\<forall>s p. parsePortNumber s = Some p \<longrightarrow>
      0 < unat p \<and> unat p < 2 ^ 16 \<and> digits_val 0 s = Some (unat p))
   \<and> (\<forall>n. 0 < n \<and> n < 2 ^ 16 \<longrightarrow> parsePortNumber (nat_text n) = Some (word_of_nat n))
   \<and> parsePortNumber ''+5432'' = None \<and> parsePortNumber ''-1'' = None \<and> parsePortNumber [] = None"
proof (intro conjI allI impI)
  fix s p assume *: "parsePortNumber s = Some p"
  then obtain n where n: "parse_uint 16 s = Some n" "n \<noteq> 0" "p = word_of_nat n"
    by (auto simp: parsePortNumber_def split: option.splits if_splits)
  then have lt: "n < 2 ^ 16" by (blast dest: parse_uint_bound)
  then have u: "unat p = n" using n(3) by (simp add: unat_of_nat)
  show "0 < unat p" "unat p < 2 ^ 16" using n(2) lt by (simp_all add: u)
  show "digits_val 0 s = Some (unat p)"
    using n(1) by (auto simp: u parse_uint_def split: if_splits option.splits)
next
  fix n :: nat assume "0 < n \<and> n < 2 ^ 16"
  then show "parsePortNumber (nat_text n) = Some (word_of_nat n)"
    by (simp add: parsePortNumber_def parse_uint_nat_text)
qed (simp_all add: parsePortNumber_def parse_uint_def digit_val_def)

text \<open>Without permission to read Secrets a CA bundle is refused without consulting the client
  at all; with it, a bundle that loads is never empty.\<close>

lemma ca_bundle_gate:
  "(\<not> cr_CABundles r \<longrightarrow>
      (\<exists>e. LoadCABundle pemCerts r ctx ns secret key = Inl e)
      \<and> LoadCABundle pemCerts r ctx ns secret key
        = LoadCABundle pemCerts (r\<lparr>cr_getSecret := otherClient\<rparr>) ctx ns secret key)
   \<and> (LoadCABundle pemCerts r ctx ns secret key = Inr pool \<longrightarrow> cr_CABundles r \<and> pool \<noteq> []
      \<and> (\<exists>sec pem. cr_getSecret r ctx (NamespacedName ns secret) = Inr sec
           \<and> gomap_get (sec_Data sec) key = Some pem \<and> pool = pemCerts pem))"
  by (auto simp: LoadCABundle_def Let_def split: sum.splits option.splits if_splits)

section \<open>Witnesses\<close>

definition sample_service :: Service where
  "sample_service = \<lparr>svc_Meta = \<lparr>om_Name = ''pg'', om_Namespace = ''apps'', om_UID = ''u1'', om_Generation = 1,
      om_CreationTimestamp = 5, om_DeletionTimestamp = None, om_Labels = [], om_Annotations = [], om_OwnerReferences = []\<rparr>,
    svc_Ports = [\<lparr>svp_Name = ''postgres'', svp_Port = 6432\<rparr>, \<lparr>svp_Name = ''metrics'', svp_Port = 9187\<rparr>]\<rparr>"

definition sample_client :: ClientResolver where
  "sample_client = WithCABundles True (NewClientResolver (\<lambda>_ _. Inr sample_service) (\<lambda>_ _. Inl (External ''not found'' [])))"

lemma sample_client_service: "cr_getService sample_client ctx key = Inr sample_service"
  by (simp add: sample_client_def WithCABundles_def NewClientResolver_def)

lemma integer_port_miss_is_unclassified_witness:
  "(\<exists>e. ResolveServicePort (\<lambda>_. False) sample_client None ''apps'' ''pg'' (intstr_FromInt32 (word_of_nat 5432)) = Inl e
      \<and> \<not> errors_Is e ErrPortNotFound \<and> \<not> errors_Is e ErrBackendNotFound
      \<and> \<not> errors_Is e ErrInvalidBackend \<and> \<not> errors_Is e ErrCABundle)
   \<and> (\<exists>e. ResolveServicePort (\<lambda>_. False) sample_client None ''apps'' ''pg'' (intstr_FromString (nat_text 5432)) = Inl e
      \<and> errors_Is e ErrPortNotFound)"
  by (rule integer_port_miss_is_unclassified [OF sample_client_service]) (simp_all add: sample_service_def)

end
