(* ===== verification/Route_Table.thy ===== *)
theory Route_Table
  imports Server_State Resolver
begin

text \<open>
  The routing-table builder (\<^verbatim>\<open>src/src/internal/controller/routetable.go\<close>): how a
  rebuild publishes a snapshot and announces the routes whose decision changed, and the loop
  that coalesces cluster events into rebuilds. The informer cache is outside the program:
  listing the routes is an argument. The loop is a step relation over its trigger channel,
  timer and flag, interleaved with the informers' callbacks, which run on other goroutines.
\<close>

section \<open>Definitions\<close>

definition DefaultDebounce :: Duration where "DefaultDebounce = 200 * time_Millisecond"

text \<open>The buffered channel of status events: the keys it holds and its capacity.\<close>

record event_chan =
  ec_cap :: nat
  ec_queue :: "NamespacedName list"

record RouteTableBuilder =
  rtb_Store :: "Store option"
  rtb_Resolver :: "Resolver option"
  rtb_ClusterDomain :: go_string
  rtb_WatchSecrets :: bool
  rtb_Debounce :: Duration
  rtb_StatusEvents :: "event_chan option"
  rtb_trigger :: "slot_chan option"

definition RouteTableBuilder_NeedLeaderElection :: "RouteTableBuilder \<Rightarrow> bool" where
  "RouteTableBuilder_NeedLeaderElection b = False"

text \<open>
  \<open>cacheResolver\<close> is \<^verbatim>\<open>registry.NewClientResolver(b.Cache)\<close>, and \<open>addErr\<close> what the
  manager's \<^verbatim>\<open>Add\<close> returns.
\<close>

definition SetupWithManager ::
    "ClientResolver \<Rightarrow> (ClientResolver \<Rightarrow> Resolver) \<Rightarrow> go_error option \<Rightarrow> RouteTableBuilder
     \<Rightarrow> go_error option \<times> RouteTableBuilder" where
  "SetupWithManager cacheResolver toResolver addErr b =
     (if rtb_Store b = None then (Some (ErrorString ''RouteTableBuilder.Store is required''), b)
      else
        (let b = (if rtb_Resolver b = None
                  then b\<lparr>rtb_Resolver := Some (toResolver (WithCABundles (rtb_WatchSecrets b) cacheResolver))\<rparr>
                  else b)
         in if rtb_ClusterDomain b = []
            then (Some (ErrorString ''RouteTableBuilder.ClusterDomain is required''), b)
            else
              (let b = (if sint (rtb_Debounce b) \<le> 0 then b\<lparr>rtb_Debounce := DefaultDebounce\<rparr> else b)
               in (addErr, b\<lparr>rtb_trigger := Some \<lparr>sl_cap = 1, sl_used = 0\<rparr>\<rparr>))))"

text \<open>The non-blocking send on the trigger channel; a nil channel is never ready.\<close>

definition schedule :: "RouteTableBuilder \<Rightarrow> RouteTableBuilder" where
  "schedule b =
     (case rtb_trigger b of
        None \<Rightarrow> b
      | Some ch \<Rightarrow>
          if sl_used ch < sl_cap ch then b\<lparr>rtb_trigger := Some (ch\<lparr>sl_used := sl_used ch + 1\<rparr>)\<rparr> else b)"

definition errorMessage :: "go_error option \<Rightarrow> go_string" where
  "errorMessage err = (case err of None \<Rightarrow> [] | Some e \<Rightarrow> error_text e)"

definition decisionChanged :: "Decision \<Rightarrow> Decision \<Rightarrow> bool" where
  "decisionChanged before now =
     (if dc_Database before \<noteq> dc_Database now
         \<or> dc_Accepted before \<noteq> dc_Accepted now
         \<or> dc_ConflictsWith before \<noteq> dc_ConflictsWith now
         \<or> dc_Endpoint before \<noteq> dc_Endpoint now
      then True
      else errorMessage (dc_ResolveErr before) \<noteq> errorMessage (dc_ResolveErr now))"

definition notify :: "NamespacedName \<Rightarrow> event_chan \<Rightarrow> event_chan" where
  "notify key ch = (if length (ec_queue ch) < ec_cap ch then ch\<lparr>ec_queue := ec_queue ch @ [key]\<rparr> else ch)"

text \<open>The loop visits the decisions in some order; here, the order of the association list.\<close>

fun notifyLoop ::
    "(NamespacedName, Decision) gomap \<Rightarrow> (NamespacedName, Decision) gomap \<Rightarrow> event_chan \<Rightarrow> event_chan" where
  "notifyLoop previous [] ch = ch"
| "notifyLoop previous ((key, now) # rest) ch =
     (case gomap_get previous key of
        Some before \<Rightarrow>
          if \<not> decisionChanged before now then notifyLoop previous rest ch
          else notifyLoop previous rest (notify key ch)
      | None \<Rightarrow> notifyLoop previous rest (notify key ch))"

definition notifyChanged :: "Snapshot \<Rightarrow> Snapshot \<Rightarrow> RouteTableBuilder \<Rightarrow> RouteTableBuilder" where
  "notifyChanged previous current b =
     (case rtb_StatusEvents b of
        None \<Rightarrow> b
      | Some ch \<Rightarrow>
          b\<lparr>rtb_StatusEvents := Some (notifyLoop (sn_Decisions previous) (sn_Decisions current) ch)\<rparr>)"

text \<open>\<open>None\<close> is a nil dereference: the builder was never set up.\<close>

definition rebuild ::
    "go_ctx \<Rightarrow> go_error + PostgresRoute list \<Rightarrow> RouteTableBuilder
     \<Rightarrow> (go_error option \<times> RouteTableBuilder \<times> metric list) option" where
  "rebuild ctx listed b =
     (case listed of
        Inl err \<Rightarrow> Some (Some (wrapf ''listing PostgresRoutes'' err), b, [])
      | Inr routes \<Rightarrow>
         (case (rtb_Store b, rtb_Resolver b) of
            (Some store, Some resolver) \<Rightarrow>
              (let snapshot = Build ctx routes resolver (rtb_ClusterDomain b);
                   previous = Store_Load store;
                   b1 = b\<lparr>rtb_Store := Some (Store_Store (Some snapshot) store)\<rparr>
               in Some (None, notifyChanged previous snapshot b1,
                        [SetRouteCount (Table_Len (the (sn_Table snapshot)))]))
          | _ \<Rightarrow> None))"

text \<open>
  The watches: \<open>getInformer\<close> and \<open>addHandler\<close> are what the cache answers for a kind of
  object; every callback is \<open>schedule\<close>.
\<close>

datatype object_kind = PostgresRouteKind | ServiceKind | SecretKind

fun kind_text :: "object_kind \<Rightarrow> go_string" where
  "kind_text PostgresRouteKind = ''*v1alpha1.PostgresRoute''"
| "kind_text ServiceKind = ''*v1.Service''"
| "kind_text SecretKind = ''*v1.Secret''"

definition watch ::
    "(object_kind \<Rightarrow> go_error option) \<Rightarrow> (object_kind \<Rightarrow> go_error option) \<Rightarrow> object_kind \<Rightarrow> go_error option" where
  "watch getInformer addHandler obj =
     (case getInformer obj of
        Some err \<Rightarrow> Some (wrapf (''getting informer for '' @ kind_text obj) err)
      | None \<Rightarrow>
         (case addHandler obj of
            Some err \<Rightarrow> Some (wrapf (''watching '' @ kind_text obj) err)
          | None \<Rightarrow> None))"

definition watched :: "RouteTableBuilder \<Rightarrow> object_kind list" where
  "watched b = [PostgresRouteKind, ServiceKind] @ (if rtb_WatchSecrets b then [SecretKind] else [])"

fun watchAll ::
    "(object_kind \<Rightarrow> go_error option) \<Rightarrow> (object_kind \<Rightarrow> go_error option) \<Rightarrow> object_kind list \<Rightarrow> go_error option" where
  "watchAll getInformer addHandler [] = None"
| "watchAll getInformer addHandler (obj # objs) =
     (case watch getInformer addHandler obj of
        Some err \<Rightarrow> Some err
      | None \<Rightarrow> watchAll getInformer addHandler objs)"

text \<open>
  \<open>Start\<close> up to its event loop: it ends with an error when a watch fails; otherwise it goes
  on to the loop with the first rebuild done, whose failure is only logged.
\<close>

definition startBuilder ::
    "(object_kind \<Rightarrow> go_error option) \<Rightarrow> (object_kind \<Rightarrow> go_error option) \<Rightarrow> go_ctx
     \<Rightarrow> go_error + PostgresRoute list \<Rightarrow> RouteTableBuilder
     \<Rightarrow> (go_error option \<times> RouteTableBuilder \<times> metric list) option" where
  "startBuilder getInformer addHandler ctx listed b =
     (case watchAll getInformer addHandler (watched b) of
        Some err \<Rightarrow> Some (Some err, b, [])
      | None \<Rightarrow>
         (case rebuild ctx listed b of
            None \<Rightarrow> None
          | Some (logged, b', ms) \<Rightarrow> Some (None, b', ms)))"

text \<open>
  The event loop of \<open>Start\<close>. Counters say which state of the cluster's cache the builder
  has listed: \<open>bl_version\<close> counts cache changes, \<open>bl_undelivered\<close> the callbacks not yet
  run, \<open>bl_built\<close> is the version of the last successful rebuild, and \<open>bl_failed\<close> says
  that a rebuild failed since.
\<close>

datatype timer = Stopped | Ticking | Fired

record build_loop =
  bl_version :: nat
  bl_undelivered :: nat
  bl_trigger :: bool
  bl_pending :: bool
  bl_timer :: timer
  bl_built :: nat
  bl_failed :: bool

definition onTrigger :: "build_loop \<Rightarrow> build_loop" where
  "onTrigger l =
     (let l = l\<lparr>bl_trigger := False\<rparr>
      in if \<not> bl_pending l then l\<lparr>bl_pending := True, bl_timer := Ticking\<rparr> else l)"

definition onTimer :: "bool \<Rightarrow> build_loop \<Rightarrow> build_loop" where
  "onTimer ok l =
     (let l = l\<lparr>bl_timer := Stopped, bl_pending := False\<rparr>
      in if ok then l\<lparr>bl_built := bl_version l, bl_failed := False\<rparr> else l\<lparr>bl_failed := True\<rparr>)"

text \<open>Steps of the loop itself and of its timer, which happen without any new cluster event.\<close>

inductive loop_step :: "bool \<Rightarrow> build_loop \<Rightarrow> build_loop \<Rightarrow> bool" where
  loop_deliver: "0 < bl_undelivered l \<Longrightarrow>
     loop_step ok l (l\<lparr>bl_undelivered := bl_undelivered l - 1, bl_trigger := True\<rparr>)"
| loop_trigger: "bl_trigger l \<Longrightarrow> loop_step ok l (onTrigger l)"
| loop_expire: "bl_timer l = Ticking \<Longrightarrow> loop_step ok l (l\<lparr>bl_timer := Fired\<rparr>)"
| loop_timer: "bl_timer l = Fired \<Longrightarrow> loop_step ok l (onTimer ok l)"

text \<open>Reachable states: the loop after its initial build, cache changes and steps of the loop.\<close>

inductive loop_reach :: "build_loop \<Rightarrow> bool" where
  loop_start: "loop_reach \<lparr>bl_version = v, bl_undelivered = u, bl_trigger = t, bl_pending = False,
     bl_timer = Stopped, bl_built = v, bl_failed = False\<rparr>"
| loop_start_failed: "loop_reach \<lparr>bl_version = v, bl_undelivered = u, bl_trigger = t, bl_pending = False,
     bl_timer = Stopped, bl_built = 0, bl_failed = True\<rparr>"
| loop_change: "loop_reach l \<Longrightarrow>
     loop_reach (l\<lparr>bl_version := bl_version l + 1, bl_undelivered := bl_undelivered l + 1\<rparr>)"
| loop_next: "loop_reach l \<Longrightarrow> loop_step ok l l' \<Longrightarrow> loop_reach l'"

section \<open>The debounce loop loses no event\<close>

definition loop_inv :: "build_loop \<Rightarrow> bool" where
  "loop_inv l \<longleftrightarrow>
     (bl_pending l \<longleftrightarrow> bl_timer l \<noteq> Stopped)
     \<and> (bl_built l = bl_version l \<or> bl_failed l \<or> 0 < bl_undelivered l \<or> bl_trigger l \<or> bl_pending l)"

lemma loop_inv_step: "loop_step ok l l' \<Longrightarrow> loop_inv l \<Longrightarrow> loop_inv l'"
  by (induction rule: loop_step.induct) (auto simp: loop_inv_def onTrigger_def onTimer_def Let_def)

lemma loop_reach_inv: "loop_reach l \<Longrightarrow> loop_inv l"
proof (induction rule: loop_reach.induct)
  case (loop_next l ok l')
  then show ?case by (blast intro: loop_inv_step)
qed (simp_all add: loop_inv_def)

text \<open>Every step of the loop on its own brings the next rebuild closer.\<close>

definition loop_rank :: "build_loop \<Rightarrow> nat" where
  "loop_rank l = 6 * bl_undelivered l + (if bl_trigger l then 5 else 0)
     + (case bl_timer l of Stopped \<Rightarrow> 0 | Ticking \<Rightarrow> 3 | Fired \<Rightarrow> 2)"

lemma loop_step_rank: "loop_step ok l l' \<Longrightarrow> loop_inv l \<Longrightarrow> loop_rank l' < loop_rank l"
  by (induction rule: loop_step.induct)
    (auto simp: loop_rank_def onTrigger_def onTimer_def loop_inv_def Let_def split: timer.splits)

lemma loop_step_enabled:
  "0 < bl_undelivered l \<or> bl_trigger l \<or> bl_timer l \<noteq> Stopped \<Longrightarrow> \<exists>l'. loop_step ok l l'"
  by (cases "bl_timer l") (auto intro: loop_step.intros)

lemma loop_step_keeps:
  "loop_step ok l l' \<Longrightarrow> bl_version l' = bl_version l \<and> (ok \<longrightarrow> bl_failed l' \<longrightarrow> bl_failed l)"
  by (induction rule: loop_step.induct) (auto simp: onTrigger_def onTimer_def Let_def)

lemma loop_steps_keep:
  assumes "(loop_step True ^^ n) l l'" and "loop_inv l"
  shows "loop_inv l' \<and> bl_version l' = bl_version l \<and> (bl_failed l' \<longrightarrow> bl_failed l)
    \<and> n + loop_rank l' \<le> loop_rank l"
  using assms(1)
proof (induction n arbitrary: l')
  case 0
  then show ?case using assms(2) by simp
next
  case (Suc n)
  then obtain m where m: "(loop_step True ^^ n) l m" "loop_step True m l'" by auto
  with Suc.IH [OF m(1)] loop_inv_step [OF m(2)] loop_step_keeps [OF m(2)] loop_step_rank [OF m(2)]
  show ?case by auto
qed

section \<open>What a rebuild announces\<close>

definition announced :: "(NamespacedName, Decision) gomap \<Rightarrow> (NamespacedName \<times> Decision) \<Rightarrow> bool" where
  "announced previous x \<longleftrightarrow>
     (case gomap_get previous (fst x) of None \<Rightarrow> True | Some before \<Rightarrow> decisionChanged before (snd x))"

lemma notifyLoop_queue:
  assumes "length (ec_queue ch) \<le> ec_cap ch"
  shows "ec_queue (notifyLoop previous current ch) =
    take (ec_cap ch) (ec_queue ch @ map fst (filter (announced previous) current))"
  using assms
proof (induction previous current ch rule: notifyLoop.induct)
  case (2 previous key now rest ch)
  have n: "length (ec_queue (notify key ch)) \<le> ec_cap (notify key ch)" "ec_cap (notify key ch) = ec_cap ch"
    using 2(4) by (auto simp: notify_def)
  have q: "take (ec_cap ch) (ec_queue (notify key ch) @ ks) = take (ec_cap ch) (ec_queue ch @ key # ks)" for ks
    using 2(4) by (auto simp: notify_def take_Cons' Suc_diff_Suc split: nat.split)
  show ?case
    using 2 n q by (auto simp: announced_def split: option.splits)
qed simp

lemma rebuild_okD:
  assumes "rebuild ctx (Inr routes) b = Some (err, b', ms)"
  obtains store resolver where "rtb_Store b = Some store" "rtb_Resolver b = Some resolver" "err = None"
    "b' = notifyChanged (Store_Load store) (Build ctx routes resolver (rtb_ClusterDomain b))
       (b\<lparr>rtb_Store := Some (Store_Store (Some (Build ctx routes resolver (rtb_ClusterDomain b))) store)\<rparr>)"
    "ms = [RoutesSet (Table_Len (the (sn_Table (Build ctx routes resolver (rtb_ClusterDomain b)))))]"
  using assms by (auto simp: rebuild_def Let_def SetRouteCount_def split: option.splits)

lemma watchAll_None: "watchAll gi ah objs = None \<longleftrightarrow> (\<forall>obj\<in>set objs. gi obj = None \<and> ah obj = None)"
  by (induction objs) (auto simp: watch_def split: option.splits)

text \<open>
  A builder that was set up starts whenever the kinds it watches can be watched, Secrets only
  when asked for, and has then published the table of the routes it listed.
\<close>

lemma startBuilder_publishes:
  assumes "SetupWithManager cr toR None b0 = (None, b)"
    and "\<forall>obj\<in>{PostgresRouteKind, ServiceKind}. gi obj = None \<and> ah obj = None"
    and "rtb_WatchSecrets b \<Longrightarrow> gi SecretKind = None \<and> ah SecretKind = None"
  shows "\<exists>b' ms store' resolver. startBuilder gi ah ctx (Inr routes) b = Some (None, b', ms)
    \<and> rtb_Resolver b = Some resolver \<and> rtb_Store b' = Some store'
    \<and> Store_Load store' = Build ctx routes resolver (rtb_ClusterDomain b)"
proof -
  have w: "watchAll gi ah (watched b) = None"
    using assms(2,3) unfolding watchAll_None watched_def by auto
  obtain store resolver where "rtb_Store b = Some store" "rtb_Resolver b = Some resolver"
    using assms(1) by (auto simp: SetupWithManager_def Let_def split: if_splits)
  with w show ?thesis
    by (auto simp: startBuilder_def rebuild_def Let_def notifyChanged_def Store_Store_def Store_Load_def
        Build_def split: option.splits)
qed

section \<open>Properties\<close>

text \<open>C17: The debounce loop never loses a cluster event. In every reachable state, if nothing has
  failed since, a table older than the cache means that a rebuild is on its way. Left alone,
  with rebuilds succeeding, the loop runs only finitely many steps, in whatever order they
  are taken, and where it comes to rest the table is built from the newest state of the
  cache.\<close>

theorem debounce_loses_no_event:
  assumes "loop_reach l" and "\<not> bl_failed l"
  shows "(bl_built l \<noteq> bl_version l \<longrightarrow> 0 < bl_undelivered l \<or> bl_trigger l \<or> bl_pending l)
    \<and> (\<forall>n l'. (loop_step True ^^ n) l l' \<longrightarrow> n \<le> loop_rank l
         \<and> ((\<nexists>l''. loop_step True l' l'') \<longrightarrow> bl_built l' = bl_version l \<and> \<not> bl_pending l'))"
proof (intro conjI allI impI)
  note inv = loop_reach_inv [OF assms(1)]
  show "0 < bl_undelivered l \<or> bl_trigger l \<or> bl_pending l" if "bl_built l \<noteq> bl_version l"
    using inv that assms(2) unfolding loop_inv_def by blast
  fix n l'
  assume run: "(loop_step True ^^ n) l l'"
  note keep = loop_steps_keep [OF run inv]
  then show "n \<le> loop_rank l" by simp
  assume "\<nexists>l''. loop_step True l' l''"
  then have "\<not> (0 < bl_undelivered l' \<or> bl_trigger l' \<or> bl_timer l' \<noteq> Stopped)"
    using loop_step_enabled [of l' True] by blast
  then have "bl_undelivered l' = 0" "\<not> bl_trigger l'" "bl_timer l' = Stopped" by auto
  with keep assms(2) show "bl_built l' = bl_version l" "\<not> bl_pending l'" by (auto simp: loop_inv_def)
qed

text \<open>A rebuild that cannot list the routes leaves the published table as it was and announces
  nothing. One that can publishes exactly the table and decisions built from the routes it
  listed, reports the number of routable databases, and queues exactly the routes whose
  decision is new or changed, in order, as far as the queue has room.\<close>

lemma rebuild_publishes_and_announces:
  "rebuild ctx (Inl err) b = Some (Some (wrapf ''listing PostgresRoutes'' err), b, [])
   \<and> (\<forall>b' e ms store resolver. rebuild ctx (Inr routes) b = Some (e, b', ms)
        \<and> rtb_Store b = Some store \<and> rtb_Resolver b = Some resolver \<longrightarrow>
      e = None
      \<and> (\<exists>store'. rtb_Store b' = Some store'
           \<and> Store_Load store' = Build ctx routes resolver (rtb_ClusterDomain b)
           \<and> (\<forall>table. Store_Routes store' = Some table \<longrightarrow> ms = [RoutesSet (Table_Len table)]))
      \<and> (\<forall>ch. rtb_StatusEvents b = Some ch \<and> length (ec_queue ch) \<le> ec_cap ch \<longrightarrow>
           (\<exists>ch'. rtb_StatusEvents b' = Some ch'
              \<and> ec_queue ch' = take (ec_cap ch) (ec_queue ch
                  @ map fst (filter (announced (sn_Decisions (Store_Load store)))
                               (sn_Decisions (Build ctx routes resolver (rtb_ClusterDomain b))))))))"
proof (intro conjI allI impI)
  show "rebuild ctx (Inl err) b = Some (Some (wrapf ''listing PostgresRoutes'' err), b, [])"
    by (simp add: rebuild_def)
  fix b' e ms store resolver
  assume A: "rebuild ctx (Inr routes) b = Some (e, b', ms) \<and> rtb_Store b = Some store \<and> rtb_Resolver b = Some resolver"
  let ?sn = "Build ctx routes resolver (rtb_ClusterDomain b)"
  let ?st = "Store_Store (Some ?sn) store"
  have ld: "Store_Load ?st = ?sn"
    by (simp add: Store_Store_def Store_Load_def Build_def Let_def)
  from A have "rebuild ctx (Inr routes) b = Some (e, b', ms)" by simp
  then show e: "e = None" by (rule rebuild_okD)
  have b': "b' = notifyChanged (Store_Load store) ?sn (b\<lparr>rtb_Store := Some ?st\<rparr>)"
    and ms: "ms = [RoutesSet (Table_Len (the (sn_Table ?sn)))]"
    using A by (auto elim!: rebuild_okD)
  have st: "rtb_Store b' = Some ?st"
    by (simp add: b' notifyChanged_def split: option.splits)
  show "\<exists>store'. rtb_Store b' = Some store' \<and> Store_Load store' = ?sn
      \<and> (\<forall>table. Store_Routes store' = Some table \<longrightarrow> ms = [RoutesSet (Table_Len table)])"
    using ld by (auto simp: st ms Store_Load_def Store_Routes_def)
  fix ch
  assume ch: "rtb_StatusEvents b = Some ch \<and> length (ec_queue ch) \<le> ec_cap ch"
  then show "\<exists>ch'. rtb_StatusEvents b' = Some ch' \<and> ec_queue ch' = take (ec_cap ch) (ec_queue ch
       @ map fst (filter (announced (sn_Decisions (Store_Load store))) (sn_Decisions ?sn)))"
    by (simp add: b' notifyChanged_def notifyLoop_queue)
qed

section \<open>Witnesses\<close>

definition sample_loop :: build_loop where
  "sample_loop = \<lparr>bl_version = 5, bl_undelivered = 1, bl_trigger = False, bl_pending = False, bl_timer = Stopped,
     bl_built = 4, bl_failed = False\<rparr>"

lemma sample_loop_reach: "loop_reach sample_loop"
  using loop_change [OF loop_start [of 4 0 False]] by (simp add: sample_loop_def)

lemma sample_loop_run:
  "(loop_step True ^^ 4) sample_loop (sample_loop\<lparr>bl_undelivered := 0, bl_built := 5\<rparr>)"
proof -
  have "loop_step True sample_loop (sample_loop\<lparr>bl_undelivered := 0, bl_trigger := True\<rparr>)"
    using loop_deliver [of sample_loop True] by (simp add: sample_loop_def)
  moreover have "loop_step True (sample_loop\<lparr>bl_undelivered := 0, bl_trigger := True\<rparr>)
      (sample_loop\<lparr>bl_undelivered := 0, bl_pending := True, bl_timer := Ticking\<rparr>)"
    using loop_trigger [of "sample_loop\<lparr>bl_undelivered := 0, bl_trigger := True\<rparr>" True]
    by (simp add: sample_loop_def onTrigger_def)
  moreover have "loop_step True (sample_loop\<lparr>bl_undelivered := 0, bl_pending := True, bl_timer := Ticking\<rparr>)
      (sample_loop\<lparr>bl_undelivered := 0, bl_pending := True, bl_timer := Fired\<rparr>)"
    using loop_expire [of "sample_loop\<lparr>bl_undelivered := 0, bl_pending := True, bl_timer := Ticking\<rparr>" True]
    by (simp add: sample_loop_def)
  moreover have "loop_step True (sample_loop\<lparr>bl_undelivered := 0, bl_pending := True, bl_timer := Fired\<rparr>)
      (sample_loop\<lparr>bl_undelivered := 0, bl_built := 5\<rparr>)"
    using loop_timer [of "sample_loop\<lparr>bl_undelivered := 0, bl_pending := True, bl_timer := Fired\<rparr>" True]
    by (simp add: sample_loop_def onTimer_def)
  ultimately show ?thesis by (auto simp: numeral_eq_Suc OO_def)
qed

theorem debounce_loses_no_event_witness:
  "(0 < bl_undelivered sample_loop \<or> bl_trigger sample_loop \<or> bl_pending sample_loop) \<and> 4 \<le> loop_rank sample_loop"
proof -
  have "\<not> bl_failed sample_loop" "bl_built sample_loop \<noteq> bl_version sample_loop" by (simp_all add: sample_loop_def)
  then show ?thesis using debounce_loses_no_event [OF sample_loop_reach] sample_loop_run by blast
qed

definition sample_builder :: RouteTableBuilder where
  "sample_builder = \<lparr>rtb_Store = Some NewStore, rtb_Resolver = Some sample_resolver, rtb_ClusterDomain = ''cluster.local'',
     rtb_WatchSecrets = False, rtb_Debounce = DefaultDebounce,
     rtb_StatusEvents = Some \<lparr>ec_cap = 1024, ec_queue = []\<rparr>, rtb_trigger = Some \<lparr>sl_cap = 1, sl_used = 0\<rparr>\<rparr>"

end
