(* ===== verification/Status_Reconciler.thy ===== *)
theory Status_Reconciler
  imports Route_Table
begin

text \<open>
  The status reconciler (\<^verbatim>\<open>src/src/internal/controller/postgresroute_controller.go\<close>).
  The API machinery is outside the program and reached through the record \<open>status_api\<close>:
  reading a route, patching its status, classifying errors, and setting and finding
  conditions. What the code relies on of the last two is stated by \<open>condition_api\<close>, after
  their documentation: finding returns the first condition of a type; setting updates the
  condition of that type in place or appends it, deciding only the transition time itself.
\<close>

section \<open>Definitions\<close>

record status_api =
  sa_get :: "NamespacedName \<Rightarrow> go_error + PostgresRoute"
  sa_patchErr :: "PostgresRoute \<Rightarrow> go_error option"
  sa_isNotFound :: "go_error \<Rightarrow> bool"
  sa_isConflict :: "go_error \<Rightarrow> bool"
  sa_setCondition :: "Condition \<Rightarrow> Condition list \<Rightarrow> Condition list"
  sa_findCondition :: "Condition list \<Rightarrow> go_string \<Rightarrow> Condition option"

record Result =
  res_Requeue :: bool
  res_RequeueAfter :: Duration

definition noResult :: Result where "noResult = \<lparr>res_Requeue = False, res_RequeueAfter = 0\<rparr>"

definition ConditionTrue :: go_string where "ConditionTrue = ''True''"
definition ConditionFalse :: go_string where "ConditionFalse = ''False''"

definition resolveFailureReason :: "(go_error \<Rightarrow> bool) \<Rightarrow> go_error \<Rightarrow> go_string" where
  "resolveFailureReason isNotFound err =
     (if errors_Is err ErrBackendNotFound \<or> isNotFound err then ReasonBackendNotFound
      else if errors_Is err ErrPortNotFound then ReasonPortNotFound
      else if errors_Is err ErrCABundle then ReasonCABundleFailed
      else ReasonInvalidBackend)"

text \<open>A condition as the composite literals of the code build it, before the generation is set.\<close>

definition newCondition :: "go_string \<Rightarrow> go_string \<Rightarrow> go_string \<Rightarrow> go_string \<Rightarrow> Condition" where
  "newCondition type status reason message =
     \<lparr>cn_Type = type, cn_Status = status, cn_ObservedGeneration = 0, cn_LastTransitionTime = 0,
      cn_Reason = reason, cn_Message = message\<rparr>"

definition setWithGeneration :: "status_api \<Rightarrow> int \<Rightarrow> Condition \<Rightarrow> PostgresRouteStatus \<Rightarrow> PostgresRouteStatus" where
  "setWithGeneration api generation c status =
     status\<lparr>st_Conditions := sa_setCondition api (c\<lparr>cn_ObservedGeneration := generation\<rparr>) (st_Conditions status)\<rparr>"

definition acceptedCondition :: "Decision \<Rightarrow> Condition" where
  "acceptedCondition decision =
     (if dc_Accepted decision then
        newCondition ConditionAccepted ConditionTrue ReasonAccepted
          (''This route owns the database name '' @ quote_text (dc_Database decision) @ ''.'')
      else
        newCondition ConditionAccepted ConditionFalse ReasonDatabaseConflict
          (''Database name '' @ quote_text (dc_Database decision) @ '' is already claimed by ''
             @ NamespacedName_String (dc_ConflictsWith decision)
             @ '', which has a higher priority or is older.''))"

definition resolvedCondition :: "(go_error \<Rightarrow> bool) \<Rightarrow> Decision \<Rightarrow> Condition" where
  "resolvedCondition isNotFound decision =
     (if \<not> dc_Accepted decision then
        newCondition ConditionResolved ConditionFalse ReasonDatabaseConflict
          ''The backend was not resolved because the route did not win its database name.''
      else case dc_ResolveErr decision of
        Some err \<Rightarrow>
          newCondition ConditionResolved ConditionFalse (resolveFailureReason isNotFound err) (error_text err)
      | None \<Rightarrow>
          newCondition ConditionResolved ConditionTrue ReasonResolved
            (''The backend resolved to '' @ dc_Endpoint decision @ ''.''))"

definition programmedCondition :: "Decision \<Rightarrow> Condition" where
  "programmedCondition decision =
     (if Programmed decision then
        newCondition ConditionProgrammed ConditionTrue ReasonProgrammed
          (''Connections to database '' @ quote_text (dc_Database decision) @ '' are routed to ''
             @ dc_Endpoint decision @ ''.'')
      else
        newCondition ConditionProgrammed ConditionFalse ReasonNotProgrammed
          ''The gateway is not routing connections for this route.'')"

definition applyConditions ::
    "status_api \<Rightarrow> PostgresRouteStatus \<Rightarrow> PostgresRoute \<Rightarrow> Decision \<Rightarrow> PostgresRouteStatus" where
  "applyConditions api status route decision =
     (let generation = om_Generation (pr_Meta route);
          status = (if dc_Accepted decision then status
                    else status\<lparr>st_ConflictingRoute := NamespacedName_String (dc_ConflictsWith decision),
                                st_Endpoint := []\<rparr>);
          status = setWithGeneration api generation (acceptedCondition decision) status;
          status = setWithGeneration api generation (resolvedCondition (sa_isNotFound api) decision) status
      in setWithGeneration api generation (programmedCondition decision) status)"

definition equalStatus :: "status_api \<Rightarrow> PostgresRouteStatus \<Rightarrow> PostgresRouteStatus \<Rightarrow> bool" where
  "equalStatus api a b =
     (if st_ObservedGeneration a \<noteq> st_ObservedGeneration b
         \<or> st_Database a \<noteq> st_Database b
         \<or> st_Endpoint a \<noteq> st_Endpoint b
         \<or> st_ConflictingRoute a \<noteq> st_ConflictingRoute b
         \<or> length (st_Conditions a) \<noteq> length (st_Conditions b)
      then False
      else list_all (\<lambda>want.
        case sa_findCondition api (st_Conditions a) (cn_Type want) of
          None \<Rightarrow> False
        | Some got \<Rightarrow>
            cn_Status got = cn_Status want \<and> cn_Reason got = cn_Reason want
            \<and> cn_Message got = cn_Message want \<and> cn_ObservedGeneration got = cn_ObservedGeneration want)
        (st_Conditions b))"

definition desiredStatus :: "status_api \<Rightarrow> PostgresRoute \<Rightarrow> Decision \<Rightarrow> PostgresRouteStatus" where
  "desiredStatus api route decision =
     applyConditions api
       ((pr_Status route)\<lparr>st_ObservedGeneration := om_Generation (pr_Meta route),
          st_Database := dc_Database decision, st_Endpoint := dc_Endpoint decision,
          st_ConflictingRoute := []\<rparr>)
       route decision"

text \<open>The third component is the route whose status was patched, if a patch was sent.\<close>

definition Reconcile ::
    "status_api \<Rightarrow> Store \<Rightarrow> NamespacedName \<Rightarrow> Result \<times> go_error option \<times> PostgresRoute option" where
  "Reconcile api store req =
     (case sa_get api req of
        Inl err \<Rightarrow> (noResult, if sa_isNotFound api err then None else Some err, None)
      | Inr route \<Rightarrow>
          if om_DeletionTimestamp (pr_Meta route) \<noteq> None then (noResult, None, None)
          else case Snapshot_Decision (Store_Load store) req of
            None \<Rightarrow> (noResult\<lparr>res_RequeueAfter := 2 * DefaultDebounce\<rparr>, None, None)
          | Some decision \<Rightarrow>
             (let desired = desiredStatus api route decision
              in if equalStatus api (pr_Status route) desired then (noResult, None, None)
                 else
                   (let patched = route\<lparr>pr_Status := desired\<rparr>
                    in case sa_patchErr api patched of
                         Some err \<Rightarrow>
                           if sa_isConflict api err then (noResult, None, Some patched)
                           else (noResult, Some (wrapf ''patching PostgresRoute status'' err), Some patched)
                       | None \<Rightarrow> (noResult, None, Some patched))))"

section \<open>What the condition helpers promise\<close>

definition same_condition :: "Condition \<Rightarrow> Condition \<Rightarrow> bool" where
  "same_condition a b \<longleftrightarrow> cn_Type a = cn_Type b \<and> cn_Status a = cn_Status b \<and> cn_Reason a = cn_Reason b
     \<and> cn_Message a = cn_Message b \<and> cn_ObservedGeneration a = cn_ObservedGeneration b"

definition condition_api :: "status_api \<Rightarrow> bool" where
  "condition_api api \<longleftrightarrow>
     (\<forall>cs t. sa_findCondition api cs t = find (\<lambda>c. cn_Type c = t) cs)
     \<and> (\<forall>c cs. map cn_Type (sa_setCondition api c cs) =
           map cn_Type cs @ (if cn_Type c \<in> cn_Type ` set cs then [] else [cn_Type c]))
     \<and> (\<forall>c cs. \<exists>c'. find (\<lambda>x. cn_Type x = cn_Type c) (sa_setCondition api c cs) = Some c' \<and> same_condition c' c)
     \<and> (\<forall>c cs t. t \<noteq> cn_Type c \<longrightarrow>
           find (\<lambda>x. cn_Type x = t) (sa_setCondition api c cs) = find (\<lambda>x. cn_Type x = t) cs)"

abbreviation cond :: "PostgresRouteStatus \<Rightarrow> go_string \<Rightarrow> Condition option" where
  "cond status t \<equiv> find (\<lambda>x. cn_Type x = t) (st_Conditions status)"

lemmas condition_types = ConditionAccepted_def ConditionResolved_def ConditionProgrammed_def

lemma condition_type [simp]:
  "cn_Type (acceptedCondition d) = ConditionAccepted"
  "cn_Type (resolvedCondition nf d) = ConditionResolved"
  "cn_Type (programmedCondition d) = ConditionProgrammed"
  by (simp_all add: acceptedCondition_def resolvedCondition_def programmedCondition_def newCondition_def split: option.split)

lemma types_distinct [simp]:
  "ConditionAccepted \<noteq> ConditionResolved" "ConditionAccepted \<noteq> ConditionProgrammed"
  "ConditionResolved \<noteq> ConditionProgrammed" "ConditionResolved \<noteq> ConditionAccepted"
  "ConditionProgrammed \<noteq> ConditionAccepted" "ConditionProgrammed \<noteq> ConditionResolved"
  by (simp_all add: condition_types)

lemma set_same:
  assumes "condition_api api"
  shows "\<exists>c'. cond (setWithGeneration api g c s) (cn_Type c) = Some c'
    \<and> same_condition c' (c\<lparr>cn_ObservedGeneration := g\<rparr>)"
  using assms unfolding condition_api_def setWithGeneration_def
  by (metis PostgresRouteStatus.select_convs(5) PostgresRouteStatus.surjective PostgresRouteStatus.update_convs(5)
      Condition.surjective Condition.update_convs(3) Condition.select_convs(1))

lemma set_other:
  "condition_api api \<Longrightarrow> t \<noteq> cn_Type c \<Longrightarrow> cond (setWithGeneration api g c s) t = cond s t"
  by (simp add: condition_api_def setWithGeneration_def)

lemma set_types:
  "condition_api api \<Longrightarrow> map cn_Type (st_Conditions (setWithGeneration api g c s)) =
     map cn_Type (st_Conditions s)
     @ (if cn_Type c \<in> cn_Type ` set (st_Conditions s) then [] else [cn_Type c])"
  by (simp add: condition_api_def setWithGeneration_def)

lemma same_condition_sym: "same_condition a b \<Longrightarrow> same_condition b a"
  by (simp add: same_condition_def)

lemma same_condition_trans: "same_condition a b \<Longrightarrow> same_condition b c \<Longrightarrow> same_condition a c"
  by (simp add: same_condition_def)

text \<open>The three conditions a decision calls for, at the route's generation.\<close>

definition wanted :: "status_api \<Rightarrow> PostgresRoute \<Rightarrow> Decision \<Rightarrow> go_string \<Rightarrow> Condition" where
  "wanted api route d t =
     (if t = ConditionAccepted then acceptedCondition d
      else if t = ConditionResolved then resolvedCondition (sa_isNotFound api) d
      else programmedCondition d)\<lparr>cn_ObservedGeneration := om_Generation (pr_Meta route)\<rparr>"

abbreviation managed_types :: "go_string set" where
  "managed_types \<equiv> {ConditionAccepted, ConditionResolved, ConditionProgrammed}"

lemma desired_managed:
  assumes "condition_api api" and "t \<in> managed_types"
  shows "\<exists>c. cond (desiredStatus api route d) t = Some c \<and> same_condition c (wanted api route d t)"
proof -
  note other = set_other [OF assms(1)]
  note same = set_same [OF assms(1)]
  let ?g = "om_Generation (pr_Meta route)"
  from assms(2) consider "t = ConditionAccepted" | "t = ConditionResolved" | "t = ConditionProgrammed" by blast
  then show ?thesis
  proof cases
    case 1
    then show ?thesis
      using same [of "acceptedCondition d" ?g]
      by (simp add: desiredStatus_def applyConditions_def Let_def other wanted_def)
  next
    case 2
    then show ?thesis
      using same [of "resolvedCondition (sa_isNotFound api) d" ?g]
      by (simp add: desiredStatus_def applyConditions_def Let_def other wanted_def)
  next
    case 3
    then show ?thesis
      using same [of "programmedCondition d" ?g]
      by (simp add: desiredStatus_def applyConditions_def Let_def wanted_def)
  qed
qed

lemma desired_other:
  assumes "condition_api api" and "t \<notin> managed_types"
  shows "cond (desiredStatus api route d) t = cond (pr_Status route) t"
  using assms by (simp add: desiredStatus_def applyConditions_def Let_def set_other)

lemma desired_fields:
  "st_ObservedGeneration (desiredStatus api route d) = om_Generation (pr_Meta route)
   \<and> st_Database (desiredStatus api route d) = dc_Database d
   \<and> st_Endpoint (desiredStatus api route d) = (if dc_Accepted d then dc_Endpoint d else [])
   \<and> st_ConflictingRoute (desiredStatus api route d) =
       (if dc_Accepted d then [] else NamespacedName_String (dc_ConflictsWith d))"
  by (simp add: desiredStatus_def applyConditions_def setWithGeneration_def Let_def)

lemma desired_types:
  assumes "condition_api api" and "distinct (map cn_Type (st_Conditions (pr_Status route)))"
  shows "distinct (map cn_Type (st_Conditions (desiredStatus api route d)))"
    and "managed_types \<subseteq> cn_Type ` set (st_Conditions (desiredStatus api route d))"
    and "managed_types \<subseteq> cn_Type ` set (st_Conditions (pr_Status route)) \<Longrightarrow>
      map cn_Type (st_Conditions (desiredStatus api route d)) = map cn_Type (st_Conditions (pr_Status route))"
proof -
  have step: "distinct (map cn_Type (st_Conditions (setWithGeneration api g c s)))"
    if "distinct (map cn_Type (st_Conditions s))" for g c s
    using that by (auto simp: set_types [OF assms(1)])
  have keep: "map cn_Type (st_Conditions (setWithGeneration api g c s)) = map cn_Type (st_Conditions s)"
    if "cn_Type c \<in> cn_Type ` set (st_Conditions s)" for g c s
    using that by (simp add: set_types [OF assms(1)])
  show "distinct (map cn_Type (st_Conditions (desiredStatus api route d)))"
    unfolding desiredStatus_def applyConditions_def Let_def
    by (intro step) (simp add: assms(2))
  have "t \<in> cn_Type ` set (st_Conditions (desiredStatus api route d))" if "t \<in> managed_types" for t
    using desired_managed [OF assms(1) that, of route d] by (force simp: find_Some_iff)
  then show "managed_types \<subseteq> cn_Type ` set (st_Conditions (desiredStatus api route d))" by blast
  assume "managed_types \<subseteq> cn_Type ` set (st_Conditions (pr_Status route))"
  then have in_types: "t \<in> set (map cn_Type (st_Conditions (pr_Status route)))" if "t \<in> managed_types" for t
    using that by auto
  show "map cn_Type (st_Conditions (desiredStatus api route d)) = map cn_Type (st_Conditions (pr_Status route))"
    using in_types unfolding desiredStatus_def applyConditions_def Let_def
    by (simp add: set_types [OF assms(1)] image_set del: set_map)
qed

lemma find_distinct:
  "distinct (map cn_Type cs) \<Longrightarrow> c \<in> set cs \<Longrightarrow> find (\<lambda>x. cn_Type x = cn_Type c) cs = Some c"
  by (induction cs) (auto simp: image_iff)

lemma desired_stable:
  assumes "condition_api api" and "distinct (map cn_Type (st_Conditions (pr_Status route)))"
    and "pr_Status route' = desiredStatus api route d" and "pr_Meta route' = pr_Meta route"
  shows "equalStatus api (pr_Status route') (desiredStatus api route' d)"
proof -
  let ?a = "pr_Status route'" and ?b = "desiredStatus api route' d"
  note ty = desired_types [OF assms(1,2)]
  have da: "distinct (map cn_Type (st_Conditions ?a))" using ty(1) assms(3) by simp
  have types: "map cn_Type (st_Conditions ?b) = map cn_Type (st_Conditions ?a)"
    using desired_types(3) [OF assms(1) da] ty(2) assms(3) by simp
  have match: "\<exists>got. cond ?a (cn_Type want) = Some got \<and> same_condition got want" if "want \<in> set (st_Conditions ?b)" for want
  proof -
    have fb: "cond ?b (cn_Type want) = Some want"
      using find_distinct [OF desired_types(1) [OF assms(1) da] that] .
    show ?thesis
    proof (cases "cn_Type want \<in> managed_types")
      case True
      have w: "wanted api route' d = wanted api route d" by (auto simp: wanted_def assms(4))
      then have "same_condition want (wanted api route d (cn_Type want))"
        using desired_managed [OF assms(1) True, of route' d] fb by auto
      with desired_managed [OF assms(1) True, of route d] show ?thesis
        using assms(3) by (auto intro: same_condition_trans same_condition_sym)
    next
      case False
      then have "cond ?a (cn_Type want) = Some want"
        using desired_other [OF assms(1) False, of route' d] fb by argo
      then show ?thesis by (simp add: same_condition_def)
    qed
  qed
  have "length (st_Conditions ?a) = length (st_Conditions ?b)" using types by (metis length_map)
  moreover have "sa_findCondition api cs t = find (\<lambda>c. cn_Type c = t) cs" for cs t
    using assms(1) by (simp add: condition_api_def)
  ultimately show ?thesis
    using match desired_fields [of api route d] desired_fields [of api route' d] assms(3,4)
    by (auto simp: equalStatus_def list_all_iff same_condition_def split: option.split dest!: match)
qed

section \<open>Properties\<close>

text \<open>The status written for a route says what was decided. Accepted is True exactly when the
  route was accepted, Resolved and Programmed exactly when it is programmed, all three carry
  the route's generation; the endpoint is blank unless the route was accepted, the
  conflicting route is named exactly when it was not, and conditions of other types are left
  alone.\<close>

lemma status_tells_the_decision:
  assumes "condition_api api" and "s = desiredStatus api route d"
  shows "(\<exists>a r p. cond s ConditionAccepted = Some a \<and> cond s ConditionResolved = Some r
        \<and> cond s ConditionProgrammed = Some p
        \<and> (cn_Status a = ConditionTrue \<longleftrightarrow> dc_Accepted d)
        \<and> (cn_Status r = ConditionTrue \<longleftrightarrow> Programmed d)
        \<and> (cn_Status p = ConditionTrue \<longleftrightarrow> Programmed d)
        \<and> (\<forall>c\<in>{a, r, p}. cn_ObservedGeneration c = om_Generation (pr_Meta route)))
    \<and> st_Database s = dc_Database d
    \<and> st_Endpoint s = (if dc_Accepted d then dc_Endpoint d else [])
    \<and> st_ConflictingRoute s = (if dc_Accepted d then [] else NamespacedName_String (dc_ConflictsWith d))
    \<and> (\<forall>t. t \<notin> managed_types \<longrightarrow> cond s t = cond (pr_Status route) t)"
proof -
  obtain a r p where c: "cond s ConditionAccepted = Some a" "cond s ConditionResolved = Some r"
      "cond s ConditionProgrammed = Some p"
    and w: "same_condition a (wanted api route d ConditionAccepted)"
      "same_condition r (wanted api route d ConditionResolved)"
      "same_condition p (wanted api route d ConditionProgrammed)"
    using desired_managed [OF assms(1), of ConditionAccepted] desired_managed [OF assms(1), of ConditionResolved]
      desired_managed [OF assms(1), of ConditionProgrammed] unfolding assms(2) by simp metis
  have "(cn_Status a = ConditionTrue \<longleftrightarrow> dc_Accepted d) \<and> (cn_Status r = ConditionTrue \<longleftrightarrow> Programmed d)
      \<and> (cn_Status p = ConditionTrue \<longleftrightarrow> Programmed d)
      \<and> (\<forall>c\<in>{a, r, p}. cn_ObservedGeneration c = om_Generation (pr_Meta route))"
    using w by (simp add: same_condition_def wanted_def acceptedCondition_def resolvedCondition_def
        programmedCondition_def newCondition_def Programmed_def ConditionTrue_def ConditionFalse_def split: option.split)
  with c show ?thesis
    using desired_fields [of api route d] desired_other [OF assms(1)] assms(2) by auto
qed

text \<open>Reconciling settles after one write: once the patched status is what the API server
  returns, reconciling the same route again under the same decision writes nothing, reports
  no error and asks for no requeue.\<close>

lemma reconcile_settles:
  assumes "condition_api api" and "sa_get api req = Inr route"
    and "distinct (map cn_Type (st_Conditions (pr_Status route)))"
    and "Reconcile api store req = (res, None, Some patched)"
  shows "Reconcile (api\<lparr>sa_get := \<lambda>_. Inr patched\<rparr>) store req = (noResult, None, None)"
proof -
  from assms(2,4) obtain d where del: "om_DeletionTimestamp (pr_Meta route) = None"
    and d: "Snapshot_Decision (Store_Load store) req = Some d"
    and p: "patched = route\<lparr>pr_Status := desiredStatus api route d\<rparr>"
    by (auto simp: Reconcile_def Let_def split: if_splits option.splits)
  let ?api = "api\<lparr>sa_get := \<lambda>_. Inr patched\<rparr>"
  have ap: "condition_api ?api" "\<And>x y. desiredStatus ?api x y = desiredStatus api x y"
    "\<And>x y. equalStatus ?api x y = equalStatus api x y"
    using assms(1)
    by (simp_all add: condition_api_def desiredStatus_def applyConditions_def setWithGeneration_def
        equalStatus_def Let_def)
  have "equalStatus api (pr_Status patched) (desiredStatus api patched d)"
    using desired_stable [OF assms(1,3)] p by simp
  then show ?thesis
    using del d p ap by (simp add: Reconcile_def Let_def)
qed

text \<open>A CA bundle Secret that does not exist is reported to the operator as a missing backend.
  The error of a failing CA bundle carries the client's not-found error, which the
  classification meets before it looks for the CA bundle class; with any other client error
  the reason is the CA bundle's.\<close>

lemma missing_ca_secret_reads_as_missing_backend:
  assumes nf: "\<And>m es. isNotFound (WrapError m es) = list_ex isNotFound es"
    and "\<And>x. \<not> isNotFound (Sentinel x)"
    and "prs_TLS (pr_Spec route) = Some spec" and "bt_Mode spec = BackendTLSVerifyCA"
    and "bt_CASecretRef spec = Some ref" and "cr_CABundles cr"
    and "\<And>c k. cr_getSecret cr c k = Inl err" and "\<not> errors_Is err ErrBackendNotFound"
    and "\<not> errors_Is err ErrPortNotFound"
  shows "\<exists>e. resolveTLS ctx route (asResolver isNotFound pemCerts cr) = Inl e \<and> errors_Is e ErrCABundle
    \<and> resolveFailureReason isNotFound e = (if isNotFound err then ReasonBackendNotFound else ReasonCABundleFailed)"
  using assms
  by (auto simp: resolveTLS_def asResolver_def LoadCABundle_def Let_def resolveFailureReason_def wrap2_def wrapf_def
      BackendTLSVerifyCA_def BackendTLSDisable_def)

section \<open>Witnesses\<close>

text \<open>A concrete pair of condition helpers, and an API server that holds one route.\<close>

fun set_condition :: "Condition \<Rightarrow> Condition list \<Rightarrow> Condition list" where
  "set_condition c [] = [c]"
| "set_condition c (x # xs) = (if cn_Type x = cn_Type c then c # xs else x # set_condition c xs)"

definition sample_api :: "PostgresRoute \<Rightarrow> status_api" where
  "sample_api route = \<lparr>sa_get = \<lambda>_. Inr route, sa_patchErr = \<lambda>_. None, sa_isNotFound = \<lambda>_. False, sa_isConflict = \<lambda>_. False,
     sa_setCondition = set_condition, sa_findCondition = \<lambda>cs t. find (\<lambda>c. cn_Type c = t) cs\<rparr>"

lemma sample_api_ok: "condition_api (sample_api route)"
proof -
  have "map cn_Type (set_condition c cs) = map cn_Type cs @ (if cn_Type c \<in> cn_Type ` set cs then [] else [cn_Type c])" for c cs
    by (induction cs) auto
  moreover have "find (\<lambda>x. cn_Type x = cn_Type c) (set_condition c cs) = Some c" for c cs
    by (induction cs) auto
  moreover have "t \<noteq> cn_Type c \<Longrightarrow> find (\<lambda>x. cn_Type x = t) (set_condition c cs) = find (\<lambda>x. cn_Type x = t) cs" for c cs t
    by (induction cs) auto
  ultimately show ?thesis by (simp add: condition_api_def sample_api_def same_condition_def)
qed

fun external_not_found :: "go_error \<Rightarrow> bool" where
  "external_not_found (External m ss) = (m = ''not found'')"
| "external_not_found (WrapError m es) = list_ex external_not_found es"
| "external_not_found _ = False"

lemma missing_ca_secret_reads_as_missing_backend_witness:
  "\<exists>e. resolveTLS None (sample_route ''a'' 10 (Some (verifying_tls\<lparr>bt_Mode := BackendTLSVerifyCA\<rparr>)))
        (asResolver external_not_found (\<lambda>_. []) sample_client) = Inl e
     \<and> errors_Is e ErrCABundle \<and> resolveFailureReason external_not_found e = ReasonBackendNotFound"
proof -
  let ?spec = "verifying_tls\<lparr>bt_Mode := BackendTLSVerifyCA\<rparr>"
  let ?r = "sample_route ''a'' 10 (Some ?spec)" and ?err = "External ''not found'' []"
  have "external_not_found (WrapError m es) = list_ex external_not_found es" "\<not> external_not_found (Sentinel x)" for m es x
    by simp_all
  moreover have "prs_TLS (pr_Spec ?r) = Some ?spec" "bt_Mode ?spec = BackendTLSVerifyCA"
    "bt_CASecretRef ?spec = Some \<lparr>skr_Name = ''pg-ca'', skr_Key = []\<rparr>"
    by (simp_all add: sample_route_def verifying_tls_def)
  moreover have "cr_CABundles sample_client" "cr_getSecret sample_client c k = Inl ?err" for c k
    by (simp_all add: sample_client_def WithCABundles_def NewClientResolver_def)
  moreover have "\<not> errors_Is ?err ErrBackendNotFound" "\<not> errors_Is ?err ErrPortNotFound" by simp_all
  ultimately show ?thesis
    using missing_ca_secret_reads_as_missing_backend [of external_not_found ?r ?spec _ sample_client ?err None "\<lambda>_. []"]
    by simp
qed

end
