(* ===== verification/Control_Plane.thy ===== *)
theory Control_Plane
  imports Status_Reconciler
begin

text \<open>
  The control plane of one replica as a whole: the routing-table builder
  (\<^verbatim>\<open>src/src/internal/controller/routetable.go\<close>), the store it publishes to, the channel of
  status events and the status reconciler
  (\<^verbatim>\<open>src/src/internal/controller/postgresroute_controller.go\<close>), running beside each other and
  beside whoever changes the cluster. Informer caches lag behind the API server, callbacks lag
  behind the caches, the reconciler works on what it read while the table moves on, patches
  fail or conflict, and the replica may become the leader at any time. Shown: where all of this
  comes to rest, the published table is the one of the cluster's routes and each route's status
  says what was decided about it, unless its announcement found the channel full; and status
  writes, which reach the builder as cluster events, neither change the table nor announce
  anything, so the two halves do not drive each other forever.
\<close>

section \<open>Definitions\<close>

text \<open>\<open>Reconcile\<close> up to its patch, and from the answer to the patch to its end.\<close>

datatype reconciling = Done Result "go_error option" | Patching PostgresRoute

definition reconcileRead :: "status_api \<Rightarrow> Store \<Rightarrow> NamespacedName \<Rightarrow> reconciling" where
  "reconcileRead api store req =
     (case sa_get api req of
        Inl err \<Rightarrow> Done noResult (if sa_isNotFound api err then None else Some err)
      | Inr route \<Rightarrow>
          if om_DeletionTimestamp (pr_Meta route) \<noteq> None then Done noResult None
          else case Snapshot_Decision (Store_Load store) req of
            None \<Rightarrow> Done (noResult\<lparr>res_RequeueAfter := 2 * DefaultDebounce\<rparr>) None
          | Some decision \<Rightarrow>
             (let desired = desiredStatus api route decision
              in if equalStatus api (pr_Status route) desired then Done noResult None
                 else Patching (route\<lparr>pr_Status := desired\<rparr>)))"

definition reconcilePatch :: "status_api \<Rightarrow> go_error option \<Rightarrow> Result \<times> go_error option" where
  "reconcilePatch api answer =
     (case answer of
        Some err \<Rightarrow>
          if sa_isConflict api err then (noResult, None)
          else (noResult, Some (wrapf ''patching PostgresRoute status'' err))
      | None \<Rightarrow> (noResult, None))"

text \<open>The workqueue holds a key once; a key comes back after an error or when asked for.\<close>

definition enqueue :: "NamespacedName \<Rightarrow> NamespacedName list \<Rightarrow> NamespacedName list" where
  "enqueue k q = (if k \<in> set q then q else q @ [k])"

definition requeue :: "Result \<Rightarrow> go_error option \<Rightarrow> NamespacedName \<Rightarrow> NamespacedName list \<Rightarrow> NamespacedName list" where
  "requeue res err k q =
     (if err \<noteq> None \<or> res_Requeue res \<or> 0 < sint (res_RequeueAfter res) then enqueue k q else q)"

text \<open>A change of one object, absent after a deletion, and a read through the informer cache.\<close>

definition put :: "'k \<times> 'v option \<Rightarrow> ('k, 'v) gomap \<Rightarrow> ('k, 'v) gomap" where
  "put c m = (case snd c of None \<Rightarrow> gomap_del m (fst c) | Some r \<Rightarrow> gomap_set m (fst c) r)"

definition cacheGet :: "go_error \<Rightarrow> (NamespacedName, PostgresRoute) gomap \<Rightarrow> NamespacedName \<Rightarrow> go_error + PostgresRoute" where
  "cacheGet notFound cache k = (case gomap_get cache k of None \<Rightarrow> Inl notFound | Some r \<Rightarrow> Inr r)"

text \<open>
  The state. \<open>cp_server\<close> is what the API server holds, \<open>cp_watch\<close> the changes the informer has
  not seen yet and \<open>cp_cache\<close> its cache. \<open>cp_calls\<close> counts the builder's callbacks that have not
  run, \<open>cp_listed\<close> is what a rebuild in progress has listed. \<open>cp_events\<close> are the informer's
  events on their way to the reconciler's queue, and \<open>cp_worker\<close> is the reconciler's one worker
  between its read and the answer to its patch: the key, the route it read and the route it
  sent. \<open>cp_failed\<close>, that the last rebuild failed, and \<open>cp_dropped\<close>, the keys whose announcement
  found the channel full and that were not reconciled since, are not part of the program.
\<close>

record control_plane =
  cp_server :: "(NamespacedName, PostgresRoute) gomap"
  cp_watch :: "(NamespacedName \<times> PostgresRoute option) list"
  cp_cache :: "(NamespacedName, PostgresRoute) gomap"
  cp_builder :: RouteTableBuilder
  cp_calls :: nat
  cp_pending :: bool
  cp_timer :: timer
  cp_listed :: "PostgresRoute list option"
  cp_leader :: bool
  cp_events :: "NamespacedName list"
  cp_queue :: "NamespacedName list"
  cp_worker :: "(NamespacedName \<times> PostgresRoute \<times> PostgresRoute) option"
  cp_failed :: bool
  cp_dropped :: "NamespacedName list"

abbreviation cp_store :: "control_plane \<Rightarrow> Store" where
  "cp_store cp \<equiv> the (rtb_Store (cp_builder cp))"

abbreviation cp_channel :: "control_plane \<Rightarrow> event_chan" where
  "cp_channel cp \<equiv> the (rtb_StatusEvents (cp_builder cp))"

abbreviation cp_trigger :: "control_plane \<Rightarrow> nat" where
  "cp_trigger cp \<equiv> sl_used (the (rtb_trigger (cp_builder cp)))"

definition cp_decision :: "control_plane \<Rightarrow> NamespacedName \<Rightarrow> Decision option" where
  "cp_decision cp k = Snapshot_Decision (Store_Load (cp_store cp)) k"

text \<open>The keys a rebuild announces, and those of them that the channel did not take.\<close>

definition announcements :: "RouteTableBuilder \<Rightarrow> RouteTableBuilder \<Rightarrow> NamespacedName list" where
  "announcements b b' =
     map fst (filter (announced (sn_Decisions (Store_Load (the (rtb_Store b)))))
       (sn_Decisions (Store_Load (the (rtb_Store b')))))"

definition lost_announcements :: "RouteTableBuilder \<Rightarrow> RouteTableBuilder \<Rightarrow> NamespacedName list" where
  "lost_announcements b b' =
     filter (\<lambda>k. k \<notin> set (ec_queue (the (rtb_StatusEvents b')))) (announcements b b')"

text \<open>One case of the builder's \<^verbatim>\<open>select\<close>: a trigger received, with the timer armed if it was not.\<close>

definition receiveTrigger :: "control_plane \<Rightarrow> control_plane" where
  "receiveTrigger cp =
     (let cp = cp\<lparr>cp_builder := (cp_builder cp)\<lparr>rtb_trigger :=
                 map_option (\<lambda>ch. ch\<lparr>sl_used := sl_used ch - 1\<rparr>) (rtb_trigger (cp_builder cp))\<rparr>\<rparr>
      in if \<not> cp_pending cp then cp\<lparr>cp_pending := True, cp_timer := Ticking\<rparr> else cp)"

text \<open>The schema of the resource makes the conditions a map keyed by their type.\<close>

definition tidy :: "PostgresRoute \<Rightarrow> bool" where
  "tidy r \<longleftrightarrow> distinct (map cn_Type (st_Conditions (pr_Status r)))"

text \<open>
  What happens around the control plane: routes are written and deleted, Services and Secrets
  change, the informers resync, and the replica is elected.
\<close>

inductive control_world :: "control_plane \<Rightarrow> control_plane \<Rightarrow> bool" where
  world_write: "route_key r = k \<Longrightarrow> tidy r \<Longrightarrow>
     control_world cp
       (cp\<lparr>cp_server := put (k, Some r) (cp_server cp), cp_watch := cp_watch cp @ [(k, Some r)]\<rparr>)"
| world_delete: "control_world cp
       (cp\<lparr>cp_server := put (k, None) (cp_server cp), cp_watch := cp_watch cp @ [(k, None)]\<rparr>)"
| world_backends: "control_world cp
       (cp\<lparr>cp_builder := (cp_builder cp)\<lparr>rtb_Resolver := Some resolver\<rparr>, cp_calls := cp_calls cp + 1\<rparr>)"
| resync: "gomap_get (cp_cache cp) k \<noteq> None \<Longrightarrow>
     control_world cp
       (cp\<lparr>cp_calls := cp_calls cp + 1, cp_events := cp_events cp @ (if cp_leader cp then [k] else [])\<rparr>)"
| elected: "\<not> cp_leader cp \<Longrightarrow>
     control_world cp (cp\<lparr>cp_leader := True, cp_events := map fst (cp_cache cp)\<rparr>)"

text \<open>The steps of the control plane itself and of the machinery that carries its events.\<close>

inductive control_step :: "status_api \<Rightarrow> go_error \<Rightarrow> go_ctx \<Rightarrow> control_plane \<Rightarrow> control_plane \<Rightarrow> bool" for api notFound ctx where
  informer: "cp_watch cp = c # cs \<Longrightarrow>
     control_step api notFound ctx cp
       (cp\<lparr>cp_watch := cs, cp_cache := put c (cp_cache cp), cp_calls := cp_calls cp + 1,
           cp_events := cp_events cp @ (if cp_leader cp then [fst c] else [])\<rparr>)"
| callback: "0 < cp_calls cp \<Longrightarrow>
     control_step api notFound ctx cp (cp\<lparr>cp_calls := cp_calls cp - 1, cp_builder := schedule (cp_builder cp)\<rparr>)"
| select_trigger: "cp_listed cp = None \<Longrightarrow> 0 < cp_trigger cp \<Longrightarrow>
     control_step api notFound ctx cp (receiveTrigger cp)"
| expire: "cp_timer cp = Ticking \<Longrightarrow> control_step api notFound ctx cp (cp\<lparr>cp_timer := Fired\<rparr>)"
| select_timer: "cp_listed cp = None \<Longrightarrow> cp_timer cp = Fired \<Longrightarrow> mset rs = mset (map snd (cp_cache cp)) \<Longrightarrow>
     control_step api notFound ctx cp (cp\<lparr>cp_timer := Stopped, cp_pending := False, cp_listed := Some rs\<rparr>)"
| select_timer_fails: "cp_listed cp = None \<Longrightarrow> cp_timer cp = Fired \<Longrightarrow>
     rebuild ctx (Inl err) (cp_builder cp) = Some (Some e, b', ms) \<Longrightarrow>
     control_step api notFound ctx cp
       (cp\<lparr>cp_timer := Stopped, cp_pending := False, cp_builder := b', cp_failed := True\<rparr>)"
| publish: "cp_listed cp = Some rs \<Longrightarrow> rebuild ctx (Inr rs) (cp_builder cp) = Some (None, b', ms) \<Longrightarrow>
     control_step api notFound ctx cp
       (cp\<lparr>cp_listed := None, cp_builder := b', cp_failed := False,
           cp_dropped := lost_announcements (cp_builder cp) b' @ cp_dropped cp\<rparr>)"
| deliver: "cp_events cp = k # ks \<Longrightarrow>
     control_step api notFound ctx cp (cp\<lparr>cp_events := ks, cp_queue := enqueue k (cp_queue cp)\<rparr>)"
| drain: "cp_leader cp \<Longrightarrow> rtb_StatusEvents (cp_builder cp) = Some ch \<Longrightarrow> ec_queue ch = k # ks \<Longrightarrow>
     control_step api notFound ctx cp
       (cp\<lparr>cp_builder := (cp_builder cp)\<lparr>rtb_StatusEvents := Some (ch\<lparr>ec_queue := ks\<rparr>)\<rparr>,
           cp_queue := enqueue k (cp_queue cp)\<rparr>)"
| reconcile_done: "cp_leader cp \<Longrightarrow> cp_worker cp = None \<Longrightarrow> k \<in> set (cp_queue cp) \<Longrightarrow>
     reconcileRead (api\<lparr>sa_get := cacheGet notFound (cp_cache cp)\<rparr>) (cp_store cp) k = Done res err \<Longrightarrow>
     control_step api notFound ctx cp
       (cp\<lparr>cp_queue := requeue res err k (removeAll k (cp_queue cp)), cp_dropped := removeAll k (cp_dropped cp)\<rparr>)"
| reconcile_patch: "cp_leader cp \<Longrightarrow> cp_worker cp = None \<Longrightarrow> k \<in> set (cp_queue cp) \<Longrightarrow>
     reconcileRead (api\<lparr>sa_get := cacheGet notFound (cp_cache cp)\<rparr>) (cp_store cp) k = Patching p \<Longrightarrow>
     gomap_get (cp_cache cp) k = Some r \<Longrightarrow>
     control_step api notFound ctx cp
       (cp\<lparr>cp_queue := removeAll k (cp_queue cp), cp_dropped := removeAll k (cp_dropped cp), cp_worker := Some (k, r, p)\<rparr>)"
| patch_applied: "cp_worker cp = Some (k, r, p) \<Longrightarrow> gomap_get (cp_server cp) k = Some now \<Longrightarrow>
     (pr_Status now = pr_Status r \<longrightarrow> status = pr_Status p) \<Longrightarrow> now\<lparr>pr_Status := status\<rparr> \<noteq> now \<Longrightarrow>
     tidy (now\<lparr>pr_Status := status\<rparr>) \<Longrightarrow> reconcilePatch api None = (res, err) \<Longrightarrow>
     control_step api notFound ctx cp
       (cp\<lparr>cp_worker := None, cp_server := put (k, Some (now\<lparr>pr_Status := status\<rparr>)) (cp_server cp),
           cp_watch := cp_watch cp @ [(k, Some (now\<lparr>pr_Status := status\<rparr>))], cp_queue := requeue res err k (cp_queue cp)\<rparr>)"
| patch_empty: "cp_worker cp = Some (k, r, p) \<Longrightarrow> gomap_get (cp_server cp) k = Some now \<Longrightarrow>
     (pr_Status now = pr_Status r \<longrightarrow> pr_Status now = pr_Status p) \<Longrightarrow> reconcilePatch api None = (res, err) \<Longrightarrow>
     control_step api notFound ctx cp (cp\<lparr>cp_worker := None, cp_queue := requeue res err k (cp_queue cp)\<rparr>)"
| patch_refused: "cp_worker cp = Some (k, r, p) \<Longrightarrow> (sa_isConflict api e \<longrightarrow> gomap_get (cp_server cp) k \<noteq> Some r) \<Longrightarrow>
     reconcilePatch api (Some e) = (res, err) \<Longrightarrow>
     control_step api notFound ctx cp (cp\<lparr>cp_worker := None, cp_queue := requeue res err k (cp_queue cp)\<rparr>)"

text \<open>
  The replica starts with synced caches, after the builder's first rebuild, which may have
  failed, and is not the leader yet.
\<close>

inductive control_reach :: "status_api \<Rightarrow> go_error \<Rightarrow> go_ctx \<Rightarrow> control_plane \<Rightarrow> bool" for api notFound ctx where
  control_start: "gomap_ok cache \<Longrightarrow> \<forall>k r. gomap_get cache k = Some r \<longrightarrow> route_key r = k \<Longrightarrow>
     \<forall>k r. gomap_get cache k = Some r \<longrightarrow> tidy r \<Longrightarrow>
     SetupWithManager cr toResolver None b0 = (None, b) \<Longrightarrow> rtb_StatusEvents b = Some \<lparr>ec_cap = cap, ec_queue = []\<rparr> \<Longrightarrow>
     (case listed of Inl e \<Rightarrow> True | Inr rs \<Rightarrow> mset rs = mset (map snd cache)) \<Longrightarrow>
     startBuilder getInformer addHandler ctx listed b = Some (None, b', ms) \<Longrightarrow>
     control_reach api notFound ctx
       \<lparr>cp_server = cache, cp_watch = [], cp_cache = cache, cp_builder = b', cp_calls = n, cp_pending = False, cp_timer = Stopped,
        cp_listed = None, cp_leader = False, cp_events = [], cp_queue = [], cp_worker = None, cp_failed = isl listed,
        cp_dropped = []\<rparr>"
| control_next: "control_reach api notFound ctx cp \<Longrightarrow> control_step api notFound ctx cp cp' \<Longrightarrow> control_reach api notFound ctx cp'"
| control_other: "control_reach api notFound ctx cp \<Longrightarrow> control_world cp cp' \<Longrightarrow> control_reach api notFound ctx cp'"

text \<open>
  Nothing is left to do: for the builder and its informers, and for the reconciler too. Only
  the leader empties the channel of status events.
\<close>

definition builder_resting :: "control_plane \<Rightarrow> bool" where
  "builder_resting cp \<longleftrightarrow>
     cp_watch cp = [] \<and> cp_calls cp = 0 \<and> cp_trigger cp = 0 \<and> cp_timer cp = Stopped \<and> cp_listed cp = None"

definition resting :: "control_plane \<Rightarrow> bool" where
  "resting cp \<longleftrightarrow> builder_resting cp \<and> cp_events cp = [] \<and> cp_queue cp = []
     \<and> (cp_leader cp \<longrightarrow> ec_queue (cp_channel cp) = []) \<and> cp_worker cp = None"

text \<open>A route's status is what a decision calls for, as far as the reconciler looks.\<close>

definition says :: "status_api \<Rightarrow> PostgresRoute \<Rightarrow> Decision \<Rightarrow> bool" where
  "says api r d \<longleftrightarrow> pr_Status r = desiredStatus api r d \<or> equalStatus api (pr_Status r) (desiredStatus api r d)"

section \<open>The phases of a reconciliation\<close>

lemma Reconcile_phases:
  "Reconcile api store req =
     (case reconcileRead api store req of
        Done res err \<Rightarrow> (res, err, None)
      | Patching p \<Rightarrow> (case reconcilePatch api (sa_patchErr api p) of (res, err) \<Rightarrow> (res, err, Some p)))"
  by (auto simp: Reconcile_def reconcileRead_def reconcilePatch_def Let_def split: sum.splits option.splits)

lemma api_get [simp]:
  "desiredStatus (api\<lparr>sa_get := g\<rparr>) = desiredStatus api" "equalStatus (api\<lparr>sa_get := g\<rparr>) = equalStatus api"
  by (simp_all add: fun_eq_iff desiredStatus_def applyConditions_def setWithGeneration_def equalStatus_def Let_def)

lemma reconcileRead_Done:
  assumes "reconcileRead (api\<lparr>sa_get := cacheGet nf cache\<rparr>) store k = Done res err" and "gomap_get cache k = Some r"
    and "om_DeletionTimestamp (pr_Meta r) = None"
  shows "Snapshot_Decision (Store_Load store) k = None \<or> (\<exists>d. Snapshot_Decision (Store_Load store) k = Some d \<and> says api r d)"
  using assms by (auto simp: reconcileRead_def cacheGet_def says_def Let_def split: option.splits if_splits)

lemma reconcileRead_Patching:
  assumes "reconcileRead (api\<lparr>sa_get := cacheGet nf cache\<rparr>) store k = Patching p" and "gomap_get cache k = Some r"
  shows "\<exists>d. Snapshot_Decision (Store_Load store) k = Some d \<and> p = r\<lparr>pr_Status := desiredStatus api r d\<rparr>"
  using assms by (auto simp: reconcileRead_def cacheGet_def Let_def split: option.splits if_splits)

lemma set_enqueue [simp]: "set (enqueue k q) = insert k (set q)"
  by (auto simp: enqueue_def)

lemma set_requeue: "set q \<subseteq> set (requeue res err k q)" "err \<noteq> None \<Longrightarrow> k \<in> set (requeue res err k q)"
  by (auto simp: requeue_def)

section \<open>Caches follow the server\<close>

lemma get_put [simp]: "gomap_get (put c m) k = (if k = fst c then snd c else gomap_get m k)"
  by (simp add: put_def split: option.split)

lemma gomap_ok_put [simp]: "gomap_ok m \<Longrightarrow> gomap_ok (put c m)"
  by (simp add: put_def split: option.split)

lemma get_fold_put: "k \<notin> fst ` set cs \<Longrightarrow> gomap_get (fold put cs m) k = gomap_get m k"
  by (induction cs arbitrary: m) auto

definition objects_inv :: "control_plane \<Rightarrow> bool" where
  "objects_inv cp \<longleftrightarrow> gomap_ok (cp_cache cp)
     \<and> (\<forall>k r. gomap_get (cp_cache cp) k = Some r \<longrightarrow> route_key r = k)
     \<and> (\<forall>k r. gomap_get (cp_server cp) k = Some r \<longrightarrow> route_key r = k)
     \<and> (\<forall>k r. (k, Some r) \<in> set (cp_watch cp) \<longrightarrow> route_key r = k)
     \<and> (\<forall>k. gomap_get (fold put (cp_watch cp) (cp_cache cp)) k = gomap_get (cp_server cp) k)"

lemma objects_inv_write:
  assumes "objects_inv cp" and "\<And>r. ro = Some r \<Longrightarrow> route_key r = k"
  shows "objects_inv (cp\<lparr>cp_server := put (k, ro) (cp_server cp), cp_watch := cp_watch cp @ [(k, ro)]\<rparr>)"
  using assms by (auto simp: objects_inv_def split: if_splits)

lemma objects_inv_informer:
  assumes "objects_inv cp" and "cp_watch cp = c # cs"
  shows "objects_inv (cp\<lparr>cp_watch := cs, cp_cache := put c (cp_cache cp)\<rparr>)"
  using assms by (cases c) (auto simp: objects_inv_def split: if_splits)

lemma objects_inv_frame:
  assumes "objects_inv cp" and "cp_cache cp' = cp_cache cp" and "cp_server cp' = cp_server cp" and "cp_watch cp' = cp_watch cp"
  shows "objects_inv cp'"
  using assms by (simp add: objects_inv_def)

lemma objects_inv_step:
  assumes "control_step api nf ctx cp cp'" and "objects_inv cp"
  shows "objects_inv cp'"
  using assms(1)
proof cases
  case (informer c cs)
  with objects_inv_informer [OF assms(2) informer(2)] show ?thesis by (simp add: objects_inv_def)
next
  case (patch_applied k r p now status res err)
  moreover have "route_key now = k" using assms(2) patch_applied(3) by (simp add: objects_inv_def)
  ultimately show ?thesis
    using objects_inv_write [OF assms(2), of "Some (now\<lparr>pr_Status := status\<rparr>)" k] by (simp add: objects_inv_def)
next
  case (select_trigger)
  then show ?thesis by (auto simp: receiveTrigger_def Let_def intro: objects_inv_frame [OF assms(2)])
qed (auto intro: objects_inv_frame [OF assms(2)])

lemma objects_inv_world:
  assumes "control_world cp cp'" and "objects_inv cp"
  shows "objects_inv cp'"
  using assms(1)
proof cases
  case (world_write r k)
  with objects_inv_write [OF assms(2), of "Some r" k] show ?thesis by simp
next
  case (world_delete k)
  with objects_inv_write [OF assms(2), of None k] show ?thesis by simp
qed (auto intro: objects_inv_frame [OF assms(2)])

section \<open>The table follows the caches\<close>

definition builder_ok :: "RouteTableBuilder \<Rightarrow> bool" where
  "builder_ok b \<longleftrightarrow> (\<exists>store resolver ch tr. rtb_Store b = Some store \<and> rtb_Resolver b = Some resolver
     \<and> rtb_StatusEvents b = Some ch \<and> length (ec_queue ch) \<le> ec_cap ch \<and> rtb_trigger b = Some tr \<and> sl_cap tr = 1)"

definition table_current :: "go_ctx \<Rightarrow> control_plane \<Rightarrow> bool" where
  "table_current ctx cp \<longleftrightarrow> Store_Load (cp_store cp) =
     Build ctx (map snd (cp_cache cp)) (the (rtb_Resolver (cp_builder cp))) (rtb_ClusterDomain (cp_builder cp))"

definition alerted :: "control_plane \<Rightarrow> bool" where
  "alerted cp \<longleftrightarrow> 0 < cp_calls cp \<or> 0 < cp_trigger cp"

definition table_inv :: "go_ctx \<Rightarrow> control_plane \<Rightarrow> bool" where
  "table_inv ctx cp \<longleftrightarrow> builder_ok (cp_builder cp) \<and> (cp_pending cp \<longleftrightarrow> cp_timer cp \<noteq> Stopped)
     \<and> (\<forall>rs. cp_listed cp = Some rs \<longrightarrow> mset rs = mset (map snd (cp_cache cp)) \<or> alerted cp)
     \<and> (table_current ctx cp \<or> cp_failed cp \<or> alerted cp \<or> cp_pending cp \<or> cp_listed cp \<noteq> None)"

lemma rebuild_builder:
  assumes "rebuild ctx (Inr rs) b = Some (err, b', ms)" and "builder_ok b"
  shows "builder_ok b'" and "Store_Load (the (rtb_Store b')) = Build ctx rs (the (rtb_Resolver b')) (rtb_ClusterDomain b')"
    and "rtb_trigger b' = rtb_trigger b"
    and "ec_queue (the (rtb_StatusEvents b')) = take (ec_cap (the (rtb_StatusEvents b))) (ec_queue (the (rtb_StatusEvents b)) @ announcements b b')"
    and "ec_cap (the (rtb_StatusEvents b')) = ec_cap (the (rtb_StatusEvents b))"
proof -
  obtain store resolver where st: "rtb_Store b = Some store" "rtb_Resolver b = Some resolver" "err = None"
    "b' = notifyChanged (Store_Load store) (Build ctx rs resolver (rtb_ClusterDomain b))
       (b\<lparr>rtb_Store := Some (Store_Store (Some (Build ctx rs resolver (rtb_ClusterDomain b))) store)\<rparr>)"
    using rebuild_okD [OF assms(1)] by metis
  obtain ch tr where b: "rtb_StatusEvents b = Some ch" "length (ec_queue ch) \<le> ec_cap ch" "rtb_trigger b = Some tr" "sl_cap tr = 1"
    using assms(2) by (auto simp: builder_ok_def)
  have cap: "ec_cap (notifyLoop prev cur c) = ec_cap c" for prev cur c
    by (induction prev cur c rule: notifyLoop.induct) (auto simp: notify_def split: option.split)
  note q = notifyLoop_queue [OF b(2)]
  show "builder_ok b'"
    using st b by (simp add: builder_ok_def notifyChanged_def q cap)
  show "Store_Load (the (rtb_Store b')) = Build ctx rs (the (rtb_Resolver b')) (rtb_ClusterDomain b')"
    "rtb_trigger b' = rtb_trigger b"
    "ec_queue (the (rtb_StatusEvents b')) = take (ec_cap (the (rtb_StatusEvents b))) (ec_queue (the (rtb_StatusEvents b)) @ announcements b b')"
    "ec_cap (the (rtb_StatusEvents b')) = ec_cap (the (rtb_StatusEvents b))"
    using st b by (simp_all add: notifyChanged_def Store_Load_Build q announcements_def cap)
qed

lemma Build_perm:
  assumes "gomap_ok m" and "\<forall>k r. gomap_get m k = Some r \<longrightarrow> route_key r = k" and "mset rs = mset (map snd m)"
  shows "Build ctx rs res cd = Build ctx (map snd m) res cd" and "distinct (map route_key (map snd m))"
proof -
  have "map route_key (map snd m) = map fst m"
    using assms(1,2) by (auto simp: gomap_ok_def)
  then show d: "distinct (map route_key (map snd m))" using assms(1) unfolding gomap_ok_def by argo
  show "Build ctx rs res cd = Build ctx (map snd m) res cd"
    unfolding Build_def using route_order.sort_perm [OF d assms(3) [symmetric]] by simp
qed

lemma schedule_alerts:
  assumes "builder_ok b"
  shows "builder_ok (schedule b)" and "0 < sl_used (the (rtb_trigger (schedule b)))"
    and "rtb_Store (schedule b) = rtb_Store b" and "rtb_Resolver (schedule b) = rtb_Resolver b"
    and "rtb_ClusterDomain (schedule b) = rtb_ClusterDomain b" and "rtb_StatusEvents (schedule b) = rtb_StatusEvents b"
  using assms by (auto simp: builder_ok_def schedule_def)

lemma table_inv_frame:
  assumes "table_inv ctx cp" and "cp_cache cp' = cp_cache cp" and "cp_builder cp' = cp_builder cp" and "cp_pending cp' = cp_pending cp"
    and "cp_timer cp' = cp_timer cp" and "cp_listed cp' = cp_listed cp" and "cp_failed cp' = cp_failed cp" and "cp_calls cp' = cp_calls cp"
  shows "table_inv ctx cp'"
  using assms by (auto simp: table_inv_def table_current_def alerted_def)

lemma table_inv_called:
  assumes "table_inv ctx cp" and "builder_ok (cp_builder cp')" and "0 < cp_calls cp'" and "cp_pending cp' = cp_pending cp"
    and "cp_timer cp' = cp_timer cp"
  shows "table_inv ctx cp'"
  using assms by (simp add: table_inv_def alerted_def)

lemma table_inv_step:
  assumes "control_step api nf ctx cp cp'" and "table_inv ctx cp" and "objects_inv cp"
  shows "table_inv ctx cp'"
proof -
  have b: "builder_ok (cp_builder cp)" using assms(2) by (simp add: table_inv_def)
  note frame = table_inv_frame [OF assms(2)] and called = table_inv_called [OF assms(2)]
  from assms(1) show ?thesis
  proof cases
    case callback
    with schedule_alerts [OF b] assms(2) show ?thesis by (simp add: table_inv_def alerted_def)
  next
    case select_trigger
    with assms(2) show ?thesis
      by (auto simp: table_inv_def receiveTrigger_def Let_def builder_ok_def)
  next
    case (publish rs b' ms)
    note r = rebuild_builder [OF publish(3) b]
    have "Store_Load (the (rtb_Store b')) = Build ctx (map snd (cp_cache cp)) (the (rtb_Resolver b')) (rtb_ClusterDomain b')"
      if "mset rs = mset (map snd (cp_cache cp))"
      using r(2) Build_perm(1) [OF _ _ that] assms(3) by (simp add: objects_inv_def)
    with publish r assms(2) show ?thesis
      by (auto simp: table_inv_def table_current_def alerted_def)
  next
    case (drain ch k ks)
    with assms(2) show ?thesis by (auto simp: table_inv_def builder_ok_def table_current_def alerted_def)
  next
    case (select_timer_fails err e b' ms)
    with assms(2) show ?thesis by (auto simp: table_inv_def rebuild_def)
  next
    case (informer c cs)
    then show ?thesis using b by (auto intro: called)
  next
    case expire
    with assms(2) show ?thesis by (simp add: table_inv_def table_current_def alerted_def)
  next
    case (select_timer rs)
    with assms(2) show ?thesis by (simp add: table_inv_def)
  qed (auto intro: frame)
qed

lemma table_inv_world:
  assumes "control_world cp cp'" and "table_inv ctx cp"
  shows "table_inv ctx cp'"
proof -
  have b: "builder_ok (cp_builder cp)" using assms(2) by (simp add: table_inv_def)
  note called = table_inv_called [OF assms(2)]
  from assms(1) show ?thesis
  proof cases
    case (world_backends resolver)
    then show ?thesis using b by (auto simp: builder_ok_def intro: called)
  next
    case (resync k)
    then show ?thesis using b by (auto intro: called)
  qed (auto intro: table_inv_frame [OF assms(2)])
qed

section \<open>Statuses follow the table\<close>

lemma decisionChanged_refl [simp]: "\<not> decisionChanged d d"
  by (simp add: decisionChanged_def)

lemma decisionChanged_trans: "\<not> decisionChanged a b \<Longrightarrow> \<not> decisionChanged b c \<Longrightarrow> \<not> decisionChanged a c"
  by (simp add: decisionChanged_def split: if_splits)

text \<open>Something will bring the key back to the reconciler, or its announcement was lost.\<close>

definition waiting :: "control_plane \<Rightarrow> NamespacedName \<Rightarrow> bool" where
  "waiting cp k \<longleftrightarrow> k \<in> set (cp_queue cp) \<union> set (cp_events cp) \<union> set (ec_queue (cp_channel cp)) \<union> fst ` set (cp_watch cp)
     \<union> set (cp_dropped cp)"

definition settled :: "status_api \<Rightarrow> control_plane \<Rightarrow> NamespacedName \<Rightarrow> PostgresRoute \<Rightarrow> bool" where
  "settled api cp k r \<longleftrightarrow> (\<exists>d d'. cp_decision cp k = Some d \<and> \<not> decisionChanged d' d \<and> says api r d')"

definition in_hand :: "control_plane \<Rightarrow> NamespacedName \<Rightarrow> bool" where
  "in_hand cp k \<longleftrightarrow> (\<exists>r p. cp_worker cp = Some (k, r, p))"

definition routes_inv :: "status_api \<Rightarrow> control_plane \<Rightarrow> bool" where
  "routes_inv api cp \<longleftrightarrow> (\<forall>k r. gomap_get (cp_cache cp) k = Some r \<and> om_DeletionTimestamp (pr_Meta r) = None \<longrightarrow>
     waiting cp k \<or> in_hand cp k \<or> cp_decision cp k = None \<or> settled api cp k r)"

definition worker_inv :: "status_api \<Rightarrow> control_plane \<Rightarrow> bool" where
  "worker_inv api cp \<longleftrightarrow> (\<forall>k r p. cp_worker cp = Some (k, r, p) \<longrightarrow>
     waiting cp k \<or> cp_decision cp k = None
     \<or> gomap_get (cp_cache cp) k = Some r
       \<and> (\<exists>d d'. cp_decision cp k = Some d \<and> \<not> decisionChanged d' d \<and> p = r\<lparr>pr_Status := desiredStatus api r d'\<rparr>))"

definition status_inv :: "status_api \<Rightarrow> control_plane \<Rightarrow> bool" where
  "status_inv api cp \<longleftrightarrow> (cp_worker cp \<noteq> None \<longrightarrow> cp_leader cp) \<and> (cp_leader cp \<longrightarrow> routes_inv api cp \<and> worker_inv api cp)"

text \<open>Steps that leave the cache, the decisions and the worker alone and lose no key.\<close>

lemma status_inv_frame:
  assumes "status_inv api cp" and "cp_cache cp' = cp_cache cp" and "cp_decision cp' = cp_decision cp"
    and "cp_leader cp' = cp_leader cp" and "cp_worker cp' = cp_worker cp" and "\<And>k. waiting cp k \<Longrightarrow> waiting cp' k"
  shows "status_inv api cp'"
  using assms(1-5) unfolding status_inv_def routes_inv_def worker_inv_def settled_def in_hand_def
  using assms(6) by metis

lemma status_inv_informer:
  assumes "status_inv api cp" and "cp_watch cp = c # cs"
  shows "status_inv api (cp\<lparr>cp_watch := cs, cp_cache := put c (cp_cache cp), cp_calls := n,
           cp_events := cp_events cp @ (if cp_leader cp then [fst c] else [])\<rparr>)" (is "status_inv api ?cp")
proof -
  have same: "cp_decision ?cp = cp_decision cp" "\<And>k. in_hand ?cp k = in_hand cp k" "\<And>k r. settled api ?cp k r = settled api cp k r"
    by (simp_all add: fun_eq_iff cp_decision_def in_hand_def settled_def)
  have wait: "waiting ?cp k" if "waiting cp k" "cp_leader cp" for k
    using that assms(2) by (auto simp: waiting_def)
  have here: "waiting ?cp (fst c)" if "cp_leader cp" using that by (simp add: waiting_def)
  have "routes_inv api ?cp" if "cp_leader cp"
    unfolding routes_inv_def same
  proof (intro allI impI)
    fix k r
    assume "gomap_get (cp_cache ?cp) k = Some r \<and> om_DeletionTimestamp (pr_Meta r) = None"
    then show "waiting ?cp k \<or> in_hand cp k \<or> cp_decision cp k = None \<or> settled api cp k r"
      using assms(1) that here wait [of k] by (cases "k = fst c") (auto simp: status_inv_def routes_inv_def)
  qed
  moreover have "worker_inv api ?cp" if "cp_leader cp"
    unfolding worker_inv_def same
  proof (intro allI impI)
    fix k r p
    assume "cp_worker ?cp = Some (k, r, p)"
    then show "waiting ?cp k \<or> cp_decision cp k = None \<or> gomap_get (cp_cache ?cp) k = Some r
       \<and> (\<exists>d d'. cp_decision cp k = Some d \<and> \<not> decisionChanged d' d \<and> p = r\<lparr>pr_Status := desiredStatus api r d'\<rparr>)"
      using assms(1) that here wait [of k] by (cases "k = fst c") (auto simp: status_inv_def worker_inv_def)
  qed
  ultimately show ?thesis using assms(1) by (simp add: status_inv_def)
qed

text \<open>What a rebuild does for one key: it is announced, or loses its decision, or keeps an equivalent one.\<close>

lemma publish_decision:
  assumes "rebuild ctx (Inr rs) b = Some (err, b', ms)" and "builder_ok b"
    and "Snapshot_Decision (Store_Load (the (rtb_Store b'))) k = Some d'"
  shows "k \<in> set (ec_queue (the (rtb_StatusEvents b'))) \<union> set (lost_announcements b b')
    \<or> (\<exists>d. Snapshot_Decision (Store_Load (the (rtb_Store b))) k = Some d \<and> \<not> decisionChanged d d')"
proof (cases "announced (sn_Decisions (Store_Load (the (rtb_Store b)))) (k, d')")
  case True
  then have "k \<in> set (announcements b b')"
    using assms(3) by (force simp: announcements_def Snapshot_Decision_def dest: map_of_SomeD)
  then show ?thesis by (auto simp: lost_announcements_def)
qed (auto simp: announced_def Snapshot_Decision_def split: option.splits)

lemma status_inv_publish:
  assumes inv: "status_inv api cp" and b: "builder_ok (cp_builder cp)" and r: "rebuild ctx (Inr rs) (cp_builder cp) = Some (err, b', ms)"
  shows "status_inv api (cp\<lparr>cp_listed := None, cp_builder := b', cp_failed := False,
           cp_dropped := lost_announcements (cp_builder cp) b' @ cp_dropped cp\<rparr>)" (is "status_inv api ?cp")
proof -
  have q: "set (ec_queue (cp_channel cp)) \<subseteq> set (ec_queue (the (rtb_StatusEvents b')))"
    using rebuild_builder(4) [OF r b] b by (auto simp: builder_ok_def)
  have wait: "waiting ?cp k" if "waiting cp k" for k using that q by (auto simp: waiting_def)
  have dec: "waiting ?cp k \<or> (\<exists>d. cp_decision cp k = Some d \<and> \<not> decisionChanged d d')" if "cp_decision ?cp k = Some d'" for k d'
    using publish_decision [OF r b, of k d'] that by (auto simp: waiting_def cp_decision_def)
  have keep: "waiting ?cp k \<or> cp_decision ?cp k = None \<or> (\<exists>d1. cp_decision ?cp k = Some d1 \<and> \<not> decisionChanged d0 d1)"
    if "cp_decision cp k = Some d" "\<not> decisionChanged d0 d" for k d d0
    using dec [of k] that decisionChanged_trans [OF that(2)] by (cases "cp_decision ?cp k") auto
  have new: "waiting ?cp k \<or> cp_decision ?cp k = None" if "cp_decision cp k = None" for k
    using dec [of k] that by (cases "cp_decision ?cp k") auto
  have hand: "in_hand ?cp k = in_hand cp k" for k by (simp add: in_hand_def)
  have "routes_inv api ?cp" if "cp_leader cp"
    unfolding routes_inv_def
  proof (intro allI impI)
    fix k r
    assume "gomap_get (cp_cache ?cp) k = Some r \<and> om_DeletionTimestamp (pr_Meta r) = None"
    then have "waiting cp k \<or> in_hand cp k \<or> cp_decision cp k = None \<or> settled api cp k r"
      using inv that by (simp add: status_inv_def routes_inv_def)
    then show "waiting ?cp k \<or> in_hand ?cp k \<or> cp_decision ?cp k = None \<or> settled api ?cp k r"
      using keep [of k] new [of k] wait [of k] by (auto simp: hand settled_def)
  qed
  moreover have "worker_inv api ?cp" if "cp_leader cp"
    unfolding worker_inv_def
  proof (intro allI impI)
    fix k r p
    assume "cp_worker ?cp = Some (k, r, p)"
    then consider "waiting cp k" | "cp_decision cp k = None"
      | d d0 where "gomap_get (cp_cache cp) k = Some r" "cp_decision cp k = Some d" "\<not> decisionChanged d0 d"
          "p = r\<lparr>pr_Status := desiredStatus api r d0\<rparr>"
      using inv that by (auto simp: status_inv_def worker_inv_def)
    then show "waiting ?cp k \<or> cp_decision ?cp k = None \<or> gomap_get (cp_cache ?cp) k = Some r
       \<and> (\<exists>d d'. cp_decision ?cp k = Some d \<and> \<not> decisionChanged d' d \<and> p = r\<lparr>pr_Status := desiredStatus api r d'\<rparr>)"
    proof cases
      case (3 d d0)
      have "gomap_get (cp_cache ?cp) k = Some r" using 3(1) by simp
      with keep [OF 3(2,3)] 3(4) show ?thesis by blast
    qed (use new [of k] wait [of k] in blast)+
  qed
  ultimately show ?thesis using inv by (simp add: status_inv_def)
qed

text \<open>The worker puts its key down: someone else will bring it back, or it is settled.\<close>

lemma status_inv_put_down:
  assumes inv: "status_inv api cp" and w: "cp_worker cp = Some (k, r, p)"
    and same: "cp_cache cp' = cp_cache cp" "cp_decision cp' = cp_decision cp" "cp_leader cp' = cp_leader cp" "cp_worker cp' = None"
    and wait: "\<And>k'. waiting cp k' \<Longrightarrow> waiting cp' k'"
    and k: "\<And>d d'. gomap_get (cp_cache cp) k = Some r \<Longrightarrow> cp_decision cp k = Some d \<Longrightarrow> \<not> decisionChanged d' d \<Longrightarrow>
      p = r\<lparr>pr_Status := desiredStatus api r d'\<rparr> \<Longrightarrow> waiting cp' k \<or> says api r d'"
  shows "status_inv api cp'"
proof -
  have l: "cp_leader cp" using inv w by (simp add: status_inv_def)
  then have ri: "routes_inv api cp" and wi: "worker_inv api cp" using inv by (auto simp: status_inv_def)
  have "routes_inv api cp'"
    unfolding routes_inv_def same
  proof (intro allI impI)
    fix k' r'
    assume r': "gomap_get (cp_cache cp) k' = Some r' \<and> om_DeletionTimestamp (pr_Meta r') = None"
    show "waiting cp' k' \<or> in_hand cp' k' \<or> cp_decision cp k' = None \<or> settled api cp' k' r'"
    proof (cases "k' = k")
      case True
      from wi w have "waiting cp k \<or> cp_decision cp k = None \<or> gomap_get (cp_cache cp) k = Some r
        \<and> (\<exists>d d'. cp_decision cp k = Some d \<and> \<not> decisionChanged d' d \<and> p = r\<lparr>pr_Status := desiredStatus api r d'\<rparr>)"
        by (simp add: worker_inv_def)
      with True k wait [of k] r' show ?thesis unfolding settled_def same by auto
    next
      case False
      then have "\<not> in_hand cp k'" using w by (simp add: in_hand_def)
      with ri r' have "waiting cp k' \<or> cp_decision cp k' = None \<or> settled api cp k' r'" by (auto simp: routes_inv_def)
      with wait [of k'] show ?thesis by (auto simp: settled_def same)
    qed
  qed
  then show ?thesis using same(4) by (simp add: status_inv_def worker_inv_def)
qed

text \<open>The worker takes a key up: the other keys keep their places.\<close>

lemma status_inv_take_up:
  assumes inv: "status_inv api cp" and l: "cp_leader cp" and w: "cp_worker cp = None"
    and same: "cp_cache cp' = cp_cache cp" "cp_decision cp' = cp_decision cp" "cp_leader cp' = cp_leader cp"
    and wait: "\<And>k'. k' \<noteq> k \<Longrightarrow> waiting cp k' \<Longrightarrow> waiting cp' k'"
    and k: "\<And>r. gomap_get (cp_cache cp) k = Some r \<Longrightarrow> om_DeletionTimestamp (pr_Meta r) = None \<Longrightarrow>
      in_hand cp' k \<or> cp_decision cp k = None \<or> settled api cp k r"
    and w': "worker_inv api cp'"
  shows "status_inv api cp'"
proof -
  have "routes_inv api cp'"
    unfolding routes_inv_def same
  proof (intro allI impI)
    fix k' r
    assume r: "gomap_get (cp_cache cp) k' = Some r \<and> om_DeletionTimestamp (pr_Meta r) = None"
    then have "waiting cp k' \<or> cp_decision cp k' = None \<or> settled api cp k' r"
      using inv l w by (auto simp: status_inv_def routes_inv_def in_hand_def)
    with r wait [of k'] k [of r] show "waiting cp' k' \<or> in_hand cp' k' \<or> cp_decision cp k' = None \<or> settled api cp' k' r"
      by (cases "k' = k") (auto simp: settled_def same)
  qed
  with w' l same(3) show ?thesis by (simp add: status_inv_def)
qed

lemma status_inv_done:
  assumes inv: "status_inv api cp" and l: "cp_leader cp" and w: "cp_worker cp = None"
    and read: "reconcileRead (api\<lparr>sa_get := cacheGet nf (cp_cache cp)\<rparr>) (cp_store cp) k = Done res err"
  shows "status_inv api (cp\<lparr>cp_queue := requeue res err k (removeAll k (cp_queue cp)), cp_dropped := removeAll k (cp_dropped cp)\<rparr>)"
    (is "status_inv api ?cp")
proof (rule status_inv_take_up [OF inv l w, where k = k])
  show "waiting ?cp k'" if "k' \<noteq> k" "waiting cp k'" for k'
    using that by (auto simp: waiting_def requeue_def)
  show "in_hand ?cp k \<or> cp_decision cp k = None \<or> settled api cp k r"
    if "gomap_get (cp_cache cp) k = Some r" "om_DeletionTimestamp (pr_Meta r) = None" for r
    using reconcileRead_Done [OF read that] decisionChanged_refl unfolding cp_decision_def settled_def by blast
qed (simp_all add: fun_eq_iff cp_decision_def worker_inv_def w)

lemma status_inv_patch:
  assumes inv: "status_inv api cp" and l: "cp_leader cp" and w: "cp_worker cp = None"
    and read: "reconcileRead (api\<lparr>sa_get := cacheGet nf (cp_cache cp)\<rparr>) (cp_store cp) k = Patching p"
    and r: "gomap_get (cp_cache cp) k = Some r"
  shows "status_inv api (cp\<lparr>cp_queue := removeAll k (cp_queue cp), cp_dropped := removeAll k (cp_dropped cp), cp_worker := Some (k, r, p)\<rparr>)"
    (is "status_inv api ?cp")
proof (rule status_inv_take_up [OF inv l w, where k = k])
  show "waiting ?cp k'" if "k' \<noteq> k" "waiting cp k'" for k'
    using that by (auto simp: waiting_def)
  show "in_hand ?cp k \<or> cp_decision cp k = None \<or> settled api cp k r'" for r'
    by (simp add: in_hand_def)
  show "worker_inv api ?cp"
    using reconcileRead_Patching [OF read r] r by (simp add: worker_inv_def cp_decision_def) (metis decisionChanged_refl)
qed (simp_all add: fun_eq_iff cp_decision_def)

lemma status_inv_elected:
  assumes "status_inv api cp" and "\<not> cp_leader cp"
  shows "status_inv api (cp\<lparr>cp_leader := True, cp_events := map fst (cp_cache cp)\<rparr>)"
  using assms by (auto simp: status_inv_def routes_inv_def worker_inv_def waiting_def dest: map_of_SomeD intro: rev_image_eqI)

lemma objects_inv_behind:
  assumes "objects_inv cp" and "gomap_get (cp_server cp) k \<noteq> gomap_get (cp_cache cp) k"
  shows "k \<in> fst ` set (cp_watch cp)"
  using assms get_fold_put [of k "cp_watch cp" "cp_cache cp"] by (auto simp: objects_inv_def)

text \<open>A patch that changes nothing, or that is refused, leaves a key waiting unless its status is right.\<close>

lemma status_inv_patch_empty:
  assumes inv: "status_inv api cp" and obj: "objects_inv cp" and w: "cp_worker cp = Some (k, r, p)"
    and now: "gomap_get (cp_server cp) k = Some now" "pr_Status now = pr_Status r \<longrightarrow> pr_Status now = pr_Status p"
  shows "status_inv api (cp\<lparr>cp_worker := None, cp_queue := requeue res err k (cp_queue cp)\<rparr>)" (is "status_inv api ?cp")
proof -
  have "waiting ?cp k \<or> says api r d'"
    if "gomap_get (cp_cache cp) k = Some r" "p = r\<lparr>pr_Status := desiredStatus api r d'\<rparr>" for d'
  proof (cases "now = r")
    case True
    with that now(2) show ?thesis by (simp add: says_def)
  next
    case False
    with that now(1) objects_inv_behind [OF obj, of k] show ?thesis by (auto simp: waiting_def)
  qed
  then show ?thesis
    using set_requeue(1) [of "cp_queue cp" res err k]
    by (intro status_inv_put_down [OF inv w]) (auto simp: fun_eq_iff cp_decision_def waiting_def)
qed

lemma status_inv_patch_refused:
  assumes inv: "status_inv api cp" and obj: "objects_inv cp" and w: "cp_worker cp = Some (k, r, p)"
    and e: "sa_isConflict api e \<longrightarrow> gomap_get (cp_server cp) k \<noteq> Some r" "reconcilePatch api (Some e) = (res, err)"
  shows "status_inv api (cp\<lparr>cp_worker := None, cp_queue := requeue res err k (cp_queue cp)\<rparr>)" (is "status_inv api ?cp")
proof -
  have "waiting ?cp k" if "gomap_get (cp_cache cp) k = Some r"
  proof (cases "sa_isConflict api e")
    case True
    with that e(1) objects_inv_behind [OF obj, of k] show ?thesis by (auto simp: waiting_def)
  next
    case False
    then have "err \<noteq> None" using e(2) by (auto simp: reconcilePatch_def)
    then show ?thesis using set_requeue(2) by (simp add: waiting_def)
  qed
  then show ?thesis
    using set_requeue(1) [of "cp_queue cp" res err k]
    by (intro status_inv_put_down [OF inv w]) (auto simp: fun_eq_iff cp_decision_def waiting_def)
qed

lemma status_inv_step:
  assumes step: "control_step api nf ctx cp cp'" and inv: "status_inv api cp" and tab: "table_inv ctx cp" and obj: "objects_inv cp"
  shows "status_inv api cp'"
proof -
  have b: "builder_ok (cp_builder cp)" using tab by (simp add: table_inv_def)
  note frame = status_inv_frame [OF inv]
  from step show ?thesis
  proof cases
    case (informer c cs)
    with status_inv_informer [OF inv informer(2)] show ?thesis by simp
  next
    case (publish rs b' ms)
    with status_inv_publish [OF inv b publish(3)] show ?thesis by simp
  next
    case (reconcile_done k res err)
    with status_inv_done [OF inv reconcile_done(2,3,5)] show ?thesis by simp
  next
    case (reconcile_patch k p r)
    with status_inv_patch [OF inv reconcile_patch(2,3,5,6)] show ?thesis by simp
  next
    case (patch_applied k r p now status res err)
    have "waiting cp' k" by (simp add: patch_applied(1) waiting_def)
    then show ?thesis
      using set_requeue(1) [of "cp_queue cp" res err k]
      by (intro status_inv_put_down [OF inv patch_applied(2)])
        (auto simp: patch_applied(1) fun_eq_iff cp_decision_def waiting_def)
  next
    case (patch_empty k r p now res err)
    with status_inv_patch_empty [OF inv obj patch_empty(2,3,4)] show ?thesis by simp
  next
    case (patch_refused k r p e res err)
    with status_inv_patch_refused [OF inv obj patch_refused(2,3,4)] show ?thesis by simp
  next
    case callback
    then show ?thesis
      using schedule_alerts [OF b] by (intro frame) (auto simp: fun_eq_iff cp_decision_def waiting_def)
  next
    case select_trigger
    then show ?thesis by (intro frame) (auto simp: receiveTrigger_def Let_def fun_eq_iff cp_decision_def waiting_def)
  next
    case (select_timer_fails err e b' ms)
    then show ?thesis by (intro frame) (auto simp: rebuild_def fun_eq_iff cp_decision_def waiting_def)
  qed (intro frame, auto simp: fun_eq_iff cp_decision_def waiting_def)+
qed

lemma status_inv_world:
  assumes "control_world cp cp'" and "status_inv api cp"
  shows "status_inv api cp'"
  using assms(1)
proof cases
  case elected
  with status_inv_elected [OF assms(2)] show ?thesis by simp
qed (intro status_inv_frame [OF assms(2)], auto simp: fun_eq_iff cp_decision_def waiting_def)+

section \<open>Where it comes to rest\<close>

lemma SetupWithManager_builder_ok:
  assumes "SetupWithManager cr toResolver None b0 = (None, b)" and "rtb_StatusEvents b = Some \<lparr>ec_cap = cap, ec_queue = []\<rparr>"
  shows "builder_ok b"
  using assms by (auto simp: SetupWithManager_def builder_ok_def Let_def split: if_splits)

lemma control_start_inv:
  assumes cache: "gomap_ok cache" "\<forall>k r. gomap_get cache k = Some r \<longrightarrow> route_key r = k" and b: "builder_ok b"
    and listed: "case listed of Inl e \<Rightarrow> True | Inr rs \<Rightarrow> mset rs = mset (map snd cache)"
    and start: "startBuilder gi ah ctx listed b = Some (None, b', ms)"
  shows "builder_ok b' \<and> (isl listed \<or> Store_Load (the (rtb_Store b')) = Build ctx (map snd cache) (the (rtb_Resolver b')) (rtb_ClusterDomain b'))"
proof -
  obtain logged where r: "rebuild ctx listed b = Some (logged, b', ms)"
    using start by (auto simp: startBuilder_def split: option.splits)
  show ?thesis
  proof (cases listed)
    case (Inl e)
    with r b show ?thesis by (simp add: rebuild_def)
  next
    case (Inr rs)
    with r b listed rebuild_builder(1,2) [of ctx rs b logged b' ms] Build_perm(1) [OF cache, of rs] show ?thesis by simp
  qed
qed

lemma control_reach_inv:
  "control_reach api nf ctx cp \<Longrightarrow> objects_inv cp \<and> table_inv ctx cp \<and> status_inv api cp"
proof (induction rule: control_reach.induct)
  case (control_start cache cr toResolver b0 b cap listed gi ah b' ms n)
  note b' = control_start_inv [OF control_start(1,2) SetupWithManager_builder_ok [OF control_start(4,5)] control_start(6,7)]
  with control_start(1,2) show ?case
    by (auto simp: objects_inv_def table_inv_def table_current_def status_inv_def)
next
  case (control_next cp cp')
  then show ?case using objects_inv_step table_inv_step status_inv_step by metis
next
  case (control_other cp cp')
  then show ?case using objects_inv_world table_inv_world status_inv_world by metis
qed

text \<open>At rest the caches agree with the server and the snapshot with the caches.\<close>

lemma control_rest:
  assumes "control_reach api nf ctx cp" and "builder_resting cp" and "\<not> cp_failed cp"
  shows "gomap_get (cp_cache cp) = gomap_get (cp_server cp)"
    and "Store_Load (cp_store cp) = Build ctx (map snd (cp_cache cp)) (the (rtb_Resolver (cp_builder cp))) (rtb_ClusterDomain (cp_builder cp))"
    and "distinct (map route_key (map snd (cp_cache cp)))"
    and "gomap_get (cp_cache cp) k = Some r \<Longrightarrow> route_key r = k" and "gomap_get (cp_cache cp) k = Some r \<Longrightarrow> r \<in> set (map snd (cp_cache cp))"
proof -
  have inv: "objects_inv cp" "table_inv ctx cp" using control_reach_inv [OF assms(1)] by auto
  have "gomap_get (cp_cache cp) k = gomap_get (cp_server cp) k" for k
    using objects_inv_behind [OF inv(1), of k] assms(2)
    by (cases "gomap_get (cp_server cp) k = gomap_get (cp_cache cp) k") (auto simp: builder_resting_def)
  then show "gomap_get (cp_cache cp) = gomap_get (cp_server cp)" by (rule ext)
  have "table_current ctx cp"
    using inv(2) assms(2,3) by (auto simp: table_inv_def builder_resting_def alerted_def)
  then show "Store_Load (cp_store cp) = Build ctx (map snd (cp_cache cp)) (the (rtb_Resolver (cp_builder cp))) (rtb_ClusterDomain (cp_builder cp))"
    by (simp add: table_current_def)
  show "distinct (map route_key (map snd (cp_cache cp)))"
    using inv(1) Build_perm(2) [of "cp_cache cp" "map snd (cp_cache cp)"] by (simp add: objects_inv_def)
  show "gomap_get (cp_cache cp) k = Some r \<Longrightarrow> route_key r = k" using inv(1) by (simp add: objects_inv_def)
  show "gomap_get (cp_cache cp) k = Some r \<Longrightarrow> r \<in> set (map snd (cp_cache cp))" by (force dest: map_of_SomeD)
qed

section \<open>Status writes do not feed back\<close>

definition restatus :: "(NamespacedName \<Rightarrow> PostgresRouteStatus) \<Rightarrow> PostgresRoute \<Rightarrow> PostgresRoute" where
  "restatus st r = r\<lparr>pr_Status := st (route_key r)\<rparr>"

lemma restatus_same [simp]:
  "pr_Meta (restatus st r) = pr_Meta r" "pr_Spec (restatus st r) = pr_Spec r"
  by (simp_all add: restatus_def)

lemma resolveBounded_restatus: "resolveBounded ctx (restatus st r) = resolveBounded ctx r"
  unfolding resolveBounded_def resolve_def resolveBackend_def resolveTLS_def EffectiveDatabase_def EffectiveTargetDatabase_def
    restatus_same by simp

lemma build_step_restatus:
  "build_step (\<lambda>r. resolveBounded ctx r resolver cd) (restatus st r) = build_step (\<lambda>r. resolveBounded ctx r resolver cd) r"
  unfolding build_step_def resolveBounded_restatus EffectiveDatabase_def restatus_same by simp

lemma sort_restatus: "sort_SliceStable less_route (map (restatus st) rs) = map (restatus st) (sort_SliceStable less_route rs)"
proof -
  have "slice_insert less_route (restatus st r) (map (restatus st) xs) = map (restatus st) (slice_insert less_route r xs)" for r xs
    by (induction xs) (auto simp: less_route_def)
  then show ?thesis by (induction rs) simp_all
qed

lemma Build_restatus: "Build ctx (map (restatus st) rs) resolver cd = Build ctx rs resolver cd"
proof -
  have "fold (build_step (\<lambda>r. resolveBounded ctx r resolver cd)) (map (restatus st) xs) s
      = fold (build_step (\<lambda>r. resolveBounded ctx r resolver cd)) xs s" for xs s
    by (induction xs arbitrary: s) (simp_all add: build_step_restatus)
  then show ?thesis by (simp add: Build_def sort_restatus Let_def)
qed

lemma Build_decisions_ok: "gomap_ok (sn_Decisions (Build ctx rs resolver cd))"
proof -
  have step: "gomap_ok (bs_decisions (build_step res r s))" if "gomap_ok (bs_decisions s)" for res r s
    using that by (simp add: build_step_def Let_def split: option.split sum.split)
  have "gomap_ok (bs_decisions (fold (build_step res) xs s))" if "gomap_ok (bs_decisions s)" for res xs s
    using that by (induction xs arbitrary: s) (simp_all add: step)
  then show ?thesis by (simp add: Build_def Let_def)
qed

lemma notifyLoop_nothing: "\<forall>x\<in>set current. \<not> announced previous x \<Longrightarrow> notifyLoop previous current ch = ch"
  by (induction previous current ch rule: notifyLoop.induct) (auto simp: announced_def split: option.splits)

lemma nothing_announced: "gomap_ok m \<Longrightarrow> x \<in> set m \<Longrightarrow> \<not> announced m x"
  by (cases x) (simp add: announced_def gomap_ok_def)

text \<open>Rebuilding what is published already changes and announces nothing.\<close>

lemma rebuild_current:
  assumes "rtb_Store b = Some store" and "rtb_Resolver b = Some resolver"
    and "Store_Load store = Build ctx rs resolver (rtb_ClusterDomain b)"
  shows "rebuild ctx (Inr rs) b = Some (None, b, [RoutesSet (Table_Len (the (sn_Table (Store_Load store))))])"
    and "announcements b b = []"
proof -
  let ?sn = "Build ctx rs resolver (rtb_ClusterDomain b)"
  have again: "Store_Store (Some ?sn) store = store"
    using assms(3) by (cases store) (simp add: Store_Store_def Store_Load_def Build_def Let_def)
  have none: "\<forall>x\<in>set (sn_Decisions ?sn). \<not> announced (sn_Decisions ?sn) x"
    using nothing_announced [OF Build_decisions_ok] by blast
  then have "notifyLoop (sn_Decisions ?sn) (sn_Decisions ?sn) ch = ch" for ch by (rule notifyLoop_nothing)
  then have "notifyChanged ?sn ?sn (b\<lparr>rtb_Store := Some store\<rparr>) = b"
    using assms(1) by (cases b) (simp add: notifyChanged_def split: option.split)
  then show "rebuild ctx (Inr rs) b = Some (None, b, [RoutesSet (Table_Len (the (sn_Table (Store_Load store))))])"
    by (simp add: rebuild_def assms again SetRouteCount_def Let_def)
  show "announcements b b = []" using none by (simp add: announcements_def assms(1,3) filter_empty_conv)
qed

lemma rebuild_again_any:
  assumes "rebuild ctx (Inr rs) b = Some (e, b', ms)"
    and "Build ctx rs' (the (rtb_Resolver b)) (rtb_ClusterDomain b) = Build ctx rs (the (rtb_Resolver b)) (rtb_ClusterDomain b)"
  shows "rebuild ctx (Inr rs') (b'\<lparr>rtb_StatusEvents := ch\<rparr>) = Some (None, b'\<lparr>rtb_StatusEvents := ch\<rparr>, ms)"
proof -
  obtain store resolver where st: "rtb_Store b = Some store" "rtb_Resolver b = Some resolver"
    "b' = notifyChanged (Store_Load store) (Build ctx rs resolver (rtb_ClusterDomain b))
       (b\<lparr>rtb_Store := Some (Store_Store (Some (Build ctx rs resolver (rtb_ClusterDomain b))) store)\<rparr>)"
    "ms = [RoutesSet (Table_Len (the (sn_Table (Build ctx rs resolver (rtb_ClusterDomain b)))))]"
    using rebuild_okD [OF assms(1)] by metis
  let ?b = "b'\<lparr>rtb_StatusEvents := ch\<rparr>"
  have fields: "rtb_Store ?b = Some (Store_Store (Some (Build ctx rs resolver (rtb_ClusterDomain b))) store)"
    "rtb_Resolver ?b = Some resolver" "rtb_ClusterDomain ?b = rtb_ClusterDomain b"
    by (simp_all add: st(1-3) notifyChanged_def split: option.split)
  show ?thesis
    using rebuild_current(1) [OF fields(1,2), of ctx rs'] assms(2) fields(3) by (simp add: st(2,4) Store_Load_Build)
qed

lemma rebuild_again:
  assumes "rebuild ctx (Inr rs) b = Some (e, b', ms)"
    and "Build ctx rs' (the (rtb_Resolver b)) (rtb_ClusterDomain b) = Build ctx rs (the (rtb_Resolver b)) (rtb_ClusterDomain b)"
  shows "rebuild ctx (Inr rs') b' = Some (None, b', ms)"
  using rebuild_again_any [OF assms, of "rtb_StatusEvents b'"] by simp

text \<open>Routes of which only statuses changed, listed in any order, build the same snapshot.\<close>

lemma Build_restatus_perm:
  assumes "distinct (map route_key rs)" and "mset rs' = mset (map (restatus st) rs)"
  shows "Build ctx rs' resolver cd = Build ctx rs resolver cd"
proof -
  have "distinct (map route_key (map (restatus st) rs))" using assms(1) by (simp add: o_def)
  then have "Build ctx rs' resolver cd = Build ctx (map (restatus st) rs) resolver cd"
    unfolding Build_def using route_order.sort_perm [OF _ assms(2) [symmetric]] by simp
  then show ?thesis by (simp add: Build_restatus)
qed

text \<open>What the comparators of the code amount to.\<close>

lemma decisionChanged_iff:
  "\<not> decisionChanged d' d \<longleftrightarrow> dc_Database d' = dc_Database d \<and> dc_Accepted d' = dc_Accepted d
     \<and> dc_ConflictsWith d' = dc_ConflictsWith d \<and> dc_Endpoint d' = dc_Endpoint d
     \<and> (case dc_ResolveErr d' of None \<Rightarrow> [] | Some e \<Rightarrow> error_text e) =
       (case dc_ResolveErr d of None \<Rightarrow> [] | Some e \<Rightarrow> error_text e)"
  by (auto simp: decisionChanged_def errorMessage_def)

lemma saysD:
  assumes "says api r d"
  shows "st_ObservedGeneration (pr_Status r) = om_Generation (pr_Meta r)" "st_Database (pr_Status r) = dc_Database d"
    "st_Endpoint (pr_Status r) = (if dc_Accepted d then dc_Endpoint d else [])"
    "st_ConflictingRoute (pr_Status r) = (if dc_Accepted d then [] else NamespacedName_String (dc_ConflictsWith d))"
    "st_Conditions (pr_Status r) = st_Conditions (desiredStatus api r d)
     \<or> length (st_Conditions (pr_Status r)) = length (st_Conditions (desiredStatus api r d))
       \<and> (\<forall>want\<in>set (st_Conditions (desiredStatus api r d)). \<exists>got.
            sa_findCondition api (st_Conditions (pr_Status r)) (cn_Type want) = Some got
            \<and> cn_Status got = cn_Status want \<and> cn_Reason got = cn_Reason want
            \<and> cn_Message got = cn_Message want \<and> cn_ObservedGeneration got = cn_ObservedGeneration want)"
proof -
  let ?d = "desiredStatus api r d"
  have "st_ObservedGeneration (pr_Status r) = st_ObservedGeneration ?d \<and> st_Database (pr_Status r) = st_Database ?d
      \<and> st_Endpoint (pr_Status r) = st_Endpoint ?d \<and> st_ConflictingRoute (pr_Status r) = st_ConflictingRoute ?d
      \<and> (st_Conditions (pr_Status r) = st_Conditions ?d
         \<or> length (st_Conditions (pr_Status r)) = length (st_Conditions ?d)
           \<and> (\<forall>want\<in>set (st_Conditions ?d). \<exists>got.
                sa_findCondition api (st_Conditions (pr_Status r)) (cn_Type want) = Some got
                \<and> cn_Status got = cn_Status want \<and> cn_Reason got = cn_Reason want
                \<and> cn_Message got = cn_Message want \<and> cn_ObservedGeneration got = cn_ObservedGeneration want))"
    using assms unfolding says_def
  proof
    assume "equalStatus api (pr_Status r) ?d"
    then show ?thesis by (fastforce simp: equalStatus_def list_all_iff split: if_splits option.splits)
  qed simp
  then show "st_ObservedGeneration (pr_Status r) = om_Generation (pr_Meta r)" "st_Database (pr_Status r) = dc_Database d"
    "st_Endpoint (pr_Status r) = (if dc_Accepted d then dc_Endpoint d else [])"
    "st_ConflictingRoute (pr_Status r) = (if dc_Accepted d then [] else NamespacedName_String (dc_ConflictsWith d))"
    "st_Conditions (pr_Status r) = st_Conditions ?d
     \<or> length (st_Conditions (pr_Status r)) = length (st_Conditions ?d)
       \<and> (\<forall>want\<in>set (st_Conditions ?d). \<exists>got.
            sa_findCondition api (st_Conditions (pr_Status r)) (cn_Type want) = Some got
            \<and> cn_Status got = cn_Status want \<and> cn_Reason got = cn_Reason want
            \<and> cn_Message got = cn_Message want \<and> cn_ObservedGeneration got = cn_ObservedGeneration want)"
    using desired_fields [of api r d] by simp_all
qed

section \<open>Properties\<close>

text \<open>C13: Where the control plane comes to rest it is right. In every reachable state with nothing left
  to do and no failed rebuild, whatever happened before (writes and deletions, lagging caches,
  debounced rebuilds, patches lost to conflicts and errors, a late election), the caches show the
  server's routes and the published snapshot is the one built from them. On the leader every
  route that is not being deleted, unless its announcement was lost to a full channel, carries a
  status of its current generation with the database, the endpoint and the conflicting route of
  its published decision, and the conditions of a decision that agrees with the published one
  in these fields, in acceptance and in the text of the resolve error (the reason in a condition
  may be that of an earlier error of the same text).\<close>

theorem control_plane_settles:
  assumes "control_reach api notFound ctx cp" and "resting cp" and "\<not> cp_failed cp"
  shows "gomap_get (cp_cache cp) = gomap_get (cp_server cp)
    \<and> Store_Load (cp_store cp) = Build ctx (map snd (cp_cache cp)) (the (rtb_Resolver (cp_builder cp))) (rtb_ClusterDomain (cp_builder cp))
    \<and> (\<forall>k r. cp_leader cp \<and> gomap_get (cp_server cp) k = Some r \<and> om_DeletionTimestamp (pr_Meta r) = None \<and> k \<notin> set (cp_dropped cp) \<longrightarrow>
         (\<exists>d d'. Snapshot_Decision (Store_Load (cp_store cp)) k = Some d
           \<and> st_ObservedGeneration (pr_Status r) = om_Generation (pr_Meta r)
           \<and> st_Database (pr_Status r) = dc_Database d
           \<and> st_Endpoint (pr_Status r) = (if dc_Accepted d then dc_Endpoint d else [])
           \<and> st_ConflictingRoute (pr_Status r) =
               (if dc_Accepted d then [] else NamespacedName_String (dc_ConflictsWith d))
           \<and> dc_Database d' = dc_Database d \<and> dc_Accepted d' = dc_Accepted d
           \<and> dc_ConflictsWith d' = dc_ConflictsWith d \<and> dc_Endpoint d' = dc_Endpoint d
           \<and> (case dc_ResolveErr d' of None \<Rightarrow> [] | Some e \<Rightarrow> error_text e) =
               (case dc_ResolveErr d of None \<Rightarrow> [] | Some e \<Rightarrow> error_text e)
           \<and> (st_Conditions (pr_Status r) = st_Conditions (desiredStatus api r d')
              \<or> length (st_Conditions (pr_Status r)) = length (st_Conditions (desiredStatus api r d'))
                \<and> (\<forall>want\<in>set (st_Conditions (desiredStatus api r d')). \<exists>got.
                     sa_findCondition api (st_Conditions (pr_Status r)) (cn_Type want) = Some got
                     \<and> cn_Status got = cn_Status want \<and> cn_Reason got = cn_Reason want
                     \<and> cn_Message got = cn_Message want \<and> cn_ObservedGeneration got = cn_ObservedGeneration want))))"
proof (intro conjI allI impI)
  have b: "builder_resting cp" using assms(2) by (simp add: resting_def)
  note rest = control_rest [OF assms(1) b assms(3)]
  show server: "gomap_get (cp_cache cp) = gomap_get (cp_server cp)" by (rule rest(1))
  show table: "Store_Load (cp_store cp) = Build ctx (map snd (cp_cache cp)) (the (rtb_Resolver (cp_builder cp))) (rtb_ClusterDomain (cp_builder cp))"
    by (rule rest(2))
  have inv: "status_inv api cp" using control_reach_inv [OF assms(1)] by auto
  fix k r
  assume k: "cp_leader cp \<and> gomap_get (cp_server cp) k = Some r \<and> om_DeletionTimestamp (pr_Meta r) = None \<and> k \<notin> set (cp_dropped cp)"
  then have r: "gomap_get (cp_cache cp) k = Some r" using server by simp
  have "cp_decision cp k \<noteq> None"
    using rest(3) rest(4,5) [OF r] Build_decision [of "map snd (cp_cache cp)" r] by (auto simp: cp_decision_def table)
  moreover have "\<not> waiting cp k" "\<not> in_hand cp k" using k assms(2) by (auto simp: waiting_def in_hand_def resting_def builder_resting_def)
  moreover have "routes_inv api cp" using inv k by (simp add: status_inv_def)
  ultimately obtain d d' where d: "Snapshot_Decision (Store_Load (cp_store cp)) k = Some d" and ch: "\<not> decisionChanged d' d"
    and tells: "says api r d'"
    using r k unfolding routes_inv_def settled_def cp_decision_def by metis
  note agree = ch [unfolded decisionChanged_iff] and told = saysD [OF tells]
  show "\<exists>d d'. Snapshot_Decision (Store_Load (cp_store cp)) k = Some d
           \<and> st_ObservedGeneration (pr_Status r) = om_Generation (pr_Meta r)
           \<and> st_Database (pr_Status r) = dc_Database d
           \<and> st_Endpoint (pr_Status r) = (if dc_Accepted d then dc_Endpoint d else [])
           \<and> st_ConflictingRoute (pr_Status r) =
               (if dc_Accepted d then [] else NamespacedName_String (dc_ConflictsWith d))
           \<and> dc_Database d' = dc_Database d \<and> dc_Accepted d' = dc_Accepted d
           \<and> dc_ConflictsWith d' = dc_ConflictsWith d \<and> dc_Endpoint d' = dc_Endpoint d
           \<and> (case dc_ResolveErr d' of None \<Rightarrow> [] | Some e \<Rightarrow> error_text e) =
               (case dc_ResolveErr d of None \<Rightarrow> [] | Some e \<Rightarrow> error_text e)
           \<and> (st_Conditions (pr_Status r) = st_Conditions (desiredStatus api r d')
              \<or> length (st_Conditions (pr_Status r)) = length (st_Conditions (desiredStatus api r d'))
                \<and> (\<forall>want\<in>set (st_Conditions (desiredStatus api r d')). \<exists>got.
                     sa_findCondition api (st_Conditions (pr_Status r)) (cn_Type want) = Some got
                     \<and> cn_Status got = cn_Status want \<and> cn_Reason got = cn_Reason want
                     \<and> cn_Message got = cn_Message want \<and> cn_ObservedGeneration got = cn_ObservedGeneration want))"
    by (rule exI [of _ d], rule exI [of _ d'], intro conjI)
      (use d agree told in \<open>simp_all only: refl conj_absorb simp_thms\<close>)
qed

text \<open>C29: Status writes do not feed back into routing. Every status the reconciler writes comes back to the
  builder as a change of a route; a rebuild over routes of which only statuses changed, listed
  in any order, leaves the published snapshot and the channel of status events exactly as they
  were. So writing statuses never causes more of them.\<close>

theorem status_writes_do_not_feed_back:
  assumes "rebuild ctx (Inr rs) b = Some (e, b', ms)" and "distinct (map route_key rs)"
    and "mset rs' = mset (map (restatus st) rs)"
  shows "rebuild ctx (Inr rs') b' = Some (None, b', ms)"
  using rebuild_again [OF assms(1)] Build_restatus_perm [OF assms(2,3)] by blast

text \<open>C38: Announcements that do not fit the channel are not made up for, on the leader as on any replica. A
  rebuild that changes more decisions than the channel has room for sends the first of them only.
  Rebuilding again over the same routes, whatever has become of their statuses and of their order,
  then sends nothing at all, whatever the channel holds by that time, so also after the leader has
  emptied it.\<close>

theorem full_channel_loses_announcements:
  assumes "rebuild ctx (Inr rs) b = Some (e, b', ms)" and "builder_ok b" and "distinct (map route_key rs)"
    and "ec_cap (the (rtb_StatusEvents b)) < length (ec_queue (the (rtb_StatusEvents b))) + length (announcements b b')"
  shows "\<exists>sent lost. announcements b b' = sent @ lost \<and> lost \<noteq> []
    \<and> ec_queue (the (rtb_StatusEvents b')) = ec_queue (the (rtb_StatusEvents b)) @ sent
    \<and> (\<forall>ch st rs'. mset rs' = mset (map (restatus st) rs) \<longrightarrow>
         rebuild ctx (Inr rs') (b'\<lparr>rtb_StatusEvents := Some ch\<rparr>) = Some (None, b'\<lparr>rtb_StatusEvents := Some ch\<rparr>, ms))"
proof -
  let ?room = "ec_cap (the (rtb_StatusEvents b)) - length (ec_queue (the (rtb_StatusEvents b)))"
  have "length (ec_queue (the (rtb_StatusEvents b))) \<le> ec_cap (the (rtb_StatusEvents b))" using assms(2) by (auto simp: builder_ok_def)
  then have "ec_queue (the (rtb_StatusEvents b')) = ec_queue (the (rtb_StatusEvents b)) @ take ?room (announcements b b')"
    and "drop ?room (announcements b b') \<noteq> []"
    using rebuild_builder(4) [OF assms(1,2)] assms(4) by auto
  moreover have "\<forall>ch st rs'. mset rs' = mset (map (restatus st) rs) \<longrightarrow>
      rebuild ctx (Inr rs') (b'\<lparr>rtb_StatusEvents := Some ch\<rparr>) = Some (None, b'\<lparr>rtb_StatusEvents := Some ch\<rparr>, ms)"
    using rebuild_again_any [OF assms(1)] Build_restatus_perm [OF assms(3)] by blast
  ultimately show ?thesis
    by (intro exI [of _ "take ?room (announcements b b')"] exI [of _ "drop ?room (announcements b b')"]) simp
qed

section \<open>Witnesses\<close>

text \<open>A cluster with one route whose status is already the right one: the new leader looks and rests.\<close>

definition told_route :: PostgresRoute where
  "told_route = high_route\<lparr>pr_Status := desiredStatus (sample_api high_route) high_route
     (the (Snapshot_Decision (Build None [high_route] sample_resolver ''cluster.local'') (route_key high_route)))\<rparr>"

lemma told_route [simp]:
  "pr_Meta told_route = pr_Meta high_route" "om_DeletionTimestamp (pr_Meta high_route) = None"
  by (simp_all add: told_route_def sample_route_def)

lemma Build_told: "Build None [told_route] sample_resolver cd = Build None [high_route] sample_resolver cd"
  using Build_restatus [of None "\<lambda>_. pr_Status told_route" "[high_route]" sample_resolver cd]
  by (simp add: restatus_def told_route_def)

lemma Build_one: "\<exists>d. sn_Decisions (Build ctx [r] resolver cd) = [(route_key r, d)]"
  by (auto simp: Build_def build_step_def Let_def gomap_set_def split: sum.split)

lemma told_says:
  assumes "Snapshot_Decision (Build None [high_route] sample_resolver ''cluster.local'') (route_key high_route) = Some d"
  shows "equalStatus (sample_api high_route) (pr_Status told_route) (desiredStatus (sample_api high_route) told_route d)"
  using desired_stable [OF sample_api_ok, of high_route told_route high_route d] assms
  by (simp add: told_route_def sample_route_def)

lemma sample_builder_setup: "SetupWithManager cr toResolver None sample_builder = (None, sample_builder)"
  by (simp add: SetupWithManager_def sample_builder_def DefaultDebounce_def time_Millisecond_def Let_def)

lemma sample_builder_ok: "builder_ok sample_builder"
  by (rule SetupWithManager_builder_ok [OF sample_builder_setup, where cap = 1024]) (simp add: sample_builder_def)

lemma sample_rebuild: "\<exists>b' ms. rebuild None (Inr rs) sample_builder = Some (None, b', ms)"
  by (simp add: rebuild_def sample_builder_def Let_def)

lemma sample_announces:
  assumes "rebuild None (Inr rs) sample_builder = Some (e, b', ms)"
  shows "announcements sample_builder b' = map fst (sn_Decisions (Build None rs sample_resolver ''cluster.local''))"
proof -
  have "rtb_Resolver b' = Some sample_resolver" "rtb_ClusterDomain b' = ''cluster.local''"
    using assms by (auto simp: rebuild_def sample_builder_def notifyChanged_def Let_def)
  moreover have "announced (sn_Decisions (Store_Load (the (rtb_Store sample_builder)))) x" for x
    by (simp add: sample_builder_def NewStore_def Store_Load_def announced_def)
  ultimately show ?thesis
    using rebuild_builder(2) [OF assms sample_builder_ok] by (simp add: announcements_def)
qed

lemma sample_rest:
  "\<exists>cp. control_reach (sample_api high_route) (External ''not found'' []) None cp \<and> resting cp \<and> \<not> cp_failed cp \<and> cp_leader cp
     \<and> cp_dropped cp = [] \<and> gomap_get (cp_server cp) (route_key high_route) = Some told_route"
proof -
  let ?k = "route_key high_route" and ?api = "sample_api high_route" and ?nf = "External ''not found'' []"
  let ?cache = "[(?k, told_route)]" and ?step = "control_step (sample_api high_route) (External ''not found'' []) None"
  obtain b ms where b: "rebuild None (Inr [told_route]) sample_builder = Some (None, b, ms)" using sample_rebuild by blast
  obtain d where d: "sn_Decisions (Build None [high_route] sample_resolver ''cluster.local'') = [(?k, d)]" using Build_one by blast
  have kept: "rtb_Resolver b = Some sample_resolver" "rtb_ClusterDomain b = ''cluster.local''" "rtb_trigger b = Some \<lparr>sl_cap = 1, sl_used = 0\<rparr>"
    using b by (auto simp: rebuild_def sample_builder_def notifyChanged_def Let_def)
  have store: "Store_Load (the (rtb_Store b)) = Build None [high_route] sample_resolver ''cluster.local''"
    using rebuild_builder(2) [OF b sample_builder_ok] by (simp add: kept Build_told)
  have "ec_queue (the (rtb_StatusEvents b)) = [?k]"
    using rebuild_builder(4) [OF b sample_builder_ok] sample_announces [OF b] by (simp add: Build_told d) (simp add: sample_builder_def)
  then obtain ch where ch: "rtb_StatusEvents b = Some ch" "ec_queue ch = [?k]"
    using rebuild_builder(1) [OF b sample_builder_ok] by (auto simp: builder_ok_def)
  define cp0 where "cp0 = \<lparr>cp_server = ?cache, cp_watch = [], cp_cache = ?cache, cp_builder = b, cp_calls = 0, cp_pending = False,
    cp_timer = Stopped, cp_listed = None, cp_leader = False, cp_events = [], cp_queue = [], cp_worker = None, cp_failed = isl (Inr [told_route] :: go_error + PostgresRoute list),
    cp_dropped = []\<rparr>"
  define cp1 where "cp1 = cp0\<lparr>cp_leader := True, cp_events := map fst (cp_cache cp0)\<rparr>"
  define cp2 where "cp2 = cp1\<lparr>cp_events := [], cp_queue := enqueue ?k (cp_queue cp1)\<rparr>"
  define cp3 where "cp3 = cp2\<lparr>cp_builder := (cp_builder cp2)\<lparr>rtb_StatusEvents := Some (ch\<lparr>ec_queue := []\<rparr>)\<rparr>, cp_queue := enqueue ?k (cp_queue cp2)\<rparr>"
  define cp4 where "cp4 = cp3\<lparr>cp_queue := requeue noResult None ?k (removeAll ?k (cp_queue cp3)), cp_dropped := removeAll ?k (cp_dropped cp3)\<rparr>"
  note cps = cp0_def cp1_def cp2_def cp3_def cp4_def
  have start: "startBuilder (\<lambda>_. None) (\<lambda>_. None) None (Inr [told_route]) sample_builder = Some (None, b, ms)"
    using b by (simp add: startBuilder_def watched_def watch_def)
  have "tidy told_route"
    using desired_types(1) [OF sample_api_ok, of high_route] by (simp add: tidy_def told_route_def sample_route_def)
  then have "control_reach ?api ?nf None cp0"
    unfolding cp0_def
    by (intro control_start [OF _ _ _ sample_builder_setup [of sample_client "\<lambda>_. sample_resolver"] _ _ start, where cap = 1024])
      (simp_all add: sample_builder_def gomap_ok_def)
  then have "control_reach ?api ?nf None cp1"
    unfolding cp1_def by (rule control_other [OF _ elected]) (simp add: cp0_def)
  moreover have "?step cp1 cp2" unfolding cp2_def by (rule deliver) (simp add: cp0_def cp1_def)
  moreover have "?step cp2 cp3" unfolding cp3_def by (rule drain [where ch = ch]) (simp_all add: cp0_def cp1_def cp2_def ch)
  moreover have "Snapshot_Decision (Build None [high_route] sample_resolver ''cluster.local'') ?k = Some d"
    by (simp add: Snapshot_Decision_def d)
  then have "reconcileRead (?api\<lparr>sa_get := cacheGet ?nf (cp_cache cp3)\<rparr>) (cp_store cp3) ?k = Done noResult None"
    using told_says by (simp add: reconcileRead_def cacheGet_def cp0_def cp1_def cp2_def cp3_def store Let_def)
  then have "?step cp3 cp4" unfolding cp4_def by (rule reconcile_done [rotated 3]) (simp_all add: cp0_def cp1_def cp2_def cp3_def)
  ultimately have "control_reach ?api ?nf None cp4" by (blast intro: control_next)
  moreover have "resting cp4" "\<not> cp_failed cp4" "cp_leader cp4" "cp_dropped cp4 = []" "gomap_get (cp_server cp4) ?k = Some told_route"
    by (simp_all add: resting_def builder_resting_def cps enqueue_def requeue_def noResult_def kept)
  ultimately show ?thesis by blast
qed

theorem control_plane_settles_witness:
  "\<exists>cp d. control_reach (sample_api high_route) (External ''not found'' []) None cp \<and> resting cp
     \<and> gomap_get (cp_server cp) (route_key high_route) = Some told_route
     \<and> Snapshot_Decision (Store_Load (cp_store cp)) (route_key high_route) = Some d
     \<and> st_Database (pr_Status told_route) = dc_Database d
     \<and> st_Endpoint (pr_Status told_route) = (if dc_Accepted d then dc_Endpoint d else [])"
proof -
  obtain cp where cp: "control_reach (sample_api high_route) (External ''not found'' []) None cp" "resting cp" "\<not> cp_failed cp" "cp_leader cp"
    "cp_dropped cp = []" "gomap_get (cp_server cp) (route_key high_route) = Some told_route"
    using sample_rest by blast
  have "om_DeletionTimestamp (pr_Meta told_route) = None" "route_key high_route \<notin> set (cp_dropped cp)" by (simp_all add: cp(5))
  then obtain d where "Snapshot_Decision (Store_Load (cp_store cp)) (route_key high_route) = Some d"
    "st_Database (pr_Status told_route) = dc_Database d"
    "st_Endpoint (pr_Status told_route) = (if dc_Accepted d then dc_Endpoint d else [])"
    using cp(4,6) control_plane_settles [OF cp(1-3)] by metis
  with cp show ?thesis by blast
qed

theorem status_writes_do_not_feed_back_witness:
  "\<exists>b ms. rebuild None (Inr [low_route, high_route]) sample_builder = Some (None, b, ms)
     \<and> rebuild None (Inr [told_route, low_route]) b = Some (None, b, ms)"
proof -
  obtain b ms where b: "rebuild None (Inr [low_route, high_route]) sample_builder = Some (None, b, ms)" using sample_rebuild by blast
  have "mset [told_route, low_route] = mset (map (restatus (\<lambda>k. if k = route_key high_route then pr_Status told_route else pr_Status low_route))
      [low_route, high_route])"
    using sample_routes_distinct(1) by (simp add: restatus_def told_route_def)
  from status_writes_do_not_feed_back [OF b sample_routes_distinct(1) this] b show ?thesis by blast
qed

text \<open>One route more than the channel of the process holds, all new.\<close>

definition many_routes :: "nat \<Rightarrow> PostgresRoute list" where
  "many_routes n = map (\<lambda>i. sample_route (replicate i CHR ''r'') 10 None) [0..<n]"

lemma many_routes: "distinct (map route_key (many_routes n))" "length (many_routes n) = n"
proof -
  have "inj_on (\<lambda>i. route_key (sample_route (replicate i CHR ''r'') 10 None)) {0..<n}"
    by (rule inj_onI) (simp add: sample_route_def objectKey_def)
  then show "distinct (map route_key (many_routes n))" by (simp add: many_routes_def distinct_map o_def)
  show "length (many_routes n) = n" by (simp add: many_routes_def)
qed

lemma Build_announces_all:
  assumes "distinct (map route_key rs)"
  shows "length rs \<le> length (sn_Decisions (Build ctx rs resolver cd))"
proof -
  have "route_key ` set rs \<subseteq> fst ` set (sn_Decisions (Build ctx rs resolver cd))"
    using Build_decision [OF assms] by (force simp: Snapshot_Decision_def dest: map_of_SomeD)
  then have "card (route_key ` set rs) \<le> card (fst ` set (sn_Decisions (Build ctx rs resolver cd)))"
    by (intro card_mono) simp_all
  also have "\<dots> \<le> length (sn_Decisions (Build ctx rs resolver cd))"
    by (metis card_length length_map set_map)
  finally show ?thesis using assms by (metis distinct_card length_map set_map)
qed

theorem full_channel_loses_announcements_witness:
  "\<exists>b' ms sent lost. rebuild None (Inr (many_routes 1025)) sample_builder = Some (None, b', ms)
     \<and> announcements sample_builder b' = sent @ lost \<and> lost \<noteq> [] \<and> ec_queue (the (rtb_StatusEvents b')) = sent
     \<and> rebuild None (Inr (many_routes 1025)) (b'\<lparr>rtb_StatusEvents := Some \<lparr>ec_cap = 1024, ec_queue = []\<rparr>\<rparr>)
         = Some (None, b'\<lparr>rtb_StatusEvents := Some \<lparr>ec_cap = 1024, ec_queue = []\<rparr>\<rparr>, ms)"
proof -
  obtain b' ms where b: "rebuild None (Inr (many_routes 1025)) sample_builder = Some (None, b', ms)" using sample_rebuild by blast
  have q: "ec_queue (the (rtb_StatusEvents sample_builder)) = []" "ec_cap (the (rtb_StatusEvents sample_builder)) = 1024"
    by (simp_all add: sample_builder_def)
  have "1024 < length (announcements sample_builder b')"
    using Build_announces_all [OF many_routes(1), of 1025 None sample_resolver "''cluster.local''"] many_routes(2) [of 1025]
    by (simp add: sample_announces [OF b])
  then have "ec_cap (the (rtb_StatusEvents sample_builder))
      < length (ec_queue (the (rtb_StatusEvents sample_builder))) + length (announcements sample_builder b')"
    by (simp add: q)
  from full_channel_loses_announcements [OF b sample_builder_ok many_routes(1) this]
  obtain sent lost where w: "announcements sample_builder b' = sent @ lost" "lost \<noteq> []"
      "ec_queue (the (rtb_StatusEvents b')) = [] @ sent"
      "\<forall>ch st rs'. mset rs' = mset (map (restatus st) (many_routes 1025)) \<longrightarrow>
         rebuild None (Inr rs') (b'\<lparr>rtb_StatusEvents := Some ch\<rparr>) = Some (None, b'\<lparr>rtb_StatusEvents := Some ch\<rparr>, ms)"
    unfolding q by blast
  have "map (restatus (\<lambda>_. pr_Status (sample_route [] 10 None))) (many_routes 1025) = many_routes 1025"
    by (simp add: many_routes_def restatus_def sample_route_def)
  with w(4) have "rebuild None (Inr (many_routes 1025)) (b'\<lparr>rtb_StatusEvents := Some ch\<rparr>)
      = Some (None, b'\<lparr>rtb_StatusEvents := Some ch\<rparr>, ms)" for ch by metis
  with b w(1-3) show ?thesis by (metis append_Nil)
qed

end
