(* ===== verification/Settling.thy ===== *)
theory Settling
  imports Control_Plane
begin

text \<open>
  The control plane of \<^verbatim>\<open>Control_Plane\<close> can always come to rest. From every reachable state of
  a leader whose last rebuild did not fail there is a run of its own steps, with nothing
  happening around it, to a state in which nothing is left to do: first everything in
  flight is worked off, which lowers a rank at every step; then the queue is worked off key by
  key, where a status write costs one round of watch event, second look and rebuild, none of
  which adds anything to the queue.
\<close>

section \<open>Written statuses are well formed\<close>

definition tidy_inv :: "control_plane \<Rightarrow> bool" where
  "tidy_inv cp \<longleftrightarrow> (\<forall>k r. gomap_get (cp_cache cp) k = Some r \<longrightarrow> tidy r)
     \<and> (\<forall>k r. (k, Some r) \<in> set (cp_watch cp) \<longrightarrow> tidy r)
     \<and> (\<forall>k r p. cp_worker cp = Some (k, r, p) \<longrightarrow> tidy p)"

lemma tidy_desired: "condition_api api \<Longrightarrow> tidy r \<Longrightarrow> tidy (r\<lparr>pr_Status := desiredStatus api r d\<rparr>)"
  by (simp add: tidy_def desired_types(1))

lemma tidy_inv_step:
  assumes "condition_api api" and "control_step api nf ctx cp cp'" and "tidy_inv cp"
  shows "tidy_inv cp'"
  using assms(2)
proof cases
  case (informer c cs)
  with assms(3) show ?thesis by (cases c) (auto simp: tidy_inv_def split: if_splits)
next
  case (reconcile_patch k p r)
  then have "tidy p"
    using reconcileRead_Patching [OF reconcile_patch(5,6)] assms(3) tidy_desired [OF assms(1)] by (auto simp: tidy_inv_def)
  with reconcile_patch assms(3) show ?thesis by (auto simp: tidy_inv_def)
qed (use assms(3) in \<open>auto simp: tidy_inv_def receiveTrigger_def Let_def\<close>)

lemma tidy_inv_world: "control_world cp cp' \<Longrightarrow> tidy_inv cp \<Longrightarrow> tidy_inv cp'"
  by (erule control_world.cases) (auto simp: tidy_inv_def)

lemma control_reach_tidy:
  assumes "control_reach api nf ctx cp" and "condition_api api"
  shows "tidy_inv cp"
  using assms(1)
proof (induction rule: control_reach.induct)
  case (control_start cache cr toResolver b0 b cap listed gi ah b' ms n)
  then show ?case by (simp add: tidy_inv_def)
next
  case (control_next cp cp')
  then show ?case using tidy_inv_step [OF assms(2)] by blast
next
  case (control_other cp cp')
  then show ?case using tidy_inv_world by blast
qed

section \<open>Working off what is in flight\<close>

text \<open>Nothing is in flight: all that is left is the queue.\<close>

definition landed :: "control_plane \<Rightarrow> bool" where
  "landed cp \<longleftrightarrow> builder_resting cp \<and> cp_events cp = [] \<and> ec_queue (cp_channel cp) = [] \<and> cp_worker cp = None"

fun timer_rank :: "nat \<Rightarrow> timer \<Rightarrow> nat" where
  "timer_rank c Stopped = 0"
| "timer_rank c Ticking = c + 3"
| "timer_rank c Fired = c + 2"

fun slot_rank :: "nat \<Rightarrow> 'a option \<Rightarrow> nat" where
  "slot_rank c None = 0"
| "slot_rank c (Some x) = c"

definition flight_rank :: "control_plane \<Rightarrow> nat" where
  "flight_rank cp = (let c = ec_cap (cp_channel cp) in
     slot_rank (c + 9) (cp_worker cp) + (c + 7) * length (cp_watch cp) + (c + 5) * cp_calls cp + (c + 4) * cp_trigger cp
     + timer_rank c (cp_timer cp) + slot_rank (c + 1) (cp_listed cp) + length (cp_events cp) + length (ec_queue (cp_channel cp)))"

definition lands :: "status_api \<Rightarrow> go_error \<Rightarrow> go_ctx \<Rightarrow> control_plane \<Rightarrow> control_plane \<Rightarrow> bool" where
  "lands api nf ctx cp cp' \<longleftrightarrow> control_step api nf ctx cp cp' \<and> flight_rank cp' < flight_rank cp
     \<and> cp_leader cp' = cp_leader cp \<and> (cp_failed cp' \<longrightarrow> cp_failed cp)"

text \<open>The worker gets an answer.\<close>

lemma worker_lands:
  assumes "cp_worker cp = Some (k, r, p)" and "tidy p"
  shows "\<exists>cp'. lands api nf ctx cp cp'"
proof (cases "gomap_get (cp_server cp) k")
  case None
  obtain res err where "reconcilePatch api (Some nf) = (res, err)" by fastforce
  from patch_refused [OF assms(1) _ this, of nf ctx] None show ?thesis
    by (intro exI) (auto simp: lands_def flight_rank_def assms(1) Let_def)
next
  case (Some now)
  define status where "status = (if pr_Status now = pr_Status r then pr_Status p else pr_Status now)"
  obtain res err where pat: "reconcilePatch api None = (res, err)" by fastforce
  show ?thesis
  proof (cases "now\<lparr>pr_Status := status\<rparr> = now")
    case True
    then have "pr_Status now = status" by (metis PostgresRoute.select_convs(3) PostgresRoute.surjective PostgresRoute.update_convs(3))
    then have "pr_Status now = pr_Status r \<longrightarrow> pr_Status now = pr_Status p" by (simp add: status_def split: if_splits)
    from patch_empty [OF assms(1) Some this pat, of nf ctx] show ?thesis
      by (intro exI) (auto simp: lands_def flight_rank_def assms(1) Let_def)
  next
    case False
    then have "status = pr_Status p" by (auto simp: status_def split: if_splits)
    then have "tidy (now\<lparr>pr_Status := status\<rparr>)" using assms(2) by (simp add: tidy_def)
    moreover have "pr_Status now = pr_Status r \<longrightarrow> status = pr_Status p" by (simp add: status_def)
    ultimately show ?thesis
      using patch_applied [OF assms(1) Some _ False _ pat, of nf ctx]
      by (intro exI) (auto simp: lands_def flight_rank_def assms(1) Let_def)
  qed
qed

text \<open>The builder's own steps.\<close>

lemma builder_lands:
  assumes b: "builder_ok (cp_builder cp)"
  shows "0 < cp_calls cp \<Longrightarrow> \<exists>cp'. lands api nf ctx cp cp'"
    and "cp_listed cp = Some rs \<Longrightarrow> \<exists>cp'. lands api nf ctx cp cp'"
    and "cp_listed cp = None \<Longrightarrow> 0 < cp_trigger cp \<Longrightarrow> \<exists>cp'. lands api nf ctx cp cp'"
    and "cp_listed cp = None \<Longrightarrow> cp_timer cp \<noteq> Stopped \<Longrightarrow> \<exists>cp'. lands api nf ctx cp cp'"
proof -
  obtain store resolver ch tr where parts: "rtb_Store (cp_builder cp) = Some store" "rtb_Resolver (cp_builder cp) = Some resolver"
    "rtb_StatusEvents (cp_builder cp) = Some ch" "rtb_trigger (cp_builder cp) = Some tr" "sl_cap tr = 1"
    using b by (auto simp: builder_ok_def)
  show "\<exists>cp'. lands api nf ctx cp cp'" if calls: "0 < cp_calls cp"
  proof -
    obtain n where "cp_calls cp = Suc n" using calls by (cases "cp_calls cp") auto
    then show ?thesis
      using callback [OF calls, of api nf ctx] parts
      by (intro exI) (auto simp: lands_def flight_rank_def schedule_def Let_def)
  qed
  show "\<exists>cp'. lands api nf ctx cp cp'" if l: "cp_listed cp = Some rs"
  proof -
    have "\<exists>b' ms. rebuild ctx (Inr rs) (cp_builder cp) = Some (None, b', ms)"
      using parts by (simp add: rebuild_def Let_def)
    then obtain b' ms where r: "rebuild ctx (Inr rs) (cp_builder cp) = Some (None, b', ms)" by blast
    have "length (ec_queue (the (rtb_StatusEvents b'))) \<le> ec_cap (the (rtb_StatusEvents b'))"
      using rebuild_builder(1) [OF r b] by (auto simp: builder_ok_def)
    then show ?thesis
      using publish [OF l r, of api nf] l rebuild_builder(3,5) [OF r b]
      by (intro exI) (auto simp: lands_def flight_rank_def Let_def)
  qed
  assume l: "cp_listed cp = None"
  show "\<exists>cp'. lands api nf ctx cp cp'" if trigger: "0 < cp_trigger cp"
  proof -
    obtain n where "sl_used tr = Suc n" using trigger parts by (cases "sl_used tr") auto
    then have "flight_rank (receiveTrigger cp) < flight_rank cp"
      using parts by (cases "cp_timer cp") (auto simp: flight_rank_def receiveTrigger_def Let_def)
    then show ?thesis
      using select_trigger [OF l trigger, of api nf ctx]
      by (intro exI [of _ "receiveTrigger cp"]) (auto simp: lands_def receiveTrigger_def Let_def)
  qed
  show "\<exists>cp'. lands api nf ctx cp cp'" if "cp_timer cp \<noteq> Stopped"
  proof (cases "cp_timer cp")
    case Ticking
    from expire [OF this, of api nf ctx] Ticking show ?thesis by (intro exI) (auto simp: lands_def flight_rank_def Let_def)
  next
    case Fired
    from select_timer [OF l this refl, of api nf ctx] Fired l show ?thesis by (intro exI) (auto simp: lands_def flight_rank_def Let_def)
  qed (use that in simp)
qed

lemma in_flight_lands:
  assumes reach: "control_reach api nf ctx cp" and "condition_api api" and "cp_leader cp" and "\<not> landed cp"
  shows "\<exists>cp'. lands api nf ctx cp cp'"
proof -
  have b: "builder_ok (cp_builder cp)" using control_reach_inv [OF reach] by (simp add: table_inv_def)
  then obtain ch where ch: "rtb_StatusEvents (cp_builder cp) = Some ch" by (auto simp: builder_ok_def)
  from assms(4) consider (worker) w where "cp_worker cp = Some w" | (watch) c cs where "cp_watch cp = c # cs"
    | (calls) "0 < cp_calls cp" | (listed) rs where "cp_listed cp = Some rs"
    | (trigger) "cp_listed cp = None" "0 < cp_trigger cp" | (timer) "cp_listed cp = None" "cp_timer cp \<noteq> Stopped"
    | (events) k ks where "cp_events cp = k # ks" | (channel) k ks where "ec_queue ch = k # ks"
    using ch by (cases "cp_listed cp") (auto simp: landed_def builder_resting_def neq_Nil_conv)
  then show ?thesis
  proof cases
    case (worker w)
    then obtain k r p where w: "cp_worker cp = Some (k, r, p)" by (cases w) auto
    with control_reach_tidy [OF reach assms(2)] show ?thesis by (intro worker_lands [OF w]) (auto simp: tidy_inv_def)
  next
    case (watch c cs)
    from informer [OF this, of api nf ctx] watch show ?thesis
      by (intro exI) (auto simp: lands_def flight_rank_def Let_def)
  next
    case (events k ks)
    from deliver [OF this, of api nf ctx] events show ?thesis
      by (intro exI) (auto simp: lands_def flight_rank_def Let_def)
  next
    case (channel k ks)
    from drain [OF assms(3) ch this, of api nf ctx] channel ch show ?thesis
      by (intro exI) (auto simp: lands_def flight_rank_def Let_def)
  qed (use builder_lands [OF b] in blast)+
qed

lemma control_run_reach:
  assumes "control_reach api nf ctx cp" and "(control_step api nf ctx)\<^sup>*\<^sup>* cp cp'"
  shows "control_reach api nf ctx cp'"
  using assms(2) by (induction rule: rtranclp_induct) (use assms(1) control_next in blast)+

interpretation flight: ranked_steps "lands api nf ctx" flight_rank for api nf ctx
  by unfold_locales (simp add: lands_def)

lemma lands_eventually:
  assumes "control_reach api nf ctx cp" and "condition_api api" and "cp_leader cp" and "\<not> cp_failed cp"
  shows "\<exists>cp'. (control_step api nf ctx)\<^sup>*\<^sup>* cp cp' \<and> landed cp' \<and> cp_leader cp' \<and> \<not> cp_failed cp'"
proof -
  obtain cp' where run: "(lands api nf ctx)\<^sup>*\<^sup>* cp cp'" and stuck: "\<forall>t. \<not> lands api nf ctx cp' t"
    using flight.comes_to_rest by blast
  from run assms(3,4) have cp': "(control_step api nf ctx)\<^sup>*\<^sup>* cp cp' \<and> cp_leader cp' \<and> \<not> cp_failed cp'"
  proof (induction rule: rtranclp_induct)
    case (step y z)
    then have "control_step api nf ctx y z" "cp_leader z = cp_leader y" "cp_failed z \<longrightarrow> cp_failed y" by (simp_all add: lands_def)
    with step show ?case by (meson rtranclp.rtrancl_into_rtrancl)
  qed simp
  with in_flight_lands [OF control_run_reach [OF assms(1)] assms(2)] stuck show ?thesis by blast
qed

section \<open>Working off the queue\<close>

text \<open>A round of the builder over a table that is current changes nothing.\<close>

lemma builder_round:
  assumes reach: "control_reach api nf ctx cp" and "landed (cp\<lparr>cp_calls := 0\<rparr>)" and "cp_calls cp = 1" and "table_current ctx cp" and "\<not> cp_failed cp"
  shows "(control_step api nf ctx)\<^sup>*\<^sup>* cp (cp\<lparr>cp_calls := 0\<rparr>)"
proof -
  have inv: "table_inv ctx cp" using control_reach_inv [OF reach] by blast
  then obtain store resolver ch tr where parts: "rtb_Store (cp_builder cp) = Some store" "rtb_Resolver (cp_builder cp) = Some resolver"
    "rtb_trigger (cp_builder cp) = Some tr" "sl_cap tr = 1"
    by (auto simp: table_inv_def builder_ok_def)
  have idle: "cp_listed cp = None" "cp_timer cp = Stopped" "cp_pending cp = False" "sl_used tr = 0" "cp_failed cp = False"
    using assms(2,5) inv parts by (auto simp: landed_def builder_resting_def table_inv_def)
  let ?step = "control_step api nf ctx"
  let ?b = "(cp_builder cp)\<lparr>rtb_trigger := Some (tr\<lparr>sl_used := 1\<rparr>)\<rparr>"
  have home: "(cp_builder cp)\<lparr>rtb_trigger := Some tr\<rparr> = cp_builder cp" using parts(3) by (cases "cp_builder cp") simp
  have tr: "tr\<lparr>sl_used := 0\<rparr> = tr" using idle(4) by (cases tr) simp
  define cp1 where "cp1 = cp\<lparr>cp_calls := 0, cp_builder := ?b\<rparr>"
  define cp2 where "cp2 = cp\<lparr>cp_calls := 0, cp_pending := True, cp_timer := Ticking\<rparr>"
  define cp3 where "cp3 = cp2\<lparr>cp_timer := Fired\<rparr>"
  define cp4 where "cp4 = cp\<lparr>cp_calls := 0, cp_listed := Some (map snd (cp_cache cp))\<rparr>"
  have "?step cp cp1"
    using callback [of cp api nf ctx] assms(3) parts idle(4) by (simp add: cp1_def schedule_def)
  moreover have "?step cp1 cp2"
    using select_trigger [of cp1 api nf ctx] idle parts tr home by (simp add: cp1_def cp2_def receiveTrigger_def Let_def)
  moreover have "?step cp2 cp3" unfolding cp3_def by (rule expire) (simp add: cp2_def)
  moreover have "?step cp3 cp4"
    using select_timer [of cp3 "map snd (cp_cache cp3)" api nf ctx] idle by (cases cp) (simp add: cp2_def cp3_def cp4_def)
  moreover have cur: "Store_Load store = Build ctx (map snd (cp_cache cp)) resolver (rtb_ClusterDomain (cp_builder cp))"
    using assms(4) parts by (simp add: table_current_def)
  note again = rebuild_current [OF parts(1,2) cur]
  have "?step cp4 (cp\<lparr>cp_calls := 0\<rparr>)"
    using publish [of cp4 "map snd (cp_cache cp)" ctx "cp_builder cp" _ api nf] again idle
    by (cases cp) (simp add: cp4_def lost_announcements_def)
  ultimately show ?thesis by (meson converse_rtranclp_into_rtranclp r_into_rtranclp)
qed

text \<open>A new status in the cache leaves the table as it is.\<close>

lemma map_snd_update:
  "distinct (map fst m) \<Longrightarrow> k \<in> fst ` set m \<Longrightarrow> map snd (AList.update k p m) = map (\<lambda>x. if fst x = k then p else snd x) m"
proof (induction m)
  case (Cons x m)
  have "k \<notin> fst ` set m \<Longrightarrow> map (\<lambda>x. if fst x = k then p else snd x) m = map snd m" by (induction m) auto
  with Cons show ?case by (cases x) auto
qed simp

lemma Build_new_status:
  assumes m: "gomap_ok m" "\<forall>k r. gomap_get m k = Some r \<longrightarrow> route_key r = k" and r: "gomap_get m k = Some r"
  shows "Build ctx (map snd (put (k, Some (r\<lparr>pr_Status := st\<rparr>)) m)) res cd = Build ctx (map snd m) res cd"
proof -
  let ?st = "\<lambda>k'. if k' = k then st else pr_Status (the (gomap_get m k'))"
  have "(if fst x = k then r\<lparr>pr_Status := st\<rparr> else snd x) = restatus ?st (snd x)" if "x \<in> set m" for x
  proof -
    have "gomap_get m (fst x) = Some (snd x)" using m(1) that by (simp add: gomap_ok_def)
    then show ?thesis using m(2) r by (auto simp: restatus_def)
  qed
  moreover have "k \<in> fst ` set m" using r by (metis domI dom_map_of_conv_image_fst)
  ultimately have "map snd (put (k, Some (r\<lparr>pr_Status := st\<rparr>)) m) = map (restatus ?st) (map snd m)"
    using map_snd_update [of m k] m(1) by (simp add: put_def gomap_set_def gomap_ok_def)
  then show ?thesis by (simp only: Build_restatus)
qed

text \<open>At rest a reconciliation that sends no patch is over.\<close>

lemma read_is_over:
  assumes "reconcileRead (api\<lparr>sa_get := cacheGet nf (cp_cache cp)\<rparr>) (cp_store cp) k = Done res err"
    and "sa_isNotFound api nf" and "\<And>r. gomap_get (cp_cache cp) k = Some r \<Longrightarrow> cp_decision cp k \<noteq> None"
  shows "requeue res err k q = q"
  using assms by (auto simp: reconcileRead_def cacheGet_def cp_decision_def requeue_def noResult_def Let_def split: option.splits if_splits)

lemma look_over:
  assumes "cp_leader cp" and "cp_worker cp = None" and "k \<in> set (cp_queue cp)"
    and "reconcileRead (api\<lparr>sa_get := cacheGet nf (cp_cache cp)\<rparr>) (cp_store cp) k = Done res err"
    and "sa_isNotFound api nf" and "\<And>r. gomap_get (cp_cache cp) k = Some r \<Longrightarrow> cp_decision cp k \<noteq> None"
  shows "control_step api nf ctx cp (cp\<lparr>cp_queue := removeAll k (cp_queue cp), cp_dropped := removeAll k (cp_dropped cp)\<rparr>)"
  using reconcile_done [OF assms(1-4), of ctx] read_is_over [OF assms(4-6)] by simp

lemma landed_decision:
  assumes "control_reach api nf ctx cp" and "landed cp" and "\<not> cp_failed cp" and "gomap_get (cp_cache cp) k = Some r"
  shows "cp_decision cp k \<noteq> None"
proof -
  have b: "builder_resting cp" using assms(2) by (simp add: landed_def)
  note rest = control_rest [OF assms(1) b assms(3)]
  show ?thesis
    using Build_decision [OF rest(3) rest(5) [OF assms(4)]] rest(4) [OF assms(4)] by (simp add: cp_decision_def rest(2))
qed

text \<open>A status write costs one round: the write, the watch event, a second look and a rebuild.\<close>

lemma write_comes_back:
  assumes reach: "control_reach api nf ctx cp" and api: "condition_api api" "sa_isNotFound api nf"
    and cp: "cp_leader cp" "\<not> cp_failed cp" "landed (cp\<lparr>cp_worker := None\<rparr>)" "table_current ctx cp" "k \<notin> set (cp_queue cp)"
    and w: "cp_worker cp = Some (k, r, p)" "gomap_get (cp_cache cp) k = Some r" "gomap_get (cp_server cp) k = Some r"
      "cp_decision cp k = Some d" "p = r\<lparr>pr_Status := desiredStatus api r d\<rparr>" "p \<noteq> r"
  shows "\<exists>cp'. (control_step api nf ctx)\<^sup>*\<^sup>* cp cp' \<and> landed cp' \<and> cp_leader cp' \<and> \<not> cp_failed cp' \<and> cp_queue cp' = cp_queue cp"
proof -
  let ?step = "control_step api nf ctx"
  have land: "cp_watch cp = []" "cp_calls cp = 0" "cp_events cp = []"
    using cp(3) by (simp_all add: landed_def builder_resting_def)
  have rp: "r\<lparr>pr_Status := pr_Status p\<rparr> = p" using w(5) by simp
  have tp: "tidy r" "tidy p"
    using control_reach_tidy [OF reach api(1)] w tidy_desired [OF api(1)] by (auto simp: tidy_inv_def)
  define cp2 where "cp2 = cp\<lparr>cp_worker := None, cp_server := put (k, Some p) (cp_server cp), cp_watch := [(k, Some p)]\<rparr>"
  define cp3 where "cp3 = cp2\<lparr>cp_watch := [], cp_cache := put (k, Some p) (cp_cache cp), cp_calls := 1, cp_events := [k]\<rparr>"
  define cp4 where "cp4 = cp3\<lparr>cp_events := [], cp_queue := enqueue k (cp_queue cp)\<rparr>"
  define cp5 where "cp5 = cp4\<lparr>cp_queue := removeAll k (cp_queue cp4), cp_dropped := removeAll k (cp_dropped cp4)\<rparr>"
  note cps = cp2_def cp3_def cp4_def cp5_def
  have "reconcilePatch api None = (noResult, None)" "requeue noResult None k (cp_queue cp) = cp_queue cp"
    by (simp_all add: reconcilePatch_def requeue_def noResult_def)
  then have s2: "?step cp cp2"
    using patch_applied [of cp k r p r "pr_Status p" api noResult None nf ctx] w rp tp land by (cases cp) (simp add: cp2_def)
  have s3: "?step cp2 cp3" using informer [of cp2 "(k, Some p)" "[]" api nf ctx] land cp(1) by (simp add: cp2_def cp3_def)
  have s4: "?step cp3 cp4" using deliver [of cp3 k "[]" api nf ctx] by (simp add: cp2_def cp3_def cp4_def)
  have "equalStatus api (pr_Status p) (desiredStatus api p d)"
    by (rule desired_stable [OF api(1), of r]) (use tp w in \<open>simp_all add: tidy_def\<close>)
  then have "reconcileRead (api\<lparr>sa_get := cacheGet nf (cp_cache cp4)\<rparr>) (cp_store cp4) k = Done noResult None"
    using w(4) by (simp add: reconcileRead_def cacheGet_def cps cp_decision_def Let_def)
  from look_over [OF _ _ _ this api(2)] have s5: "?step cp4 cp5"
    unfolding cp5_def using cp(1) w(4) by (simp add: cp2_def cp3_def cp4_def cp_decision_def)
  have run: "?step\<^sup>*\<^sup>* cp cp5" using s2 s3 s4 s5 by (meson converse_rtranclp_into_rtranclp r_into_rtranclp)
  have "table_current ctx cp5"
    using cp(4) Build_new_status [of "cp_cache cp" k r ctx "desiredStatus api r d"] control_reach_inv [OF reach] w
    by (simp add: table_current_def cps objects_inv_def)
  then have "?step\<^sup>*\<^sup>* cp5 (cp5\<lparr>cp_calls := 0\<rparr>)"
    using cp by (intro builder_round [OF control_run_reach [OF reach run]]) (simp_all add: cps landed_def builder_resting_def)
  with run have "?step\<^sup>*\<^sup>* cp (cp5\<lparr>cp_calls := 0\<rparr>)" by (rule rtranclp_trans)
  then show ?thesis
    using cp by (intro exI [of _ "cp5\<lparr>cp_calls := 0\<rparr>"]) (auto simp: cps landed_def builder_resting_def enqueue_def)
qed

lemma write_lands:
  assumes reach: "control_reach api nf ctx cp" and api: "condition_api api" "sa_isNotFound api nf"
    and cp: "cp_leader cp" "\<not> cp_failed cp" "landed cp" and k: "k \<in> set (cp_queue cp)" "gomap_get (cp_cache cp) k = Some r"
    and read: "reconcileRead (api\<lparr>sa_get := cacheGet nf (cp_cache cp)\<rparr>) (cp_store cp) k = Patching p"
  shows "\<exists>cp'. (control_step api nf ctx)\<^sup>*\<^sup>* cp cp' \<and> landed cp' \<and> cp_leader cp' \<and> \<not> cp_failed cp'
    \<and> cp_queue cp' = removeAll k (cp_queue cp)"
proof -
  have b: "builder_resting cp" and idle: "cp_worker cp = None" using cp(3) by (simp_all add: landed_def)
  note rest = control_rest [OF reach b cp(2)]
  obtain d where d: "cp_decision cp k = Some d" "p = r\<lparr>pr_Status := desiredStatus api r d\<rparr>"
    using reconcileRead_Patching [OF read k(2)] by (auto simp: cp_decision_def)
  have now: "gomap_get (cp_server cp) k = Some r" using rest(1) k(2) by simp
  define cp1 where "cp1 = cp\<lparr>cp_queue := removeAll k (cp_queue cp), cp_dropped := removeAll k (cp_dropped cp), cp_worker := Some (k, r, p)\<rparr>"
  have s1: "control_step api nf ctx cp cp1" unfolding cp1_def by (rule reconcile_patch [OF cp(1) idle k(1) read k(2)])
  have land: "landed (cp1\<lparr>cp_worker := None\<rparr>)" using cp(3) by (simp add: cp1_def landed_def builder_resting_def)
  have "\<exists>cp'. (control_step api nf ctx)\<^sup>*\<^sup>* cp1 cp' \<and> landed cp' \<and> cp_leader cp' \<and> \<not> cp_failed cp' \<and> cp_queue cp' = cp_queue cp1"
  proof (cases "p = r")
    case True
    have "reconcilePatch api None = (noResult, None)" "requeue noResult None k (cp_queue cp1) = cp_queue cp1"
      by (simp_all add: reconcilePatch_def requeue_def noResult_def)
    then have "control_step api nf ctx cp1 (cp1\<lparr>cp_worker := None\<rparr>)"
      using patch_empty [of cp1 k r p r api noResult None nf ctx] now True by (cases cp) (simp add: cp1_def)
    with land cp(1,2) show ?thesis by (intro exI [of _ "cp1\<lparr>cp_worker := None\<rparr>"]) (simp add: cp1_def r_into_rtranclp)
  next
    case False
    show ?thesis
      by (rule write_comes_back [OF control_next [OF reach s1] api _ _ land _ _ _ _ _ _ d(2) False])
        (use cp k now d rest(2) in \<open>simp_all add: cp1_def cp_decision_def table_current_def\<close>)
  qed
  then show ?thesis using s1 by (simp add: cp1_def) (meson converse_rtranclp_into_rtranclp)
qed

lemma queue_shrinks:
  assumes reach: "control_reach api nf ctx cp" and api: "condition_api api" "sa_isNotFound api nf"
    and cp: "cp_leader cp" "\<not> cp_failed cp" "landed cp" and k: "k \<in> set (cp_queue cp)"
  shows "\<exists>cp'. (control_step api nf ctx)\<^sup>*\<^sup>* cp cp' \<and> landed cp' \<and> cp_leader cp' \<and> \<not> cp_failed cp'
    \<and> cp_queue cp' = removeAll k (cp_queue cp)"
proof (cases "reconcileRead (api\<lparr>sa_get := cacheGet nf (cp_cache cp)\<rparr>) (cp_store cp) k")
  case (Done res err)
  have "cp_worker cp = None" using cp(3) by (simp add: landed_def)
  from look_over [OF cp(1) this k Done api(2), of ctx] landed_decision [OF reach cp(3,2)]
  have "(control_step api nf ctx)\<^sup>*\<^sup>* cp (cp\<lparr>cp_queue := removeAll k (cp_queue cp), cp_dropped := removeAll k (cp_dropped cp)\<rparr>)"
    by (intro r_into_rtranclp) blast
  then show ?thesis
    using cp by (intro exI [of _ "cp\<lparr>cp_queue := removeAll k (cp_queue cp), cp_dropped := removeAll k (cp_dropped cp)\<rparr>"])
      (auto simp: landed_def builder_resting_def)
next
  case (Patching p)
  then obtain r where "gomap_get (cp_cache cp) k = Some r"
    by (auto simp: reconcileRead_def cacheGet_def split: option.splits if_splits)
  with write_lands [OF reach api cp k _ Patching] show ?thesis by blast
qed

lemma queue_empties:
  assumes "control_reach api nf ctx cp" and "condition_api api" and "sa_isNotFound api nf"
    and "cp_leader cp" and "\<not> cp_failed cp" and "landed cp"
  shows "\<exists>cp'. (control_step api nf ctx)\<^sup>*\<^sup>* cp cp' \<and> resting cp' \<and> cp_leader cp' \<and> \<not> cp_failed cp'"
  using assms(1,4-6)
proof (induction "length (cp_queue cp)" arbitrary: cp rule: less_induct)
  case less
  show ?case
  proof (cases "cp_queue cp")
    case Nil
    with less.prems show ?thesis by (intro exI [of _ cp]) (auto simp: landed_def resting_def)
  next
    case (Cons k ks)
    then obtain cp1 where run: "(control_step api nf ctx)\<^sup>*\<^sup>* cp cp1" and cp1: "landed cp1" "cp_leader cp1" "\<not> cp_failed cp1"
        "cp_queue cp1 = removeAll k (cp_queue cp)"
      using queue_shrinks [OF less.prems(1) assms(2,3) less.prems(2-4), of k] by auto
    have "length (cp_queue cp1) < length (cp_queue cp)"
      unfolding cp1(4) using Cons by (intro length_removeAll_less) simp
    from less.hyps [OF this control_run_reach [OF less.prems(1) run] cp1(2,3,1)] run show ?thesis
      by (meson rtranclp_trans)
  qed
qed

section \<open>Properties\<close>

text \<open>C14: The control plane can always come to rest. From every reachable state of a leader whose last
  rebuild did not fail, whatever is queued, in flight or half done, the steps of the builder, the
  informers and the reconciler alone lead to a state in which nothing is left to do, in which the
  last rebuild has succeeded, the replica still leads, and the published table is the one of the
  routes the API server then holds: no write of a status, no requeue and no rebuild keeps the
  others busy for ever.\<close>

theorem control_plane_can_settle:
  assumes "control_reach api notFound ctx cp" and "condition_api api" and "sa_isNotFound api notFound"
    and "cp_leader cp" and "\<not> cp_failed cp"
  shows "\<exists>cp'. (control_step api notFound ctx)\<^sup>*\<^sup>* cp cp' \<and> resting cp' \<and> cp_leader cp' \<and> \<not> cp_failed cp'
    \<and> gomap_get (cp_cache cp') = gomap_get (cp_server cp')
    \<and> Store_Load (cp_store cp') =
        Build ctx (map snd (cp_cache cp')) (the (rtb_Resolver (cp_builder cp'))) (rtb_ClusterDomain (cp_builder cp'))"
proof -
  obtain cp1 where run1: "(control_step api notFound ctx)\<^sup>*\<^sup>* cp cp1" and cp1: "landed cp1" "cp_leader cp1" "\<not> cp_failed cp1"
    using lands_eventually [OF assms(1,2,4,5)] by blast
  have reach1: "control_reach api notFound ctx cp1" by (rule control_run_reach [OF assms(1) run1])
  obtain cp2 where run2: "(control_step api notFound ctx)\<^sup>*\<^sup>* cp1 cp2" and cp2: "resting cp2" "cp_leader cp2" "\<not> cp_failed cp2"
    using queue_empties [OF reach1 assms(2,3) cp1(2,3,1)] by blast
  have "builder_resting cp2" using cp2(1) by (simp add: resting_def)
  note rest = control_rest [OF control_run_reach [OF reach1 run2] this cp2(3)]
  show ?thesis using rtranclp_trans [OF run1 run2] cp2 rest(1,2) by blast
qed

section \<open>Witnesses\<close>

text \<open>A replica is elected in a cluster with one route that has no status yet.\<close>

definition lookup_api :: status_api where
  "lookup_api = (sample_api high_route)\<lparr>sa_isNotFound := external_not_found\<rparr>"

lemma lookup_api_ok: "condition_api lookup_api" "sa_isNotFound lookup_api (External ''not found'' [])"
  using sample_api_ok [of high_route] by (simp_all add: lookup_api_def condition_api_def)

theorem control_plane_can_settle_witness:
  "\<exists>cp cp'. control_reach lookup_api (External ''not found'' []) None cp \<and> \<not> resting cp
     \<and> (control_step lookup_api (External ''not found'' []) None)\<^sup>*\<^sup>* cp cp' \<and> resting cp'"
proof -
  let ?cache = "[(route_key high_route, high_route)]"
  obtain b ms where "rebuild None (Inr [high_route]) sample_builder = Some (None, b, ms)" using sample_rebuild by blast
  then have start: "startBuilder (\<lambda>_. None) (\<lambda>_. None) None (Inr [high_route]) sample_builder = Some (None, b, ms)"
    by (simp add: startBuilder_def watched_def watch_def)
  have "control_reach lookup_api (External ''not found'' []) None
      \<lparr>cp_server = ?cache, cp_watch = [], cp_cache = ?cache, cp_builder = b, cp_calls = 0, cp_pending = False, cp_timer = Stopped,
       cp_listed = None, cp_leader = False, cp_events = [], cp_queue = [], cp_worker = None,
       cp_failed = isl (Inr [high_route] :: go_error + PostgresRoute list), cp_dropped = []\<rparr>"
    by (intro control_start [OF _ _ _ sample_builder_setup [of sample_client "\<lambda>_. sample_resolver"] _ _ start, where cap = 1024])
      (simp_all add: sample_builder_def gomap_ok_def tidy_def sample_route_def)
  from control_other [OF this elected] obtain cp where cp: "control_reach lookup_api (External ''not found'' []) None cp"
      "cp_leader cp" "\<not> cp_failed cp" "cp_events cp = [route_key high_route]"
    by fastforce
  then have "\<not> resting cp" by (simp add: resting_def)
  with control_plane_can_settle [OF cp(1) lookup_api_ok cp(2,3)] cp(1) show ?thesis by blast
qed

end
