(* ===== verification/Discovery.thy ===== *)
theory Discovery
  imports Status_Reconciler
begin

text \<open>
  Service discovery (\<^verbatim>\<open>src/src/internal/controller/servicediscovery_controller.go\<close>):
  Services that match a selector are materialised as PostgresRoute objects. The cluster is
  outside the program: a state of any type, read and written through \<open>discovery_api\<close>. What
  the code relies on of the client and of the controller helpers is stated after their
  documentation by \<open>write_api\<close> (an object is fetched, mutated and written back; when the
  mutation fails its error is returned and nothing is written) and \<open>owner_api\<close> (setting the
  controller reference changes nothing else).
\<close>

section \<open>Definitions\<close>

definition ManagedByLabel :: go_string where "ManagedByLabel = ''pgproxy.io/managed-by''"
definition ManagedByServiceDiscovery :: go_string where "ManagedByServiceDiscovery = ''service-discovery''"
definition SourceServiceLabel :: go_string where "SourceServiceLabel = ''pgproxy.io/source-service''"
definition DefaultDatabaseAnnotation :: go_string where "DefaultDatabaseAnnotation = ''pgproxy.io/database-name''"
definition PortAnnotation :: go_string where "PortAnnotation = ''pgproxy.io/port''"
definition PriorityAnnotation :: go_string where "PriorityAnnotation = ''pgproxy.io/priority''"
definition IgnoreAnnotation :: go_string where "IgnoreAnnotation = ''pgproxy.io/ignore''"

definition discoveredRoutePriority :: int32 where "discoveredRoutePriority = - 100"

record 'w discovery_api =
  da_getService :: "NamespacedName \<Rightarrow> 'w \<Rightarrow> go_error + Service"
  da_getRoute :: "NamespacedName \<Rightarrow> 'w \<Rightarrow> go_error + PostgresRoute"
  da_deleteRoute :: "PostgresRoute \<Rightarrow> 'w \<Rightarrow> go_error option \<times> 'w"
  da_createOrUpdate ::
    "PostgresRoute \<Rightarrow> (PostgresRoute \<Rightarrow> go_error + PostgresRoute) \<Rightarrow> 'w \<Rightarrow> go_error option \<times> 'w"
  da_setControllerReference :: "Service \<Rightarrow> PostgresRoute \<Rightarrow> go_error + PostgresRoute"
  da_getControllerOf :: "PostgresRoute \<Rightarrow> OwnerReference option"
  da_isNotFound :: "go_error \<Rightarrow> bool"
  da_isConflict :: "go_error \<Rightarrow> bool"
  da_intstrParse :: "go_string \<Rightarrow> IntOrString"

record ServiceDiscoveryReconciler =
  sdr_Selector :: "(go_string, go_string) gomap \<Rightarrow> bool"
  sdr_DatabaseAnnotation :: go_string

definition databaseName :: "ServiceDiscoveryReconciler \<Rightarrow> Service \<Rightarrow> go_string" where
  "databaseName r svc =
     (let name = gomap_str (om_Annotations (svc_Meta svc)) (sdr_DatabaseAnnotation r)
      in if name \<noteq> [] then name else om_Name (svc_Meta svc))"

definition priority :: "Service \<Rightarrow> int32" where
  "priority svc =
     (case gomap_get (om_Annotations (svc_Meta svc)) PriorityAnnotation of
        None \<Rightarrow> discoveredRoutePriority
      | Some raw \<Rightarrow>
         (case parse_int 32 raw of
            Some p \<Rightarrow> word_of_int p
          | None \<Rightarrow> discoveredRoutePriority))"

fun namedPostgres :: "ServicePort list \<Rightarrow> int32 option" where
  "namedPostgres [] = None"
| "namedPostgres (p # ps) =
     (if svp_Name p = ''postgresql'' \<or> svp_Name p = ''postgres'' then Some (svp_Port p) else namedPostgres ps)"

fun has5432 :: "ServicePort list \<Rightarrow> bool" where
  "has5432 [] = False"
| "has5432 (p # ps) = (if svp_Port p = 5432 then True else has5432 ps)"

definition defaultPort :: "ServicePort list \<Rightarrow> IntOrString" where
  "defaultPort ports =
     (case namedPostgres ports of
        Some p \<Rightarrow> intstr_FromInt32 p
      | None \<Rightarrow>
          if has5432 ports then intstr_FromInt32 5432
          else if length ports = 1 then intstr_FromInt32 (svp_Port (hd ports))
          else intstr_FromInt32 5432)"

definition port :: "(go_string \<Rightarrow> IntOrString) \<Rightarrow> Service \<Rightarrow> IntOrString" where
  "port intstrParse svc =
     (case gomap_get (om_Annotations (svc_Meta svc)) PortAnnotation of
        Some raw \<Rightarrow> if raw \<noteq> [] then intstrParse raw else defaultPort (svc_Ports svc)
      | None \<Rightarrow> defaultPort (svc_Ports svc))"

definition generatedRouteName :: "go_string \<Rightarrow> go_string" where
  "generatedRouteName serviceName = serviceName @ ''-discovered''"

definition generatedKey :: "Service \<Rightarrow> NamespacedName" where
  "generatedKey svc = NamespacedName (om_Namespace (svc_Meta svc)) (generatedRouteName (om_Name (svc_Meta svc)))"

text \<open>The route as the composite literal of \<open>Reconcile\<close> creates it, all else zero.\<close>

definition blankRoute :: "NamespacedName \<Rightarrow> PostgresRoute" where
  "blankRoute key =
     \<lparr>pr_Meta = \<lparr>om_Name = nn_Name key, om_Namespace = nn_Namespace key, om_UID = [], om_Generation = 0,
        om_CreationTimestamp = 0, om_DeletionTimestamp = None, om_Labels = [], om_Annotations = [],
        om_OwnerReferences = []\<rparr>,
      pr_Spec = \<lparr>prs_Database = [], prs_TargetDatabase = [],
        prs_Backend = \<lparr>be_Type = [], be_Service = None, be_Address = None\<rparr>, prs_TLS = None, prs_Priority = 0\<rparr>,
      pr_Status = \<lparr>st_ObservedGeneration = 0, st_Database = [], st_Endpoint = [], st_ConflictingRoute = [],
        st_Conditions = []\<rparr>\<rparr>"

text \<open>The mutation that \<open>Reconcile\<close> hands to \<^verbatim>\<open>CreateOrUpdate\<close>.\<close>

definition mutateRoute ::
    "'w discovery_api \<Rightarrow> ServiceDiscoveryReconciler \<Rightarrow> Service \<Rightarrow> PostgresRoute \<Rightarrow> go_error + PostgresRoute" where
  "mutateRoute api r svc route =
     (let owner = gomap_str (om_Labels (pr_Meta route)) ManagedByLabel in
      if owner \<noteq> [] \<and> owner \<noteq> ManagedByServiceDiscovery then
        Inl (ErrorString (''route '' @ om_Namespace (pr_Meta route) @ ''/'' @ om_Name (pr_Meta route)
          @ '' is managed by '' @ quote_text owner @ '', not by service discovery''))
      else
        (let labels = gomap_set (gomap_set (om_Labels (pr_Meta route)) ManagedByLabel ManagedByServiceDiscovery)
               SourceServiceLabel (om_Name (svc_Meta svc));
             spec = (pr_Spec route)\<lparr>prs_Database := databaseName r svc, prs_Priority := priority svc,
               prs_Backend := \<lparr>be_Type = BackendTypeService,
                 be_Service = Some \<lparr>sb_Name = om_Name (svc_Meta svc), sb_Namespace = om_Namespace (svc_Meta svc),
                   sb_Port = port (da_intstrParse api) svc\<rparr>,
                 be_Address = None\<rparr>\<rparr>
         in da_setControllerReference api svc
              (route\<lparr>pr_Meta := (pr_Meta route)\<lparr>om_Labels := labels\<rparr>, pr_Spec := spec\<rparr>)))"

definition deleteGeneratedRoute :: "'w discovery_api \<Rightarrow> Service \<Rightarrow> 'w \<Rightarrow> go_error option \<times> 'w" where
  "deleteGeneratedRoute api svc w =
     (case da_getRoute api (generatedKey svc) w of
        Inl err \<Rightarrow> (if da_isNotFound api err then None else Some err, w)
      | Inr existing \<Rightarrow>
          if gomap_str (om_Labels (pr_Meta existing)) ManagedByLabel \<noteq> ManagedByServiceDiscovery then (None, w)
          else (case da_getControllerOf api existing of
             None \<Rightarrow> (None, w)
           | Some owner \<Rightarrow>
               if or_UID owner \<noteq> om_UID (svc_Meta svc) then (None, w)
               else (case da_deleteRoute api existing w of
                  (Some err, w') \<Rightarrow> (if da_isNotFound api err then None else Some err, w')
                | (None, w') \<Rightarrow> (None, w'))))"

definition inScope :: "ServiceDiscoveryReconciler \<Rightarrow> Service \<Rightarrow> bool" where
  "inScope r svc \<longleftrightarrow>
     \<not> (om_DeletionTimestamp (svc_Meta svc) \<noteq> None
        \<or> \<not> sdr_Selector r (om_Labels (svc_Meta svc))
        \<or> gomap_str (om_Annotations (svc_Meta svc)) IgnoreAnnotation = ''true'')"

definition Discovery_Reconcile ::
    "'w discovery_api \<Rightarrow> ServiceDiscoveryReconciler \<Rightarrow> NamespacedName \<Rightarrow> 'w \<Rightarrow> (Result \<times> go_error option) \<times> 'w" where
  "Discovery_Reconcile api r req w =
     (case da_getService api req w of
        Inl err \<Rightarrow> ((noResult, if da_isNotFound api err then None else Some err), w)
      | Inr svc \<Rightarrow>
          if \<not> inScope r svc then
            (case deleteGeneratedRoute api svc w of (err, w') \<Rightarrow> ((noResult, err), w'))
          else
            (case da_createOrUpdate api (blankRoute (generatedKey svc)) (mutateRoute api r svc) w of
               (Some err, w') \<Rightarrow>
                 if da_isConflict api err then ((noResult\<lparr>res_Requeue := True\<rparr>, None), w')
                 else ((noResult, Some (wrapf (''reconciling the generated route for service ''
                         @ NamespacedName_String req) err)), w')
             | (None, w') \<Rightarrow> ((noResult, None), w')))"

text \<open>\<open>SetupWithManager\<close>: what it checks and defaults; \<open>completeErr\<close> is the builder's.\<close>

definition Discovery_SetupWithManager ::
    "(((go_string, go_string) gomap \<Rightarrow> bool) \<Rightarrow> bool) \<Rightarrow> go_error option
     \<Rightarrow> ((go_string, go_string) gomap \<Rightarrow> bool) option \<Rightarrow> go_string
     \<Rightarrow> go_error option \<times> ServiceDiscoveryReconciler option" where
  "Discovery_SetupWithManager isEmpty completeErr selector annotation =
     (case selector of
        None \<Rightarrow> (Some (ErrorString ''ServiceDiscoveryReconciler.Selector must not be empty''), None)
      | Some sel \<Rightarrow>
          if isEmpty sel
          then (Some (ErrorString ''ServiceDiscoveryReconciler.Selector must not be empty''), None)
          else (completeErr,
                Some \<lparr>sdr_Selector = sel,
                      sdr_DatabaseAnnotation = (if annotation = [] then DefaultDatabaseAnnotation else annotation)\<rparr>))"

section \<open>What the client and the helpers promise\<close>

definition same_route :: "PostgresRoute \<Rightarrow> PostgresRoute \<Rightarrow> bool" where
  "same_route a b \<longleftrightarrow> pr_Spec a = pr_Spec b \<and> om_Labels (pr_Meta a) = om_Labels (pr_Meta b)
     \<and> route_key a = route_key b"

definition written ::
    "'w discovery_api \<Rightarrow> NamespacedName \<Rightarrow> go_error + PostgresRoute \<Rightarrow> 'w \<Rightarrow> go_error option \<times> 'w \<Rightarrow> bool" where
  "written api key outcome w res \<longleftrightarrow>
     (case outcome of
        Inl err \<Rightarrow> res = (Some err, w)
      | Inr route \<Rightarrow>
          (\<exists>err. res = (Some err, w))
          \<or> (\<exists>w' stored. res = (None, w') \<and> da_getRoute api key w' = Inr stored \<and> same_route stored route
               \<and> (\<forall>k. k \<noteq> key \<longrightarrow> da_getRoute api k w' = da_getRoute api k w)))"

definition write_api :: "'w discovery_api \<Rightarrow> bool" where
  "write_api api \<longleftrightarrow>
     (\<forall>obj f w. case da_getRoute api (route_key obj) w of
        Inr existing \<Rightarrow> written api (route_key obj) (f existing) w (da_createOrUpdate api obj f w)
      | Inl err \<Rightarrow>
          if da_isNotFound api err
          then written api (route_key obj) (f obj) w (da_createOrUpdate api obj f w)
          else da_createOrUpdate api obj f w = (Some err, w))"

definition owner_api :: "'w discovery_api \<Rightarrow> bool" where
  "owner_api api \<longleftrightarrow>
     (\<forall>svc route route'. da_setControllerReference api svc route = Inr route' \<longrightarrow> same_route route' route)"

lemma blankRoute_key [simp]: "route_key (blankRoute key) = key"
  by (cases key) (simp add: blankRoute_def objectKey_def)

text \<open>What a route generated for a Service says.\<close>

definition generated_for :: "'w discovery_api \<Rightarrow> ServiceDiscoveryReconciler \<Rightarrow> Service \<Rightarrow> PostgresRoute \<Rightarrow> bool" where
  "generated_for api r svc route \<longleftrightarrow>
     EffectiveDatabase route = databaseName r svc
     \<and> prs_Priority (pr_Spec route) = priority svc
     \<and> be_Type (prs_Backend (pr_Spec route)) = BackendTypeService
     \<and> be_Service (prs_Backend (pr_Spec route)) =
         Some \<lparr>sb_Name = om_Name (svc_Meta svc), sb_Namespace = om_Namespace (svc_Meta svc),
               sb_Port = port (da_intstrParse api) svc\<rparr>
     \<and> gomap_str (om_Labels (pr_Meta route)) ManagedByLabel = ManagedByServiceDiscovery"

lemma databaseName_nonempty: "om_Name (svc_Meta svc) \<noteq> [] \<Longrightarrow> databaseName r svc \<noteq> []"
  by (simp add: databaseName_def Let_def)

lemma mutateRoute_InrD:
  assumes "mutateRoute api r svc route = Inr route'" and "owner_api api" and "om_Name (svc_Meta svc) \<noteq> []"
  shows "generated_for api r svc route' \<and> route_key route' = route_key route"
proof -
  from assms(1) obtain labels spec where set: "da_setControllerReference api svc
      (route\<lparr>pr_Meta := (pr_Meta route)\<lparr>om_Labels := labels\<rparr>, pr_Spec := spec\<rparr>) = Inr route'"
    and l: "labels = gomap_set (gomap_set (om_Labels (pr_Meta route)) ManagedByLabel ManagedByServiceDiscovery)
               SourceServiceLabel (om_Name (svc_Meta svc))"
    and sp: "spec = (pr_Spec route)\<lparr>prs_Database := databaseName r svc, prs_Priority := priority svc,
               prs_Backend := \<lparr>be_Type = BackendTypeService,
                 be_Service = Some \<lparr>sb_Name = om_Name (svc_Meta svc), sb_Namespace = om_Namespace (svc_Meta svc),
                   sb_Port = port (da_intstrParse api) svc\<rparr>,
                 be_Address = None\<rparr>\<rparr>"
    by (auto simp: mutateRoute_def Let_def split: if_splits)
  have "same_route route' (route\<lparr>pr_Meta := (pr_Meta route)\<lparr>om_Labels := labels\<rparr>, pr_Spec := spec\<rparr>)"
    using assms(2) set by (simp add: owner_api_def)
  then show ?thesis
    using databaseName_nonempty [OF assms(3)]
    by (simp add: same_route_def generated_for_def l sp EffectiveDatabase_def gomap_str_def objectKey_def
        ManagedByLabel_def SourceServiceLabel_def)
qed

lemma generated_for_same: "same_route a b \<Longrightarrow> generated_for api r svc b \<Longrightarrow> generated_for api r svc a"
  by (auto simp: same_route_def generated_for_def EffectiveDatabase_def objectKey_def split: if_splits)

lemma create_or_update_cases:
  assumes "write_api api" and "da_createOrUpdate api (blankRoute key) f w = (res, w')"
  obtains (refused) err where "res = Some err" "w' = w"
  | (stored) base route stored where "res = None" "f base = Inr route" "route_key base = key \<or> da_getRoute api key w = Inr base"
      "da_getRoute api key w' = Inr stored" "same_route stored route"
      "\<And>k. k \<noteq> key \<Longrightarrow> da_getRoute api k w' = da_getRoute api k w"
proof -
  have law: "case da_getRoute api key w of
        Inr existing \<Rightarrow> written api key (f existing) w (res, w')
      | Inl err \<Rightarrow> if da_isNotFound api err then written api key (f (blankRoute key)) w (res, w')
          else (res, w') = (Some err, w)"
    using assms(1) [unfolded write_api_def, rule_format, of "blankRoute key" f w] assms(2)
    by (auto split: sum.splits if_splits)
  have use: thesis if "written api key (f base) w (res, w')" "route_key base = key \<or> da_getRoute api key w = Inr base" for base
    using that by (auto simp: written_def split: sum.splits intro: refused stored)
  show thesis
  proof (cases "da_getRoute api key w")
    case (Inl e)
    with law show thesis by (auto split: if_splits intro: refused use)
  next
    case (Inr existing)
    with law show thesis by (auto intro: use)
  qed
qed

lemma reconcile_in_scope:
  assumes "da_getService api req w = Inr svc" and "inScope r svc"
    and "Discovery_Reconcile api r req w = ((res, err), w')"
  shows "\<exists>out. da_createOrUpdate api (blankRoute (generatedKey svc)) (mutateRoute api r svc) w = (out, w')
    \<and> (if out = None then res = noResult \<and> err = None else res_Requeue res \<or> err \<noteq> None)"
  using assms
  by (cases "da_createOrUpdate api (blankRoute (generatedKey svc)) (mutateRoute api r svc) w")
    (auto simp: Discovery_Reconcile_def split: option.splits if_splits)

section \<open>Properties\<close>

text \<open>Discovery publishes what it should. When reconciling a Service in scope reports success,
  the route of that Service's derived name exists, claims the Service's database name,
  points at the Service itself in its own namespace with the chosen port and priority and is
  marked as managed by discovery; every other route is untouched. When it does not succeed,
  nothing was written.\<close>

lemma discovery_publishes_the_service:
  assumes "write_api api" and "owner_api api" and "da_getService api req w = Inr svc" and "inScope r svc"
    and "om_Name (svc_Meta svc) \<noteq> []" and "Discovery_Reconcile api r req w = ((res, err), w')"
  shows "(res = noResult \<and> err = None
      \<and> (\<exists>route. da_getRoute api (generatedKey svc) w' = Inr route \<and> generated_for api r svc route)
      \<and> (\<forall>k. k \<noteq> generatedKey svc \<longrightarrow> da_getRoute api k w' = da_getRoute api k w))
    \<or> ((res_Requeue res \<or> err \<noteq> None) \<and> w' = w)"
proof -
  obtain out where cou: "da_createOrUpdate api (blankRoute (generatedKey svc)) (mutateRoute api r svc) w = (out, w')"
    and ok: "if out = None then res = noResult \<and> err = None else res_Requeue res \<or> err \<noteq> None"
    using reconcile_in_scope [OF assms(3,4,6)] by blast
  show ?thesis
    using assms(1) cou
  proof (cases rule: create_or_update_cases)
    case (refused e)
    then show ?thesis using ok by auto
  next
    case (stored base route st)
    have "generated_for api r svc route" using mutateRoute_InrD [OF stored(2) assms(2,5)] by simp
    then have "generated_for api r svc st" using generated_for_same stored(5) by blast
    then show ?thesis using ok stored by auto
  qed
qed

text \<open>C26: Discovery leaves other owners' routes alone. If reconciling a Service changes the cluster
  at all, then either the Service is in scope and the route of its derived name, if it
  existed, was not labelled as managed by anything but discovery; or the Service has left the
  scope, and what happened is the deletion of a route that is labelled as discovery's own and
  has that very Service as its controller.\<close>

theorem discovery_respects_other_owners:
  assumes "write_api api" and "da_getService api req w = Inr svc"
    and "Discovery_Reconcile api r req w = (out, w')" and "w' \<noteq> w"
  shows "(inScope r svc \<and> (\<forall>existing. da_getRoute api (generatedKey svc) w = Inr existing \<longrightarrow>
        gomap_str (om_Labels (pr_Meta existing)) ManagedByLabel \<in> {[], ManagedByServiceDiscovery}))
    \<or> (\<not> inScope r svc \<and> (\<exists>existing owner. da_getRoute api (generatedKey svc) w = Inr existing
        \<and> gomap_str (om_Labels (pr_Meta existing)) ManagedByLabel = ManagedByServiceDiscovery
        \<and> da_getControllerOf api existing = Some owner \<and> or_UID owner = om_UID (svc_Meta svc)
        \<and> w' = snd (da_deleteRoute api existing w)))"
proof (cases "inScope r svc")
  case True
  have "w' = w" if ex: "da_getRoute api (generatedKey svc) w = Inr existing"
    and label: "gomap_str (om_Labels (pr_Meta existing)) ManagedByLabel \<notin> {[], ManagedByServiceDiscovery}" for existing
  proof -
    obtain e where e: "mutateRoute api r svc existing = Inl e"
      using label by (auto simp: mutateRoute_def Let_def)
    have "da_createOrUpdate api (blankRoute (generatedKey svc)) (mutateRoute api r svc) w = (Some e, w)"
      using assms(1) [unfolded write_api_def, rule_format, of "blankRoute (generatedKey svc)" "mutateRoute api r svc" w]
        ex e by (simp add: written_def)
    then show ?thesis using assms(2,3) True by (auto simp: Discovery_Reconcile_def split: if_splits)
  qed
  with True assms(4) show ?thesis by blast
next
  case False
  with assms(2-4) show ?thesis
    by (auto simp: Discovery_Reconcile_def deleteGeneratedRoute_def
        split: sum.splits if_splits option.splits prod.splits)
qed

text \<open>A route somebody wrote by hand, without the managed-by label, under the derived name of a
  Service in scope is taken over: a successful reconcile replaces its database, priority and
  backend by the generated ones and labels it as discovery's own.\<close>

lemma unlabelled_route_is_taken_over:
  assumes "write_api api" and "owner_api api" and "da_getService api req w = Inr svc" and "inScope r svc"
    and "om_Name (svc_Meta svc) \<noteq> []" and "da_getRoute api (generatedKey svc) w = Inr handwritten"
    and "gomap_get (om_Labels (pr_Meta handwritten)) ManagedByLabel = None"
    and "Discovery_Reconcile api r req w = ((noResult, None), w')"
  shows "\<exists>route. da_getRoute api (generatedKey svc) w' = Inr route \<and> generated_for api r svc route"
proof -
  obtain out where cou: "da_createOrUpdate api (blankRoute (generatedKey svc)) (mutateRoute api r svc) w = (out, w')"
    and ok: "out \<noteq> None \<longrightarrow> res_Requeue noResult"
    using reconcile_in_scope [OF assms(3,4,8)] by metis
  show ?thesis
    using assms(1) cou
  proof (cases rule: create_or_update_cases)
    case (refused e)
    then show ?thesis using ok by (simp add: noResult_def)
  next
    case (stored base route st)
    have "generated_for api r svc route" using mutateRoute_InrD [OF stored(2) assms(2,5)] by simp
    then show ?thesis using generated_for_same stored(4,5) by blast
  qed
qed

lemma namedPostgres_SomeD:
  "namedPostgres ps = Some p \<Longrightarrow> \<exists>q\<in>set ps. svp_Port q = p \<and> svp_Name q \<in> {''postgresql'', ''postgres''}"
  by (induction ps) (auto split: if_splits)

lemma has5432_iff: "has5432 ps \<longleftrightarrow> 5432 \<in> svp_Port ` set ps"
  by (induction ps) auto

text \<open>The port discovery picks for a Service without a port annotation is one the resolver
  accepts, whenever the Service has a port named after PostgreSQL, or exposes 5432, or has
  exactly one port: looking it up on that Service succeeds with that very port.\<close>

lemma discovered_port_resolves:
  assumes "gomap_get (om_Annotations (svc_Meta svc)) PortAnnotation = None"
    and "(\<exists>q\<in>set (svc_Ports svc). svp_Name q = ''postgresql'' \<or> svp_Name q = ''postgres'')
      \<or> 5432 \<in> svp_Port ` set (svc_Ports svc) \<or> length (svc_Ports svc) = 1"
    and "cr_getService cr ctx (NamespacedName ns name) = Inr svc"
  shows "\<exists>p\<in>svp_Port ` set (svc_Ports svc).
    port intstrParse svc = intstr_FromInt32 p
    \<and> ResolveServicePort isNotFound cr ctx ns name (port intstrParse svc) = Inr p"
proof -
  have none: "namedPostgres ps = None \<longleftrightarrow> (\<forall>q\<in>set ps. svp_Name q \<noteq> ''postgresql'' \<and> svp_Name q \<noteq> ''postgres'')" for ps
    by (induction ps) auto
  have "\<exists>p\<in>svp_Port ` set (svc_Ports svc). defaultPort (svc_Ports svc) = intstr_FromInt32 p"
  proof (cases "namedPostgres (svc_Ports svc)")
    case (Some p)
    then show ?thesis using namedPostgres_SomeD [OF Some] by (auto simp: defaultPort_def)
  next
    case None
    with assms(2) none have "5432 \<in> svp_Port ` set (svc_Ports svc) \<or> length (svc_Ports svc) = 1" by auto
    then show ?thesis
    proof (cases "5432 \<in> svp_Port ` set (svc_Ports svc)")
      case True
      with None show ?thesis by (intro bexI [of _ 5432]) (auto simp: defaultPort_def has5432_iff)
    next
      case False
      then obtain q where "svc_Ports svc = [q]"
        using \<open>5432 \<in> svp_Port ` set (svc_Ports svc) \<or> length (svc_Ports svc) = 1\<close> by (auto simp: length_Suc_conv)
      with None show ?thesis by (simp add: defaultPort_def)
    qed
  qed
  then obtain p where p: "p \<in> svp_Port ` set (svc_Ports svc)" "port intstrParse svc = intstr_FromInt32 p"
    using assms(1) by (auto simp: port_def)
  moreover have "findPortNumber p (svc_Ports svc) = Some p"
    using p(1) findPortNumber_None_iff [of p "svc_Ports svc"] findPortNumber_SomeD [of p "svc_Ports svc"]
    by (cases "findPortNumber p (svc_Ports svc)") auto
  ultimately show ?thesis
    using assms(3) by (intro bexI [OF _ p(1)]) (simp add: ResolveServicePort_def intstr_FromInt32_def)
qed

section \<open>Witnesses\<close>

text \<open>A concrete cluster: the routes it stores. Only labels and specs of routes matter here.\<close>

type_synonym sample_cluster = "(NamespacedName, PostgresRoute) gomap"

definition cluster_getRoute :: "NamespacedName \<Rightarrow> sample_cluster \<Rightarrow> go_error + PostgresRoute" where
  "cluster_getRoute key w =
     (case gomap_get w key of None \<Rightarrow> Inl (External ''not found'' []) | Some r \<Rightarrow> Inr r)"

definition cluster_createOrUpdate ::
    "PostgresRoute \<Rightarrow> (PostgresRoute \<Rightarrow> go_error + PostgresRoute) \<Rightarrow> sample_cluster \<Rightarrow> go_error option \<times> sample_cluster" where
  "cluster_createOrUpdate obj f w =
     (case f (case gomap_get w (route_key obj) of None \<Rightarrow> obj | Some r \<Rightarrow> r) of
        Inl err \<Rightarrow> (Some err, w)
      | Inr r \<Rightarrow> (None, gomap_set w (route_key obj) r))"

definition cluster_api :: "sample_cluster discovery_api" where
  "cluster_api = \<lparr>da_getService = \<lambda>_ _. Inr sample_service, da_getRoute = cluster_getRoute,
     da_deleteRoute = \<lambda>r w. (None, gomap_del w (route_key r)), da_createOrUpdate = cluster_createOrUpdate,
     da_setControllerReference = \<lambda>_ r. Inr r,
     da_getControllerOf = \<lambda>_. Some \<lparr>or_Name = ''pg'', or_UID = ''u1'', or_Controller = True\<rparr>,
     da_isNotFound = external_not_found, da_isConflict = \<lambda>_. False, da_intstrParse = intstr_FromString\<rparr>"

lemma cluster_api_ok: "write_api cluster_api" "owner_api cluster_api"
proof -
  have wr: "written cluster_api (route_key obj) (f (case gomap_get w (route_key obj) of None \<Rightarrow> obj | Some r \<Rightarrow> r)) w
      (cluster_createOrUpdate obj f w)" for f obj w
    by (auto simp: written_def cluster_createOrUpdate_def cluster_api_def cluster_getRoute_def same_route_def
        split: sum.splits)
  have sel: "da_getRoute cluster_api = cluster_getRoute" "da_createOrUpdate cluster_api = cluster_createOrUpdate"
    "da_isNotFound cluster_api = external_not_found" by (simp_all add: cluster_api_def)
  show "write_api cluster_api"
    unfolding write_api_def
  proof (intro allI)
    fix obj f w
    show "case da_getRoute cluster_api (route_key obj) w of
        Inr existing \<Rightarrow> written cluster_api (route_key obj) (f existing) w (da_createOrUpdate cluster_api obj f w)
      | Inl err \<Rightarrow>
          if da_isNotFound cluster_api err
          then written cluster_api (route_key obj) (f obj) w (da_createOrUpdate cluster_api obj f w)
          else da_createOrUpdate cluster_api obj f w = (Some err, w)"
      using wr [of obj f w] unfolding sel
      by (cases "gomap_get w (route_key obj)") (simp_all add: cluster_getRoute_def)
  qed
  show "owner_api cluster_api" by (simp add: owner_api_def cluster_api_def same_route_def)
qed

definition sample_discovery :: "bool \<Rightarrow> ServiceDiscoveryReconciler" where
  "sample_discovery matches = \<lparr>sdr_Selector = \<lambda>_. matches, sdr_DatabaseAnnotation = DefaultDatabaseAnnotation\<rparr>"

lemma sample_service_scope:
  "da_getService cluster_api req w = Inr sample_service" "inScope (sample_discovery True) sample_service"
  "\<not> inScope (sample_discovery False) sample_service" "om_Name (svc_Meta sample_service) \<noteq> []"
  by (simp_all add: cluster_api_def inScope_def sample_discovery_def sample_service_def gomap_str_def IgnoreAnnotation_def)

definition own_route :: PostgresRoute where
  "own_route = (let r = blankRoute (generatedKey sample_service)
     in r\<lparr>pr_Meta := (pr_Meta r)\<lparr>om_Labels := [(ManagedByLabel, ManagedByServiceDiscovery)]\<rparr>\<rparr>)"

theorem discovery_respects_other_owners_witness:
  "\<exists>existing owner. Discovery_Reconcile cluster_api (sample_discovery False) noName [(generatedKey sample_service, own_route)]
        = ((noResult, None), [])
     \<and> da_getRoute cluster_api (generatedKey sample_service) [(generatedKey sample_service, own_route)] = Inr existing
     \<and> da_getControllerOf cluster_api existing = Some owner \<and> or_UID owner = om_UID (svc_Meta sample_service)"
proof -
  let ?w = "[(generatedKey sample_service, own_route)]"
  have own: "gomap_str (om_Labels (pr_Meta own_route)) ManagedByLabel = ManagedByServiceDiscovery"
    "route_key own_route = generatedKey sample_service"
    by (simp_all add: own_route_def gomap_str_def Let_def objectKey_def blankRoute_def generatedKey_def)
  have r: "Discovery_Reconcile cluster_api (sample_discovery False) noName ?w = ((noResult, None), [])"
    using sample_service_scope(3) own
    by (simp add: Discovery_Reconcile_def deleteGeneratedRoute_def cluster_api_def cluster_getRoute_def gomap_del_def)
      (simp add: sample_service_def)
  have "[] \<noteq> ?w" by simp
  from r discovery_respects_other_owners [OF cluster_api_ok(1) sample_service_scope(1) r this] sample_service_scope(3)
  show ?thesis by blast
qed

end
