(* ===== verification/Discovery_Loop.thy ===== *)
theory Discovery_Loop
  imports Control_Plane Discovery
begin

text \<open>
  The service discovery controller at work
  (\<^verbatim>\<open>src/src/internal/controller/servicediscovery_controller.go\<close>): what its watches let
  through, its queue and its reconciliations, beside whoever changes Services and routes.
  \<^verbatim>\<open>SetupWithManager\<close> filters the Service watch by the selector, and the filter looks at the
  new object of an update, as the documentation of \<^verbatim>\<open>predicate.NewPredicateFuncs\<close> says; changes
  of a route enqueue the Service that is its controller. Shown: where the controller comes to
  rest, Services that match the selector have exactly the routes they should have; and a
  Service that stops matching is never looked at again on that account, so its route stays.

  The informer cache of Services lags behind the server; routes are read as they are.
\<close>

section \<open>Definitions\<close>

type_synonym cluster = "(NamespacedName, Service) gomap \<times> (NamespacedName, PostgresRoute) gomap"

text \<open>The filter of the Service watch, on the old and the new object of an event.\<close>

definition matchesSelector :: "ServiceDiscoveryReconciler \<Rightarrow> Service \<Rightarrow> bool" where
  "matchesSelector r svc = sdr_Selector r (om_Labels (svc_Meta svc))"

definition watchPasses :: "ServiceDiscoveryReconciler \<Rightarrow> Service option \<Rightarrow> Service option \<Rightarrow> bool" where
  "watchPasses r old new =
     (case new of
        Some svc \<Rightarrow> matchesSelector r svc
      | None \<Rightarrow> (case old of Some svc \<Rightarrow> matchesSelector r svc | None \<Rightarrow> False))"

text \<open>\<^verbatim>\<open>Owns\<close>: an event of a route enqueues its controller, before and after the change.\<close>

definition ownerKeys :: "cluster discovery_api \<Rightarrow> PostgresRoute option \<Rightarrow> NamespacedName list" where
  "ownerKeys api route =
     (case route of
        None \<Rightarrow> []
      | Some x \<Rightarrow>
         (case da_getControllerOf api x of
            None \<Rightarrow> []
          | Some owner \<Rightarrow> [NamespacedName (om_Namespace (pr_Meta x)) (or_Name owner)]))"

definition routeEvents ::
    "cluster discovery_api \<Rightarrow> (NamespacedName, PostgresRoute) gomap \<Rightarrow> (NamespacedName, PostgresRoute) gomap \<Rightarrow> NamespacedName list" where
  "routeEvents api before after =
     concat (map (\<lambda>k. if gomap_get before k = gomap_get after k then []
                       else ownerKeys api (gomap_get before k) @ ownerKeys api (gomap_get after k))
       (map fst before @ map fst after))"

record discovery_loop =
  dl_services :: "(NamespacedName, Service) gomap"
  dl_watch :: "(NamespacedName \<times> Service option) list"
  dl_cache :: "(NamespacedName, Service) gomap"
  dl_routes :: "(NamespacedName, PostgresRoute) gomap"
  dl_events :: "NamespacedName list"
  dl_queue :: "NamespacedName list"

text \<open>The controller's own steps: its informer, its event handlers and its worker.\<close>

inductive discovery_step :: "cluster discovery_api \<Rightarrow> ServiceDiscoveryReconciler \<Rightarrow> discovery_loop \<Rightarrow> discovery_loop \<Rightarrow> bool"
  for api r where
  ds_informer: "dl_watch l = (k, new) # cs \<Longrightarrow>
     discovery_step api r l (l\<lparr>dl_watch := cs, dl_cache := put (k, new) (dl_cache l),
       dl_events := dl_events l @ (if watchPasses r (gomap_get (dl_cache l) k) new then [k] else [])\<rparr>)"
| ds_deliver: "dl_events l = k # ks \<Longrightarrow>
     discovery_step api r l (l\<lparr>dl_events := ks, dl_queue := enqueue k (dl_queue l)\<rparr>)"
| ds_reconcile: "k \<in> set (dl_queue l) \<Longrightarrow>
     Discovery_Reconcile api r k (dl_cache l, dl_routes l) = ((res, err), (cache, routes)) \<Longrightarrow>
     discovery_step api r l (l\<lparr>dl_cache := cache, dl_routes := routes,
       dl_events := dl_events l @ routeEvents api (dl_routes l) routes,
       dl_queue := requeue res err k (removeAll k (dl_queue l))\<rparr>)"

text \<open>An object has a name and is stored under its key.\<close>

definition named :: "NamespacedName \<Rightarrow> Service \<Rightarrow> bool" where
  "named k svc \<longleftrightarrow> objectKey (svc_Meta svc) = k \<and> om_Name (svc_Meta svc) \<noteq> []"

text \<open>What others do: they write and delete Services and routes, and the informers resync.\<close>

inductive discovery_world :: "cluster discovery_api \<Rightarrow> ServiceDiscoveryReconciler \<Rightarrow> discovery_loop \<Rightarrow> discovery_loop \<Rightarrow> bool"
  for api r where
  dw_service: "(\<And>svc. new = Some svc \<Longrightarrow> named k svc) \<Longrightarrow>
     discovery_world api r l (l\<lparr>dl_services := put (k, new) (dl_services l), dl_watch := dl_watch l @ [(k, new)]\<rparr>)"
| dw_route: "(\<And>x. new = Some x \<Longrightarrow> route_key x = k) \<Longrightarrow>
     discovery_world api r l (l\<lparr>dl_routes := put (k, new) (dl_routes l),
       dl_events := dl_events l @ routeEvents api (dl_routes l) (put (k, new) (dl_routes l))\<rparr>)"
| dw_resync_service: "gomap_get (dl_cache l) k = Some svc \<Longrightarrow> watchPasses r (Some svc) (Some svc) \<Longrightarrow>
     discovery_world api r l (l\<lparr>dl_events := dl_events l @ [k]\<rparr>)"
| dw_resync_route: "discovery_world api r l (l\<lparr>dl_events := dl_events l @ ownerKeys api (gomap_get (dl_routes l) k)\<rparr>)"

text \<open>At the start the informers report every Service the filter passes and every route.\<close>

inductive discovery_reach :: "cluster discovery_api \<Rightarrow> ServiceDiscoveryReconciler \<Rightarrow> discovery_loop \<Rightarrow> bool" for api r where
  discovery_start: "\<forall>k svc. gomap_get services k = Some svc \<longrightarrow> named k svc \<Longrightarrow>
     \<forall>k x. gomap_get routes k = Some x \<longrightarrow> route_key x = k \<Longrightarrow>
     discovery_reach api r
       \<lparr>dl_services = services, dl_watch = [], dl_cache = services, dl_routes = routes,
        dl_events = filter (\<lambda>k. watchPasses r None (gomap_get services k)) (map fst services) @ routeEvents api [] routes,
        dl_queue = []\<rparr>"
| discovery_own: "discovery_reach api r l \<Longrightarrow> discovery_step api r l l' \<Longrightarrow> discovery_reach api r l'"
| discovery_other: "discovery_reach api r l \<Longrightarrow> discovery_world api r l l' \<Longrightarrow> discovery_reach api r l'"

definition discovery_resting :: "discovery_loop \<Rightarrow> bool" where
  "discovery_resting l \<longleftrightarrow> dl_watch l = [] \<and> dl_events l = [] \<and> dl_queue l = []"

section \<open>What the client promises\<close>

text \<open>
  Reads answer from the cluster's state. \<^verbatim>\<open>CreateOrUpdate\<close> fetches the object or starts from
  the given one, mutates it and writes it, or reports an error and leaves the cluster alone; a
  write keeps what was asked for. A deletion removes the object or reports an error. The
  controller reference names the owner.
\<close>

definition controlledBy :: "cluster discovery_api \<Rightarrow> Service \<Rightarrow> PostgresRoute \<Rightarrow> bool" where
  "controlledBy api svc route \<longleftrightarrow> (\<exists>ow. da_getControllerOf api route = Some ow
     \<and> or_Name ow = om_Name (svc_Meta svc) \<and> or_UID ow = om_UID (svc_Meta svc))"

definition answers :: "(go_error \<Rightarrow> bool) \<Rightarrow> 'v option \<Rightarrow> go_error + 'v \<Rightarrow> bool" where
  "answers isNotFound stored answer \<longleftrightarrow>
     (case stored of Some x \<Rightarrow> answer = Inr x | None \<Rightarrow> \<exists>e. answer = Inl e \<and> isNotFound e)"

definition loop_api :: "cluster discovery_api \<Rightarrow> bool" where
  "loop_api api \<longleftrightarrow> owner_api api
     \<and> (\<forall>k w. answers (da_isNotFound api) (gomap_get (fst w) k) (da_getService api k w))
     \<and> (\<forall>k w. answers (da_isNotFound api) (gomap_get (snd w) k) (da_getRoute api k w))
     \<and> (\<forall>svc x y. da_setControllerReference api svc x = Inr y \<longrightarrow> controlledBy api svc y)
     \<and> (\<forall>obj f w. let base = (case gomap_get (snd w) (route_key obj) of Some x \<Rightarrow> x | None \<Rightarrow> obj) in
          (\<exists>err. da_createOrUpdate api obj f w = (Some err, w))
          \<or> (\<exists>x stored. f base = Inr x \<and> da_createOrUpdate api obj f w = (None, (fst w, gomap_set (snd w) (route_key obj) stored))
               \<and> same_route stored x \<and> da_getControllerOf api stored = da_getControllerOf api x))
     \<and> (\<forall>x w. da_deleteRoute api x w = (None, (fst w, gomap_del (snd w) (route_key x)))
          \<or> (\<exists>err. da_deleteRoute api x w = (Some err, w) \<and> (da_isNotFound api err \<longrightarrow> gomap_get (snd w) (route_key x) = None)))"

lemma loop_api_create:
  assumes "loop_api api" and "da_createOrUpdate api (blankRoute key) f (c, rs) = (out, w')"
  obtains err where "out = Some err" "w' = (c, rs)"
  | x base stored where "out = None" "f base = Inr x" "route_key base = key \<or> gomap_get rs key = Some base"
      "w' = (c, gomap_set rs key stored)" "same_route stored x" "da_getControllerOf api stored = da_getControllerOf api x"
proof -
  let ?base = "case gomap_get rs key of Some x \<Rightarrow> x | None \<Rightarrow> blankRoute key"
  have base: "route_key ?base = key \<or> gomap_get rs key = Some ?base" by (simp split: option.split)
  have "(\<exists>err. da_createOrUpdate api (blankRoute key) f (c, rs) = (Some err, (c, rs)))
      \<or> (\<exists>x stored. f ?base = Inr x \<and> da_createOrUpdate api (blankRoute key) f (c, rs) = (None, (c, gomap_set rs key stored))
           \<and> same_route stored x \<and> da_getControllerOf api stored = da_getControllerOf api x)"
    using assms(1) unfolding loop_api_def Let_def by (metis blankRoute_key fst_conv snd_conv)
  with assms(2) base that show thesis by auto
qed

lemma loop_api_read:
  assumes "loop_api api"
  shows "gomap_get c k = Some svc \<Longrightarrow> da_getService api k (c, rs) = Inr svc"
    and "gomap_get c k = None \<Longrightarrow> \<exists>e. da_getService api k (c, rs) = Inl e \<and> da_isNotFound api e"
    and "gomap_get rs k = Some x \<Longrightarrow> da_getRoute api k (c, rs) = Inr x"
    and "gomap_get rs k = None \<Longrightarrow> \<exists>e. da_getRoute api k (c, rs) = Inl e \<and> da_isNotFound api e"
proof -
  have s: "answers (da_isNotFound api) (gomap_get c k) (da_getService api k (c, rs))"
    and t: "answers (da_isNotFound api) (gomap_get rs k) (da_getRoute api k (c, rs))"
    using assms unfolding loop_api_def by (metis fst_conv, metis snd_conv)
  show "gomap_get c k = Some svc \<Longrightarrow> da_getService api k (c, rs) = Inr svc"
    "gomap_get c k = None \<Longrightarrow> \<exists>e. da_getService api k (c, rs) = Inl e \<and> da_isNotFound api e"
    using s by (auto simp: answers_def)
  show "gomap_get rs k = Some x \<Longrightarrow> da_getRoute api k (c, rs) = Inr x"
    "gomap_get rs k = None \<Longrightarrow> \<exists>e. da_getRoute api k (c, rs) = Inl e \<and> da_isNotFound api e"
    using t by (auto simp: answers_def)
qed

section \<open>What one reconciliation achieves\<close>

definition managed :: "PostgresRoute \<Rightarrow> bool" where
  "managed x \<longleftrightarrow> gomap_str (om_Labels (pr_Meta x)) ManagedByLabel = ManagedByServiceDiscovery"

text \<open>The route a Service in scope should have, and the one a Service out of scope should not.\<close>

definition discovered :: "cluster discovery_api \<Rightarrow> ServiceDiscoveryReconciler \<Rightarrow> Service \<Rightarrow> (NamespacedName, PostgresRoute) gomap \<Rightarrow> bool" where
  "discovered api r svc rs \<longleftrightarrow>
     (if inScope r svc
      then \<exists>x. gomap_get rs (generatedKey svc) = Some x \<and> generated_for api r svc x \<and> controlledBy api svc x
      else \<nexists>x. gomap_get rs (generatedKey svc) = Some x \<and> managed x \<and> controlledBy api svc x)"

definition keyed_routes :: "(NamespacedName, PostgresRoute) gomap \<Rightarrow> bool" where
  "keyed_routes rs \<longleftrightarrow> (\<forall>k x. gomap_get rs k = Some x \<longrightarrow> route_key x = k)"

text \<open>A mutated route is the one the Service calls for, and the Service controls it.\<close>

lemma mutateRoute_owned:
  assumes "loop_api api" and "mutateRoute api r svc base = Inr x"
  shows "controlledBy api svc x" and "route_key x = route_key base"
proof -
  from assms(2) obtain labels spec where set: "da_setControllerReference api svc
      (base\<lparr>pr_Meta := (pr_Meta base)\<lparr>om_Labels := labels\<rparr>, pr_Spec := spec\<rparr>) = Inr x"
    by (auto simp: mutateRoute_def Let_def split: if_splits)
  then show "controlledBy api svc x" using assms(1) unfolding loop_api_def by blast
  have "owner_api api" using assms(1) by (simp add: loop_api_def)
  with set show "route_key x = route_key base" by (auto simp: owner_api_def same_route_def objectKey_def)
qed

lemma reconcile_present:
  assumes api: "loop_api api" and svc: "gomap_get c k = Some svc" and "om_Name (svc_Meta svc) \<noteq> []" and rs: "keyed_routes rs"
    and scope: "inScope r svc" and run: "Discovery_Reconcile api r k (c, rs) = ((res, err), (c', rs'))"
  shows "c' = c \<and> keyed_routes rs' \<and> (\<forall>g. g \<noteq> generatedKey svc \<longrightarrow> gomap_get rs' g = gomap_get rs g)
    \<and> (res_Requeue res \<or> err \<noteq> None \<or> discovered api r svc rs')"
proof -
  obtain out where cou: "da_createOrUpdate api (blankRoute (generatedKey svc)) (mutateRoute api r svc) (c, rs) = (out, (c', rs'))"
    and ok: "if out = None then res = noResult \<and> err = None else res_Requeue res \<or> err \<noteq> None"
    using reconcile_in_scope [OF loop_api_read(1) [OF api svc] scope run] by blast
  show ?thesis
    using api cou
  proof (cases rule: loop_api_create)
    case (1 e)
    with ok rs show ?thesis by auto
  next
    case (2 x base stored)
    have own: "owner_api api" using api by (simp add: loop_api_def)
    have base: "route_key base = generatedKey svc" using 2(3) rs by (auto simp: keyed_routes_def)
    have "generated_for api r svc stored"
      using mutateRoute_InrD [OF 2(2) own assms(3)] generated_for_same [OF 2(5)] by blast
    moreover have "controlledBy api svc stored" using mutateRoute_owned(1) [OF api 2(2)] 2(6) by (simp add: controlledBy_def)
    moreover have "route_key stored = generatedKey svc"
      using mutateRoute_owned(2) [OF api 2(2)] 2(5) base by (simp add: same_route_def)
    ultimately show ?thesis using 2(4) rs scope by (simp add: keyed_routes_def discovered_def)
  qed
qed

lemma reconcile_absent:
  assumes api: "loop_api api" and svc: "gomap_get c k = Some svc" and rs: "keyed_routes rs"
    and scope: "\<not> inScope r svc" and run: "Discovery_Reconcile api r k (c, rs) = ((res, err), (c', rs'))"
  shows "c' = c \<and> keyed_routes rs' \<and> (\<forall>g. g \<noteq> generatedKey svc \<longrightarrow> gomap_get rs' g = gomap_get rs g)
    \<and> (err \<noteq> None \<or> discovered api r svc rs')"
proof -
  have del: "deleteGeneratedRoute api svc (c, rs) = (err, (c', rs'))"
    using run scope loop_api_read(1) [OF api svc] by (auto simp: Discovery_Reconcile_def split: prod.splits)
  show ?thesis
  proof (cases "gomap_get rs (generatedKey svc)")
    case None
    with del loop_api_read(4) [OF api None, of c] rs scope show ?thesis by (auto simp: deleteGeneratedRoute_def discovered_def)
  next
    case (Some x)
    have key: "route_key x = generatedKey svc" using rs Some by (simp add: keyed_routes_def)
    note get = loop_api_read(3) [OF api Some, of c]
    show ?thesis
    proof (cases "managed x \<and> (\<exists>ow. da_getControllerOf api x = Some ow \<and> or_UID ow = om_UID (svc_Meta svc))")
      case False
      then have "c' = c" "rs' = rs" using del get by (auto simp: deleteGeneratedRoute_def managed_def split: option.splits if_splits)
      with False Some rs scope show ?thesis by (auto simp: discovered_def controlledBy_def)
    next
      case True
      then have d: "(case da_deleteRoute api x (c, rs) of (Some e, w') \<Rightarrow> (if da_isNotFound api e then None else Some e, w') | (None, w') \<Rightarrow> (None, w'))
          = (err, (c', rs'))"
        using del get by (auto simp: deleteGeneratedRoute_def managed_def)
      have "da_deleteRoute api x (c, rs) = (None, (c, gomap_del rs (route_key x)))
          \<or> (\<exists>e. da_deleteRoute api x (c, rs) = (Some e, (c, rs)) \<and> (da_isNotFound api e \<longrightarrow> gomap_get rs (route_key x) = None))"
        using api unfolding loop_api_def by (metis fst_conv snd_conv)
      with d Some key rs scope show ?thesis by (auto simp: keyed_routes_def discovered_def split: if_splits)
    qed
  qed
qed

lemma reconcile_gone:
  assumes "loop_api api" and "gomap_get c k = None" and "Discovery_Reconcile api r k (c, rs) = ((res, err), (c', rs'))"
  shows "c' = c" and "rs' = rs"
  using assms(3) loop_api_read(2) [OF assms(1,2), of rs] by (auto simp: Discovery_Reconcile_def)

section \<open>Changes of routes reach their Services\<close>

lemma routeEvents_owner:
  assumes "gomap_get before g \<noteq> gomap_get after g"
    and "k \<in> set (ownerKeys api (gomap_get before g)) \<union> set (ownerKeys api (gomap_get after g))"
  shows "k \<in> set (routeEvents api before after)"
proof -
  have "g \<in> fst ` set before \<union> fst ` set after"
    using assms(1) by (metis UnI1 UnI2 map_of_eq_None_iff)
  with assms show ?thesis by (auto simp: routeEvents_def)
qed

lemma controlledBy_owner:
  assumes "controlledBy api svc x" and "route_key x = generatedKey svc"
  shows "objectKey (svc_Meta svc) \<in> set (ownerKeys api (Some x))"
  using assms by (auto simp: controlledBy_def ownerKeys_def generatedKey_def objectKey_def)

lemma discovered_change:
  assumes "discovered api r svc rs" and "\<not> discovered api r svc rs'" and "keyed_routes rs" and "keyed_routes rs'"
  shows "objectKey (svc_Meta svc) \<in> set (routeEvents api rs rs')"
proof (cases "inScope r svc")
  case True
  then obtain x where x: "gomap_get rs (generatedKey svc) = Some x" "controlledBy api svc x" using assms(1) by (auto simp: discovered_def)
  moreover have "gomap_get rs (generatedKey svc) \<noteq> gomap_get rs' (generatedKey svc)"
    using assms(1,2) True by (auto simp: discovered_def)
  ultimately show ?thesis
    using controlledBy_owner [OF x(2)] assms(3) by (intro routeEvents_owner [of rs "generatedKey svc"]) (simp_all add: keyed_routes_def)
next
  case False
  then obtain x where x: "gomap_get rs' (generatedKey svc) = Some x" "controlledBy api svc x" using assms(2) by (auto simp: discovered_def)
  moreover have "gomap_get rs (generatedKey svc) \<noteq> gomap_get rs' (generatedKey svc)"
    using assms(1,2) False by (auto simp: discovered_def)
  ultimately show ?thesis
    using controlledBy_owner [OF x(2)] assms(4) by (intro routeEvents_owner [of rs "generatedKey svc"]) (simp_all add: keyed_routes_def)
qed

section \<open>The invariant\<close>

definition services_inv :: "discovery_loop \<Rightarrow> bool" where
  "services_inv l \<longleftrightarrow>
     (\<forall>k svc. gomap_get (dl_cache l) k = Some svc \<longrightarrow> named k svc)
     \<and> (\<forall>k svc. (k, Some svc) \<in> set (dl_watch l) \<longrightarrow> named k svc)
     \<and> (\<forall>k. gomap_get (fold put (dl_watch l) (dl_cache l)) k = gomap_get (dl_services l) k)
     \<and> keyed_routes (dl_routes l)"

definition discovery_inv :: "cluster discovery_api \<Rightarrow> ServiceDiscoveryReconciler \<Rightarrow> discovery_loop \<Rightarrow> bool" where
  "discovery_inv api r l \<longleftrightarrow> (\<forall>k svc. gomap_get (dl_cache l) k = Some svc \<and> matchesSelector r svc \<longrightarrow>
     k \<in> set (dl_queue l) \<union> set (dl_events l) \<or> discovered api r svc (dl_routes l))"

lemma reconcile_frame:
  assumes api: "loop_api api" and inv: "services_inv l"
    and run: "Discovery_Reconcile api r k (dl_cache l, dl_routes l) = ((res, err), (cache, routes))"
  shows "cache = dl_cache l" and "keyed_routes routes"
    and "\<And>svc. gomap_get (dl_cache l) k = Some svc \<Longrightarrow> res_Requeue res \<or> err \<noteq> None \<or> discovered api r svc routes"
    and "\<And>k' svc. k' \<noteq> k \<Longrightarrow> gomap_get (dl_cache l) k' = Some svc \<Longrightarrow> discovered api r svc routes = discovered api r svc (dl_routes l)"
proof -
  have rs: "keyed_routes (dl_routes l)" using inv by (simp add: services_inv_def)
  consider "gomap_get (dl_cache l) k = None" "cache = dl_cache l" "routes = dl_routes l"
    | svc where "gomap_get (dl_cache l) k = Some svc" "named k svc" "cache = dl_cache l" "keyed_routes routes"
      "\<And>g. g \<noteq> generatedKey svc \<Longrightarrow> gomap_get routes g = gomap_get (dl_routes l) g"
      "res_Requeue res \<or> err \<noteq> None \<or> discovered api r svc routes"
  proof (cases "gomap_get (dl_cache l) k")
    case None
    with reconcile_gone [OF api None run] that(1) show thesis by blast
  next
    case (Some svc)
    have n: "named k svc" using inv Some by (simp add: services_inv_def)
    show thesis
      using that(2) [OF Some n] reconcile_present [OF api Some _ rs _ run] reconcile_absent [OF api Some rs _ run] n
      by (cases "inScope r svc") (auto simp: named_def)
  qed
  note cases = this
  from cases show "cache = dl_cache l" by cases auto
  from cases show "keyed_routes routes" using rs by cases auto
  from cases show "res_Requeue res \<or> err \<noteq> None \<or> discovered api r svc routes" if "gomap_get (dl_cache l) k = Some svc" for svc
    using that by cases auto
  show "discovered api r svc routes = discovered api r svc (dl_routes l)" if "k' \<noteq> k" "gomap_get (dl_cache l) k' = Some svc" for k' svc
    using cases
  proof cases
    case (2 svc0)
    have "named k' svc" using inv that(2) by (simp add: services_inv_def)
    then have "generatedKey svc \<noteq> generatedKey svc0"
      using 2(2) that(1) by (auto simp: named_def generatedKey_def generatedRouteName_def objectKey_def)
    then show ?thesis using 2(5) by (simp add: discovered_def)
  qed simp
qed

lemma services_inv_step:
  assumes "loop_api api" and "discovery_step api r l l'" and "services_inv l"
  shows "services_inv l'"
  using assms(2)
proof cases
  case (ds_informer k new cs)
  with assms(3) show ?thesis by (auto simp: services_inv_def split: if_splits)
next
  case (ds_deliver k ks)
  with assms(3) show ?thesis by (simp add: services_inv_def)
next
  case (ds_reconcile k res err cache routes)
  with reconcile_frame(1,2) [OF assms(1,3) ds_reconcile(3)] assms(3) show ?thesis by (simp add: services_inv_def)
qed

lemma services_inv_world:
  assumes "discovery_world api r l l'" and "services_inv l"
  shows "services_inv l'"
  using assms by (cases) (auto simp: services_inv_def keyed_routes_def split: if_splits)

lemma discovery_inv_step:
  assumes api: "loop_api api" and step: "discovery_step api r l l'" and inv: "services_inv l" "discovery_inv api r l"
  shows "discovery_inv api r l'"
  using step
proof cases
  case (ds_informer k new cs)
  with inv(2) show ?thesis by (auto simp: discovery_inv_def watchPasses_def split: if_splits)
next
  case (ds_deliver k ks)
  with inv(2) show ?thesis by (auto simp: discovery_inv_def)
next
  case (ds_reconcile k res err cache routes)
  note frame = reconcile_frame [OF api inv(1) ds_reconcile(3)]
  show ?thesis
    unfolding discovery_inv_def
  proof (intro allI impI)
    fix k' svc
    assume "gomap_get (dl_cache l') k' = Some svc \<and> matchesSelector r svc"
    then have svc: "gomap_get (dl_cache l) k' = Some svc" "matchesSelector r svc" using frame(1) ds_reconcile(1) by auto
    show "k' \<in> set (dl_queue l') \<union> set (dl_events l') \<or> discovered api r svc (dl_routes l')"
    proof (cases "k' = k")
      case True
      with frame(3) svc(1) show ?thesis by (auto simp: ds_reconcile(1) requeue_def)
    next
      case False
      then have "k' \<in> set (dl_queue l) \<union> set (dl_events l) \<or> discovered api r svc routes"
        using frame(4) [OF False svc(1)] inv(2) svc by (simp add: discovery_inv_def)
      with False show ?thesis by (auto simp: ds_reconcile(1) requeue_def)
    qed
  qed
qed

lemma discovery_inv_world:
  assumes step: "discovery_world api r l l'" and inv: "services_inv l" "discovery_inv api r l"
  shows "discovery_inv api r l'"
  using step
proof cases
  case (dw_route new k)
  have rs: "keyed_routes (dl_routes l)" "keyed_routes (dl_routes l')"
    using inv(1) services_inv_world [OF step inv(1)] by (simp_all add: services_inv_def)
  show ?thesis
    unfolding discovery_inv_def
  proof (intro allI impI)
    fix k' svc
    assume "gomap_get (dl_cache l') k' = Some svc \<and> matchesSelector r svc"
    then have svc: "gomap_get (dl_cache l) k' = Some svc" "matchesSelector r svc" by (simp_all add: dw_route(1))
    then have "objectKey (svc_Meta svc) = k'" using inv(1) by (simp add: services_inv_def named_def)
    moreover have "k' \<in> set (dl_queue l) \<union> set (dl_events l) \<or> discovered api r svc (dl_routes l)"
      using inv(2) svc by (simp add: discovery_inv_def)
    ultimately show "k' \<in> set (dl_queue l') \<union> set (dl_events l') \<or> discovered api r svc (dl_routes l')"
      using discovered_change [OF _ _ rs, of api r svc] by (auto simp: dw_route(1))
  qed
qed (use inv(2) in \<open>auto simp: discovery_inv_def\<close>)

lemma discovery_reach_inv:
  assumes "discovery_reach api r l" and "loop_api api"
  shows "services_inv l \<and> discovery_inv api r l"
  using assms(1)
proof (induction rule: discovery_reach.induct)
  case (discovery_start services routes)
  then show ?case
    by (auto simp: services_inv_def keyed_routes_def discovery_inv_def watchPasses_def dest: map_of_SomeD intro: rev_image_eqI)
next
  case (discovery_own l l')
  then show ?case using services_inv_step [OF assms(2)] discovery_inv_step [OF assms(2)] by blast
next
  case (discovery_other l l')
  then show ?case using services_inv_world discovery_inv_world by blast
qed

lemma discovery_rest:
  assumes "loop_api api" and "discovery_reach api r l" and "discovery_resting l"
    and "gomap_get (dl_services l) k = Some svc" and "matchesSelector r svc"
  shows "discovered api r svc (dl_routes l)"
proof -
  have inv: "services_inv l" "discovery_inv api r l" using discovery_reach_inv [OF assms(2,1)] by auto
  have "gomap_get (dl_cache l) k = Some svc" using inv(1) assms(3,4) by (simp add: services_inv_def discovery_resting_def)
  then show ?thesis using inv(2) assms(3,5) by (auto simp: discovery_inv_def discovery_resting_def)
qed

section \<open>Properties\<close>

text \<open>C27: Where discovery comes to rest it is right about the Services it watches. Whatever was written
  and deleted before, by anyone, with caches and events lagging behind, when nothing is left to
  do every Service that matches the selector and is in scope has its generated route, with the
  database, priority, backend and owner the Service calls for, and one that is annotated out or
  being deleted has no route of discovery's own left.\<close>

theorem discovery_settles:
  assumes "loop_api api" and "discovery_reach api r l" and "discovery_resting l"
    and "gomap_get (dl_services l) k = Some svc" and "matchesSelector r svc"
  shows "if inScope r svc
    then \<exists>x. gomap_get (dl_routes l) (generatedKey svc) = Some x \<and> generated_for api r svc x \<and> controlledBy api svc x
    else \<nexists>x. gomap_get (dl_routes l) (generatedKey svc) = Some x \<and> managed x \<and> controlledBy api svc x"
  using discovery_rest [OF assms] by (simp add: discovered_def)

text \<open>C37: A Service that loses its label keeps its route. The filter of the Service watch drops the very
  update by which a Service stops matching the selector: from a state at rest, when a Service's
  labels change so that it no longer matches, the controller takes in the change and is at rest
  again without having reconciled anything, and the generated route stays published.\<close>

theorem lost_label_goes_unnoticed:
  assumes "loop_api api" and "discovery_reach api r l" and "discovery_resting l"
    and "gomap_get (dl_services l) k = Some svc" and "inScope r svc" and "named k svc'" and "\<not> matchesSelector r svc'"
    and "(discovery_step api r)\<^sup>*\<^sup>* (l\<lparr>dl_services := put (k, Some svc') (dl_services l), dl_watch := [(k, Some svc')]\<rparr>) l'"
  shows "(\<exists>x. gomap_get (dl_routes l') (generatedKey svc) = Some x \<and> generated_for api r svc x)
    \<and> ((\<nexists>l''. discovery_step api r l' l'') \<longrightarrow> discovery_resting l' \<and> gomap_get (dl_cache l') k = Some svc')"
proof -
  let ?l1 = "l\<lparr>dl_services := put (k, Some svc') (dl_services l), dl_watch := [(k, Some svc')]\<rparr>"
  let ?l2 = "?l1\<lparr>dl_watch := [], dl_cache := put (k, Some svc') (dl_cache l)\<rparr>"
  have rest: "dl_events l = []" "dl_queue l = []" using assms(3) by (simp_all add: discovery_resting_def)
  have first: "discovery_step api r ?l1 l2 \<longleftrightarrow> l2 = ?l2" for l2
    using assms(7) rest by (auto simp: discovery_step.simps watchPasses_def)
  have second: "\<not> discovery_step api r ?l2 l3" for l3 using rest by (auto simp: discovery_step.simps)
  from assms(8) have "l' = ?l1 \<or> l' = ?l2"
  proof (induction rule: rtranclp_induct)
    case (step y z)
    then show ?case using first second by blast
  qed simp
  moreover have "discovered api r svc (dl_routes l)"
    using discovery_rest [OF assms(1-4)] assms(5) by (auto simp: inScope_def matchesSelector_def)
  ultimately show ?thesis
    using first assms(5) rest by (auto simp: discovered_def discovery_resting_def)
qed

section \<open>Witnesses\<close>

text \<open>A cluster in memory, and a Service that is labelled for discovery and has its route.\<close>

definition memory_create ::
    "PostgresRoute \<Rightarrow> (PostgresRoute \<Rightarrow> go_error + PostgresRoute) \<Rightarrow> cluster \<Rightarrow> go_error option \<times> cluster" where
  "memory_create obj f w =
     (let base = (case gomap_get (snd w) (route_key obj) of Some x \<Rightarrow> x | None \<Rightarrow> obj) in
      case f base of
        Inl err \<Rightarrow> (Some err, w)
      | Inr x \<Rightarrow> (None, (fst w, gomap_set (snd w) (route_key obj) (x\<lparr>pr_Status := pr_Status base\<rparr>))))"

definition memory_get :: "('k, 'v) gomap \<Rightarrow> 'k \<Rightarrow> go_error + 'v" where
  "memory_get m k = (case gomap_get m k of None \<Rightarrow> Inl (External ''not found'' []) | Some x \<Rightarrow> Inr x)"

definition memory_api :: "cluster discovery_api" where
  "memory_api = \<lparr>da_getService = \<lambda>k w. memory_get (fst w) k, da_getRoute = \<lambda>k w. memory_get (snd w) k,
     da_deleteRoute = \<lambda>x w. (None, (fst w, gomap_del (snd w) (route_key x))), da_createOrUpdate = memory_create,
     da_setControllerReference = \<lambda>svc x. Inr (x\<lparr>pr_Meta := (pr_Meta x)\<lparr>om_OwnerReferences :=
        [\<lparr>or_Name = om_Name (svc_Meta svc), or_UID = om_UID (svc_Meta svc), or_Controller = True\<rparr>]\<rparr>\<rparr>),
     da_getControllerOf = \<lambda>x. find or_Controller (om_OwnerReferences (pr_Meta x)),
     da_isNotFound = external_not_found, da_isConflict = \<lambda>_. False, da_intstrParse = intstr_FromString\<rparr>"

lemma memory_answers: "answers external_not_found (gomap_get m k) (memory_get m k)"
  by (simp add: answers_def memory_get_def split: option.split)

lemma memory_api_ok: "loop_api memory_api"
  by (auto simp: loop_api_def memory_api_def memory_answers owner_api_def same_route_def controlledBy_def memory_create_def
      objectKey_def Let_def split: sum.split)

definition labelled_service :: Service where
  "labelled_service = sample_service\<lparr>svc_Meta := (svc_Meta sample_service)\<lparr>om_Labels := [(''expose'', ''yes'')]\<rparr>\<rparr>"

definition label_discovery :: ServiceDiscoveryReconciler where
  "label_discovery = \<lparr>sdr_Selector = \<lambda>labels. gomap_get labels ''expose'' = Some ''yes'',
     sdr_DatabaseAnnotation = DefaultDatabaseAnnotation\<rparr>"

abbreviation pg_key :: NamespacedName where "pg_key \<equiv> NamespacedName ''apps'' ''pg''"

definition made_route :: PostgresRoute where
  "made_route = (case mutateRoute memory_api label_discovery labelled_service (blankRoute (generatedKey labelled_service)) of
     Inr x \<Rightarrow> x | Inl e \<Rightarrow> blankRoute (generatedKey labelled_service))"

lemma made_again:
  "mutateRoute memory_api label_discovery labelled_service made_route = Inr made_route"
  "route_key made_route = generatedKey labelled_service"
  by (simp_all add: made_route_def mutateRoute_def memory_api_def blankRoute_def gomap_str_def gomap_set_def ManagedByLabel_def
      SourceServiceLabel_def ManagedByServiceDiscovery_def generatedKey_def objectKey_def)

lemma made_status: "st_Conditions (pr_Status made_route) = []"
  by (simp add: made_route_def mutateRoute_def memory_api_def blankRoute_def gomap_str_def)

lemma labelled_service:
  "named pg_key labelled_service" "matchesSelector label_discovery labelled_service" "inScope label_discovery labelled_service"
  "named pg_key sample_service" "\<not> matchesSelector label_discovery sample_service"
  by (simp_all add: named_def labelled_service_def sample_service_def objectKey_def matchesSelector_def label_discovery_def
      inScope_def gomap_str_def IgnoreAnnotation_def)

definition calm_loop :: discovery_loop where
  "calm_loop = \<lparr>dl_services = [(pg_key, labelled_service)], dl_watch = [], dl_cache = [(pg_key, labelled_service)],
     dl_routes = [(generatedKey labelled_service, made_route)], dl_events = [], dl_queue = []\<rparr>"

lemma made_owner: "ownerKeys memory_api (Some made_route) = [pg_key]"
  by (simp add: ownerKeys_def made_route_def mutateRoute_def memory_api_def blankRoute_def gomap_str_def generatedKey_def
      labelled_service_def sample_service_def)

lemma made_reconcile:
  "Discovery_Reconcile memory_api label_discovery pg_key ([(pg_key, labelled_service)], [(generatedKey labelled_service, made_route)])
   = ((noResult, None), ([(pg_key, labelled_service)], [(generatedKey labelled_service, made_route)]))"
proof -
  let ?w = "([(pg_key, labelled_service)], [(generatedKey labelled_service, made_route)])"
  have "memory_create (blankRoute (generatedKey labelled_service)) (mutateRoute memory_api label_discovery labelled_service) ?w = (None, ?w)"
    by (simp add: memory_create_def made_again gomap_set_def)
  then show ?thesis
    using labelled_service(3) by (simp add: Discovery_Reconcile_def memory_api_def memory_get_def)
qed

text \<open>At the start both informers report the Service; the controller looks at it and finds nothing to change.\<close>

definition calm_start :: discovery_loop where
  "calm_start = calm_loop\<lparr>dl_events := [pg_key, pg_key]\<rparr>"

lemma calm_start:
  "calm_start = \<lparr>dl_services = [(pg_key, labelled_service)], dl_watch = [], dl_cache = [(pg_key, labelled_service)],
     dl_routes = dl_routes calm_loop,
     dl_events = filter (\<lambda>k. watchPasses label_discovery None (gomap_get [(pg_key, labelled_service)] k)) (map fst [(pg_key, labelled_service)])
       @ routeEvents memory_api [] (dl_routes calm_loop),
     dl_queue = []\<rparr>"
  by (simp add: calm_start_def calm_loop_def labelled_service watchPasses_def routeEvents_def made_owner ownerKeys_def [of _ None])

lemma calm_steps: "(\<lambda>l l'. discovery_step memory_api label_discovery l l' \<and> dl_routes l' = dl_routes calm_loop)\<^sup>*\<^sup>* calm_start calm_loop"
proof -
  let ?k = pg_key and ?step = "\<lambda>l l'. discovery_step memory_api label_discovery l l' \<and> dl_routes l' = dl_routes calm_loop"
  define l1 where "l1 = calm_loop\<lparr>dl_events := [?k], dl_queue := [?k]\<rparr>"
  define l2 where "l2 = calm_loop\<lparr>dl_queue := [?k]\<rparr>"
  have s1: "?step calm_start l1" using ds_deliver [of calm_start ?k "[?k]"] by (simp add: calm_start_def l1_def calm_loop_def enqueue_def)
  have s2: "?step l1 l2" using ds_deliver [of l1 ?k "[]"] by (simp add: l1_def l2_def calm_loop_def enqueue_def)
  have s3: "?step l2 calm_loop"
    using ds_reconcile [of ?k l2 memory_api label_discovery noResult None "dl_cache l2" "dl_routes l2"] made_reconcile
    by (simp add: l2_def calm_loop_def requeue_def noResult_def routeEvents_def)
  note more = converse_rtranclp_into_rtranclp [where r = ?step]
  show ?thesis by (rule more [OF s1 more [OF s2 more [OF s3 rtranclp.rtrancl_refl]]])
qed

lemma calm_reach: "discovery_reach memory_api label_discovery calm_loop"
  using calm_steps
proof (induction rule: rtranclp_induct)
  case base
  show ?case
    unfolding calm_start by (rule discovery_start) (simp_all add: labelled_service made_again calm_loop_def)
next
  case (step l l')
  then show ?case by (blast intro: discovery_own)
qed

lemma calm_rest: "discovery_resting calm_loop" "gomap_get (dl_services calm_loop) pg_key = Some labelled_service"
  by (simp_all add: discovery_resting_def calm_loop_def)

theorem discovery_settles_witness:
  "\<exists>x. gomap_get (dl_routes calm_loop) (generatedKey labelled_service) = Some x
     \<and> generated_for memory_api label_discovery labelled_service x \<and> controlledBy memory_api labelled_service x"
  using discovery_settles [OF memory_api_ok calm_reach calm_rest labelled_service(2)] labelled_service(3) by simp

theorem lost_label_goes_unnoticed_witness:
  "\<exists>l' x. (discovery_step memory_api label_discovery)\<^sup>*\<^sup>*
       (calm_loop\<lparr>dl_services := put (pg_key, Some sample_service) (dl_services calm_loop), dl_watch := [(pg_key, Some sample_service)]\<rparr>) l'
     \<and> \<not> inScope label_discovery sample_service
     \<and> gomap_get (dl_routes l') (generatedKey labelled_service) = Some x \<and> generated_for memory_api label_discovery labelled_service x"
proof -
  have "\<not> inScope label_discovery sample_service"
    using labelled_service(5) by (simp add: inScope_def matchesSelector_def)
  with lost_label_goes_unnoticed [OF memory_api_ok calm_reach calm_rest labelled_service(3-5) rtranclp.rtrancl_refl] show ?thesis
    by blast
qed

end
