(* ===== verification/Joint_System.thy ===== *)
theory Joint_System
  imports Settling Discovery_Loop
begin

text \<open>
  Discovery and the control plane on one API server. The control plane of \<^verbatim>\<open>Control_Plane\<close> and
  the discovery controller of \<^verbatim>\<open>Discovery_Loop\<close>, on the same replica or on different ones,
  change and watch the same routes: a generated route reaches the builder as a cluster event, and a status the
  reconciler writes reaches discovery as an event of a route it owns. Shown: every step of the
  joint system is a step of one side and something that can happen around the other, so that
  what is proved of each side alone holds of both together.
\<close>

section \<open>Definitions\<close>

text \<open>The routes have changed: discovery gets events for their owners, the control plane's informer the objects.\<close>

definition heard :: "cluster discovery_api \<Rightarrow> (NamespacedName, PostgresRoute) gomap \<Rightarrow> discovery_loop \<Rightarrow> discovery_loop" where
  "heard api routes l = l\<lparr>dl_routes := routes, dl_events := dl_events l @ routeEvents api (dl_routes l) routes\<rparr>"

definition changes ::
    "(NamespacedName, PostgresRoute) gomap \<Rightarrow> (NamespacedName, PostgresRoute) gomap \<Rightarrow> (NamespacedName \<times> PostgresRoute option) list" where
  "changes before after =
     map (\<lambda>k. (k, gomap_get after k))
       (filter (\<lambda>k. gomap_get before k \<noteq> gomap_get after k) (remdups (map fst before @ map fst after)))"

definition told :: "(NamespacedName, PostgresRoute) gomap \<Rightarrow> control_plane \<Rightarrow> control_plane" where
  "told routes cp = cp\<lparr>cp_server := routes, cp_watch := cp_watch cp @ changes (cp_server cp) routes\<rparr>"

inductive joint_step ::
    "status_api \<Rightarrow> go_error \<Rightarrow> go_ctx \<Rightarrow> cluster discovery_api \<Rightarrow> ServiceDiscoveryReconciler \<Rightarrow>
     control_plane \<times> discovery_loop \<Rightarrow> control_plane \<times> discovery_loop \<Rightarrow> bool"
  for sapi notFound ctx api r where
  js_plane: "control_step sapi notFound ctx cp cp' \<Longrightarrow>
     joint_step sapi notFound ctx api r (cp, l) (cp', heard api (cp_server cp') l)"
| js_discovery: "discovery_step api r l l' \<Longrightarrow>
     joint_step sapi notFound ctx api r (cp, l) (told (dl_routes l') cp, l')"
| js_around: "control_world cp cp' \<Longrightarrow>
     joint_step sapi notFound ctx api r (cp, l) (cp', heard api (cp_server cp') l)"
| js_services: "discovery_world api r l l' \<Longrightarrow> dl_routes l' = dl_routes l \<Longrightarrow>
     joint_step sapi notFound ctx api r (cp, l) (cp, l')"

text \<open>Discovery starts with the election of its replica, at any time of this replica's control plane.\<close>

inductive joint_reach ::
    "status_api \<Rightarrow> go_error \<Rightarrow> go_ctx \<Rightarrow> cluster discovery_api \<Rightarrow> ServiceDiscoveryReconciler \<Rightarrow>
     control_plane \<times> discovery_loop \<Rightarrow> bool"
  for sapi notFound ctx api r where
  joint_start: "control_reach sapi notFound ctx cp \<Longrightarrow> \<forall>k svc. gomap_get services k = Some svc \<longrightarrow> named k svc \<Longrightarrow>
     joint_reach sapi notFound ctx api r (cp,
       \<lparr>dl_services = services, dl_watch = [], dl_cache = services, dl_routes = cp_server cp,
        dl_events = filter (\<lambda>k. watchPasses r None (gomap_get services k)) (map fst services) @ routeEvents api [] (cp_server cp),
        dl_queue = []\<rparr>)"
| joint_next: "joint_reach sapi notFound ctx api r s \<Longrightarrow> joint_step sapi notFound ctx api r s s' \<Longrightarrow>
     joint_reach sapi notFound ctx api r s'"

text \<open>
  The resource has a status subresource: writing a route leaves its status as it was, and a new
  route has none.
\<close>

definition keeps_status :: "cluster discovery_api \<Rightarrow> bool" where
  "keeps_status api \<longleftrightarrow> (\<forall>obj f w w' x.
     da_createOrUpdate api obj f w = (None, w') \<and> gomap_get (snd w') (route_key obj) = Some x \<longrightarrow>
     pr_Status x = pr_Status (case gomap_get (snd w) (route_key obj) of Some y \<Rightarrow> y | None \<Rightarrow> obj))"

section \<open>A change is one object\<close>

lemma put_same: "gomap_get m k = new \<Longrightarrow> put (k, new) m = m"
proof (induction m)
  case (Cons p m)
  then show ?case by (cases p) (auto simp: put_def gomap_set_def gomap_del_def split: option.splits if_splits)
qed (simp add: put_def gomap_del_def)

lemma changes_put: "changes m (put (k, new) m) = (if gomap_get m k = new then [] else [(k, new)])"
proof (cases "gomap_get m k = new")
  case False
  let ?ks = "remdups (map fst m @ map fst (put (k, new) m))"
  have "k \<in> set ?ks" using False get_put [of "(k, new)" m k] by (metis Un_iff fst_conv map_of_eq_None_iff set_append set_map set_remdups snd_conv)
  moreover have "distinct xs \<Longrightarrow> k \<in> set xs \<Longrightarrow> filter (\<lambda>x. x = k) xs = [k]" for xs
    by (induction xs) (auto simp: filter_empty_conv)
  ultimately have "filter (\<lambda>x. x = k) ?ks = [k]" by simp
  moreover have "gomap_get m x \<noteq> gomap_get (put (k, new) m) x \<longleftrightarrow> x = k" for x using False by simp
  ultimately show ?thesis using False unfolding changes_def by simp
qed (simp add: put_same changes_def)

lemma routeEvents_same [simp]: "routeEvents api m m = []"
  by (simp add: routeEvents_def)

lemma heard_same [simp]: "heard api (dl_routes l) l = l"
  by (simp add: heard_def)

lemma told_same [simp]: "told (cp_server cp) cp = cp"
  by (simp add: told_def changes_def)

definition one_write :: "(PostgresRoute \<Rightarrow> bool) \<Rightarrow> (NamespacedName, PostgresRoute) gomap \<Rightarrow> (NamespacedName, PostgresRoute) gomap \<Rightarrow> bool" where
  "one_write ok m m' \<longleftrightarrow> m' = m \<or> (\<exists>k new. m' = put (k, new) m \<and> (\<forall>x. new = Some x \<longrightarrow> route_key x = k \<and> ok x))"

lemma heard_one_write:
  assumes "discovery_reach api r l" and "one_write ok (dl_routes l) routes"
  shows "discovery_reach api r (heard api routes l)"
proof (cases "routes = dl_routes l")
  case False
  then obtain k new where w: "routes = put (k, new) (dl_routes l)" "\<And>x. new = Some x \<Longrightarrow> route_key x = k"
    using assms(2) by (auto simp: one_write_def)
  show ?thesis unfolding heard_def w(1) by (rule discovery_other [OF assms(1) dw_route [OF w(2)]])
qed (use assms(1) in simp)

lemma told_one_write:
  assumes "control_reach api nf ctx cp" and "one_write tidy (cp_server cp) routes"
  shows "control_reach api nf ctx (told routes cp)"
proof (cases "routes = cp_server cp")
  case False
  then obtain k new where w: "routes = put (k, new) (cp_server cp)" "\<forall>x. new = Some x \<longrightarrow> route_key x = k \<and> tidy x"
    using assms(2) by (auto simp: one_write_def)
  with False have "gomap_get (cp_server cp) k \<noteq> new" using put_same by metis
  then have t: "told routes cp = cp\<lparr>cp_server := put (k, new) (cp_server cp), cp_watch := cp_watch cp @ [(k, new)]\<rparr>"
    by (simp add: told_def w(1) changes_put)
  show ?thesis
  proof (cases new)
    case None
    then show ?thesis unfolding t by (simp add: control_other [OF assms(1) world_delete])
  next
    case (Some x)
    with w(2) show ?thesis unfolding t by (simp add: control_other [OF assms(1) world_write])
  qed
qed (use assms(1) in simp)

section \<open>What each side writes\<close>

lemma control_writes:
  assumes "objects_inv cp" and "control_step api nf ctx cp cp' \<or> control_world cp cp'"
  shows "one_write (\<lambda>_. True) (cp_server cp) (cp_server cp')"
  using assms(2)
proof
  assume "control_step api nf ctx cp cp'"
  then show ?thesis
  proof cases
    case (patch_applied k r p now status res err)
    have "route_key now = k" using assms(1) patch_applied(3) by (simp add: objects_inv_def)
    then have "route_key (now\<lparr>pr_Status := status\<rparr>) = k" by simp
    with patch_applied(1) show ?thesis
      unfolding one_write_def by (intro disjI2 exI [of _ k] exI [of _ "Some (now\<lparr>pr_Status := status\<rparr>)"]) simp
  qed (auto simp: one_write_def receiveTrigger_def Let_def)
next
  assume "control_world cp cp'"
  then show ?thesis by cases (auto simp: one_write_def)
qed

text \<open>What discovery stores keeps the status the route had.\<close>

lemma reconcile_writes:
  assumes api: "loop_api api" "keeps_status api" and rs: "keyed_routes rs" "\<And>k x. gomap_get rs k = Some x \<Longrightarrow> tidy x"
    and run: "Discovery_Reconcile api r k (c, rs) = ((res, err), (c', rs'))"
  shows "one_write tidy rs rs'"
proof (cases "gomap_get c k")
  case None
  with reconcile_gone(2) [OF api(1) None run] show ?thesis by (simp add: one_write_def)
next
  case (Some svc)
  let ?g = "generatedKey svc"
  show ?thesis
  proof (cases "inScope r svc")
    case True
    obtain out where cou: "da_createOrUpdate api (blankRoute ?g) (mutateRoute api r svc) (c, rs) = (out, (c', rs'))"
      using reconcile_in_scope [OF loop_api_read(1) [OF api(1) Some] True run] by blast
    show ?thesis
      using api(1) cou
    proof (cases rule: loop_api_create)
      case (2 x base stored)
      have "route_key base = ?g" using 2(3) rs(1) by (auto simp: keyed_routes_def)
      then have "route_key stored = ?g" using mutateRoute_owned(2) [OF api(1) 2(2)] 2(5) by (simp add: same_route_def)
      moreover have "pr_Status stored = pr_Status (case gomap_get rs ?g of Some y \<Rightarrow> y | None \<Rightarrow> blankRoute ?g)"
        using api(2) cou 2(1,4) unfolding keeps_status_def by (metis blankRoute_key gomap_get_set snd_conv)
      then have "tidy stored" using rs(2) by (cases "gomap_get rs ?g") (auto simp: tidy_def blankRoute_def)
      ultimately show ?thesis using 2(4) unfolding one_write_def by (intro disjI2 exI [of _ ?g] exI [of _ "Some stored"]) (simp add: put_def)
    qed (simp add: one_write_def)
  next
    case False
    have del: "deleteGeneratedRoute api svc (c, rs) = (err, (c', rs'))"
      using run False loop_api_read(1) [OF api(1) Some] by (auto simp: Discovery_Reconcile_def split: prod.splits)
    then have "rs' = rs \<or> (\<exists>x o'. da_deleteRoute api x (c, rs) = (o', (c', rs')))"
      using loop_api_read(3,4) [OF api(1), of rs ?g]
      by (auto simp: deleteGeneratedRoute_def split: sum.splits option.splits if_splits prod.splits)
    moreover have "rs' = rs \<or> rs' = gomap_del rs (route_key x)" if "da_deleteRoute api x (c, rs) = (out, (c', rs'))" for x out
      using that api(1) unfolding loop_api_def by (metis Pair_inject snd_conv)
    moreover have "gomap_del rs g = put (g, None) rs" for g by (simp add: put_def)
    ultimately show ?thesis unfolding one_write_def by (metis option.distinct(1))
  qed
qed

lemma server_tidy:
  assumes "control_reach api nf ctx cp" and "condition_api api" and "gomap_get (cp_server cp) k = Some r"
  shows "tidy r"
proof -
  have fold: "gomap_get (fold put cs m) k = Some r \<Longrightarrow> (k, Some r) \<in> set cs \<or> gomap_get m k = Some r" for cs m
    by (induction cs arbitrary: m) (fastforce split: if_splits)+
  have "gomap_get (fold put (cp_watch cp) (cp_cache cp)) k = Some r"
    using control_reach_inv [OF assms(1)] assms(3) by (simp add: objects_inv_def)
  with fold control_reach_tidy [OF assms(1,2)] show ?thesis unfolding tidy_inv_def by blast
qed

section \<open>The two sides of a joint run\<close>

lemma joint_sides:
  assumes api: "condition_api sapi" "loop_api api" "keeps_status api" and "joint_reach sapi nf ctx api r (cp, l)"
  shows "control_reach sapi nf ctx cp \<and> discovery_reach api r l \<and> dl_routes l = cp_server cp"
  using assms(4)
proof (induction "(cp, l)" arbitrary: cp l rule: joint_reach.induct)
  case (joint_start cp services)
  have "\<forall>k x. gomap_get (cp_server cp) k = Some x \<longrightarrow> route_key x = k"
    using control_reach_inv [OF joint_start(1)] by (simp add: objects_inv_def)
  with joint_start show ?case by (simp add: discovery_start)
next
  case (joint_next s)
  obtain cp0 l0 where s: "s = (cp0, l0)" by fastforce
  from joint_next(2) [OF s] have IH: "control_reach sapi nf ctx cp0" "discovery_reach api r l0" "dl_routes l0 = cp_server cp0" by auto
  have obj: "objects_inv cp0" using control_reach_inv [OF IH(1)] by blast
  from joint_next(3) [unfolded s] show ?case
  proof cases
    case js_plane
    then have "one_write (\<lambda>_. True) (dl_routes l0) (cp_server cp)" using control_writes [OF obj, of sapi nf ctx] IH(3) by simp
    from heard_one_write [OF IH(2) this] control_next [OF IH(1)] js_plane show ?thesis by (simp add: heard_def)
  next
    case js_around
    then have "one_write (\<lambda>_. True) (dl_routes l0) (cp_server cp)" using control_writes [OF obj, of sapi nf ctx] IH(3) by simp
    from heard_one_write [OF IH(2) this] control_other [OF IH(1)] js_around show ?thesis by (simp add: heard_def)
  next
    case js_discovery
    have inv: "services_inv l0" using discovery_reach_inv [OF IH(2) api(2)] by blast
    have "one_write tidy (dl_routes l0) (dl_routes l)"
      using js_discovery(2)
    proof cases
      case (ds_reconcile k res err cache routes)
      have "one_write tidy (dl_routes l0) routes"
        by (rule reconcile_writes [OF api(2,3) _ _ ds_reconcile(3)])
          (use inv server_tidy [OF IH(1) api(1)] IH(3) in \<open>auto simp: services_inv_def\<close>)
      with ds_reconcile(1) show ?thesis by simp
    qed (simp_all add: one_write_def)
    with told_one_write [OF IH(1)] IH(3) js_discovery discovery_own [OF IH(2)] show ?thesis by (simp add: told_def)
  next
    case js_services
    with IH discovery_other show ?thesis by auto
  qed
qed

end
