(* ===== verification/Discovery_Rest.thy ===== *)
theory Discovery_Rest
  imports Discovery_Loop
begin

text \<open>
  Discovery winds down (\<^verbatim>\<open>src/src/internal/controller/servicediscovery_controller.go\<close>). The controller of
  \<^verbatim>\<open>Discovery_Loop\<close> is told of every route it writes, as the owner's event, and looks again. Shown:
  this does not go round for ever, because a second look at a route it has written changes
  nothing; left alone the controller runs out of work, except for Services whose
  reconciliation is refused and retried.
\<close>

section \<open>Definitions\<close>

text \<open>
  A write that asks for what is there is not made, and an object the Service controls already
  keeps its controller reference.
\<close>

definition quiet_api :: "cluster discovery_api \<Rightarrow> bool" where
  "quiet_api api \<longleftrightarrow>
     (\<forall>obj f w base. gomap_get (snd w) (route_key obj) = Some base \<and> f base = Inr base \<longrightarrow> snd (da_createOrUpdate api obj f w) = w)
     \<and> (\<forall>svc x. controlledBy api svc x \<longrightarrow> da_setControllerReference api svc x = Inr x)"

text \<open>A step other than one that only puts a key back for a retry.\<close>

definition retried :: "discovery_loop \<Rightarrow> discovery_loop \<Rightarrow> bool" where
  "retried l l' \<longleftrightarrow> l' = l\<lparr>dl_queue := dl_queue l'\<rparr> \<and> set (dl_queue l') = set (dl_queue l)"

definition advances :: "cluster discovery_api \<Rightarrow> ServiceDiscoveryReconciler \<Rightarrow> discovery_loop \<Rightarrow> discovery_loop \<Rightarrow> bool" where
  "advances api r l l' \<longleftrightarrow> discovery_step api r l l' \<and> \<not> retried l l'"

text \<open>The route a Service's reconciliation starts from, and whether it is going to change something.\<close>

definition basis :: "(NamespacedName, PostgresRoute) gomap \<Rightarrow> Service \<Rightarrow> PostgresRoute" where
  "basis rs svc = (case gomap_get rs (generatedKey svc) of Some x \<Rightarrow> x | None \<Rightarrow> blankRoute (generatedKey svc))"

definition outstanding :: "cluster discovery_api \<Rightarrow> ServiceDiscoveryReconciler \<Rightarrow> (NamespacedName, PostgresRoute) gomap \<Rightarrow> Service \<Rightarrow> bool" where
  "outstanding api r rs svc \<longleftrightarrow>
     (if inScope r svc
      then \<exists>x. mutateRoute api r svc (basis rs svc) = Inr x \<and> gomap_get rs (generatedKey svc) \<noteq> Some x
      else \<exists>x ow. gomap_get rs (generatedKey svc) = Some x \<and> managed x \<and> da_getControllerOf api x = Some ow \<and> or_UID ow = om_UID (svc_Meta svc))"

definition owing :: "cluster discovery_api \<Rightarrow> ServiceDiscoveryReconciler \<Rightarrow> discovery_loop \<Rightarrow> NamespacedName set" where
  "owing api r l = {k. \<exists>svc. gomap_get (dl_cache l) k = Some svc \<and> outstanding api r (dl_routes l) svc}"

definition work_left :: "cluster discovery_api \<Rightarrow> ServiceDiscoveryReconciler \<Rightarrow> discovery_loop \<Rightarrow> nat \<times> nat \<times> nat" where
  "work_left api r l = (length (dl_watch l), card (owing api r l), 2 * length (dl_events l) + length (dl_queue l))"

abbreviation lighter :: "((nat \<times> nat \<times> nat) \<times> nat \<times> nat \<times> nat) set" where
  "lighter \<equiv> less_than <*lex*> (less_than <*lex*> less_than)"

section \<open>A second look changes nothing\<close>

lemma gomap_set_present: "gomap_get m k = Some v \<Longrightarrow> gomap_set m k v = m"
  by (induction m) (auto simp: gomap_set_def split: if_splits)

lemma mutateRoute_again:
  assumes "loop_api api" and "quiet_api api" and mut: "mutateRoute api r svc base = Inr x"
    and st: "same_route stored x" "da_getControllerOf api stored = da_getControllerOf api x"
  shows "mutateRoute api r svc stored = Inr stored"
proof -
  let ?labels = "gomap_set (gomap_set (om_Labels (pr_Meta base)) ManagedByLabel ManagedByServiceDiscovery) SourceServiceLabel (om_Name (svc_Meta svc))"
  let ?spec = "\<lambda>s. s\<lparr>prs_Database := databaseName r svc, prs_Priority := priority svc,
    prs_Backend := \<lparr>be_Type = BackendTypeService, be_Service = Some \<lparr>sb_Name = om_Name (svc_Meta svc),
      sb_Namespace = om_Namespace (svc_Meta svc), sb_Port = port (da_intstrParse api) svc\<rparr>, be_Address = None\<rparr>\<rparr>"
  from mut have "da_setControllerReference api svc (base\<lparr>pr_Meta := (pr_Meta base)\<lparr>om_Labels := ?labels\<rparr>, pr_Spec := ?spec (pr_Spec base)\<rparr>) = Inr x"
    by (auto simp: mutateRoute_def Let_def split: if_splits)
  then have "same_route x (base\<lparr>pr_Meta := (pr_Meta base)\<lparr>om_Labels := ?labels\<rparr>, pr_Spec := ?spec (pr_Spec base)\<rparr>)"
    using assms(1) unfolding loop_api_def owner_api_def by blast
  with st(1) have parts: "om_Labels (pr_Meta stored) = ?labels" "pr_Spec stored = ?spec (pr_Spec base)" by (simp_all add: same_route_def)
  have keys: "ManagedByLabel \<noteq> SourceServiceLabel" by (simp add: ManagedByLabel_def SourceServiceLabel_def)
  have labels: "gomap_set (gomap_set ?labels ManagedByLabel ManagedByServiceDiscovery) SourceServiceLabel (om_Name (svc_Meta svc)) = ?labels"
    using keys by (simp add: gomap_set_present)
  have "controlledBy api svc stored" using mutateRoute_owned(1) [OF assms(1) mut] st(2) by (simp add: controlledBy_def)
  then have "da_setControllerReference api svc stored = Inr stored" using assms(2) by (simp add: quiet_api_def)
  moreover have "stored\<lparr>pr_Meta := (pr_Meta stored)\<lparr>om_Labels := ?labels\<rparr>, pr_Spec := ?spec (pr_Spec stored)\<rparr> = stored"
    using parts by (cases stored; cases "pr_Meta stored") simp
  moreover have "gomap_str ?labels ManagedByLabel = ManagedByServiceDiscovery" using keys by (simp add: gomap_str_def)
  ultimately show ?thesis using labels by (simp add: mutateRoute_def parts(1))
qed

section \<open>What a reconciliation does to the work left\<close>

text \<open>It writes nothing, or what it writes was outstanding and is so no more.\<close>

lemma present_writes:
  assumes api: "loop_api api" "quiet_api api" and svc: "gomap_get c k = Some svc" and scope: "inScope r svc"
    and run: "Discovery_Reconcile api r k (c, rs) = ((res, err), (c', rs'))"
  shows "rs' = rs \<or> outstanding api r rs svc \<and> \<not> outstanding api r rs' svc"
proof -
  let ?obj = "blankRoute (generatedKey svc)" and ?f = "mutateRoute api r svc"
  obtain out where cou: "da_createOrUpdate api ?obj ?f (c, rs) = (out, (c', rs'))"
    using reconcile_in_scope [OF loop_api_read(1) [OF api(1) svc] scope run] by blast
  have "(\<exists>e. da_createOrUpdate api ?obj ?f (c, rs) = (Some e, (c, rs)))
      \<or> (\<exists>x stored. ?f (basis rs svc) = Inr x \<and> da_createOrUpdate api ?obj ?f (c, rs) = (None, (c, gomap_set rs (generatedKey svc) stored))
           \<and> same_route stored x \<and> da_getControllerOf api stored = da_getControllerOf api x)"
    using api(1) unfolding loop_api_def Let_def basis_def by (metis blankRoute_key fst_conv snd_conv)
  then consider "rs' = rs" | x stored where "?f (basis rs svc) = Inr x" "rs' = gomap_set rs (generatedKey svc) stored"
    "same_route stored x" "da_getControllerOf api stored = da_getControllerOf api x"
    using cou by auto
  then show ?thesis
  proof cases
    case (2 x stored)
    have "\<not> outstanding api r rs' svc"
      using mutateRoute_again [OF api 2(1,3,4)] scope by (simp add: outstanding_def basis_def 2(2))
    moreover have "rs' = rs" if "gomap_get rs (generatedKey svc) = Some x"
    proof -
      have "?f x = Inr x" using 2(1) that by (simp add: basis_def)
      with that api(2) have "snd (da_createOrUpdate api ?obj ?f (c, rs)) = (c, rs)" unfolding quiet_api_def by (metis blankRoute_key snd_conv)
      with cou show ?thesis by simp
    qed
    ultimately show ?thesis using 2(1) scope by (auto simp: outstanding_def)
  qed simp
qed

lemma absent_writes:
  assumes api: "loop_api api" and svc: "gomap_get c k = Some svc" and rs: "keyed_routes rs" and scope: "\<not> inScope r svc"
    and run: "Discovery_Reconcile api r k (c, rs) = ((res, err), (c', rs'))"
  shows "rs' = rs \<or> outstanding api r rs svc \<and> \<not> outstanding api r rs' svc"
proof -
  have del: "deleteGeneratedRoute api svc (c, rs) = (err, (c', rs'))"
    using run scope loop_api_read(1) [OF api svc] by (auto simp: Discovery_Reconcile_def split: prod.splits)
  show ?thesis
  proof (cases "outstanding api r rs svc")
    case False
    then have "rs' = rs"
      using del loop_api_read(3) [OF api, of rs "generatedKey svc" _ c] loop_api_read(4) [OF api, of rs "generatedKey svc" c] scope
      by (cases "gomap_get rs (generatedKey svc)") (auto simp: outstanding_def deleteGeneratedRoute_def managed_def split: option.splits if_splits)
    then show ?thesis by simp
  next
    case True
    then obtain x ow where x: "gomap_get rs (generatedKey svc) = Some x" "managed x" "da_getControllerOf api x = Some ow"
      "or_UID ow = om_UID (svc_Meta svc)" using scope by (auto simp: outstanding_def)
    have key: "route_key x = generatedKey svc" using rs x(1) by (simp add: keyed_routes_def)
    have "da_deleteRoute api x (c, rs) = (None, (c, gomap_del rs (route_key x))) \<or> (\<exists>e. da_deleteRoute api x (c, rs) = (Some e, (c, rs)))"
      using api unfolding loop_api_def by (metis fst_conv snd_conv)
    then have "rs' = rs \<or> rs' = gomap_del rs (generatedKey svc)"
      using del loop_api_read(3) [OF api x(1), of c] x key by (auto simp: deleteGeneratedRoute_def managed_def split: if_splits)
    with True scope show ?thesis by (auto simp: outstanding_def)
  qed
qed

lemma outstanding_local: "gomap_get rs' (generatedKey svc) = gomap_get rs (generatedKey svc) \<Longrightarrow> outstanding api r rs' svc = outstanding api r rs svc"
  by (simp add: outstanding_def basis_def)

lemma reconcile_owing:
  assumes api: "loop_api api" "quiet_api api" and inv: "services_inv l"
    and run: "Discovery_Reconcile api r k (dl_cache l, dl_routes l) = ((res, err), (cache, routes))" and new: "routes \<noteq> dl_routes l"
  shows "owing api r (l\<lparr>dl_cache := cache, dl_routes := routes, dl_events := es, dl_queue := q\<rparr>) = owing api r l - {k} \<and> k \<in> owing api r l"
proof -
  have rs: "keyed_routes (dl_routes l)" using inv by (simp add: services_inv_def)
  have c: "cache = dl_cache l" using reconcile_frame(1) [OF api(1) inv run] .
  obtain svc where svc: "gomap_get (dl_cache l) k = Some svc"
    using reconcile_gone(2) [OF api(1) _ run] new by (cases "gomap_get (dl_cache l) k") auto
  have n: "named k svc" using inv svc by (simp add: services_inv_def)
  have own: "outstanding api r (dl_routes l) svc \<and> \<not> outstanding api r routes svc"
    using present_writes [OF api svc _ run] absent_writes [OF api(1) svc rs _ run] new by blast
  have else_same: "gomap_get routes g = gomap_get (dl_routes l) g" if "g \<noteq> generatedKey svc" for g
    using reconcile_present [OF api(1) svc _ rs _ run] reconcile_absent [OF api(1) svc rs _ run] n that
    by (cases "inScope r svc") (auto simp: named_def)
  have "outstanding api r routes svc' = outstanding api r (dl_routes l) svc'" if "gomap_get (dl_cache l) k' = Some svc'" "k' \<noteq> k" for k' svc'
  proof -
    have "named k' svc'" using inv that(1) by (simp add: services_inv_def)
    then have "generatedKey svc' \<noteq> generatedKey svc"
      using n that(2) by (auto simp: named_def generatedKey_def generatedRouteName_def objectKey_def)
    then show ?thesis by (intro outstanding_local else_same)
  qed
  then show ?thesis using own svc by (auto simp: owing_def c)
qed

lemma owing_finite: "finite (owing api r l)"
proof -
  have "owing api r l \<subseteq> fst ` set (dl_cache l)" by (auto simp: owing_def dest: map_of_SomeD intro: rev_image_eqI)
  then show ?thesis by (rule finite_subset) simp
qed

section \<open>Every step but a retry leaves less to do\<close>

lemma removeAll_shorter: "k \<in> set q \<Longrightarrow> length (removeAll k q) < length q"
  by (simp add: length_removeAll_less)

lemma advances_lighter:
  assumes api: "loop_api api" "quiet_api api" and inv: "services_inv l" and adv: "advances api r l l'"
  shows "(work_left api r l', work_left api r l) \<in> lighter"
proof -
  have step: "discovery_step api r l l'" and new: "\<not> retried l l'" using adv by (simp_all add: advances_def)
  from step show ?thesis
  proof cases
    case (ds_informer k new cs)
    then show ?thesis by (simp add: work_left_def)
  next
    case (ds_deliver k ks)
    then have "owing api r l' = owing api r l" by (simp add: owing_def)
    with ds_deliver show ?thesis by (simp add: work_left_def enqueue_def)
  next
    case (ds_reconcile k res err cache routes)
    show ?thesis
    proof (cases "routes = dl_routes l")
      case False
      then have "owing api r l' = owing api r l - {k} \<and> k \<in> owing api r l"
        unfolding ds_reconcile(1) by (intro reconcile_owing [OF api inv ds_reconcile(3)])
      then have "card (owing api r l') < card (owing api r l)"
        by (metis card_Diff1_less owing_finite)
      then show ?thesis by (simp add: work_left_def ds_reconcile(1))
    next
      case True
      have c: "cache = dl_cache l" using reconcile_frame(1) [OF api(1) inv ds_reconcile(3)] .
      have l': "l' = l\<lparr>dl_queue := requeue res err k (removeAll k (dl_queue l))\<rparr>"
        using True c by (simp add: ds_reconcile(1) routeEvents_def)
      with new ds_reconcile(2) have "l' = l\<lparr>dl_queue := removeAll k (dl_queue l)\<rparr>"
        by (auto simp: retried_def requeue_def enqueue_def split: if_splits)
      with removeAll_shorter [OF ds_reconcile(2)] show ?thesis by (simp add: work_left_def owing_def)
    qed
  qed
qed

definition tended :: "cluster discovery_api \<Rightarrow> ServiceDiscoveryReconciler \<Rightarrow> discovery_loop \<Rightarrow> bool" where
  "tended api r l \<longleftrightarrow> loop_api api \<and> quiet_api api \<and> discovery_reach api r l"

lemma tended_advances: "tended api r l \<Longrightarrow> advances api r l l' \<Longrightarrow> tended api r l'"
  unfolding tended_def advances_def using discovery_own by blast

interpretation tending: guarded_steps "tended api r" "advances api r" "work_left api r" lighter for api r
proof unfold_locales
  show "wf lighter" by auto
  show "tended api r l'" if "tended api r l" "advances api r l l'" for l l'
    using that by (rule tended_advances)
  show "(work_left api r l', work_left api r l) \<in> lighter" if "tended api r l" "advances api r l l'" for l l'
    using that advances_lighter discovery_reach_inv unfolding tended_def by blast
qed

text \<open>Where only retries are left, everything else is done.\<close>

lemma stuck_retries:
  assumes api: "loop_api api" and inv: "services_inv l" and stuck: "\<nexists>l'. advances api r l l'"
  shows "dl_watch l = []" and "dl_events l = []"
    and "k \<in> set (dl_queue l) \<Longrightarrow> \<exists>res err. Discovery_Reconcile api r k (dl_cache l, dl_routes l) = ((res, err), (dl_cache l, dl_routes l))
      \<and> (err \<noteq> None \<or> res_Requeue res)"
proof -
  have no: "\<not> discovery_step api r l l'" if "\<not> retried l l'" for l' using stuck that by (auto simp: advances_def)
  show "dl_watch l = []"
  proof (rule ccontr)
    assume "dl_watch l \<noteq> []"
    then obtain k new cs where w: "dl_watch l = (k, new) # cs" by (cases "dl_watch l") auto
    have "\<not> retried l (l\<lparr>dl_watch := cs, dl_cache := c, dl_events := es\<rparr>)" for c es
      using w by (auto simp: retried_def dest: arg_cong [of _ _ dl_watch])
    with no ds_informer [OF w, of api r] show False by blast
  qed
  show "dl_events l = []"
  proof (rule ccontr)
    assume "dl_events l \<noteq> []"
    then obtain k ks where e: "dl_events l = k # ks" by (cases "dl_events l") auto
    have "\<not> retried l (l\<lparr>dl_events := ks, dl_queue := q\<rparr>)" for q using e by (auto simp: retried_def dest: arg_cong [of _ _ dl_events])
    with no ds_deliver [OF e, of api r] show False by blast
  qed
  assume k: "k \<in> set (dl_queue l)"
  obtain res err cache routes where run: "Discovery_Reconcile api r k (dl_cache l, dl_routes l) = ((res, err), (cache, routes))"
    by (metis prod.exhaust)
  have c: "cache = dl_cache l" using reconcile_frame(1) [OF api inv run] .
  let ?l = "l\<lparr>dl_cache := cache, dl_routes := routes, dl_events := dl_events l @ routeEvents api (dl_routes l) routes,
    dl_queue := requeue res err k (removeAll k (dl_queue l))\<rparr>"
  have "retried l ?l" using no ds_reconcile [OF k run] by blast
  then have same: "?l = l\<lparr>dl_queue := dl_queue ?l\<rparr>" "k \<in> set (requeue res err k (removeAll k (dl_queue l)))"
    using k by (simp_all add: retried_def)
  have "routes = dl_routes l" using arg_cong [OF same(1), of dl_routes] by simp
  moreover have "0 < sint (res_RequeueAfter res) \<Longrightarrow> False"
    using run by (auto simp: Discovery_Reconcile_def noResult_def split: sum.splits prod.splits option.splits if_splits)
  then have "err \<noteq> None \<or> res_Requeue res" using same(2) by (auto simp: requeue_def split: if_splits)
  ultimately show "\<exists>res err. Discovery_Reconcile api r k (dl_cache l, dl_routes l) = ((res, err), (dl_cache l, dl_routes l))
      \<and> (err \<noteq> None \<or> res_Requeue res)" using run c by blast
qed

section \<open>Properties\<close>

text \<open>C28: Discovery does not keep itself busy. Its own writes come back to it as events of the routes it
  owns; still, from every state, with nothing happening around it and an API server that does not
  rewrite what is already there, the controller has no endless run other than retrying, and
  where only retries are left it has taken in every event and every Service still queued is one
  whose reconciliation reports an error or a conflict and changes nothing.\<close>

theorem discovery_winds_down:
  assumes "loop_api api" and "quiet_api api" and "discovery_reach api r l"
  shows "(\<nexists>run. run 0 = l \<and> (\<forall>i. advances api r (run i) (run (Suc i))))
    \<and> (\<forall>l'. (advances api r)\<^sup>*\<^sup>* l l' \<longrightarrow> (\<nexists>l''. advances api r l' l'') \<longrightarrow>
         dl_watch l' = [] \<and> dl_events l' = []
         \<and> (\<forall>k\<in>set (dl_queue l'). \<exists>res err.
              Discovery_Reconcile api r k (dl_cache l', dl_routes l') = ((res, err), (dl_cache l', dl_routes l')) \<and> (err \<noteq> None \<or> res_Requeue res)))"
proof -
  have start: "tended api r l" using assms by (simp add: tended_def)
  have "services_inv l'" if "(advances api r)\<^sup>*\<^sup>* l l'" for l'
    using tending.kept_by_moves [OF that start] discovery_reach_inv unfolding tended_def by blast
  with tending.no_run_from [OF start] stuck_retries [OF assms(1)] show ?thesis by metis
qed

section \<open>Witnesses\<close>

text \<open>A cluster in memory that leaves a controlled object's references alone, with a labelled Service that has no route yet.\<close>

definition settled_api :: "cluster discovery_api" where
  "settled_api = memory_api\<lparr>da_setControllerReference := \<lambda>svc x.
     if controlledBy memory_api svc x then Inr x else da_setControllerReference memory_api svc x\<rparr>"

lemma settled_controlledBy: "controlledBy settled_api = controlledBy memory_api"
  by (simp add: fun_eq_iff controlledBy_def settled_api_def)

lemma settled_api_ok: "loop_api settled_api" "quiet_api settled_api"
proof -
  have same: "da_getService settled_api = da_getService memory_api" "da_getRoute settled_api = da_getRoute memory_api"
    "da_deleteRoute settled_api = da_deleteRoute memory_api" "da_createOrUpdate settled_api = memory_create"
    "da_getControllerOf settled_api = da_getControllerOf memory_api" "da_isNotFound settled_api = da_isNotFound memory_api"
    "da_createOrUpdate memory_api = memory_create"
    by (simp_all add: settled_api_def memory_api_def)
  have "owner_api memory_api" using memory_api_ok by (simp add: loop_api_def)
  then have "owner_api settled_api" by (auto simp: owner_api_def settled_api_def same_route_def)
  with memory_api_ok show "loop_api settled_api"
    unfolding loop_api_def same settled_controlledBy by (auto simp: settled_api_def)
  show "quiet_api settled_api"
    by (auto simp: quiet_api_def same settled_controlledBy memory_create_def Let_def gomap_set_present) (simp add: settled_api_def)
qed

theorem discovery_winds_down_witness:
  "\<exists>l. discovery_reach settled_api label_discovery l \<and> dl_events l = [pg_key] \<and> dl_routes l = []
     \<and> (\<nexists>run. run 0 = l \<and> (\<forall>i. advances settled_api label_discovery (run i) (run (Suc i))))"
proof -
  let ?l = "\<lparr>dl_services = [(pg_key, labelled_service)], dl_watch = [], dl_cache = [(pg_key, labelled_service)], dl_routes = [],
    dl_events = filter (\<lambda>k. watchPasses label_discovery None (gomap_get [(pg_key, labelled_service)] k)) (map fst [(pg_key, labelled_service)])
      @ routeEvents settled_api [] [], dl_queue = []\<rparr>"
  have reach: "discovery_reach settled_api label_discovery ?l" by (rule discovery_start) (simp_all add: labelled_service)
  have "dl_events ?l = [pg_key]" "dl_routes ?l = []" by (simp_all add: labelled_service watchPasses_def routeEvents_def)
  with reach conjunct1 [OF discovery_winds_down [OF settled_api_ok reach]] show ?thesis by blast
qed

end
