(* ===== verification/Deep_Copy.thy ===== *)
theory Deep_Copy
  imports Api_Types "HOL-Library.Monad_Syntax"
begin

text \<open>
  The generated deep copies (\<^verbatim>\<open>src/src/api/v1alpha1/zz_generated.deepcopy.go\<close>) over an
  explicit heap. Elsewhere the resources are values; here their pointers and slices are
  addresses, so that sharing can be seen. Reading an object from the heap gives the value of
  \<^verbatim>\<open>Api_Types\<close>. The copies of embedded Kubernetes types are parameters. A locale says what
  a copy function promises, and each generated function interprets it: this is what entitles
  the other theories to treat a deep copy as the value itself.
\<close>

section \<open>The heap\<close>

text \<open>Objects with pointers: a pointer is an address, \<open>None\<close> is nil; a slice is the address of its
  backing array with its length.\<close>

record backend_obj =
  bo_Type :: go_string
  bo_Service :: "nat option"
  bo_Address :: "nat option"

record tls_obj =
  to_Mode :: go_string
  to_CASecretRef :: "nat option"
  to_ServerName :: go_string

record spec_obj =
  so_Database :: go_string
  so_TargetDatabase :: go_string
  so_Backend :: backend_obj
  so_TLS :: "nat option"
  so_Priority :: int32

record slice =
  sc_array :: nat
  sc_len :: nat

record status_obj =
  to_ObservedGeneration :: int
  to_Database :: go_string
  to_Endpoint :: go_string
  to_ConflictingRoute :: go_string
  to_Conditions :: "slice option"

text \<open>\<open>ro_Meta\<close> is the address of what an embedded \<^verbatim>\<open>ObjectMeta\<close> holds.\<close>

record route_obj =
  ro_TypeMeta :: "go_string \<times> go_string"
  ro_Meta :: nat
  ro_Spec :: spec_obj
  ro_Status :: status_obj

record list_obj =
  lo_TypeMeta :: "go_string \<times> go_string"
  lo_ListMeta :: nat
  lo_Items :: "slice option"

datatype cell =
    ServiceCell ServiceBackend
  | AddressCell AddressBackend
  | RefCell SecretKeyReference
  | TLSCell tls_obj
  | ConditionsCell "Condition list"
  | RoutesCell "route_obj list"
  | MetaCell ObjectMeta
  | ListMetaCell go_string
  | BackendCell backend_obj
  | SpecCell spec_obj
  | StatusCell status_obj
  | RouteCell route_obj
  | ListCell list_obj

record heap =
  hp_cells :: "(nat, cell) gomap"
  hp_next :: nat

definition heap_get :: "heap \<Rightarrow> nat \<Rightarrow> cell option" where
  "heap_get h a = gomap_get (hp_cells h) a"

definition heap_new :: "cell \<Rightarrow> heap \<Rightarrow> nat \<times> heap" where
  "heap_new c h = (hp_next h, h\<lparr>hp_cells := gomap_set (hp_cells h) (hp_next h) c, hp_next := hp_next h + 1\<rparr>)"

definition heap_ok :: "heap \<Rightarrow> bool" where
  "heap_ok h \<longleftrightarrow> (\<forall>a. heap_get h a \<noteq> None \<longrightarrow> a < hp_next h)"

text \<open>\<open>h'\<close> has everything \<open>h\<close> has, and possibly new cells.\<close>

definition extends :: "heap \<Rightarrow> heap \<Rightarrow> bool" where
  "extends h h' \<longleftrightarrow> heap_ok h' \<and> hp_next h \<le> hp_next h' \<and> (\<forall>a<hp_next h. heap_get h' a = heap_get h a)"

lemma extends_refl: "heap_ok h \<Longrightarrow> extends h h"
  by (simp add: extends_def)

lemma extends_trans: "extends h h1 \<Longrightarrow> extends h1 h2 \<Longrightarrow> extends h h2"
  by (simp add: extends_def)

lemma heap_new_props:
  assumes "heap_ok h" and "heap_new c h = (a, h')"
  shows "extends h h'" "a = hp_next h" "hp_next h' = hp_next h + 1" "heap_get h' a = Some c"
  using assms by (auto simp: heap_new_def extends_def heap_ok_def heap_get_def less_Suc_eq split: if_splits)

section \<open>What a copy function promises\<close>

text \<open>
  \<open>rd h x\<close> is the value object \<open>x\<close> stands for, undefined when a pointer in it is of the
  wrong type; \<open>fp h x\<close> the addresses it consists of. A copy of a well-typed object exists, has
  the same value, and consists of new cells only.
\<close>

locale copier =
  fixes rd :: "heap \<Rightarrow> 'a \<Rightarrow> 'v option" and fp :: "heap \<Rightarrow> 'a \<Rightarrow> nat set"
    and cp :: "'a \<Rightarrow> heap \<Rightarrow> ('a \<times> heap) option"
  assumes frame: "rd h x = Some v \<Longrightarrow> (\<And>a. a \<in> fp h x \<Longrightarrow> heap_get h' a = heap_get h a)
      \<Longrightarrow> rd h' x = Some v \<and> fp h' x = fp h x"
    and bound: "heap_ok h \<Longrightarrow> rd h x = Some v \<Longrightarrow> fp h x \<subseteq> {..<hp_next h}"
    and copies: "heap_ok h \<Longrightarrow> rd h x = Some v \<Longrightarrow>
      \<exists>x' h'. cp x h = Some (x', h') \<and> extends h h' \<and> rd h' x' = Some v \<and> fp h' x' \<subseteq> {hp_next h..<hp_next h'}"
begin

lemma keep:
  assumes "extends h h'" and "heap_ok h" and "rd h x = Some v"
  shows "rd h' x = Some v \<and> fp h' x = fp h x"
  using assms(3)
proof (rule frame)
  show "heap_get h' a = heap_get h a" if "a \<in> fp h x" for a
    using that bound [OF assms(2,3)] assms(1) by (auto simp: extends_def)
qed

lemma disjoint:
  assumes "heap_ok h" and "rd h x = Some v" and "cp x h = Some (x', h')"
  shows "extends h h' \<and> rd h' x' = Some v \<and> rd h' x = Some v \<and> fp h' x \<inter> fp h' x' = {}"
proof -
  have c: "extends h h'" "rd h' x' = Some v" "fp h' x' \<subseteq> {hp_next h..<hp_next h'}"
    using copies [OF assms(1,2)] assms(3) by auto
  then show ?thesis using keep [OF c(1) assms(1,2)] bound [OF assms(1,2)] by fastforce
qed

lemma isolates:
  assumes "heap_ok h" and "rd h x = Some v" and "cp x h = Some (x', h')"
  shows "(\<forall>a. a \<notin> fp h' x' \<longrightarrow> heap_get h'' a = heap_get h' a) \<Longrightarrow> rd h'' x = Some v"
    and "(\<forall>a. a \<notin> fp h' x \<longrightarrow> heap_get h'' a = heap_get h' a) \<Longrightarrow> rd h'' x' = Some v"
proof -
  note d = disjoint [OF assms]
  show "rd h'' x = Some v" if "\<forall>a. a \<notin> fp h' x' \<longrightarrow> heap_get h'' a = heap_get h' a"
  proof -
    have "heap_get h'' a = heap_get h' a" if "a \<in> fp h' x" for a
      using that d \<open>\<forall>a. a \<notin> fp h' x' \<longrightarrow> heap_get h'' a = heap_get h' a\<close> by blast
    then show ?thesis using frame d by blast
  qed
  show "rd h'' x' = Some v" if "\<forall>a. a \<notin> fp h' x \<longrightarrow> heap_get h'' a = heap_get h' a"
  proof -
    have "heap_get h'' a = heap_get h' a" if "a \<in> fp h' x'" for a
      using that d \<open>\<forall>a. a \<notin> fp h' x \<longrightarrow> heap_get h'' a = heap_get h' a\<close> by blast
    then show ?thesis using frame d by blast
  qed
qed

end

section \<open>Definitions\<close>

text \<open>
  The three patterns of the generated code. A pointer field is copied by allocating a new target
  and copying into it, a slice by allocating a new array and copying the elements within its
  length; both keep nil. \<open>dest\<close> and \<open>mk\<close> say which kind of cell it is, \<open>cp\<close> copies what is
  in it. The order in which a copy allocates its cells cannot be observed.
\<close>

definition cell_at :: "(cell \<Rightarrow> 'a option) \<Rightarrow> heap \<Rightarrow> nat \<Rightarrow> 'a option" where
  "cell_at dest h a = Option.bind (heap_get h a) dest"

definition copyPtr ::
    "(cell \<Rightarrow> 'a option) \<Rightarrow> ('a \<Rightarrow> cell) \<Rightarrow> ('a \<Rightarrow> heap \<Rightarrow> ('a \<times> heap) option)
     \<Rightarrow> nat option \<Rightarrow> heap \<Rightarrow> (nat option \<times> heap) option" where
  "copyPtr dest mk cp p h =
     (case p of
        None \<Rightarrow> Some (None, h)
      | Some a \<Rightarrow>
          do { x \<leftarrow> cell_at dest h a;
               (x', h1) \<leftarrow> cp x h;
               let (b, h2) = heap_new (mk x') h1;
               Some (Some b, h2) })"

fun copyItems :: "('a \<Rightarrow> heap \<Rightarrow> ('a \<times> heap) option) \<Rightarrow> 'a list \<Rightarrow> heap \<Rightarrow> ('a list \<times> heap) option" where
  "copyItems cp [] h = Some ([], h)"
| "copyItems cp (x # xs) h =
     do { (x', h1) \<leftarrow> cp x h;
          (xs', h2) \<leftarrow> copyItems cp xs h1;
          Some (x' # xs', h2) }"

definition copySlice ::
    "(cell \<Rightarrow> 'a list option) \<Rightarrow> ('a list \<Rightarrow> cell) \<Rightarrow> ('a \<Rightarrow> heap \<Rightarrow> ('a \<times> heap) option)
     \<Rightarrow> slice option \<Rightarrow> heap \<Rightarrow> (slice option \<times> heap) option" where
  "copySlice dest mk cp sl h =
     (case sl of
        None \<Rightarrow> Some (None, h)
      | Some s \<Rightarrow>
          do { xs \<leftarrow> cell_at dest h (sc_array s);
               (ys, h1) \<leftarrow> copyItems cp (take (sc_len s) xs) h;
               let (b, h2) = heap_new (mk ys) h1;
               Some (Some \<lparr>sc_array = b, sc_len = length ys\<rparr>, h2) })"

fun dest_Service :: "cell \<Rightarrow> ServiceBackend option" where
  "dest_Service (ServiceCell x) = Some x" | "dest_Service _ = None"

fun dest_Address :: "cell \<Rightarrow> AddressBackend option" where
  "dest_Address (AddressCell x) = Some x" | "dest_Address _ = None"

fun dest_Ref :: "cell \<Rightarrow> SecretKeyReference option" where
  "dest_Ref (RefCell x) = Some x" | "dest_Ref _ = None"

fun dest_TLS :: "cell \<Rightarrow> tls_obj option" where
  "dest_TLS (TLSCell x) = Some x" | "dest_TLS _ = None"

fun dest_Conditions :: "cell \<Rightarrow> Condition list option" where
  "dest_Conditions (ConditionsCell x) = Some x" | "dest_Conditions _ = None"

fun dest_Routes :: "cell \<Rightarrow> route_obj list option" where
  "dest_Routes (RoutesCell x) = Some x" | "dest_Routes _ = None"

fun dest_Meta :: "cell \<Rightarrow> ObjectMeta option" where
  "dest_Meta (MetaCell x) = Some x" | "dest_Meta _ = None"

fun dest_ListMeta :: "cell \<Rightarrow> go_string option" where
  "dest_ListMeta (ListMetaCell x) = Some x" | "dest_ListMeta _ = None"

fun dest_Backend :: "cell \<Rightarrow> backend_obj option" where
  "dest_Backend (BackendCell x) = Some x" | "dest_Backend _ = None"

fun dest_Spec :: "cell \<Rightarrow> spec_obj option" where
  "dest_Spec (SpecCell x) = Some x" | "dest_Spec _ = None"

fun dest_Status :: "cell \<Rightarrow> status_obj option" where
  "dest_Status (StatusCell x) = Some x" | "dest_Status _ = None"

fun dest_Route :: "cell \<Rightarrow> route_obj option" where
  "dest_Route (RouteCell x) = Some x" | "dest_Route _ = None"

fun dest_List :: "cell \<Rightarrow> list_obj option" where
  "dest_List (ListCell x) = Some x" | "dest_List _ = None"

text \<open>The copy functions of the embedded Kubernetes types.\<close>

record meta_api =
  ma_object :: "nat \<Rightarrow> heap \<Rightarrow> (nat \<times> heap) option"
  ma_list :: "nat \<Rightarrow> heap \<Rightarrow> (nat \<times> heap) option"
  ma_condition :: "Condition \<Rightarrow> heap \<Rightarrow> (Condition \<times> heap) option"

definition AddressBackend_DeepCopyInto :: "AddressBackend \<Rightarrow> heap \<Rightarrow> (AddressBackend \<times> heap) option" where
  "AddressBackend_DeepCopyInto x h = Some (x, h)"

definition SecretKeyReference_DeepCopyInto :: "SecretKeyReference \<Rightarrow> heap \<Rightarrow> (SecretKeyReference \<times> heap) option" where
  "SecretKeyReference_DeepCopyInto x h = Some (x, h)"

definition ServiceBackend_DeepCopyInto :: "ServiceBackend \<Rightarrow> heap \<Rightarrow> (ServiceBackend \<times> heap) option" where
  "ServiceBackend_DeepCopyInto x h = (let out = x in Some (out\<lparr>sb_Port := sb_Port x\<rparr>, h))"

definition Backend_DeepCopyInto :: "backend_obj \<Rightarrow> heap \<Rightarrow> (backend_obj \<times> heap) option" where
  "Backend_DeepCopyInto x h =
     do { (s, h) \<leftarrow> copyPtr dest_Service ServiceCell (\<lambda>v h. Some (v, h)) (bo_Service x) h;
          (a, h) \<leftarrow> copyPtr dest_Address AddressCell (\<lambda>v h. Some (v, h)) (bo_Address x) h;
          Some (x\<lparr>bo_Service := s, bo_Address := a\<rparr>, h) }"

definition BackendTLS_DeepCopyInto :: "tls_obj \<Rightarrow> heap \<Rightarrow> (tls_obj \<times> heap) option" where
  "BackendTLS_DeepCopyInto x h =
     do { (r, h) \<leftarrow> copyPtr dest_Ref RefCell (\<lambda>v h. Some (v, h)) (to_CASecretRef x) h;
          Some (x\<lparr>to_CASecretRef := r\<rparr>, h) }"

definition PostgresRouteSpec_DeepCopyInto :: "spec_obj \<Rightarrow> heap \<Rightarrow> (spec_obj \<times> heap) option" where
  "PostgresRouteSpec_DeepCopyInto x h =
     do { (b, h) \<leftarrow> Backend_DeepCopyInto (so_Backend x) h;
          (t, h) \<leftarrow> copyPtr dest_TLS TLSCell BackendTLS_DeepCopyInto (so_TLS x) h;
          Some (x\<lparr>so_Backend := b, so_TLS := t\<rparr>, h) }"

definition PostgresRouteStatus_DeepCopyInto :: "meta_api \<Rightarrow> status_obj \<Rightarrow> heap \<Rightarrow> (status_obj \<times> heap) option" where
  "PostgresRouteStatus_DeepCopyInto ma x h =
     do { (cs, h) \<leftarrow> copySlice dest_Conditions ConditionsCell (ma_condition ma) (to_Conditions x) h;
          Some (x\<lparr>to_Conditions := cs\<rparr>, h) }"

definition PostgresRoute_DeepCopyInto :: "meta_api \<Rightarrow> route_obj \<Rightarrow> heap \<Rightarrow> (route_obj \<times> heap) option" where
  "PostgresRoute_DeepCopyInto ma x h =
     do { (m, h) \<leftarrow> ma_object ma (ro_Meta x) h;
          (sp, h) \<leftarrow> PostgresRouteSpec_DeepCopyInto (ro_Spec x) h;
          (st, h) \<leftarrow> PostgresRouteStatus_DeepCopyInto ma (ro_Status x) h;
          Some (x\<lparr>ro_TypeMeta := ro_TypeMeta x, ro_Meta := m, ro_Spec := sp, ro_Status := st\<rparr>, h) }"

definition PostgresRouteList_DeepCopyInto :: "meta_api \<Rightarrow> list_obj \<Rightarrow> heap \<Rightarrow> (list_obj \<times> heap) option" where
  "PostgresRouteList_DeepCopyInto ma x h =
     do { (m, h) \<leftarrow> ma_list ma (lo_ListMeta x) h;
          (items, h) \<leftarrow> copySlice dest_Routes RoutesCell (PostgresRoute_DeepCopyInto ma) (lo_Items x) h;
          Some (x\<lparr>lo_TypeMeta := lo_TypeMeta x, lo_ListMeta := m, lo_Items := items\<rparr>, h) }"

text \<open>\<^verbatim>\<open>DeepCopy\<close> of a nil receiver is nil, otherwise a new object that is copied into.\<close>

type_synonym pointer_copy = "nat option \<Rightarrow> heap \<Rightarrow> (nat option \<times> heap) option"

definition AddressBackend_DeepCopy :: "pointer_copy" where
  "AddressBackend_DeepCopy = copyPtr dest_Address AddressCell AddressBackend_DeepCopyInto"

definition Backend_DeepCopy :: "pointer_copy" where
  "Backend_DeepCopy = copyPtr dest_Backend BackendCell Backend_DeepCopyInto"

definition BackendTLS_DeepCopy :: "pointer_copy" where
  "BackendTLS_DeepCopy = copyPtr dest_TLS TLSCell BackendTLS_DeepCopyInto"

definition PostgresRoute_DeepCopy :: "meta_api \<Rightarrow> pointer_copy" where
  "PostgresRoute_DeepCopy ma = copyPtr dest_Route RouteCell (PostgresRoute_DeepCopyInto ma)"

definition PostgresRouteList_DeepCopy :: "meta_api \<Rightarrow> pointer_copy" where
  "PostgresRouteList_DeepCopy ma = copyPtr dest_List ListCell (PostgresRouteList_DeepCopyInto ma)"

definition PostgresRouteSpec_DeepCopy :: "pointer_copy" where
  "PostgresRouteSpec_DeepCopy = copyPtr dest_Spec SpecCell PostgresRouteSpec_DeepCopyInto"

definition PostgresRouteStatus_DeepCopy :: "meta_api \<Rightarrow> pointer_copy" where
  "PostgresRouteStatus_DeepCopy ma = copyPtr dest_Status StatusCell (PostgresRouteStatus_DeepCopyInto ma)"

definition SecretKeyReference_DeepCopy :: "pointer_copy" where
  "SecretKeyReference_DeepCopy = copyPtr dest_Ref RefCell SecretKeyReference_DeepCopyInto"

definition ServiceBackend_DeepCopy :: "pointer_copy" where
  "ServiceBackend_DeepCopy = copyPtr dest_Service ServiceCell ServiceBackend_DeepCopyInto"

text \<open>\<^verbatim>\<open>DeepCopyObject\<close>: the copy as an interface value, the nil interface for a nil pointer.\<close>

definition PostgresRoute_DeepCopyObject :: "meta_api \<Rightarrow> pointer_copy" where
  "PostgresRoute_DeepCopyObject ma p h =
     do { (c, h1) \<leftarrow> PostgresRoute_DeepCopy ma p h;
          Some (case c of Some r \<Rightarrow> Some r | None \<Rightarrow> None, h1) }"

definition PostgresRouteList_DeepCopyObject :: "meta_api \<Rightarrow> pointer_copy" where
  "PostgresRouteList_DeepCopyObject ma p h =
     do { (c, h1) \<leftarrow> PostgresRouteList_DeepCopy ma p h;
          Some (case c of Some r \<Rightarrow> Some r | None \<Rightarrow> None, h1) }"

section \<open>Reading objects\<close>

definition flat_rd :: "heap \<Rightarrow> 'a \<Rightarrow> 'a option" where
  "flat_rd h x = Some x"

definition flat_fp :: "heap \<Rightarrow> 'a \<Rightarrow> nat set" where
  "flat_fp h x = {}"

definition ptr_rd :: "(cell \<Rightarrow> 'a option) \<Rightarrow> (heap \<Rightarrow> 'a \<Rightarrow> 'v option) \<Rightarrow> heap \<Rightarrow> nat option \<Rightarrow> 'v option option" where
  "ptr_rd dest rd h p =
     (case p of None \<Rightarrow> Some None | Some a \<Rightarrow> do { x \<leftarrow> cell_at dest h a; v \<leftarrow> rd h x; Some (Some v) })"

definition ptr_fp :: "(cell \<Rightarrow> 'a option) \<Rightarrow> (heap \<Rightarrow> 'a \<Rightarrow> nat set) \<Rightarrow> heap \<Rightarrow> nat option \<Rightarrow> nat set" where
  "ptr_fp dest fp h p =
     (case p of None \<Rightarrow> {} | Some a \<Rightarrow> insert a (case cell_at dest h a of None \<Rightarrow> {} | Some x \<Rightarrow> fp h x))"

text \<open>A nil slice and an empty one are different values.\<close>

definition slice_rd :: "(cell \<Rightarrow> 'a list option) \<Rightarrow> (heap \<Rightarrow> 'a \<Rightarrow> 'v option) \<Rightarrow> heap \<Rightarrow> slice option \<Rightarrow> 'v list option option" where
  "slice_rd dest rd h sl =
     (case sl of None \<Rightarrow> Some None
      | Some s \<Rightarrow> do { xs \<leftarrow> cell_at dest h (sc_array s);
                     if sc_len s \<le> length xs then map_option Some (those (map (rd h) (take (sc_len s) xs))) else None })"

definition slice_fp :: "(cell \<Rightarrow> 'a list option) \<Rightarrow> (heap \<Rightarrow> 'a \<Rightarrow> nat set) \<Rightarrow> heap \<Rightarrow> slice option \<Rightarrow> nat set" where
  "slice_fp dest fp h sl =
     (case sl of None \<Rightarrow> {}
      | Some s \<Rightarrow> insert (sc_array s)
          (case cell_at dest h (sc_array s) of None \<Rightarrow> {} | Some xs \<Rightarrow> \<Union> (fp h ` set (take (sc_len s) xs))))"

definition pair_rd :: "(heap \<Rightarrow> 'a \<Rightarrow> 'v option) \<Rightarrow> (heap \<Rightarrow> 'b \<Rightarrow> 'w option) \<Rightarrow> heap \<Rightarrow> 'a \<times> 'b \<Rightarrow> ('v \<times> 'w) option" where
  "pair_rd rd1 rd2 h x = do { v \<leftarrow> rd1 h (fst x); w \<leftarrow> rd2 h (snd x); Some (v, w) }"

definition pair_fp :: "(heap \<Rightarrow> 'a \<Rightarrow> nat set) \<Rightarrow> (heap \<Rightarrow> 'b \<Rightarrow> nat set) \<Rightarrow> heap \<Rightarrow> 'a \<times> 'b \<Rightarrow> nat set" where
  "pair_fp fp1 fp2 h x = fp1 h (fst x) \<union> fp2 h (snd x)"

definition pair_cp ::
    "('a \<Rightarrow> heap \<Rightarrow> ('a \<times> heap) option) \<Rightarrow> ('b \<Rightarrow> heap \<Rightarrow> ('b \<times> heap) option)
     \<Rightarrow> 'a \<times> 'b \<Rightarrow> heap \<Rightarrow> (('a \<times> 'b) \<times> heap) option" where
  "pair_cp cp1 cp2 x h =
     do { (a, h1) \<leftarrow> cp1 (fst x) h; (b, h2) \<leftarrow> cp2 (snd x) h1; Some ((a, b), h2) }"

section \<open>How promises combine\<close>

lemma copier_flat: "copier flat_rd flat_fp (\<lambda>x h. Some (x, h))"
  by unfold_locales (auto simp: flat_rd_def flat_fp_def extends_refl)

lemma cell_at_Some: "cell_at dest h a = Some x \<Longrightarrow> heap_get h a \<noteq> None"
  by (auto simp: cell_at_def bind_eq_Some_conv)

lemma cell_at_cong: "heap_get h' a = heap_get h a \<Longrightarrow> cell_at dest h' a = cell_at dest h a"
  by (simp add: cell_at_def)

lemma copyPtr_copies:
  assumes cp: "copier rd fp cp" and dest: "\<And>x. dest (mk x) = Some x" and ok: "heap_ok h" and rd: "ptr_rd dest rd h p = Some v"
  shows "\<exists>p' h'. copyPtr dest mk cp p h = Some (p', h') \<and> extends h h' \<and> ptr_rd dest rd h' p' = Some v
    \<and> ptr_fp dest fp h' p' \<subseteq> {hp_next h..<hp_next h'}"
proof (cases p)
  case None
  then show ?thesis using ok rd by (simp add: copyPtr_def ptr_rd_def ptr_fp_def extends_refl)
next
  case (Some a)
  with rd obtain x w where x: "cell_at dest h a = Some x" "rd h x = Some w" "v = Some w"
    by (auto simp: ptr_rd_def bind_eq_Some_conv)
  obtain x' h1 where c: "cp x h = Some (x', h1)" "extends h h1" "rd h1 x' = Some w"
    "fp h1 x' \<subseteq> {hp_next h..<hp_next h1}"
    using copier.copies [OF cp ok x(2)] by blast
  have ok1: "heap_ok h1" using c(2) by (simp add: extends_def)
  obtain b h2 where n: "heap_new (mk x') h1 = (b, h2)" by fastforce
  note new = heap_new_props [OF ok1 n]
  have at: "cell_at dest h2 b = Some x'" using new(4) dest by (simp add: cell_at_def)
  have k: "rd h2 x' = Some w \<and> fp h2 x' = fp h1 x'" by (rule copier.keep [OF cp new(1) ok1 c(3)])
  have "copyPtr dest mk cp p h = Some (Some b, h2)" using x c n Some by (simp add: copyPtr_def)
  moreover have "ptr_rd dest rd h2 (Some b) = Some v" using at k x(3) by (simp add: ptr_rd_def)
  moreover have "ptr_fp dest fp h2 (Some b) \<subseteq> {hp_next h..<hp_next h2}"
    using at k c(2,4) new by (auto simp: ptr_fp_def extends_def)
  ultimately show ?thesis using extends_trans [OF c(2) new(1)] by blast
qed

lemma copier_ptr:
  assumes cp: "copier rd fp cp" and dest: "\<And>x. dest (mk x) = Some x"
  shows "copier (ptr_rd dest rd) (ptr_fp dest fp) (copyPtr dest mk cp)"
proof
  fix h p v h'
  assume rd: "ptr_rd dest rd h p = Some v"
    and same: "\<And>a. a \<in> ptr_fp dest fp h p \<Longrightarrow> heap_get h' a = heap_get h a"
  show "ptr_rd dest rd h' p = Some v \<and> ptr_fp dest fp h' p = ptr_fp dest fp h p"
  proof (cases p)
    case (Some a)
    with rd obtain x w where x: "cell_at dest h a = Some x" "rd h x = Some w" "v = Some w"
      by (auto simp: ptr_rd_def bind_eq_Some_conv)
    have "heap_get h' a = heap_get h a" using same by (simp add: ptr_fp_def Some)
    then have "cell_at dest h' a = Some x" using x(1) cell_at_cong by metis
    moreover have "rd h' x = Some w \<and> fp h' x = fp h x"
      using same x by (intro copier.frame [OF cp]) (simp_all add: ptr_fp_def Some)
    ultimately show ?thesis using Some x by (simp add: ptr_rd_def ptr_fp_def)
  qed (use rd in \<open>simp add: ptr_rd_def ptr_fp_def\<close>)
next
  fix h p v
  assume ok: "heap_ok h" and rd: "ptr_rd dest rd h p = Some v"
  show "ptr_fp dest fp h p \<subseteq> {..<hp_next h}"
  proof (cases p)
    case (Some a)
    with rd obtain x w where x: "cell_at dest h a = Some x" "rd h x = Some w"
      by (auto simp: ptr_rd_def bind_eq_Some_conv)
    then show ?thesis
      using copier.bound [OF cp ok x(2)] cell_at_Some [OF x(1)] ok by (auto simp: ptr_fp_def Some heap_ok_def)
  qed (simp add: ptr_fp_def)
qed (rule copyPtr_copies [OF assms])

lemma copier_items:
  assumes cp: "copier rd fp cp" and "heap_ok h" and "those (map (rd h) xs) = Some vs"
  shows "\<exists>ys h'. copyItems cp xs h = Some (ys, h') \<and> extends h h' \<and> those (map (rd h') ys) = Some vs
    \<and> length ys = length xs \<and> \<Union> (fp h' ` set ys) \<subseteq> {hp_next h..<hp_next h'}"
  using assms(2,3)
proof (induction xs arbitrary: h vs)
  case Nil
  then show ?case by (simp add: extends_refl)
next
  case (Cons x xs)
  then obtain v ws where v: "rd h x = Some v" "those (map (rd h) xs) = Some ws" "vs = v # ws"
    by (auto split: option.splits)
  obtain x' h1 where c: "cp x h = Some (x', h1)" "extends h h1" "rd h1 x' = Some v" "fp h1 x' \<subseteq> {hp_next h..<hp_next h1}"
    using copier.copies [OF cp Cons.prems(1) v(1)] by blast
  have ok1: "heap_ok h1" using c(2) by (simp add: extends_def)
  have "those (map (rd h1) zs) = Some us" if "those (map (rd h) zs) = Some us" for zs us
    using that copier.keep [OF cp c(2) Cons.prems(1)]
    by (induction zs arbitrary: us) (auto split: option.splits)
  then obtain ys h2 where ys: "copyItems cp xs h1 = Some (ys, h2)" "extends h1 h2" "those (map (rd h2) ys) = Some ws"
    "length ys = length xs" "\<Union> (fp h2 ` set ys) \<subseteq> {hp_next h1..<hp_next h2}"
    using Cons.IH [OF ok1] v(2) by blast
  have k: "rd h2 x' = Some v \<and> fp h2 x' = fp h1 x'" by (rule copier.keep [OF cp ys(2) ok1 c(3)])
  have "fp h2 x' \<subseteq> {hp_next h..<hp_next h2}" "\<Union> (fp h2 ` set ys) \<subseteq> {hp_next h..<hp_next h2}"
    using k c(2,4) ys(2,5) by (fastforce simp: extends_def)+
  moreover have "copyItems cp (x # xs) h = Some (x' # ys, h2)" using c(1) ys(1) by simp
  ultimately show ?case
    using extends_trans [OF c(2) ys(2)] k ys(3,4) v(3) by (intro exI [of _ "x' # ys"] exI [of _ h2]) simp
qed

lemma those_frame:
  assumes cp: "copier rd fp cp" and "those (map (rd h) xs) = Some vs"
    and "\<And>a. a \<in> \<Union> (fp h ` set xs) \<Longrightarrow> heap_get h' a = heap_get h a"
  shows "those (map (rd h') xs) = Some vs \<and> (\<forall>x\<in>set xs. fp h' x = fp h x)"
  using assms(2,3)
proof (induction xs arbitrary: vs)
  case (Cons x xs)
  then obtain v ws where v: "rd h x = Some v" "those (map (rd h) xs) = Some ws" "vs = v # ws"
    by (auto split: option.splits)
  have "rd h' x = Some v \<and> fp h' x = fp h x" using Cons.prems(2) v(1) by (intro copier.frame [OF cp]) auto
  moreover have "those (map (rd h') xs) = Some ws \<and> (\<forall>x\<in>set xs. fp h' x = fp h x)"
    using Cons v(2) by simp
  ultimately show ?case using v(3) by simp
qed simp

lemma those_bound:
  assumes cp: "copier rd fp cp" and "heap_ok h" and "those (map (rd h) xs) = Some vs"
  shows "\<Union> (fp h ` set xs) \<subseteq> {..<hp_next h}"
  using assms(3)
proof (induction xs arbitrary: vs)
  case (Cons x xs)
  then obtain v ws where v: "rd h x = Some v" "those (map (rd h) xs) = Some ws" by (auto split: option.splits)
  then show ?case using Cons.IH copier.bound [OF cp assms(2)] by simp
qed simp

lemma slice_rd_Some:
  "slice_rd dest rd h (Some s) = Some v \<longleftrightarrow> (\<exists>xs vs. cell_at dest h (sc_array s) = Some xs \<and> sc_len s \<le> length xs
     \<and> those (map (rd h) (take (sc_len s) xs)) = Some vs \<and> v = Some vs)"
  by (auto simp: slice_rd_def bind_eq_Some_conv)

lemma copySlice_copies:
  assumes cp: "copier rd fp cp" and dest: "\<And>x. dest (mk x) = Some x" and ok: "heap_ok h" and rd: "slice_rd dest rd h sl = Some v"
  shows "\<exists>sl' h'. copySlice dest mk cp sl h = Some (sl', h') \<and> extends h h' \<and> slice_rd dest rd h' sl' = Some v
    \<and> slice_fp dest fp h' sl' \<subseteq> {hp_next h..<hp_next h'}"
proof (cases sl)
  case None
  then show ?thesis using ok rd by (simp add: copySlice_def slice_rd_def slice_fp_def extends_refl)
next
  case (Some s)
  with rd obtain xs vs where x: "cell_at dest h (sc_array s) = Some xs" "sc_len s \<le> length xs"
    "those (map (rd h) (take (sc_len s) xs)) = Some vs" and v: "v = Some vs" by (auto simp: slice_rd_Some)
  obtain ys h1 where c: "copyItems cp (take (sc_len s) xs) h = Some (ys, h1)" "extends h h1"
    "those (map (rd h1) ys) = Some vs" "\<Union> (fp h1 ` set ys) \<subseteq> {hp_next h..<hp_next h1}"
    using copier_items [OF cp ok x(3)] by blast
  have ok1: "heap_ok h1" using c(2) by (simp add: extends_def)
  obtain b h2 where n: "heap_new (mk ys) h1 = (b, h2)" by fastforce
  note new = heap_new_props [OF ok1 n]
  have at: "cell_at dest h2 b = Some ys" using new(4) dest by (simp add: cell_at_def)
  have k: "those (map (rd h2) ys) = Some vs \<and> (\<forall>x\<in>set ys. fp h2 x = fp h1 x)"
    using those_bound [OF cp ok1 c(3)] new(1) by (intro those_frame [OF cp c(3)]) (auto simp: extends_def)
  let ?s = "\<lparr>sc_array = b, sc_len = length ys\<rparr>"
  have "copySlice dest mk cp sl h = Some (Some ?s, h2)" using x c n Some by (simp add: copySlice_def)
  moreover have "slice_rd dest rd h2 (Some ?s) = Some v" using at k v by (simp add: slice_rd_Some)
  moreover have "slice_fp dest fp h2 (Some ?s) \<subseteq> {hp_next h..<hp_next h2}"
  proof -
    have "\<Union> (fp h2 ` set ys) = \<Union> (fp h1 ` set ys)" using k by simp
    then have "slice_fp dest fp h2 (Some ?s) = insert b (\<Union> (fp h1 ` set ys))" using at by (simp add: slice_fp_def)
    moreover have "hp_next h \<le> b" "b < hp_next h2" "hp_next h1 \<le> hp_next h2"
      using c(2) new by (auto simp: extends_def)
    moreover have "\<Union> (fp h1 ` set ys) \<subseteq> {hp_next h..<hp_next h2}"
      by (rule subset_trans [OF c(4)]) (use \<open>hp_next h1 \<le> hp_next h2\<close> in auto)
    ultimately show ?thesis by simp
  qed
  ultimately show ?thesis using extends_trans [OF c(2) new(1)] by blast
qed

lemma copier_slice:
  assumes cp: "copier rd fp cp" and dest: "\<And>x. dest (mk x) = Some x"
  shows "copier (slice_rd dest rd) (slice_fp dest fp) (copySlice dest mk cp)"
proof
  fix h sl v h'
  assume rd: "slice_rd dest rd h sl = Some v"
    and same: "\<And>a. a \<in> slice_fp dest fp h sl \<Longrightarrow> heap_get h' a = heap_get h a"
  show "slice_rd dest rd h' sl = Some v \<and> slice_fp dest fp h' sl = slice_fp dest fp h sl"
  proof (cases sl)
    case (Some s)
    with rd obtain xs vs where x: "cell_at dest h (sc_array s) = Some xs" "sc_len s \<le> length xs"
      "those (map (rd h) (take (sc_len s) xs)) = Some vs" and v: "v = Some vs" by (auto simp: slice_rd_Some)
    have "heap_get h' (sc_array s) = heap_get h (sc_array s)" using same by (simp add: slice_fp_def Some)
    then have "cell_at dest h' (sc_array s) = Some xs" using x(1) cell_at_cong by metis
    moreover have "those (map (rd h') (take (sc_len s) xs)) = Some vs \<and> (\<forall>x\<in>set (take (sc_len s) xs). fp h' x = fp h x)"
      using same x by (intro those_frame [OF cp x(3)]) (simp add: slice_fp_def Some)
    ultimately show ?thesis using Some x v by (simp add: slice_rd_Some slice_fp_def)
  qed (use rd in \<open>simp add: slice_rd_def slice_fp_def\<close>)
next
  fix h sl v
  assume ok: "heap_ok h" and rd: "slice_rd dest rd h sl = Some v"
  show "slice_fp dest fp h sl \<subseteq> {..<hp_next h}"
  proof (cases sl)
    case (Some s)
    with rd obtain xs vs where x: "cell_at dest h (sc_array s) = Some xs"
      "those (map (rd h) (take (sc_len s) xs)) = Some vs" by (auto simp: slice_rd_Some)
    then show ?thesis
      using those_bound [OF cp ok x(2)] cell_at_Some [OF x(1)] ok by (auto simp: slice_fp_def Some heap_ok_def)
  qed (simp add: slice_fp_def)
qed (rule copySlice_copies [OF assms])

lemma copier_pair:
  assumes c1: "copier rd1 fp1 cp1" and c2: "copier rd2 fp2 cp2"
  shows "copier (pair_rd rd1 rd2) (pair_fp fp1 fp2) (pair_cp cp1 cp2)"
proof
  fix h x v h'
  assume rd: "pair_rd rd1 rd2 h x = Some v"
    and same: "\<And>a. a \<in> pair_fp fp1 fp2 h x \<Longrightarrow> heap_get h' a = heap_get h a"
  from rd have r: "rd1 h (fst x) = Some (fst v)" "rd2 h (snd x) = Some (snd v)"
    by (auto simp: pair_rd_def bind_eq_Some_conv)
  have "rd1 h' (fst x) = Some (fst v) \<and> fp1 h' (fst x) = fp1 h (fst x)"
    using same by (intro copier.frame [OF c1 r(1)]) (simp add: pair_fp_def)
  moreover have "rd2 h' (snd x) = Some (snd v) \<and> fp2 h' (snd x) = fp2 h (snd x)"
    using same by (intro copier.frame [OF c2 r(2)]) (simp add: pair_fp_def)
  ultimately show "pair_rd rd1 rd2 h' x = Some v \<and> pair_fp fp1 fp2 h' x = pair_fp fp1 fp2 h x"
    by (simp add: pair_rd_def pair_fp_def)
next
  fix h x v
  assume ok: "heap_ok h" and "pair_rd rd1 rd2 h x = Some v"
  then have r: "rd1 h (fst x) = Some (fst v)" "rd2 h (snd x) = Some (snd v)"
    by (auto simp: pair_rd_def bind_eq_Some_conv)
  show "pair_fp fp1 fp2 h x \<subseteq> {..<hp_next h}"
    using copier.bound [OF c1 ok r(1)] copier.bound [OF c2 ok r(2)] by (simp add: pair_fp_def)
next
  fix h x v
  assume ok: "heap_ok h" and "pair_rd rd1 rd2 h x = Some v"
  then have r: "rd1 h (fst x) = Some (fst v)" "rd2 h (snd x) = Some (snd v)"
    by (auto simp: pair_rd_def bind_eq_Some_conv)
  obtain a h1 where a: "cp1 (fst x) h = Some (a, h1)" "extends h h1" "rd1 h1 a = Some (fst v)" "fp1 h1 a \<subseteq> {hp_next h..<hp_next h1}"
    using copier.copies [OF c1 ok r(1)] by blast
  have ok1: "heap_ok h1" using a(2) by (simp add: extends_def)
  have "rd2 h1 (snd x) = Some (snd v)" using copier.keep [OF c2 a(2) ok r(2)] by simp
  then obtain b h2 where b: "cp2 (snd x) h1 = Some (b, h2)" "extends h1 h2" "rd2 h2 b = Some (snd v)" "fp2 h2 b \<subseteq> {hp_next h1..<hp_next h2}"
    using copier.copies [OF c2 ok1] by blast
  have k: "rd1 h2 a = Some (fst v) \<and> fp1 h2 a = fp1 h1 a" by (rule copier.keep [OF c1 b(2) ok1 a(3)])
  have "pair_fp fp1 fp2 h2 (a, b) \<subseteq> {hp_next h..<hp_next h2}"
    using k a(2,4) b(2,4) by (fastforce simp: pair_fp_def extends_def)
  moreover have "pair_cp cp1 cp2 x h = Some ((a, b), h2)" using a(1) b(1) by (simp add: pair_cp_def)
  moreover have "pair_rd rd1 rd2 h2 (a, b) = Some v" using k b(3) by (simp add: pair_rd_def)
  ultimately show "\<exists>y h'. pair_cp cp1 cp2 x h = Some (y, h') \<and> extends h h' \<and> pair_rd rd1 rd2 h' y = Some v
      \<and> pair_fp fp1 fp2 h' y \<subseteq> {hp_next h..<hp_next h'}"
    using extends_trans [OF a(2) b(2)] by blast
qed

text \<open>A struct whose pointers are the parts \<open>f x\<close> and that is put together again by \<open>put\<close>.\<close>

lemma copier_struct:
  assumes c: "copier rd fp cp" and "\<And>h x. rd' h x = map_option (g x) (rd h (f x))"
    and "\<And>h x. fp' h x = fp h (f x)" and "\<And>h x. cp' x h = map_option (\<lambda>(y, h'). (put y x, h')) (cp (f x) h)"
    and "\<And>y x. f (put y x) = y" and "\<And>y x. g (put y x) = g x"
  shows "copier rd' fp' cp'"
proof
  fix h x v h'
  assume "rd' h x = Some v" and "\<And>a. a \<in> fp' h x \<Longrightarrow> heap_get h' a = heap_get h a"
  then show "rd' h' x = Some v \<and> fp' h' x = fp' h x"
    using copier.frame [OF c, of h "f x" _ h'] by (auto simp: assms(2,3))
next
  fix h x v
  assume "heap_ok h" and "rd' h x = Some v"
  then show "fp' h x \<subseteq> {..<hp_next h}" using copier.bound [OF c] by (auto simp: assms(2,3))
next
  fix h x v
  assume "heap_ok h" and "rd' h x = Some v"
  then obtain w where w: "rd h (f x) = Some w" "v = g x w" by (auto simp: assms(2))
  obtain y h' where "cp (f x) h = Some (y, h')" "extends h h'" "rd h' y = Some w" "fp h' y \<subseteq> {hp_next h..<hp_next h'}"
    using copier.copies [OF c \<open>heap_ok h\<close> w(1)] by blast
  then show "\<exists>x' h'. cp' x h = Some (x', h') \<and> extends h h' \<and> rd' h' x' = Some v \<and> fp' h' x' \<subseteq> {hp_next h..<hp_next h'}"
    using w(2) by (intro exI [of _ "put y x"] exI [of _ h']) (simp add: assms(2-))
qed

section \<open>The promises of the generated functions\<close>

definition rd_backend :: "heap \<Rightarrow> backend_obj \<Rightarrow> Backend option" where
  "rd_backend h x =
     map_option (\<lambda>(s, a). \<lparr>be_Type = bo_Type x, be_Service = s, be_Address = a\<rparr>)
       (pair_rd (ptr_rd dest_Service flat_rd) (ptr_rd dest_Address flat_rd) h (bo_Service x, bo_Address x))"

definition fp_backend :: "heap \<Rightarrow> backend_obj \<Rightarrow> nat set" where
  "fp_backend h x =
     pair_fp (ptr_fp dest_Service flat_fp) (ptr_fp dest_Address flat_fp) h (bo_Service x, bo_Address x)"

definition rd_tls :: "heap \<Rightarrow> tls_obj \<Rightarrow> BackendTLS option" where
  "rd_tls h x =
     map_option (\<lambda>r. \<lparr>bt_Mode = to_Mode x, bt_CASecretRef = r, bt_ServerName = to_ServerName x\<rparr>)
       (ptr_rd dest_Ref flat_rd h (to_CASecretRef x))"

definition fp_tls :: "heap \<Rightarrow> tls_obj \<Rightarrow> nat set" where
  "fp_tls h x = ptr_fp dest_Ref flat_fp h (to_CASecretRef x)"

definition rd_spec :: "heap \<Rightarrow> spec_obj \<Rightarrow> PostgresRouteSpec option" where
  "rd_spec h x =
     map_option (\<lambda>(b, t). \<lparr>prs_Database = so_Database x, prs_TargetDatabase = so_TargetDatabase x,
         prs_Backend = b, prs_TLS = t, prs_Priority = so_Priority x\<rparr>)
       (pair_rd rd_backend (ptr_rd dest_TLS rd_tls) h (so_Backend x, so_TLS x))"

definition fp_spec :: "heap \<Rightarrow> spec_obj \<Rightarrow> nat set" where
  "fp_spec h x = pair_fp fp_backend (ptr_fp dest_TLS fp_tls) h (so_Backend x, so_TLS x)"

text \<open>A status is read with the fact that its conditions are nil, which the value does not show.\<close>

definition rd_status :: "heap \<Rightarrow> status_obj \<Rightarrow> (bool \<times> PostgresRouteStatus) option" where
  "rd_status h x =
     map_option (\<lambda>cs. (cs = None, \<lparr>st_ObservedGeneration = to_ObservedGeneration x, st_Database = to_Database x,
         st_Endpoint = to_Endpoint x, st_ConflictingRoute = to_ConflictingRoute x,
         st_Conditions = (case cs of None \<Rightarrow> [] | Some xs \<Rightarrow> xs)\<rparr>))
       (slice_rd dest_Conditions flat_rd h (to_Conditions x))"

definition fp_status :: "heap \<Rightarrow> status_obj \<Rightarrow> nat set" where
  "fp_status h x = slice_fp dest_Conditions flat_fp h (to_Conditions x)"

text \<open>A resource is read with its \<^verbatim>\<open>TypeMeta\<close>, a list with its \<^verbatim>\<open>TypeMeta\<close> and \<^verbatim>\<open>ListMeta\<close>.\<close>

type_synonym TypeMeta = "go_string \<times> go_string"

definition rd_route :: "heap \<Rightarrow> route_obj \<Rightarrow> (TypeMeta \<times> bool \<times> PostgresRoute) option" where
  "rd_route h x =
     map_option (\<lambda>(m, sp, nil, st). (ro_TypeMeta x, nil, \<lparr>pr_Meta = m, pr_Spec = sp, pr_Status = st\<rparr>))
       (pair_rd (cell_at dest_Meta) (pair_rd rd_spec rd_status) h (ro_Meta x, ro_Spec x, ro_Status x))"

definition one_fp :: "heap \<Rightarrow> nat \<Rightarrow> nat set" where
  "one_fp h a = {a}"

definition fp_route :: "heap \<Rightarrow> route_obj \<Rightarrow> nat set" where
  "fp_route h x = pair_fp one_fp (pair_fp fp_spec fp_status) h (ro_Meta x, ro_Spec x, ro_Status x)"

definition rd_list :: "heap \<Rightarrow> list_obj \<Rightarrow> (TypeMeta \<times> go_string \<times> (TypeMeta \<times> bool \<times> PostgresRoute) list option) option" where
  "rd_list h x = map_option (Pair (lo_TypeMeta x))
     (pair_rd (cell_at dest_ListMeta) (slice_rd dest_Routes rd_route) h (lo_ListMeta x, lo_Items x))"

definition fp_list :: "heap \<Rightarrow> list_obj \<Rightarrow> nat set" where
  "fp_list h x = pair_fp one_fp (slice_fp dest_Routes fp_route) h (lo_ListMeta x, lo_Items x)"

lemma copier_Service: "copier (ptr_rd dest_Service flat_rd) (ptr_fp dest_Service flat_fp)
    (copyPtr dest_Service ServiceCell (\<lambda>v h. Some (v, h)))"
  by (rule copier_ptr [OF copier_flat]) simp

lemma copier_Address: "copier (ptr_rd dest_Address flat_rd) (ptr_fp dest_Address flat_fp)
    (copyPtr dest_Address AddressCell (\<lambda>v h. Some (v, h)))"
  by (rule copier_ptr [OF copier_flat]) simp

lemma copier_Ref: "copier (ptr_rd dest_Ref flat_rd) (ptr_fp dest_Ref flat_fp)
    (copyPtr dest_Ref RefCell (\<lambda>v h. Some (v, h)))"
  by (rule copier_ptr [OF copier_flat]) simp

interpretation backend_copy: copier rd_backend fp_backend Backend_DeepCopyInto
  by (rule copier_struct [where f = "\<lambda>x. (bo_Service x, bo_Address x)"
          and put = "\<lambda>(s, a) x. x\<lparr>bo_Service := s, bo_Address := a\<rparr>",
        OF copier_pair [OF copier_Service copier_Address] rd_backend_def fp_backend_def])
    (auto simp: Backend_DeepCopyInto_def pair_cp_def split: Option.bind_splits)

interpretation tls_copy: copier rd_tls fp_tls BackendTLS_DeepCopyInto
  by (rule copier_struct [where f = to_CASecretRef and put = "\<lambda>r x. x\<lparr>to_CASecretRef := r\<rparr>",
        OF copier_Ref rd_tls_def fp_tls_def])
    (auto simp: BackendTLS_DeepCopyInto_def split: Option.bind_splits)

lemma copier_TLS: "copier (ptr_rd dest_TLS rd_tls) (ptr_fp dest_TLS fp_tls)
    (copyPtr dest_TLS TLSCell BackendTLS_DeepCopyInto)"
  by (rule copier_ptr [OF tls_copy.copier_axioms]) simp

interpretation spec_copy: copier rd_spec fp_spec PostgresRouteSpec_DeepCopyInto
  by (rule copier_struct [where f = "\<lambda>x. (so_Backend x, so_TLS x)"
          and put = "\<lambda>(b, t) x. x\<lparr>so_Backend := b, so_TLS := t\<rparr>",
        OF copier_pair [OF backend_copy.copier_axioms copier_TLS] rd_spec_def fp_spec_def])
    (auto simp: PostgresRouteSpec_DeepCopyInto_def pair_cp_def split: Option.bind_splits)

text \<open>The copies through a pointer that need nothing of the embedded types.\<close>

lemma DeepCopyInto_flat:
  "AddressBackend_DeepCopyInto = (\<lambda>x h. Some (x, h))" "SecretKeyReference_DeepCopyInto = (\<lambda>x h. Some (x, h))"
  "ServiceBackend_DeepCopyInto = (\<lambda>x h. Some (x, h))"
  by (simp_all add: fun_eq_iff AddressBackend_DeepCopyInto_def SecretKeyReference_DeepCopyInto_def ServiceBackend_DeepCopyInto_def)

interpretation address_pointer: copier "ptr_rd dest_Address flat_rd" "ptr_fp dest_Address flat_fp" AddressBackend_DeepCopy
  unfolding AddressBackend_DeepCopy_def DeepCopyInto_flat by (rule copier_Address)

interpretation ref_pointer: copier "ptr_rd dest_Ref flat_rd" "ptr_fp dest_Ref flat_fp" SecretKeyReference_DeepCopy
  unfolding SecretKeyReference_DeepCopy_def DeepCopyInto_flat by (rule copier_Ref)

interpretation service_pointer: copier "ptr_rd dest_Service flat_rd" "ptr_fp dest_Service flat_fp" ServiceBackend_DeepCopy
  unfolding ServiceBackend_DeepCopy_def DeepCopyInto_flat by (rule copier_Service)

interpretation tls_pointer: copier "ptr_rd dest_TLS rd_tls" "ptr_fp dest_TLS fp_tls" BackendTLS_DeepCopy
  unfolding BackendTLS_DeepCopy_def by (rule copier_TLS)

interpretation backend_pointer: copier "ptr_rd dest_Backend rd_backend" "ptr_fp dest_Backend fp_backend" Backend_DeepCopy
  unfolding Backend_DeepCopy_def by (rule copier_ptr [OF backend_copy.copier_axioms]) simp

interpretation spec_pointer: copier "ptr_rd dest_Spec rd_spec" "ptr_fp dest_Spec fp_spec" PostgresRouteSpec_DeepCopy
  unfolding PostgresRouteSpec_DeepCopy_def by (rule copier_ptr [OF spec_copy.copier_axioms]) simp

text \<open>
  What is relied on of the embedded types: copying the metadata behind an address gives a new
  address with the same metadata, and a condition holds no pointers.
\<close>

definition meta_ok :: "meta_api \<Rightarrow> bool" where
  "meta_ok ma \<longleftrightarrow> copier (cell_at dest_Meta) one_fp (ma_object ma) \<and> copier (cell_at dest_ListMeta) one_fp (ma_list ma)
     \<and> (\<forall>c h. ma_condition ma c h = Some (c, h))"

lemma copier_status:
  assumes "meta_ok ma"
  shows "copier rd_status fp_status (PostgresRouteStatus_DeepCopyInto ma)"
proof -
  have "ma_condition ma = (\<lambda>c h. Some (c, h))" using assms by (simp add: meta_ok_def fun_eq_iff)
  then have c: "copier (slice_rd dest_Conditions flat_rd) (slice_fp dest_Conditions flat_fp)
      (copySlice dest_Conditions ConditionsCell (ma_condition ma))"
    using copier_slice [OF copier_flat, of dest_Conditions ConditionsCell] by simp
  show ?thesis
    by (rule copier_struct [where f = to_Conditions and put = "\<lambda>cs x. x\<lparr>to_Conditions := cs\<rparr>", OF c rd_status_def fp_status_def])
      (auto simp: PostgresRouteStatus_DeepCopyInto_def split: Option.bind_splits)
qed

lemma copier_route:
  assumes "meta_ok ma"
  shows "copier rd_route fp_route (PostgresRoute_DeepCopyInto ma)"
proof -
  have c: "copier (pair_rd (cell_at dest_Meta) (pair_rd rd_spec rd_status)) (pair_fp one_fp (pair_fp fp_spec fp_status))
      (pair_cp (ma_object ma) (pair_cp PostgresRouteSpec_DeepCopyInto (PostgresRouteStatus_DeepCopyInto ma)))"
    using assms copier_status [OF assms] by (auto simp: meta_ok_def intro!: copier_pair spec_copy.copier_axioms)
  show ?thesis
    by (rule copier_struct [where f = "\<lambda>x. (ro_Meta x, ro_Spec x, ro_Status x)"
            and put = "\<lambda>(m, sp, st) x. x\<lparr>ro_Meta := m, ro_Spec := sp, ro_Status := st\<rparr>", OF c rd_route_def fp_route_def])
      (auto simp: PostgresRoute_DeepCopyInto_def pair_cp_def split: Option.bind_splits)
qed

lemma copier_list:
  assumes "meta_ok ma"
  shows "copier rd_list fp_list (PostgresRouteList_DeepCopyInto ma)"
proof -
  have c: "copier (pair_rd (cell_at dest_ListMeta) (slice_rd dest_Routes rd_route)) (pair_fp one_fp (slice_fp dest_Routes fp_route))
      (pair_cp (ma_list ma) (copySlice dest_Routes RoutesCell (PostgresRoute_DeepCopyInto ma)))"
    using assms copier_route [OF assms] by (auto simp: meta_ok_def intro!: copier_pair copier_slice)
  show ?thesis
    by (rule copier_struct [where f = "\<lambda>x. (lo_ListMeta x, lo_Items x)"
            and put = "\<lambda>(m, items) x. x\<lparr>lo_ListMeta := m, lo_Items := items\<rparr>", OF c rd_list_def fp_list_def])
      (auto simp: PostgresRouteList_DeepCopyInto_def pair_cp_def split: Option.bind_splits)
qed

text \<open>\<open>isolated rd fp h p q v\<close>: in \<open>h\<close> both pointers stand for \<open>v\<close>, they share no cell, and
  no later writes to the cells of one can be seen through the other.\<close>

definition isolated :: "(heap \<Rightarrow> 'a \<Rightarrow> 'v option) \<Rightarrow> (heap \<Rightarrow> 'a \<Rightarrow> nat set) \<Rightarrow> heap \<Rightarrow> 'a \<Rightarrow> 'a \<Rightarrow> 'v \<Rightarrow> bool" where
  "isolated rd fp h p q v \<longleftrightarrow> rd h p = Some v \<and> rd h q = Some v \<and> fp h p \<inter> fp h q = {}
     \<and> (\<forall>h'. (\<forall>a. a \<notin> fp h q \<longrightarrow> heap_get h' a = heap_get h a) \<longrightarrow> rd h' p = Some v)
     \<and> (\<forall>h'. (\<forall>a. a \<notin> fp h p \<longrightarrow> heap_get h' a = heap_get h a) \<longrightarrow> rd h' q = Some v)"

lemma copier_isolated:
  assumes c: "copier rd fp cp" and "heap_ok h" and "rd h p = Some v"
  shows "\<exists>q h'. cp p h = Some (q, h') \<and> extends h h' \<and> isolated rd fp h' p q v"
proof -
  obtain q h' where q: "cp p h = Some (q, h')" using copier.copies [OF assms] by blast
  note d = copier.disjoint [OF assms q] and i = copier.isolates [OF assms q]
  show ?thesis using q d i by (auto simp: isolated_def)
qed

text \<open>C33: Deep copies are well typed and independent. On a heap where a route pointer stands for a
  well-typed resource, \<^verbatim>\<open>DeepCopy\<close> returns; the copy stands for the same resource, nil pointers and nil slices included; nothing the
  heap held has changed; original and copy share no memory, so that writes to one are not seen
  through the other. The same for the resource as a runtime object, for a list of routes and for
  the status a reconcile works on.
\<close>

theorem deep_copies_are_isolated:
  assumes "meta_ok ma" and "heap_ok h"
    and "ptr_rd dest_Route rd_route h r = Some vr"
    and "ptr_rd dest_List rd_list h l = Some vl"
    and "ptr_rd dest_Status rd_status h s = Some vs"
  shows "(\<exists>r' h'. PostgresRoute_DeepCopy ma r h = Some (r', h') \<and> PostgresRoute_DeepCopyObject ma r h = Some (r', h')
      \<and> extends h h' \<and> isolated (ptr_rd dest_Route rd_route) (ptr_fp dest_Route fp_route) h' r r' vr)
    \<and> (\<exists>l' h'. PostgresRouteList_DeepCopy ma l h = Some (l', h') \<and> PostgresRouteList_DeepCopyObject ma l h = Some (l', h')
      \<and> extends h h' \<and> isolated (ptr_rd dest_List rd_list) (ptr_fp dest_List fp_list) h' l l' vl)
    \<and> (\<exists>s' h'. PostgresRouteStatus_DeepCopy ma s h = Some (s', h')
      \<and> extends h h' \<and> isolated (ptr_rd dest_Status rd_status) (ptr_fp dest_Status fp_status) h' s s' vs)"
proof (intro conjI)
  have obj: "(case c of Some r \<Rightarrow> Some r | None \<Rightarrow> None) = c" for c :: "nat option" by (cases c) simp_all
  have "copier (ptr_rd dest_Route rd_route) (ptr_fp dest_Route fp_route) (PostgresRoute_DeepCopy ma)"
    unfolding PostgresRoute_DeepCopy_def by (rule copier_ptr [OF copier_route [OF assms(1)]]) simp
  from copier_isolated [OF this assms(2,3)]
  show "\<exists>r' h'. PostgresRoute_DeepCopy ma r h = Some (r', h') \<and> PostgresRoute_DeepCopyObject ma r h = Some (r', h')
      \<and> extends h h' \<and> isolated (ptr_rd dest_Route rd_route) (ptr_fp dest_Route fp_route) h' r r' vr"
    by (auto simp: PostgresRoute_DeepCopyObject_def obj)
  have "copier (ptr_rd dest_List rd_list) (ptr_fp dest_List fp_list) (PostgresRouteList_DeepCopy ma)"
    unfolding PostgresRouteList_DeepCopy_def by (rule copier_ptr [OF copier_list [OF assms(1)]]) simp
  from copier_isolated [OF this assms(2,4)]
  show "\<exists>l' h'. PostgresRouteList_DeepCopy ma l h = Some (l', h') \<and> PostgresRouteList_DeepCopyObject ma l h = Some (l', h')
      \<and> extends h h' \<and> isolated (ptr_rd dest_List rd_list) (ptr_fp dest_List fp_list) h' l l' vl"
    by (auto simp: PostgresRouteList_DeepCopyObject_def obj)
  have "copier (ptr_rd dest_Status rd_status) (ptr_fp dest_Status fp_status) (PostgresRouteStatus_DeepCopy ma)"
    unfolding PostgresRouteStatus_DeepCopy_def by (rule copier_ptr [OF copier_status [OF assms(1)]]) simp
  from copier_isolated [OF this assms(2,5)]
  show "\<exists>s' h'. PostgresRouteStatus_DeepCopy ma s h = Some (s', h')
      \<and> extends h h' \<and> isolated (ptr_rd dest_Status rd_status) (ptr_fp dest_Status fp_status) h' s s' vs"
    by auto
qed

text \<open>Copies of metadata that allocate one new cell keep the promise.\<close>

definition fresh_copy :: "(cell \<Rightarrow> 'a option) \<Rightarrow> ('a \<Rightarrow> cell) \<Rightarrow> nat \<Rightarrow> heap \<Rightarrow> (nat \<times> heap) option" where
  "fresh_copy dest mk a h = do { x \<leftarrow> cell_at dest h a; Some (heap_new (mk x) h) }"

lemma copier_fresh:
  assumes dest: "\<And>x. dest (mk x) = Some x"
  shows "copier (cell_at dest) one_fp (fresh_copy dest mk)"
proof
  fix h a v h'
  assume "cell_at dest h a = Some v" and "\<And>b. b \<in> one_fp h a \<Longrightarrow> heap_get h' b = heap_get h b"
  then show "cell_at dest h' a = Some v \<and> one_fp h' a = one_fp h a" by (simp add: one_fp_def cell_at_def)
next
  fix h a v
  assume "heap_ok h" and "cell_at dest h a = Some v"
  then show "one_fp h a \<subseteq> {..<hp_next h}" using cell_at_Some by (fastforce simp: one_fp_def heap_ok_def)
next
  fix h a v
  assume ok: "heap_ok h" and v: "cell_at dest h a = Some v"
  obtain b h' where n: "heap_new (mk v) h = (b, h')" by fastforce
  note new = heap_new_props [OF ok n]
  show "\<exists>b h'. fresh_copy dest mk a h = Some (b, h') \<and> extends h h' \<and> cell_at dest h' b = Some v
      \<and> one_fp h' b \<subseteq> {hp_next h..<hp_next h'}"
    using v n new dest by (intro exI [of _ b] exI [of _ h']) (simp add: fresh_copy_def cell_at_def one_fp_def)
qed

definition fresh_meta :: meta_api where
  "fresh_meta = \<lparr>ma_object = fresh_copy dest_Meta MetaCell, ma_list = fresh_copy dest_ListMeta ListMetaCell,
     ma_condition = (\<lambda>c h. Some (c, h))\<rparr>"

lemma fresh_meta_ok: "meta_ok fresh_meta"
  by (simp add: meta_ok_def fresh_meta_def copier_fresh)

definition stored_meta :: ObjectMeta where
  "stored_meta = \<lparr>om_Name = ''orders'', om_Namespace = ''shop'', om_UID = ''u1'', om_Generation = 2, om_CreationTimestamp = 7,
     om_DeletionTimestamp = None, om_Labels = [], om_Annotations = [], om_OwnerReferences = []\<rparr>"

definition stored_condition :: Condition where
  "stored_condition = \<lparr>cn_Type = ConditionAccepted, cn_Status = ''True'', cn_ObservedGeneration = 2, cn_LastTransitionTime = 9,
     cn_Reason = ReasonAccepted, cn_Message = []\<rparr>"

definition stored_status_obj :: status_obj where
  "stored_status_obj = \<lparr>to_ObservedGeneration = 2, to_Database = ''orders'', to_Endpoint = ''db:5432'', to_ConflictingRoute = [],
     to_Conditions = Some \<lparr>sc_array = 4, sc_len = 1\<rparr>\<rparr>"

definition stored_route_obj :: route_obj where
  "stored_route_obj = \<lparr>ro_TypeMeta = (''PostgresRoute'', ''v1alpha1''), ro_Meta = 0,
     ro_Spec = \<lparr>so_Database = ''orders'', so_TargetDatabase = [],
       so_Backend = \<lparr>bo_Type = BackendTypeService, bo_Service = Some 1, bo_Address = None\<rparr>, so_TLS = Some 3, so_Priority = 5\<rparr>,
     ro_Status = stored_status_obj\<rparr>"

definition stored_heap :: heap where
  "stored_heap = fold (\<lambda>c h. snd (heap_new c h))
     [MetaCell stored_meta, ServiceCell \<lparr>sb_Name = ''db'', sb_Namespace = [], sb_Port = intstr_FromInt32 5432\<rparr>,
      RefCell \<lparr>skr_Name = ''ca'', skr_Key = ''ca.crt''\<rparr>,
      TLSCell \<lparr>to_Mode = BackendTLSVerifyFull, to_CASecretRef = Some 2, to_ServerName = ''db''\<rparr>,
      ConditionsCell [stored_condition, stored_condition], RouteCell stored_route_obj, StatusCell stored_status_obj,
      ListMetaCell ''12'', RoutesCell [stored_route_obj, stored_route_obj],
      ListCell \<lparr>lo_TypeMeta = (''PostgresRouteList'', ''v1alpha1''), lo_ListMeta = 7, lo_Items = Some \<lparr>sc_array = 8, sc_len = 1\<rparr>\<rparr>]
     \<lparr>hp_cells = [], hp_next = 0\<rparr>"

definition stored_route :: PostgresRoute where
  "stored_route = \<lparr>pr_Meta = stored_meta,
     pr_Spec = \<lparr>prs_Database = ''orders'', prs_TargetDatabase = [],
       prs_Backend = \<lparr>be_Type = BackendTypeService,
         be_Service = Some \<lparr>sb_Name = ''db'', sb_Namespace = [], sb_Port = intstr_FromInt32 5432\<rparr>, be_Address = None\<rparr>,
       prs_TLS = Some \<lparr>bt_Mode = BackendTLSVerifyFull, bt_CASecretRef = Some \<lparr>skr_Name = ''ca'', skr_Key = ''ca.crt''\<rparr>,
         bt_ServerName = ''db''\<rparr>, prs_Priority = 5\<rparr>,
     pr_Status = \<lparr>st_ObservedGeneration = 2, st_Database = ''orders'', st_Endpoint = ''db:5432'', st_ConflictingRoute = [],
       st_Conditions = [stored_condition]\<rparr>\<rparr>"

lemma heap_ok_fold: "heap_ok h \<Longrightarrow> heap_ok (fold (\<lambda>c h. snd (heap_new c h)) cs h)"
proof (induction cs arbitrary: h)
  case (Cons c cs)
  have "heap_ok (snd (heap_new c h))"
    using heap_new_props(1) [OF Cons.prems, of c "fst (heap_new c h)" "snd (heap_new c h)"] by (simp add: extends_def)
  then show ?case using Cons.IH by simp
qed simp

lemma stored_heap_ok: "heap_ok stored_heap"
  unfolding stored_heap_def by (rule heap_ok_fold) (simp add: heap_ok_def heap_get_def)

lemmas stored_simps = ptr_rd_def slice_rd_def pair_rd_def flat_rd_def cell_at_def heap_get_def heap_new_def
  stored_heap_def stored_route_obj_def stored_status_obj_def stored_route_def
  rd_backend_def rd_tls_def rd_spec_def rd_status_def rd_route_def rd_list_def

lemma stored_reads:
  "ptr_rd dest_Route rd_route stored_heap (Some 5) = Some (Some ((''PostgresRoute'', ''v1alpha1''), False, stored_route))"
  "ptr_rd dest_Status rd_status stored_heap (Some 6) = Some (Some (False, pr_Status stored_route))"
  "ptr_rd dest_List rd_list stored_heap (Some 9) =
     Some (Some ((''PostgresRouteList'', ''v1alpha1''), ''12'', Some [((''PostgresRoute'', ''v1alpha1''), False, stored_route)]))"
  by (simp_all add: stored_simps)

theorem deep_copies_are_isolated_witness:
  "(\<exists>r' h'. PostgresRoute_DeepCopy fresh_meta (Some 5) stored_heap = Some (r', h')
      \<and> isolated (ptr_rd dest_Route rd_route) (ptr_fp dest_Route fp_route) h' (Some 5) r'
          (Some ((''PostgresRoute'', ''v1alpha1''), False, stored_route)))
   \<and> (\<exists>l' h'. PostgresRouteList_DeepCopy fresh_meta (Some 9) stored_heap = Some (l', h'))"
  using deep_copies_are_isolated [OF fresh_meta_ok stored_heap_ok stored_reads(1,3,2)] by blast

end
