(* ===== verification/Runtime_Config.thy ===== *)
theory Runtime_Config
  imports Server_State
begin

text \<open>
  The runtime configuration (\<^verbatim>\<open>src/src/internal/config/config.go\<close> and
  \<^verbatim>\<open>env.go\<close>): roles, defaults, validation, and the deprecated environment variables.
  Parsing a label selector is outside the program: \<open>labelsParse\<close> and \<open>selectorEmpty\<close> are
  parameters, as are the environment and the namespace file.
\<close>

section \<open>Definitions\<close>

definition RoleAll :: go_string where "RoleAll = ''all''"
definition RoleManager :: go_string where "RoleManager = ''manager''"
definition RoleProxy :: go_string where "RoleProxy = ''proxy''"

definition RunsProxy :: "go_string \<Rightarrow> bool" where
  "RunsProxy r \<longleftrightarrow> r = RoleAll \<or> r = RoleProxy"

definition RunsManager :: "go_string \<Rightarrow> bool" where
  "RunsManager r \<longleftrightarrow> r = RoleAll \<or> r = RoleManager"

definition TLSDisable :: go_string where "TLSDisable = ''disable''"
definition TLSAllow :: go_string where "TLSAllow = ''allow''"
definition TLSRequire :: go_string where "TLSRequire = ''require''"

type_synonym selector = "(go_string, go_string) gomap \<Rightarrow> bool"

record ProxyConfig =
  pc_BindAddress :: go_string
  pc_MaxConnections :: int
  pc_StartupTimeout :: Duration
  pc_DialTimeout :: Duration
  pc_ShutdownGracePeriod :: Duration
  pc_KeepAlivePeriod :: Duration
  pc_TLSMode :: go_string
  pc_TLSCertFile :: go_string
  pc_TLSKeyFile :: go_string
  pc_TLSClientCAFile :: go_string

record WatchConfig =
  wc_Namespaces :: "go_string list"
  wc_ClusterDomain :: go_string
  wc_WatchSecrets :: bool

definition ClusterScoped :: "WatchConfig \<Rightarrow> bool" where
  "ClusterScoped w \<longleftrightarrow> length (wc_Namespaces w) = 0"

record DiscoveryConfig =
  dcf_Enabled :: bool
  dcf_LabelSelector :: go_string
  dcf_DatabaseAnnotation :: go_string
  dcf_selector :: "selector option"

record LeaderConfig =
  lc_Enabled :: bool
  lc_ID :: go_string
  lc_Namespace :: go_string
  lc_LeaseDuration :: Duration
  lc_RenewDeadline :: Duration
  lc_RetryPeriod :: Duration

record RuntimeConfig =
  rc_Role :: go_string
  rc_Proxy :: ProxyConfig
  rc_Watch :: WatchConfig
  rc_Discovery :: DiscoveryConfig
  rc_Leader :: LeaderConfig
  rc_HealthBindAddress :: go_string
  rc_MetricsBindAddress :: go_string
  rc_LogLevel :: go_string
  rc_LogFormat :: go_string

definition Default :: RuntimeConfig where
  "Default =
     \<lparr>rc_Role = RoleAll,
      rc_Proxy = \<lparr>pc_BindAddress = '':5432'', pc_MaxConnections = 0,
        pc_StartupTimeout = 30 * time_Second, pc_DialTimeout = 5 * time_Second,
        pc_ShutdownGracePeriod = 30 * time_Second, pc_KeepAlivePeriod = 30 * time_Second,
        pc_TLSMode = TLSDisable, pc_TLSCertFile = [], pc_TLSKeyFile = [], pc_TLSClientCAFile = []\<rparr>,
      rc_Watch = \<lparr>wc_Namespaces = [], wc_ClusterDomain = ''cluster.local'', wc_WatchSecrets = False\<rparr>,
      rc_Discovery = \<lparr>dcf_Enabled = True, dcf_LabelSelector = ''app.kubernetes.io/name=postgresql'',
        dcf_DatabaseAnnotation = ''pgproxy.io/database-name'', dcf_selector = None\<rparr>,
      rc_Leader = \<lparr>lc_Enabled = True, lc_ID = ''pg-k8s-proxy.pgproxy.io'', lc_Namespace = [],
        lc_LeaseDuration = 15 * time_Second, lc_RenewDeadline = 10 * time_Second,
        lc_RetryPeriod = 2 * time_Second\<rparr>,
      rc_HealthBindAddress = '':8080'', rc_MetricsBindAddress = '':9090'',
      rc_LogLevel = ''info'', rc_LogFormat = ''json''\<rparr>"

text \<open>
  \<^verbatim>\<open>strings.TrimSpace\<close>: the white space of Unicode (\<^verbatim>\<open>unicode.IsSpace\<close>) in UTF-8, taken off
  the front and then off the back. No encoding of a rune is a proper suffix of another's bytes
  with a start byte of its own, so decoding the last rune is matching at the end.
\<close>

definition white_space :: "go_string list" where
  "white_space =
     [[CHR '' ''], [CHR 0x09], [CHR 0x0A], [CHR 0x0B], [CHR 0x0C], [CHR 0x0D],
      [CHR 0xC2, CHR 0x85], [CHR 0xC2, CHR 0xA0], [CHR 0xE1, CHR 0x9A, CHR 0x80]]
     @ map (\<lambda>i. [CHR 0xE2, CHR 0x80, char_of (128 + i)]) ([0..<11] @ [40, 41, 47 :: nat])
     @ [[CHR 0xE2, CHR 0x81, CHR 0x9F], [CHR 0xE3, CHR 0x80, CHR 0x80]]"

function trimFront :: "go_string list \<Rightarrow> go_string \<Rightarrow> go_string" where
  "trimFront ws s =
     (case find (\<lambda>w. w \<noteq> [] \<and> take (length w) s = w) ws of
        None \<Rightarrow> s
      | Some w \<Rightarrow> trimFront ws (drop (length w) s))"
  by auto

termination
proof (relation "measure (length \<circ> snd)", goal_cases)
  case (2 ws s w)
  then show ?case by (cases s) (auto simp: find_Some_iff)
qed simp

definition strings_TrimSpace :: "go_string \<Rightarrow> go_string" where
  "strings_TrimSpace s =
     rev (trimFront (map rev white_space) (rev (trimFront white_space s)))"

definition currentNamespace :: "go_error + bytes \<Rightarrow> (go_string \<Rightarrow> go_string option) \<Rightarrow> go_string" where
  "currentNamespace tokenNamespace env =
     (let fallback = (case env ''POD_NAMESPACE'' of None \<Rightarrow> [] | Some v \<Rightarrow> v) in
      case tokenNamespace of
        Inl err \<Rightarrow> fallback
      | Inr data \<Rightarrow>
          (let ns = strings_TrimSpace data in if ns \<noteq> [] then ns else fallback))"

text \<open>The loop that trims the namespace list.\<close>

fun trimNamespaces :: "go_string list \<Rightarrow> go_string list" where
  "trimNamespaces [] = []"
| "trimNamespaces (ns # rest) =
     (let trimmed = strings_TrimSpace ns
      in if trimmed \<noteq> [] then trimmed # trimNamespaces rest else trimNamespaces rest)"

text \<open>The parts of \<open>Validate\<close>, each returning its error or the configuration it leaves.\<close>

definition validateProxy :: "RuntimeConfig \<Rightarrow> go_error + RuntimeConfig" where
  "validateProxy c =
     (let p = rc_Proxy c; mode = pc_TLSMode p in
      if \<not> (rc_Role c = RoleAll \<or> rc_Role c = RoleManager \<or> rc_Role c = RoleProxy) then
        Inl (ErrorString (''--role must be all, manager, or proxy, got '' @ quote_text (rc_Role c)))
      else if (mode = TLSAllow \<or> mode = TLSRequire) \<and> (pc_TLSCertFile p = [] \<or> pc_TLSKeyFile p = []) then
        Inl (ErrorString (''--proxy-tls-mode='' @ mode
          @ '' needs both --proxy-tls-cert-file and --proxy-tls-key-file''))
      else if \<not> (mode = TLSDisable \<or> mode = TLSAllow \<or> mode = TLSRequire) then
        Inl (ErrorString (''--proxy-tls-mode must be disable, allow, or require, got '' @ quote_text mode))
      else if pc_MaxConnections p < 0 then
        Inl (ErrorString (''--proxy-max-connections must not be negative, got '' @ int_text (pc_MaxConnections p)))
      else if wc_ClusterDomain (rc_Watch c) = [] then
        Inl (ErrorString ''--cluster-domain must not be empty'')
      else Inr c)"

definition validateDiscovery ::
    "(go_string \<Rightarrow> go_error + selector) \<Rightarrow> (selector \<Rightarrow> bool) \<Rightarrow> RuntimeConfig \<Rightarrow> go_error + RuntimeConfig" where
  "validateDiscovery labelsParse selectorEmpty c =
     (let d = rc_Discovery c in
      if \<not> dcf_Enabled d then Inr c
      else if \<not> RunsManager (rc_Role c) then Inr (c\<lparr>rc_Discovery := d\<lparr>dcf_Enabled := False\<rparr>\<rparr>)
      else case labelsParse (dcf_LabelSelector d) of
        Inl err \<Rightarrow>
          Inl (wrapf (''--service-discovery-selector '' @ quote_text (dcf_LabelSelector d)) err)
      | Inr sel \<Rightarrow>
          if selectorEmpty sel then
            Inl (ErrorString (''--service-discovery-selector must not be empty when service discovery is enabled; ''
              @ ''an empty selector would adopt every Service in scope''))
          else Inr (c\<lparr>rc_Discovery := d\<lparr>dcf_selector := Some sel\<rparr>\<rparr>))"

definition validateRest :: "go_string \<Rightarrow> RuntimeConfig \<Rightarrow> go_error + RuntimeConfig" where
  "validateRest ownNamespace c =
     (let l = rc_Leader c;
          l = (if lc_Enabled l \<and> \<not> RunsManager (rc_Role c) then l\<lparr>lc_Enabled := False\<rparr> else l);
          l = (if lc_Namespace l = [] then l\<lparr>lc_Namespace := ownNamespace\<rparr> else l);
          c = c\<lparr>rc_Leader := l\<rparr>
      in if rc_LogLevel c \<notin> {''debug'', ''info'', ''warn'', ''error''} then
           Inl (ErrorString (''--log-level must be debug, info, warn, or error, got '' @ quote_text (rc_LogLevel c)))
         else if rc_LogFormat c \<notin> {''json'', ''text''} then
           Inl (ErrorString (''--log-format must be json or text, got '' @ quote_text (rc_LogFormat c)))
         else Inr (c\<lparr>rc_Watch := (rc_Watch c)\<lparr>wc_Namespaces := trimNamespaces (wc_Namespaces (rc_Watch c))\<rparr>\<rparr>))"

definition Validate ::
    "(go_string \<Rightarrow> go_error + selector) \<Rightarrow> (selector \<Rightarrow> bool) \<Rightarrow> go_string \<Rightarrow> RuntimeConfig
     \<Rightarrow> go_error + RuntimeConfig" where
  "Validate labelsParse selectorEmpty ownNamespace c =
     (case validateProxy c of
        Inl err \<Rightarrow> Inl err
      | Inr c \<Rightarrow>
         (case validateDiscovery labelsParse selectorEmpty c of
            Inl err \<Rightarrow> Inl err
          | Inr c \<Rightarrow> validateRest ownNamespace c))"

text \<open>\<open>strings.Split(raw, ",")\<close>.\<close>

fun splitComma :: "go_string \<Rightarrow> go_string list" where
  "splitComma [] = [[]]"
| "splitComma (c # cs) =
     (case splitComma cs of
        [] \<Rightarrow> [[c]]
      | w # ws \<Rightarrow> if c = CHR '','' then [] # w # ws else (c # w) # ws)"

text \<open>The closure \<open>setPort\<close>: the warnings it adds and the new value of its target.\<close>

definition setPort ::
    "(go_string \<Rightarrow> bool) \<Rightarrow> (go_string \<Rightarrow> go_string option) \<Rightarrow> go_string \<Rightarrow> go_string \<Rightarrow> go_string
     \<Rightarrow> go_string list \<times> go_string" where
  "setPort explicitlySet lookupEnv env flag target =
     (if explicitlySet flag then ([], target)
      else case lookupEnv env of
        None \<Rightarrow> ([], target)
      | Some raw \<Rightarrow>
          if raw = [] then ([], target)
          else if parse_int 64 raw = None
          then ([''ignoring '' @ env @ ''='' @ quote_text raw @ '': not a port number''], target)
          else ([env @ '' is deprecated, use --'' @ flag], net_JoinHostPort [] raw))"

definition ApplyEnvironment ::
    "(go_string \<Rightarrow> bool) \<Rightarrow> (go_string \<Rightarrow> go_string option) \<Rightarrow> RuntimeConfig \<Rightarrow> go_string list \<times> RuntimeConfig" where
  "ApplyEnvironment explicitlySet lookupEnv c =
     (let (w1, bind) = setPort explicitlySet lookupEnv ''POSTGRES_PORT'' ''proxy-bind-address''
            (pc_BindAddress (rc_Proxy c));
          c = c\<lparr>rc_Proxy := (rc_Proxy c)\<lparr>pc_BindAddress := bind\<rparr>\<rparr>;
          (w2, health) = setPort explicitlySet lookupEnv ''HEALTH_PORT'' ''health-bind-address''
            (rc_HealthBindAddress c);
          c = c\<lparr>rc_HealthBindAddress := health\<rparr>;
          (w3, c) = (case lookupEnv ''LABEL_SELECTOR'' of
              None \<Rightarrow> ([], c)
            | Some raw \<Rightarrow>
                if raw \<noteq> [] \<and> \<not> explicitlySet ''service-discovery-selector''
                then ([''LABEL_SELECTOR is deprecated, use --service-discovery-selector''],
                      c\<lparr>rc_Discovery := (rc_Discovery c)\<lparr>dcf_LabelSelector := raw\<rparr>\<rparr>)
                else ([], c));
          (w4, c) = (case lookupEnv ''KUBERNETES_NAMESPACE'' of
              None \<Rightarrow> ([], c)
            | Some raw \<Rightarrow>
                if raw \<noteq> [] \<and> \<not> explicitlySet ''watch-namespaces''
                then ([''KUBERNETES_NAMESPACE is deprecated, use --watch-namespaces''],
                      c\<lparr>rc_Watch := (rc_Watch c)\<lparr>wc_Namespaces := splitComma raw\<rparr>\<rparr>)
                else ([], c));
          w5 = (if lookupEnv ''POLL_INTERVAL'' \<noteq> None
                then [''POLL_INTERVAL is ignored: the gateway now watches the API server instead of polling it'']
                else [])
      in (w1 @ w2 @ w3 @ w4 @ w5, c))"

section \<open>Lemmas\<close>

declare trimFront.simps [simp del]

text \<open>What is left starts with no white space, and is the end of what there was.\<close>

lemma trimFront_fix_iff:
  "trimFront ws s = s \<longleftrightarrow> (\<forall>w\<in>set ws. w \<noteq> [] \<longrightarrow> take (length w) s \<noteq> w)"
proof
  assume "\<forall>w\<in>set ws. w \<noteq> [] \<longrightarrow> take (length w) s \<noteq> w"
  then have "find (\<lambda>w. w \<noteq> [] \<and> take (length w) s = w) ws = None"
    by (auto simp: find_None_iff)
  then show "trimFront ws s = s" by (subst trimFront.simps) simp
next
  have shorter: "length (trimFront ws s) \<le> length s" for s
    by (induction ws s rule: trimFront.induct) (subst trimFront.simps, fastforce split: option.split)
  assume fix_s: "trimFront ws s = s"
  have "find (\<lambda>w. w \<noteq> [] \<and> take (length w) s = w) ws = None"
  proof (rule ccontr)
    assume "\<not> ?thesis"
    then obtain w where w: "find (\<lambda>w. w \<noteq> [] \<and> take (length w) s = w) ws = Some w" by blast
    then have "w \<noteq> []" "take (length w) s = w" by (auto simp: find_Some_iff)
    then have "length (drop (length w) s) < length s" by (cases s) auto
    moreover have "trimFront ws s = trimFront ws (drop (length w) s)"
      by (subst trimFront.simps) (simp add: w)
    ultimately show False using fix_s shorter [of "drop (length w) s"] by simp
  qed
  then show "\<forall>w\<in>set ws. w \<noteq> [] \<longrightarrow> take (length w) s \<noteq> w"
    by (auto simp: find_None_iff)
qed

lemma trimFront_trimmed [simp]: "trimFront ws (trimFront ws s) = trimFront ws s"
proof (induction ws s rule: trimFront.induct)
  case (1 ws s)
  show ?case
  proof (cases "find (\<lambda>w. w \<noteq> [] \<and> take (length w) s = w) ws")
    case None
    then have "trimFront ws s = s" by (subst trimFront.simps) simp
    then show ?thesis by simp
  next
    case (Some w)
    then have "trimFront ws s = trimFront ws (drop (length w) s)" by (subst trimFront.simps) simp
    with "1.IH" [OF Some] show ?thesis by simp
  qed
qed

lemma trimFront_suffix: "\<exists>pre. s = pre @ trimFront ws s"
proof (induction ws s rule: trimFront.induct)
  case (1 ws s)
  show ?case
  proof (cases "find (\<lambda>w. w \<noteq> [] \<and> take (length w) s = w) ws")
    case None
    then have "trimFront ws s = s" by (subst trimFront.simps) simp
    then show ?thesis by simp
  next
    case (Some w)
    then have eq: "trimFront ws s = trimFront ws (drop (length w) s)" by (subst trimFront.simps) simp
    from "1.IH" [OF Some] obtain pre where "drop (length w) s = pre @ trimFront ws s" by (auto simp: eq)
    then have "s = (take (length w) s @ pre) @ trimFront ws s" by (metis append_assoc append_take_drop_id)
    then show ?thesis by blast
  qed
qed

lemma trim_idem [simp]: "strings_TrimSpace (strings_TrimSpace s) = strings_TrimSpace s"
proof -
  let ?t = "trimFront white_space s"
  obtain pre where "rev ?t = pre @ rev (strings_TrimSpace s)"
    using trimFront_suffix [of "rev ?t"] by (auto simp: strings_TrimSpace_def)
  then have t: "?t = strings_TrimSpace s @ rev pre" by (metis rev_append rev_rev_ident)
  have "\<forall>w\<in>set white_space. w \<noteq> [] \<longrightarrow> take (length w) ?t \<noteq> w"
    using trimFront_fix_iff [of white_space ?t] by simp
  moreover have "take (length w) ?t = w" if "take (length w) (strings_TrimSpace s) = w" for w
    using that by (subst t) (metis append_eq_conv_conj append_take_drop_id append_assoc)
  ultimately have "trimFront white_space (strings_TrimSpace s) = strings_TrimSpace s"
    unfolding trimFront_fix_iff by blast
  then show ?thesis by (simp add: strings_TrimSpace_def)
qed

lemma trimNamespaces_spec:
  "trimNamespaces ns = filter (\<lambda>x. x \<noteq> []) (map strings_TrimSpace ns)"
  by (induction ns) (auto simp: Let_def)

lemma trimNamespaces_idem [simp]: "trimNamespaces (trimNamespaces ns) = trimNamespaces ns"
  by (simp add: trimNamespaces_spec filter_map o_def map_idI)

lemmas validate_defs = Validate_def validateProxy_def validateDiscovery_def validateRest_def Let_def

lemma Validate_InrD:
  assumes "Validate lp se ns c = Inr c'"
  obtains c1 where "validateProxy c = Inr c" "validateDiscovery lp se c = Inr c1" "validateRest ns c1 = Inr c'"
  using assms by (auto simp: Validate_def validateProxy_def Let_def split: sum.splits if_splits)

lemma validateDiscovery_InrD:
  assumes "validateDiscovery lp se c = Inr c1"
  shows "c1 = c\<lparr>rc_Discovery := rc_Discovery c1\<rparr>"
    and "dcf_LabelSelector (rc_Discovery c1) = dcf_LabelSelector (rc_Discovery c)"
    and "dcf_Enabled (rc_Discovery c1) \<longrightarrow> RunsManager (rc_Role c)"
    and "dcf_Enabled (rc_Discovery c1) \<longrightarrow> (\<exists>sel. lp (dcf_LabelSelector (rc_Discovery c1)) = Inr sel
      \<and> dcf_selector (rc_Discovery c1) = Some sel \<and> \<not> se sel)"
  using assms by (auto simp: validateDiscovery_def Let_def split: if_splits sum.splits)

lemma validateDiscovery_stable:
  assumes "dcf_Enabled (rc_Discovery c) \<longrightarrow> RunsManager (rc_Role c) \<and> (\<exists>sel.
      lp (dcf_LabelSelector (rc_Discovery c)) = Inr sel \<and> dcf_selector (rc_Discovery c) = Some sel \<and> \<not> se sel)"
  shows "validateDiscovery lp se c = Inr c"
  using assms by (auto simp: validateDiscovery_def Let_def)

lemma validateRest_InrD:
  assumes "validateRest ns c = Inr c'"
  shows "c' = c\<lparr>rc_Leader := rc_Leader c', rc_Watch := rc_Watch c'\<rparr>"
    and "lc_Enabled (rc_Leader c') \<longrightarrow> RunsManager (rc_Role c)"
    and "lc_Namespace (rc_Leader c') \<noteq> [] \<or> ns = []"
    and "rc_Watch c' = (rc_Watch c)\<lparr>wc_Namespaces := trimNamespaces (wc_Namespaces (rc_Watch c))\<rparr>"
    and "rc_LogLevel c' \<in> {''debug'', ''info'', ''warn'', ''error''}" and "rc_LogFormat c' \<in> {''json'', ''text''}"
  using assms by (auto simp: validateRest_def Let_def split: if_splits)

lemma validateRest_stable:
  assumes "lc_Enabled (rc_Leader c) \<longrightarrow> RunsManager (rc_Role c)"
    and "lc_Namespace (rc_Leader c) \<noteq> [] \<or> ns = []"
    and "trimNamespaces (wc_Namespaces (rc_Watch c)) = wc_Namespaces (rc_Watch c)"
    and "rc_LogLevel c \<in> {''debug'', ''info'', ''warn'', ''error''}" and "rc_LogFormat c \<in> {''json'', ''text''}"
  shows "validateRest ns c = Inr c"
  using assms by (auto simp: validateRest_def Let_def)

section \<open>Properties\<close>

text \<open>A configuration that passes validation is coherent and stays so. The role is one of the
  three and the gateway's TLS mode one of its three, with a certificate and key unless it is
  disabled; discovery is on only in a manager, with the selector its text parses to, which is
  not empty; leader election is on only in a manager; the namespaces are the trimmed
  non-blank entries, so a list of blanks means cluster scope; and validating the result
  again changes nothing.\<close>

lemma validate_normalises:
  assumes "Validate labelsParse selectorEmpty ownNamespace c = Inr c'"
  shows "rc_Role c' \<in> {RoleAll, RoleManager, RoleProxy}
    \<and> pc_TLSMode (rc_Proxy c') \<in> {TLSDisable, TLSAllow, TLSRequire}
    \<and> (pc_TLSMode (rc_Proxy c') \<noteq> TLSDisable \<longrightarrow>
         pc_TLSCertFile (rc_Proxy c') \<noteq> [] \<and> pc_TLSKeyFile (rc_Proxy c') \<noteq> [])
    \<and> 0 \<le> pc_MaxConnections (rc_Proxy c') \<and> wc_ClusterDomain (rc_Watch c') \<noteq> []
    \<and> (dcf_Enabled (rc_Discovery c') \<longrightarrow> RunsManager (rc_Role c')
         \<and> (\<exists>sel. labelsParse (dcf_LabelSelector (rc_Discovery c')) = Inr sel
              \<and> dcf_selector (rc_Discovery c') = Some sel \<and> \<not> selectorEmpty sel))
    \<and> (lc_Enabled (rc_Leader c') \<longrightarrow> RunsManager (rc_Role c'))
    \<and> wc_Namespaces (rc_Watch c') = filter (\<lambda>x. x \<noteq> []) (map strings_TrimSpace (wc_Namespaces (rc_Watch c)))
    \<and> Validate labelsParse selectorEmpty ownNamespace c' = Inr c'"
proof -
  obtain c1 where v: "validateProxy c = Inr c" "validateDiscovery labelsParse selectorEmpty c = Inr c1"
    "validateRest ownNamespace c1 = Inr c'"
    using assms by (rule Validate_InrD)
  note d = validateDiscovery_InrD [OF v(2)]
  note l = validateRest_InrD [OF v(3)]
  have p: "rc_Role c \<in> {RoleAll, RoleManager, RoleProxy}
      \<and> pc_TLSMode (rc_Proxy c) \<in> {TLSDisable, TLSAllow, TLSRequire}
      \<and> (pc_TLSMode (rc_Proxy c) \<noteq> TLSDisable \<longrightarrow> pc_TLSCertFile (rc_Proxy c) \<noteq> [] \<and> pc_TLSKeyFile (rc_Proxy c) \<noteq> [])
      \<and> 0 \<le> pc_MaxConnections (rc_Proxy c) \<and> wc_ClusterDomain (rc_Watch c) \<noteq> []"
    using v(1) by (auto simp: validateProxy_def Let_def split: if_splits)
  have same: "rc_Role c' = rc_Role c" "rc_Proxy c' = rc_Proxy c" "rc_Discovery c' = rc_Discovery c1"
    by (subst l(1), subst d(1), simp)+
  have watch: "rc_Watch c1 = rc_Watch c" "rc_Role c1 = rc_Role c" by (subst d(1), simp)+
  have "validateProxy c' = Inr c'"
    using p by (auto simp: validateProxy_def Let_def same l(4) watch TLSDisable_def TLSAllow_def TLSRequire_def)
  moreover have "validateDiscovery labelsParse selectorEmpty c' = Inr c'"
    using d(3,4) by (intro validateDiscovery_stable) (simp add: same)
  moreover have "validateRest ownNamespace c' = Inr c'"
    using l watch by (intro validateRest_stable) (simp_all add: same)
  ultimately have "Validate labelsParse selectorEmpty ownNamespace c' = Inr c'"
    by (simp add: Validate_def)
  then show ?thesis
    using p d(3,4) l(2) watch by (simp add: same l(4) trimNamespaces_spec)
qed

text \<open>Flags always win over the environment. Each of the four settings the deprecated variables
  can change keeps its value when its flag was given, whatever the environment holds; the
  environment touches nothing else; and with none of the variables set it changes nothing
  and warns of nothing.\<close>

lemma explicit_flags_win:
  "(let c' = snd (ApplyEnvironment explicitlySet env c) in
      (explicitlySet ''proxy-bind-address'' \<longrightarrow> rc_Proxy c' = rc_Proxy c)
      \<and> (explicitlySet ''health-bind-address'' \<longrightarrow> rc_HealthBindAddress c' = rc_HealthBindAddress c)
      \<and> (explicitlySet ''service-discovery-selector'' \<longrightarrow> rc_Discovery c' = rc_Discovery c)
      \<and> (explicitlySet ''watch-namespaces'' \<longrightarrow> rc_Watch c' = rc_Watch c)
      \<and> (\<exists>bind health sel ns. c' = c\<lparr>rc_Proxy := (rc_Proxy c)\<lparr>pc_BindAddress := bind\<rparr>,
           rc_HealthBindAddress := health, rc_Discovery := (rc_Discovery c)\<lparr>dcf_LabelSelector := sel\<rparr>,
           rc_Watch := (rc_Watch c)\<lparr>wc_Namespaces := ns\<rparr>\<rparr>))
   \<and> ApplyEnvironment explicitlySet (\<lambda>_. None) c = ([], c)"
proof -
  define sel where "sel = (case env ''LABEL_SELECTOR'' of None \<Rightarrow> dcf_LabelSelector (rc_Discovery c)
    | Some raw \<Rightarrow> if raw \<noteq> [] \<and> \<not> explicitlySet ''service-discovery-selector'' then raw
        else dcf_LabelSelector (rc_Discovery c))"
  define ns where "ns = (case env ''KUBERNETES_NAMESPACE'' of None \<Rightarrow> wc_Namespaces (rc_Watch c)
    | Some raw \<Rightarrow> if raw \<noteq> [] \<and> \<not> explicitlySet ''watch-namespaces'' then splitComma raw
        else wc_Namespaces (rc_Watch c))"
  obtain w1 b where b: "setPort explicitlySet env ''POSTGRES_PORT'' ''proxy-bind-address'' (pc_BindAddress (rc_Proxy c)) = (w1, b)"
    by fastforce
  obtain w2 h where h: "setPort explicitlySet env ''HEALTH_PORT'' ''health-bind-address'' (rc_HealthBindAddress c) = (w2, h)"
    by fastforce
  have c': "snd (ApplyEnvironment explicitlySet env c) = c\<lparr>rc_Proxy := (rc_Proxy c)\<lparr>pc_BindAddress := b\<rparr>,
      rc_HealthBindAddress := h, rc_Discovery := (rc_Discovery c)\<lparr>dcf_LabelSelector := sel\<rparr>,
      rc_Watch := (rc_Watch c)\<lparr>wc_Namespaces := ns\<rparr>\<rparr>"
    using b h unfolding ApplyEnvironment_def sel_def ns_def
    by (cases "env ''LABEL_SELECTOR''"; cases "env ''KUBERNETES_NAMESPACE''") (simp_all add: split_beta)
  have "explicitlySet ''proxy-bind-address'' \<Longrightarrow> b = pc_BindAddress (rc_Proxy c)"
    "explicitlySet ''health-bind-address'' \<Longrightarrow> h = rc_HealthBindAddress c"
    "explicitlySet ''service-discovery-selector'' \<Longrightarrow> sel = dcf_LabelSelector (rc_Discovery c)"
    "explicitlySet ''watch-namespaces'' \<Longrightarrow> ns = wc_Namespaces (rc_Watch c)"
    using b h by (auto simp: setPort_def sel_def ns_def split: option.splits)
  moreover have "ApplyEnvironment explicitlySet (\<lambda>_. None) c = ([], c)"
    by (simp add: ApplyEnvironment_def setPort_def)
  ultimately show ?thesis unfolding c' Let_def by auto
qed

section \<open>Witnesses\<close>

lemma default_validates:
  "\<exists>c. Validate (\<lambda>_. Inr (\<lambda>_. True)) (\<lambda>_. False) ''pgproxy'' Default = Inr c \<and> rc_Proxy c = rc_Proxy Default"
  by (simp add: validate_defs Default_def RoleAll_def RunsManager_def TLSDisable_def TLSAllow_def TLSRequire_def)

end
