(* ===== verification/Wiring.thy ===== *)
theory Wiring
  imports Runtime_Config Route_Table Resolver
begin

text \<open>
  How the process is put together (\<^verbatim>\<open>src/src/cmd/pg-k8s-proxy/run.go\<close>) and its probe
  endpoints (\<^verbatim>\<open>src/src/internal/health/server.go\<close>). Loading key pairs and files is
  outside the program and a parameter; the manager that runs the components is not modelled.
\<close>

section \<open>Definitions\<close>

text \<open>The files and certificates \<open>buildServerTLS\<close> reads.\<close>

record tls_files =
  tf_keyPair :: "go_string \<Rightarrow> go_string \<Rightarrow> go_error + tlsServerConfig"
  tf_readFile :: "go_string \<Rightarrow> go_error + bytes"
  tf_pemCerts :: "bytes \<Rightarrow> CertPool"
  tf_withClientCAs :: "tlsServerConfig \<Rightarrow> CertPool \<Rightarrow> tlsServerConfig"

definition buildServerTLS :: "tls_files \<Rightarrow> ProxyConfig \<Rightarrow> go_error + ServerTLS option" where
  "buildServerTLS files cfg =
     (if pc_TLSMode cfg = TLSDisable then Inr None
      else case tf_keyPair files (pc_TLSCertFile cfg) (pc_TLSKeyFile cfg) of
        Inl err \<Rightarrow> Inl (wrapf ''loading the client-facing TLS keypair'' err)
      | Inr tlsConfig \<Rightarrow>
         (let required = (pc_TLSMode cfg = TLSRequire) in
          if pc_TLSClientCAFile cfg \<noteq> [] then
            (case tf_readFile files (pc_TLSClientCAFile cfg) of
               Inl err \<Rightarrow> Inl (wrapf ''reading the client CA bundle'' err)
             | Inr pem \<Rightarrow>
                 if tf_pemCerts files pem = [] then
                   Inl (ErrorString (''client CA bundle '' @ pc_TLSClientCAFile cfg @ '' holds no PEM certificates''))
                 else Inr (Some \<lparr>stls_Config = Some (tf_withClientCAs files tlsConfig (tf_pemCerts files pem)),
                                 stls_Required = required\<rparr>))
          else Inr (Some \<lparr>stls_Config = Some tlsConfig, stls_Required = required\<rparr>)))"

definition newGateway :: "tls_files \<Rightarrow> RuntimeConfig \<Rightarrow> Store \<Rightarrow> go_error + Server" where
  "newGateway files cfg store =
     (case buildServerTLS files (rc_Proxy cfg) of
        Inl err \<Rightarrow> Inl err
      | Inr serverTLS \<Rightarrow>
          New \<lparr>cfg_ListenAddress = pc_BindAddress (rc_Proxy cfg), cfg_Routes = Some store,
               cfg_TLS = serverTLS, cfg_MaxConnections = pc_MaxConnections (rc_Proxy cfg),
               cfg_StartupTimeout = pc_StartupTimeout (rc_Proxy cfg),
               cfg_DialTimeout = pc_DialTimeout (rc_Proxy cfg),
               cfg_ShutdownGracePeriod = pc_ShutdownGracePeriod (rc_Proxy cfg),
               cfg_KeepAlivePeriod = pc_KeepAlivePeriod (rc_Proxy cfg)\<rparr>)"

definition readinessCheck :: "Server option \<Rightarrow> go_error option" where
  "readinessCheck gateway =
     (case gateway of
        Some s \<Rightarrow> if \<not> Listening s then Some (ErrorString ''the gateway is not accepting connections yet'') else None
      | None \<Rightarrow> None)"

text \<open>
  The cache's scope: which label a cached Secret must carry, and the namespaces, \<open>None\<close> for
  the whole cluster. A repeated namespace is one key of the map.
\<close>

record cache_options =
  co_secretLabel :: "go_string \<times> go_string"
  co_namespaces :: "(go_string, unit) gomap option"

definition cacheOptions :: "RuntimeConfig \<Rightarrow> cache_options" where
  "cacheOptions cfg =
     \<lparr>co_secretLabel = (CABundleLabel, ''true''),
      co_namespaces = (if \<not> ClusterScoped (rc_Watch cfg)
        then Some (fold (\<lambda>ns m. gomap_set m ns ()) (wc_Namespaces (rc_Watch cfg)) []) else None)\<rparr>"

text \<open>The probe server: its checks, and what a request is answered with.\<close>

record probe_config =
  hc_Live :: "unit \<Rightarrow> go_error option"
  hc_Ready :: "unit \<Rightarrow> go_error option"
  hc_RouteCount :: "unit \<Rightarrow> nat"

record probe_reply =
  rp_code :: nat
  rp_routes :: nat
  rp_status :: go_string
  rp_error :: "go_string option"

text \<open>\<open>New\<close> replaces a nil check by one that always succeeds.\<close>

definition health_New ::
    "(unit \<Rightarrow> go_error option) option \<Rightarrow> (unit \<Rightarrow> go_error option) option \<Rightarrow> (unit \<Rightarrow> nat) option \<Rightarrow> probe_config" where
  "health_New live ready routeCount =
     \<lparr>hc_Live = (case live of None \<Rightarrow> (\<lambda>_. None) | Some f \<Rightarrow> f),
      hc_Ready = (case ready of None \<Rightarrow> (\<lambda>_. None) | Some f \<Rightarrow> f),
      hc_RouteCount = (case routeCount of None \<Rightarrow> (\<lambda>_. 0) | Some f \<Rightarrow> f)\<rparr>"

definition health_handle :: "probe_config \<Rightarrow> (unit \<Rightarrow> go_error option) \<Rightarrow> probe_reply" where
  "health_handle cfg check =
     (let routes = hc_RouteCount cfg () in
      case check () of
        Some err \<Rightarrow> \<lparr>rp_code = 503, rp_routes = routes, rp_status = ''unhealthy'', rp_error = Some (error_text err)\<rparr>
      | None \<Rightarrow> \<lparr>rp_code = 200, rp_routes = routes, rp_status = ''ok'', rp_error = None\<rparr>)"

text \<open>The registered GET patterns; \<open>None\<close> is the mux's own not-found answer.\<close>

definition health_mux :: "probe_config \<Rightarrow> go_string \<Rightarrow> probe_reply option" where
  "health_mux cfg path =
     (if path = ''/healthz'' \<or> path = ''/health'' then Some (health_handle cfg (hc_Live cfg))
      else if path = ''/readyz'' \<or> path = ''/ready'' then Some (health_handle cfg (hc_Ready cfg))
      else None)"

text \<open>The probes \<open>run\<close> registers.\<close>

definition runProbes :: "Server option \<Rightarrow> Store \<Rightarrow> probe_config" where
  "runProbes gateway store =
     health_New (Some (\<lambda>_. None)) (Some (\<lambda>_. readinessCheck gateway))
       (Some (\<lambda>_. case Store_Routes store of Some t \<Rightarrow> Table_Len t | None \<Rightarrow> 0))"

definition scopeDescription :: "RuntimeConfig \<Rightarrow> (go_string list \<Rightarrow> go_string) \<Rightarrow> go_string" where
  "scopeDescription cfg render =
     (if ClusterScoped (rc_Watch cfg) then ''cluster'' else ''namespaces='' @ render (wc_Namespaces (rc_Watch cfg)))"

section \<open>Properties\<close>

text \<open>A validated configuration makes a gateway, provided it names a bind address and the TLS
  files load; and the gateway enforces what the configuration says: it terminates TLS exactly
  unless the mode is disable, it requires TLS exactly in mode require, its connection limit
  is the configured one, it serves from the given store, and all its timeouts are positive.\<close>

lemma gateway_follows_validated_config:
  assumes "Validate labelsParse selectorEmpty ownNamespace c = Inr cfg"
    and "pc_BindAddress (rc_Proxy cfg) \<noteq> []" and "buildServerTLS files (rc_Proxy cfg) = Inr tls"
  shows "\<exists>s. newGateway files cfg store = Inr s
    \<and> (pc_TLSMode (rc_Proxy cfg) = TLSDisable \<longleftrightarrow> cfg_TLS (sv_cfg s) = None)
    \<and> (pc_TLSMode (rc_Proxy cfg) = TLSRequire \<longleftrightarrow>
         (\<exists>t. cfg_TLS (sv_cfg s) = Some t \<and> stls_Required t))
    \<and> cfg_MaxConnections (sv_cfg s) = pc_MaxConnections (rc_Proxy cfg)
    \<and> cfg_Routes (sv_cfg s) = Some store
    \<and> 0 < sint (cfg_StartupTimeout (sv_cfg s)) \<and> 0 < sint (cfg_DialTimeout (sv_cfg s))
    \<and> 0 < sint (cfg_ShutdownGracePeriod (sv_cfg s)) \<and> 0 < sint (cfg_KeepAlivePeriod (sv_cfg s))"
proof -
  obtain c1 where v: "validateProxy c = Inr c" "validateDiscovery labelsParse selectorEmpty c = Inr c1"
    "validateRest ownNamespace c1 = Inr cfg"
    using assms(1) by (rule Validate_InrD)
  have "rc_Proxy cfg = rc_Proxy c"
    by (subst validateRest_InrD(1) [OF v(3)], subst validateDiscovery_InrD(1) [OF v(2)], simp)
  then have nn: "0 \<le> pc_MaxConnections (rc_Proxy cfg)"
    using v(1) by (auto simp: validateProxy_def Let_def split: if_splits)
  have tls: "(pc_TLSMode (rc_Proxy cfg) = TLSDisable \<longleftrightarrow> tls = None)"
    "(pc_TLSMode (rc_Proxy cfg) = TLSRequire \<longleftrightarrow> (\<exists>t. tls = Some t \<and> stls_Required t))"
    "\<And>t. tls = Some t \<Longrightarrow> stls_Config t \<noteq> None"
    using assms(3)
    by (auto simp: buildServerTLS_def Let_def TLSDisable_def TLSRequire_def split: if_splits sum.splits)
  let ?cfg = "\<lparr>cfg_ListenAddress = pc_BindAddress (rc_Proxy cfg), cfg_Routes = Some store,
      cfg_TLS = tls, cfg_MaxConnections = pc_MaxConnections (rc_Proxy cfg),
      cfg_StartupTimeout = pc_StartupTimeout (rc_Proxy cfg), cfg_DialTimeout = pc_DialTimeout (rc_Proxy cfg),
      cfg_ShutdownGracePeriod = pc_ShutdownGracePeriod (rc_Proxy cfg),
      cfg_KeepAlivePeriod = pc_KeepAlivePeriod (rc_Proxy cfg)\<rparr>"
  obtain s where s: "New ?cfg = Inr s"
    using New_ok [of ?cfg] assms(2) nn tls(3) by auto
  have "newGateway files cfg store = Inr s" using s assms(3) by (simp add: newGateway_def)
  moreover have "sv_cfg s = applyDefaults ?cfg" by (rule New_okD(1) [OF s])
  ultimately show ?thesis
    using tls(1,2) applyDefaults_positive [of ?cfg] by simp
qed

text \<open>Liveness never depends on the state of the cluster: both liveness paths answer 200 whatever
  the routing table and the gateway are doing. Readiness answers 200 exactly when the
  process runs no gateway or its gateway is listening, and 503 otherwise, however many
  routes there are, none included.\<close>

lemma probes_do_not_depend_on_routes:
  "(\<forall>path\<in>{''/healthz'', ''/health''}. \<exists>r. health_mux (runProbes gateway store) path = Some r \<and> rp_code r = 200)
   \<and> (\<forall>path\<in>{''/readyz'', ''/ready''}. \<exists>r. health_mux (runProbes gateway store) path = Some r
        \<and> rp_code r = (if \<forall>s. gateway = Some s \<longrightarrow> Listening s then 200 else 503))"
  by (auto simp: health_mux_def runProbes_def health_New_def health_handle_def readinessCheck_def split: option.splits)

section \<open>Witnesses\<close>

definition sample_files :: tls_files where
  "sample_files = \<lparr>tf_keyPair = \<lambda>_ _. Inr ''pair'', tf_readFile = \<lambda>_. Inr ''pem'', tf_pemCerts = \<lambda>_. [''ca''],
     tf_withClientCAs = \<lambda>c _. c\<rparr>"

end
