(* ===== verification/Command_Line.thy ===== *)
theory Command_Line
  imports Wiring
begin

text \<open>
  The flags (\<^verbatim>\<open>BindFlags\<close> and the pflag adapters of \<^verbatim>\<open>src/src/internal/config/config.go\<close>), how
  the configuration a process runs with comes about from flags, environment and defaults
  (\<^verbatim>\<open>newRootCommand\<close> of \<^verbatim>\<open>src/src/cmd/pg-k8s-proxy/main.go\<close>), and the version text
  (\<^verbatim>\<open>src/src/internal/version/version.go\<close>). Splitting the arguments and parsing the flags' texts
  is pflag's work and outside the program: a parameter turns arguments into typed assignments.
\<close>

section \<open>Definitions\<close>

text \<open>
  A registered flag: its name and the field it points to, read and written. What a flag can
  hold is a \<open>flag_value\<close>; a flag takes only values of its own type.
\<close>

datatype flag_value =
    StringValue go_string
  | IntValue int
  | DurationValue Duration
  | BoolValue bool
  | StringsValue "go_string list"

record flag_var =
  fl_name :: go_string
  fl_accepts :: "flag_value \<Rightarrow> bool"
  fl_get :: "RuntimeConfig \<Rightarrow> flag_value"
  fl_put :: "flag_value \<Rightarrow> RuntimeConfig \<Rightarrow> RuntimeConfig"

fun is_string :: "flag_value \<Rightarrow> bool" where "is_string (StringValue v) = True" | "is_string _ = False"
fun is_int :: "flag_value \<Rightarrow> bool" where "is_int (IntValue v) = True" | "is_int _ = False"
fun is_duration :: "flag_value \<Rightarrow> bool" where "is_duration (DurationValue v) = True" | "is_duration _ = False"
fun is_bool :: "flag_value \<Rightarrow> bool" where "is_bool (BoolValue v) = True" | "is_bool _ = False"
fun is_strings :: "flag_value \<Rightarrow> bool" where "is_strings (StringsValue v) = True" | "is_strings _ = False"

definition stringVar :: "go_string \<Rightarrow> (RuntimeConfig \<Rightarrow> go_string) \<Rightarrow> (go_string \<Rightarrow> RuntimeConfig \<Rightarrow> RuntimeConfig) \<Rightarrow> flag_var" where
  "stringVar name get put = \<lparr>fl_name = name, fl_accepts = is_string, fl_get = (\<lambda>c. StringValue (get c)),
     fl_put = (\<lambda>x c. case x of StringValue v \<Rightarrow> put v c | _ \<Rightarrow> c)\<rparr>"

definition intVar :: "go_string \<Rightarrow> (RuntimeConfig \<Rightarrow> int) \<Rightarrow> (int \<Rightarrow> RuntimeConfig \<Rightarrow> RuntimeConfig) \<Rightarrow> flag_var" where
  "intVar name get put = \<lparr>fl_name = name, fl_accepts = is_int, fl_get = (\<lambda>c. IntValue (get c)),
     fl_put = (\<lambda>x c. case x of IntValue v \<Rightarrow> put v c | _ \<Rightarrow> c)\<rparr>"

definition durationVar :: "go_string \<Rightarrow> (RuntimeConfig \<Rightarrow> Duration) \<Rightarrow> (Duration \<Rightarrow> RuntimeConfig \<Rightarrow> RuntimeConfig) \<Rightarrow> flag_var" where
  "durationVar name get put = \<lparr>fl_name = name, fl_accepts = is_duration, fl_get = (\<lambda>c. DurationValue (get c)),
     fl_put = (\<lambda>x c. case x of DurationValue v \<Rightarrow> put v c | _ \<Rightarrow> c)\<rparr>"

definition boolVar :: "go_string \<Rightarrow> (RuntimeConfig \<Rightarrow> bool) \<Rightarrow> (bool \<Rightarrow> RuntimeConfig \<Rightarrow> RuntimeConfig) \<Rightarrow> flag_var" where
  "boolVar name get put = \<lparr>fl_name = name, fl_accepts = is_bool, fl_get = (\<lambda>c. BoolValue (get c)),
     fl_put = (\<lambda>x c. case x of BoolValue v \<Rightarrow> put v c | _ \<Rightarrow> c)\<rparr>"

definition stringSliceVar :: "go_string \<Rightarrow> (RuntimeConfig \<Rightarrow> go_string list) \<Rightarrow> ((go_string list) \<Rightarrow> RuntimeConfig \<Rightarrow> RuntimeConfig) \<Rightarrow> flag_var" where
  "stringSliceVar name get put = \<lparr>fl_name = name, fl_accepts = is_strings, fl_get = (\<lambda>c. StringsValue (get c)),
     fl_put = (\<lambda>x c. case x of StringsValue v \<Rightarrow> put v c | _ \<Rightarrow> c)\<rparr>"

text \<open>The adapters of the two enums: both record the text verbatim.\<close>

definition roleValue_String :: "go_string \<Rightarrow> go_string" where "roleValue_String r = r"
definition roleValue_Set :: "go_string \<Rightarrow> go_string" where "roleValue_Set s = s"
definition roleValue_Type :: go_string where "roleValue_Type = ''role''"
definition tlsModeValue_String :: "go_string \<Rightarrow> go_string" where "tlsModeValue_String t = t"
definition tlsModeValue_Set :: "go_string \<Rightarrow> go_string" where "tlsModeValue_Set s = s"
definition tlsModeValue_Type :: go_string where "tlsModeValue_Type = ''tlsMode''"

definition BindFlags :: "flag_var list" where
  "BindFlags =
     [
      stringVar ''role'' (\<lambda>c. roleValue_String (rc_Role c)) (\<lambda>v c. c\<lparr>rc_Role := roleValue_Set v\<rparr>),
      stringVar ''proxy-bind-address'' (\<lambda>c. pc_BindAddress (rc_Proxy c)) (\<lambda>v c. c\<lparr>rc_Proxy := (rc_Proxy c)\<lparr>pc_BindAddress := v\<rparr>\<rparr>),
      intVar ''proxy-max-connections'' (\<lambda>c. pc_MaxConnections (rc_Proxy c)) (\<lambda>v c. c\<lparr>rc_Proxy := (rc_Proxy c)\<lparr>pc_MaxConnections := v\<rparr>\<rparr>),
      durationVar ''proxy-startup-timeout'' (\<lambda>c. pc_StartupTimeout (rc_Proxy c)) (\<lambda>v c. c\<lparr>rc_Proxy := (rc_Proxy c)\<lparr>pc_StartupTimeout := v\<rparr>\<rparr>),
      durationVar ''proxy-dial-timeout'' (\<lambda>c. pc_DialTimeout (rc_Proxy c)) (\<lambda>v c. c\<lparr>rc_Proxy := (rc_Proxy c)\<lparr>pc_DialTimeout := v\<rparr>\<rparr>),
      durationVar ''proxy-shutdown-grace-period'' (\<lambda>c. pc_ShutdownGracePeriod (rc_Proxy c)) (\<lambda>v c. c\<lparr>rc_Proxy := (rc_Proxy c)\<lparr>pc_ShutdownGracePeriod := v\<rparr>\<rparr>),
      durationVar ''proxy-keepalive-period'' (\<lambda>c. pc_KeepAlivePeriod (rc_Proxy c)) (\<lambda>v c. c\<lparr>rc_Proxy := (rc_Proxy c)\<lparr>pc_KeepAlivePeriod := v\<rparr>\<rparr>),
      stringVar ''proxy-tls-mode'' (\<lambda>c. tlsModeValue_String (pc_TLSMode (rc_Proxy c))) (\<lambda>v c. c\<lparr>rc_Proxy := (rc_Proxy c)\<lparr>pc_TLSMode := tlsModeValue_Set v\<rparr>\<rparr>),
      stringVar ''proxy-tls-cert-file'' (\<lambda>c. pc_TLSCertFile (rc_Proxy c)) (\<lambda>v c. c\<lparr>rc_Proxy := (rc_Proxy c)\<lparr>pc_TLSCertFile := v\<rparr>\<rparr>),
      stringVar ''proxy-tls-key-file'' (\<lambda>c. pc_TLSKeyFile (rc_Proxy c)) (\<lambda>v c. c\<lparr>rc_Proxy := (rc_Proxy c)\<lparr>pc_TLSKeyFile := v\<rparr>\<rparr>),
      stringVar ''proxy-tls-client-ca-file'' (\<lambda>c. pc_TLSClientCAFile (rc_Proxy c)) (\<lambda>v c. c\<lparr>rc_Proxy := (rc_Proxy c)\<lparr>pc_TLSClientCAFile := v\<rparr>\<rparr>),
      stringSliceVar ''watch-namespaces'' (\<lambda>c. wc_Namespaces (rc_Watch c)) (\<lambda>v c. c\<lparr>rc_Watch := (rc_Watch c)\<lparr>wc_Namespaces := v\<rparr>\<rparr>),
      stringVar ''cluster-domain'' (\<lambda>c. wc_ClusterDomain (rc_Watch c)) (\<lambda>v c. c\<lparr>rc_Watch := (rc_Watch c)\<lparr>wc_ClusterDomain := v\<rparr>\<rparr>),
      boolVar ''watch-secrets'' (\<lambda>c. wc_WatchSecrets (rc_Watch c)) (\<lambda>v c. c\<lparr>rc_Watch := (rc_Watch c)\<lparr>wc_WatchSecrets := v\<rparr>\<rparr>),
      boolVar ''service-discovery'' (\<lambda>c. dcf_Enabled (rc_Discovery c)) (\<lambda>v c. c\<lparr>rc_Discovery := (rc_Discovery c)\<lparr>dcf_Enabled := v\<rparr>\<rparr>),
      stringVar ''service-discovery-selector'' (\<lambda>c. dcf_LabelSelector (rc_Discovery c)) (\<lambda>v c. c\<lparr>rc_Discovery := (rc_Discovery c)\<lparr>dcf_LabelSelector := v\<rparr>\<rparr>),
      stringVar ''service-discovery-database-annotation'' (\<lambda>c. dcf_DatabaseAnnotation (rc_Discovery c)) (\<lambda>v c. c\<lparr>rc_Discovery := (rc_Discovery c)\<lparr>dcf_DatabaseAnnotation := v\<rparr>\<rparr>),
      boolVar ''leader-elect'' (\<lambda>c. lc_Enabled (rc_Leader c)) (\<lambda>v c. c\<lparr>rc_Leader := (rc_Leader c)\<lparr>lc_Enabled := v\<rparr>\<rparr>),
      stringVar ''leader-elect-id'' (\<lambda>c. lc_ID (rc_Leader c)) (\<lambda>v c. c\<lparr>rc_Leader := (rc_Leader c)\<lparr>lc_ID := v\<rparr>\<rparr>),
      stringVar ''leader-elect-namespace'' (\<lambda>c. lc_Namespace (rc_Leader c)) (\<lambda>v c. c\<lparr>rc_Leader := (rc_Leader c)\<lparr>lc_Namespace := v\<rparr>\<rparr>),
      durationVar ''leader-elect-lease-duration'' (\<lambda>c. lc_LeaseDuration (rc_Leader c)) (\<lambda>v c. c\<lparr>rc_Leader := (rc_Leader c)\<lparr>lc_LeaseDuration := v\<rparr>\<rparr>),
      durationVar ''leader-elect-renew-deadline'' (\<lambda>c. lc_RenewDeadline (rc_Leader c)) (\<lambda>v c. c\<lparr>rc_Leader := (rc_Leader c)\<lparr>lc_RenewDeadline := v\<rparr>\<rparr>),
      durationVar ''leader-elect-retry-period'' (\<lambda>c. lc_RetryPeriod (rc_Leader c)) (\<lambda>v c. c\<lparr>rc_Leader := (rc_Leader c)\<lparr>lc_RetryPeriod := v\<rparr>\<rparr>),
      stringVar ''health-bind-address'' (\<lambda>c. rc_HealthBindAddress c) (\<lambda>v c. c\<lparr>rc_HealthBindAddress := v\<rparr>),
      stringVar ''metrics-bind-address'' (\<lambda>c. rc_MetricsBindAddress c) (\<lambda>v c. c\<lparr>rc_MetricsBindAddress := v\<rparr>),
      stringVar ''log-level'' (\<lambda>c. rc_LogLevel c) (\<lambda>v c. c\<lparr>rc_LogLevel := v\<rparr>),
      stringVar ''log-format'' (\<lambda>c. rc_LogFormat c) (\<lambda>v c. c\<lparr>rc_LogFormat := v\<rparr>)]"

text \<open>
  \<open>Flags().Changed\<close>, and what parsing leaves in the fields the flags point to, in the order of the
  arguments. Of a flag of pflag's scalar types, and of the two adapters, a later occurrence
  replaces an earlier one; of a \<^verbatim>\<open>StringSliceVar\<close> the first occurrence replaces the default and
  every later one is appended. \<open>put_flag\<close> is an assignment to the field itself.
\<close>

definition flag_changed :: "(go_string \<times> flag_value) list \<Rightarrow> go_string \<Rightarrow> bool" where
  "flag_changed assigns name \<longleftrightarrow> name \<in> fst ` set assigns"

definition find_flag :: "go_string \<Rightarrow> flag_var option" where
  "find_flag name = find (\<lambda>f. fl_name f = name) BindFlags"

definition put_flag :: "go_string \<times> flag_value \<Rightarrow> RuntimeConfig \<Rightarrow> RuntimeConfig" where
  "put_flag a c = (case find_flag (fst a) of Some f \<Rightarrow> fl_put f (snd a) c | None \<Rightarrow> c)"

definition assign_flag :: "bool \<Rightarrow> go_string \<times> flag_value \<Rightarrow> RuntimeConfig \<Rightarrow> RuntimeConfig" where
  "assign_flag changed a c =
     (case find_flag (fst a) of
        None \<Rightarrow> c
      | Some f \<Rightarrow>
         (case (fl_get f c, snd a) of
            (StringsValue old, StringsValue new) \<Rightarrow> fl_put f (StringsValue (if changed then old @ new else new)) c
          | (_, v) \<Rightarrow> fl_put f v c))"

fun parse_flags :: "go_string list \<Rightarrow> (go_string \<times> flag_value) list \<Rightarrow> RuntimeConfig \<Rightarrow> RuntimeConfig" where
  "parse_flags seen [] c = c"
| "parse_flags seen (a # assigns) c =
     parse_flags (fst a # seen) assigns (assign_flag (fst a \<in> set seen) a c)"

definition assign_ok :: "(go_string \<times> flag_value) list \<Rightarrow> bool" where
  "assign_ok assigns \<longleftrightarrow>
     list_all (\<lambda>(n, v). case find_flag n of Some f \<Rightarrow> fl_accepts f v | None \<Rightarrow> False) assigns"

text \<open>The root command's \<open>RunE\<close> up to its call of \<open>run\<close>: the configuration and the warnings \<open>run\<close> gets.\<close>

definition resolveConfig ::
    "(go_string \<Rightarrow> go_error + selector) \<Rightarrow> (selector \<Rightarrow> bool) \<Rightarrow> go_string \<Rightarrow> (go_string \<Rightarrow> go_string option)
     \<Rightarrow> (go_string \<Rightarrow> bool) \<Rightarrow> RuntimeConfig \<Rightarrow> go_error + RuntimeConfig \<times> go_string list" where
  "resolveConfig labelsParse selectorEmpty ownNamespace lookupEnv changed cfg =
     (let (warnings, cfg) = ApplyEnvironment changed lookupEnv cfg in
      case Validate labelsParse selectorEmpty ownNamespace cfg of
        Inl err \<Rightarrow> Inl err
      | Inr cfg \<Rightarrow> Inr (cfg, warnings))"

text \<open>Build information: what the linker stamped in, and what the Go runtime reports.\<close>

record build_info =
  bi_Version :: go_string
  bi_Commit :: go_string
  bi_BuildDate :: go_string
  bi_settings :: "(go_string \<times> go_string) list option"
  bi_goVersion :: go_string
  bi_goos :: go_string
  bi_goarch :: go_string

fun revisionSetting :: "(go_string \<times> go_string) list \<Rightarrow> go_string" where
  "revisionSetting [] = []"
| "revisionSetting ((k, v) # rest) = (if k = ''vcs.revision'' then v else revisionSetting rest)"

definition vcsRevision :: "build_info \<Rightarrow> go_string" where
  "vcsRevision b = (case bi_settings b of None \<Rightarrow> [] | Some settings \<Rightarrow> revisionSetting settings)"

definition orUnknown :: "go_string \<Rightarrow> go_string" where
  "orUnknown s = (if s = [] then ''unknown'' else s)"

definition version_String :: "build_info \<Rightarrow> go_string" where
  "version_String b =
     (let commit = bi_Commit b;
          commit = (if commit = [] then vcsRevision b else commit)
      in ''pg-k8s-proxy '' @ bi_Version b @ '' (commit '' @ orUnknown commit @ '', built '' @ orUnknown (bi_BuildDate b)
         @ '', '' @ bi_goVersion b @ '' '' @ bi_goos b @ ''/'' @ bi_goarch b @ '')'')"

section \<open>Lemmas\<close>

lemma version_names_commit:
  "\<exists>pre post. version_String b = pre @ ''(commit '' @ orUnknown (if bi_Commit b = [] then vcsRevision b else bi_Commit b) @ post"
  by (rule exI [of _ "''pg-k8s-proxy '' @ bi_Version b @ '' ''"]) (simp add: version_String_def Let_def)

lemmas flag_defs = stringVar_def intVar_def durationVar_def boolVar_def stringSliceVar_def
  roleValue_String_def roleValue_Set_def tlsModeValue_String_def tlsModeValue_Set_def

lemma flag_names_distinct: "distinct (map fl_name BindFlags)"
  by (simp add: BindFlags_def flag_defs)

lemma is_value_cases:
  "is_string v \<longleftrightarrow> (\<exists>x. v = StringValue x)" "is_int v \<longleftrightarrow> (\<exists>y. v = IntValue y)"
  "is_duration v \<longleftrightarrow> (\<exists>z. v = DurationValue z)" "is_bool v \<longleftrightarrow> (\<exists>b. v = BoolValue b)"
  "is_strings v \<longleftrightarrow> (\<exists>l. v = StringsValue l)"
  by (cases v; simp)+

text \<open>Every flag has a field of its own: assigning one changes what it reads and nothing another reads.\<close>

definition flag_values :: "RuntimeConfig \<Rightarrow> flag_value list" where
  "flag_values c = map (\<lambda>f. fl_get f c) BindFlags"

lemma flag_values_expand: "flag_values c = map (\<lambda>f. f c) (map fl_get BindFlags)"
  by (simp add: flag_values_def)

lemmas flag_values_all = flag_values_expand [unfolded BindFlags_def flag_defs list.map flag_var.select_convs]

lemma flag_put_all:
  "list_all (\<lambda>(i, f). \<forall>v c. fl_accepts f v \<longrightarrow> flag_values (fl_put f v c) = (flag_values c)[i := v]) (enumerate 0 BindFlags)"
  unfolding BindFlags_def flag_defs enumerate_simps list.pred_inject prod.case flag_var.select_convs is_value_cases
  by (intro conjI; clarsimp simp: flag_values_all)

lemma flag_get_put:
  assumes "f \<in> set BindFlags" and "g \<in> set BindFlags" and "fl_accepts f v"
  shows "fl_get g (fl_put f v c) = (if fl_name g = fl_name f then v else fl_get g c)"
proof -
  obtain i j where i: "i < length BindFlags" "f = BindFlags ! i" and j: "j < length BindFlags" "g = BindFlags ! j"
    using assms(1,2) by (metis in_set_conv_nth)
  have "(i, f) \<in> set (enumerate 0 BindFlags)" using i by (simp add: in_set_enumerate_eq)
  from bspec [OF flag_put_all [unfolded list_all_iff] this]
  have "\<forall>v c. fl_accepts f v \<longrightarrow> flag_values (fl_put f v c) = (flag_values c)[i := v]" unfolding prod.case .
  then have "flag_values (fl_put f v c) = (flag_values c)[i := v]" using assms(3) by blast
  then have "flag_values (fl_put f v c) ! j = (flag_values c)[i := v] ! j" by simp
  moreover have "fl_name g = fl_name f \<longleftrightarrow> j = i"
    using nth_eq_iff_index_eq [OF flag_names_distinct, of j i] i j by simp
  ultimately show ?thesis using i j by (simp add: flag_values_def nth_list_update)
qed

lemma find_flag_SomeD: "find_flag n = Some f \<Longrightarrow> f \<in> set BindFlags \<and> fl_name f = n"
  by (auto simp: find_flag_def find_Some_iff)

text \<open>After a sequence of assignments a flag reads the last value it was given.\<close>

lemma assign_get:
  assumes "assign_ok assigns" and "g \<in> set BindFlags"
  shows "fl_get g (fold put_flag assigns c) =
    (case map_of (rev assigns) (fl_name g) of Some v \<Rightarrow> v | None \<Rightarrow> fl_get g c)"
  using assms(1)
proof (induction assigns rule: rev_induct)
  case (snoc a as)
  obtain n v where a: "a = (n, v)" by fastforce
  have ok: "assign_ok as" "\<exists>f. find_flag n = Some f \<and> fl_accepts f v"
    using snoc.prems by (auto simp: assign_ok_def a split: option.splits)
  then obtain f where f: "find_flag n = Some f" "fl_accepts f v" by blast
  then have "f \<in> set BindFlags" "fl_name f = n" using find_flag_SomeD by auto
  then show ?case using snoc.IH [OF ok(1)] f assms(2) by (simp add: a put_flag_def flag_get_put)
qed simp

text \<open>After parsing, a flag that was given reads its last value, the list flag all of its values in order.\<close>

fun strings_of :: "flag_value \<Rightarrow> go_string list" where "strings_of (StringsValue v) = v" | "strings_of _ = []"

definition given :: "go_string \<Rightarrow> (go_string \<times> flag_value) list \<Rightarrow> flag_value list" where
  "given name assigns = map snd (filter (\<lambda>a. fst a = name) assigns)"

definition given_value :: "go_string \<Rightarrow> flag_value list \<Rightarrow> flag_value" where
  "given_value name vs =
     (if name = ''watch-namespaces'' then StringsValue (concat (map strings_of vs)) else last vs)"

lemma list_flag:
  assumes "f \<in> set BindFlags"
  shows "fl_accepts f v \<Longrightarrow> is_strings v \<longleftrightarrow> fl_name f = ''watch-namespaces''"
    and "is_strings (fl_get f c) \<longleftrightarrow> fl_name f = ''watch-namespaces''"
    and "fl_name f = ''watch-namespaces'' \<Longrightarrow> fl_accepts f (StringsValue xs)"
proof -
  have "list_all (\<lambda>f. (\<forall>v. fl_accepts f v \<longrightarrow> (is_strings v \<longleftrightarrow> fl_name f = ''watch-namespaces''))
      \<and> (is_strings (fl_get f c) \<longleftrightarrow> fl_name f = ''watch-namespaces'')
      \<and> (fl_name f = ''watch-namespaces'' \<longrightarrow> fl_accepts f (StringsValue xs))) BindFlags"
    unfolding BindFlags_def flag_defs list.pred_inject flag_var.select_convs is_value_cases by (simp, blast)
  with assms show "fl_accepts f v \<Longrightarrow> is_strings v \<longleftrightarrow> fl_name f = ''watch-namespaces''"
    and "is_strings (fl_get f c) \<longleftrightarrow> fl_name f = ''watch-namespaces''"
    and "fl_name f = ''watch-namespaces'' \<Longrightarrow> fl_accepts f (StringsValue xs)" by (simp_all add: list_all_iff)
qed

text \<open>The value one assignment leaves.\<close>

lemma assign_flag_get:
  assumes "find_flag n = Some f" and "fl_accepts f v" and "g \<in> set BindFlags"
  shows "fl_get g (assign_flag changed (n, v) c) =
    (if fl_name g \<noteq> n then fl_get g c
     else if n = ''watch-namespaces'' \<and> changed then StringsValue (strings_of (fl_get g c) @ strings_of v)
     else v)"
proof -
  have f: "f \<in> set BindFlags" "fl_name f = n" using find_flag_SomeD [OF assms(1)] by auto
  have g: "g = f" if "fl_name g = n"
    using that f assms(3) flag_names_distinct by (auto simp: distinct_map inj_on_def)
  note ls = list_flag(1) [OF f(1) assms(2)] list_flag(2) [OF f(1), of c]
  show ?thesis
  proof (cases "n = ''watch-namespaces''")
    case True
    then obtain old new where o: "fl_get f c = StringsValue old" "v = StringsValue new"
      using ls f(2) by (auto simp: is_value_cases)
    have "fl_accepts f (StringsValue xs)" for xs
      using list_flag(3) [OF f(1)] f(2) True by simp
    with True o g show ?thesis
      using assms(1) flag_get_put [OF f(1) assms(3)] f(2) by (auto simp: assign_flag_def)
  next
    case False
    then have "\<not> is_strings v" using ls f(2) by simp
    then have "assign_flag changed (n, v) c = fl_put f v c"
      using assms(1) by (cases v; cases "fl_get f c") (simp_all add: assign_flag_def)
    with False show ?thesis using flag_get_put [OF f(1) assms(3,2)] f(2) by simp
  qed
qed

lemma parse_flags_get:
  assumes "assign_ok assigns" and "g \<in> set BindFlags"
  shows "fl_get g (parse_flags seen assigns c) =
    (if given (fl_name g) assigns = [] then fl_get g c
     else if fl_name g = ''watch-namespaces'' \<and> fl_name g \<in> set seen
       then StringsValue (strings_of (fl_get g c) @ concat (map strings_of (given (fl_name g) assigns)))
     else given_value (fl_name g) (given (fl_name g) assigns))"
  using assms(1)
proof (induction assigns arbitrary: seen c)
  case Nil
  then show ?case by (simp add: given_def)
next
  case (Cons a as)
  obtain n v where a: "a = (n, v)" by fastforce
  have ok: "assign_ok as" "\<exists>f. find_flag n = Some f \<and> fl_accepts f v"
    using Cons.prems by (auto simp: assign_ok_def a split: option.splits)
  then obtain f where f: "find_flag n = Some f" "fl_accepts f v" by blast
  note get = assign_flag_get [OF f assms(2)]
  have strings: "StringsValue (strings_of v) = v" if "fl_name g = n" "n = ''watch-namespaces''"
  proof -
    have "is_strings v" using list_flag(1) [OF _ f(2)] find_flag_SomeD [OF f(1)] that(2) by simp
    then show ?thesis by (cases v) auto
  qed
  show ?case
  proof (cases "fl_name g = n")
    case False
    then have gv: "given (fl_name g) (a # as) = given (fl_name g) as" and seen: "fl_name g \<in> set (n # seen) \<longleftrightarrow> fl_name g \<in> set seen"
      by (simp_all add: a given_def)
    have same: "fl_get g (assign_flag changed (n, v) c) = fl_get g c" for changed using False by (simp add: get)
    show ?thesis
      unfolding gv unfolding parse_flags.simps a fst_conv Cons.IH [OF ok(1)] seen same by (rule refl)
  next
    case True
    then have gv: "given (fl_name g) (a # as) = v # given n as" by (simp add: a given_def)
    show ?thesis
      unfolding gv using True Cons.IH [OF ok(1), of "n # seen" "assign_flag (n \<in> set seen) (n, v) c"] get strings
      by (auto simp: a given_value_def)
  qed
qed

section \<open>Where a setting comes from\<close>

text \<open>The value the environment has for a flag, \<open>None\<close> when it has none.\<close>

definition env_port :: "(go_string \<Rightarrow> go_string option) \<Rightarrow> go_string \<Rightarrow> flag_value option" where
  "env_port lookupEnv env =
     (case lookupEnv env of
        None \<Rightarrow> None
      | Some raw \<Rightarrow> if raw = [] \<or> parse_int 64 raw = None then None else Some (StringValue (net_JoinHostPort [] raw)))"

definition env_value :: "(go_string \<Rightarrow> go_string option) \<Rightarrow> go_string \<Rightarrow> flag_value option" where
  "env_value lookupEnv name =
     (if name = ''proxy-bind-address'' then env_port lookupEnv ''POSTGRES_PORT''
      else if name = ''health-bind-address'' then env_port lookupEnv ''HEALTH_PORT''
      else if name = ''service-discovery-selector'' then
        (case lookupEnv ''LABEL_SELECTOR'' of None \<Rightarrow> None | Some raw \<Rightarrow> if raw = [] then None else Some (StringValue raw))
      else if name = ''watch-namespaces'' then
        (case lookupEnv ''KUBERNETES_NAMESPACE'' of
           None \<Rightarrow> None | Some raw \<Rightarrow> if raw = [] then None else Some (StringsValue (splitComma raw)))
      else None)"

definition env_assign :: "(go_string \<Rightarrow> bool) \<Rightarrow> (go_string \<Rightarrow> go_string option) \<Rightarrow> go_string \<Rightarrow> (go_string \<times> flag_value) list" where
  "env_assign changed lookupEnv name =
     (if changed name then [] else case env_value lookupEnv name of None \<Rightarrow> [] | Some v \<Rightarrow> [(name, v)])"

definition env_assigns :: "(go_string \<Rightarrow> bool) \<Rightarrow> (go_string \<Rightarrow> go_string option) \<Rightarrow> (go_string \<times> flag_value) list" where
  "env_assigns changed lookupEnv = concat (map (env_assign changed lookupEnv)
     [''proxy-bind-address'', ''health-bind-address'', ''service-discovery-selector'', ''watch-namespaces''])"

lemma env_flags:
  "find_flag ''proxy-bind-address'' = Some (stringVar ''proxy-bind-address'' (\<lambda>c. pc_BindAddress (rc_Proxy c))
     (\<lambda>v c. c\<lparr>rc_Proxy := (rc_Proxy c)\<lparr>pc_BindAddress := v\<rparr>\<rparr>))"
  "find_flag ''health-bind-address'' = Some (stringVar ''health-bind-address'' (\<lambda>c. rc_HealthBindAddress c)
     (\<lambda>v c. c\<lparr>rc_HealthBindAddress := v\<rparr>))"
  "find_flag ''service-discovery-selector'' = Some (stringVar ''service-discovery-selector'' (\<lambda>c. dcf_LabelSelector (rc_Discovery c))
     (\<lambda>v c. c\<lparr>rc_Discovery := (rc_Discovery c)\<lparr>dcf_LabelSelector := v\<rparr>\<rparr>))"
  "find_flag ''watch-namespaces'' = Some (stringSliceVar ''watch-namespaces'' (\<lambda>c. wc_Namespaces (rc_Watch c))
     (\<lambda>v c. c\<lparr>rc_Watch := (rc_Watch c)\<lparr>wc_Namespaces := v\<rparr>\<rparr>))"
  by (simp_all add: find_flag_def BindFlags_def flag_defs)

text \<open>Applying the environment is assigning the flags it has values for and that were not given.\<close>

lemmas env_step_defs = env_assign_def env_value_def env_port_def put_flag_def env_flags stringVar_def stringSliceVar_def

lemma env_steps:
  "fold put_flag (env_assign changed env ''proxy-bind-address'') c = c\<lparr>rc_Proxy := (rc_Proxy c)
     \<lparr>pc_BindAddress := snd (setPort changed env ''POSTGRES_PORT'' ''proxy-bind-address'' (pc_BindAddress (rc_Proxy c)))\<rparr>\<rparr>"
  "fold put_flag (env_assign changed env ''health-bind-address'') c =
     c\<lparr>rc_HealthBindAddress := snd (setPort changed env ''HEALTH_PORT'' ''health-bind-address'' (rc_HealthBindAddress c))\<rparr>"
  "fold put_flag (env_assign changed env ''service-discovery-selector'') c =
     (case env ''LABEL_SELECTOR'' of None \<Rightarrow> c
      | Some raw \<Rightarrow> if raw \<noteq> [] \<and> \<not> changed ''service-discovery-selector''
          then c\<lparr>rc_Discovery := (rc_Discovery c)\<lparr>dcf_LabelSelector := raw\<rparr>\<rparr> else c)"
  "fold put_flag (env_assign changed env ''watch-namespaces'') c =
     (case env ''KUBERNETES_NAMESPACE'' of None \<Rightarrow> c
      | Some raw \<Rightarrow> if raw \<noteq> [] \<and> \<not> changed ''watch-namespaces''
          then c\<lparr>rc_Watch := (rc_Watch c)\<lparr>wc_Namespaces := splitComma raw\<rparr>\<rparr> else c)"
     apply (cases "changed ''proxy-bind-address''"; cases "env ''POSTGRES_PORT''"; simp add: env_step_defs setPort_def)
    apply (cases "changed ''health-bind-address''"; cases "env ''HEALTH_PORT''"; simp add: env_step_defs setPort_def)
   apply (cases "changed ''service-discovery-selector''"; cases "env ''LABEL_SELECTOR''"; simp add: env_step_defs)
  apply (cases "changed ''watch-namespaces''"; cases "env ''KUBERNETES_NAMESPACE''"; simp add: env_step_defs)
  done

lemma ApplyEnvironment_assigns:
  "snd (ApplyEnvironment changed env c) = fold put_flag (env_assigns changed env) c"
proof -
  obtain w1 b where b: "setPort changed env ''POSTGRES_PORT'' ''proxy-bind-address'' (pc_BindAddress (rc_Proxy c)) = (w1, b)"
    by fastforce
  obtain w2 h where h: "setPort changed env ''HEALTH_PORT'' ''health-bind-address'' (rc_HealthBindAddress c) = (w2, h)"
    by fastforce
  let ?c = "c\<lparr>rc_Proxy := (rc_Proxy c)\<lparr>pc_BindAddress := b\<rparr>, rc_HealthBindAddress := h\<rparr>"
  have keeps: "rc_HealthBindAddress (c\<lparr>rc_Proxy := p\<rparr>) = rc_HealthBindAddress c" for p by simp
  have "fold put_flag (env_assigns changed env) c = fold put_flag (env_assign changed env ''watch-namespaces'')
      (fold put_flag (env_assign changed env ''service-discovery-selector'') ?c)"
    by (simp only: env_assigns_def list.map concat.simps append_Nil2 fold_append o_apply env_steps(1,2) b h snd_conv keeps)
  also have "\<dots> = snd (ApplyEnvironment changed env c)"
    unfolding ApplyEnvironment_def env_steps(3,4) b Let_def prod.case keeps h
    by (cases "env ''LABEL_SELECTOR''"; cases "env ''KUBERNETES_NAMESPACE''") 
      (simp_all only: option.case split_beta snd_conv if_distrib [where f = snd])
  finally show ?thesis by simp
qed

lemma env_value_ok: "env_value env n = Some v \<Longrightarrow> \<exists>f. find_flag n = Some f \<and> fl_accepts f v"
  by (auto simp: env_value_def env_port_def env_flags stringVar_def stringSliceVar_def split: if_splits option.splits)

lemma env_assign_ok: "assign_ok (env_assign changed env n)"
  using env_value_ok [of env n] by (auto simp: env_assign_def assign_ok_def split: option.split)

lemma env_assigns_ok: "assign_ok (env_assigns changed env)"
  using env_assign_ok by (simp add: env_assigns_def assign_ok_def)

lemma env_assign_get:
  "map_of (rev (env_assign changed env m)) n = (if n = m \<and> \<not> changed n then env_value env n else None)"
  by (cases "env_value env m") (simp_all add: env_assign_def)

lemma env_assign_list_get:
  "map_of (rev (concat (map (env_assign changed env) names))) n =
     (if n \<in> set names \<and> \<not> changed n then env_value env n else None)"
  by (induction names) (auto simp: env_assign_get map_add_def split: option.split)

lemma env_assigns_get:
  "map_of (rev (env_assigns changed env)) n = (if changed n then None else env_value env n)"
  unfolding env_assigns_def env_assign_list_get by (simp add: env_value_def)

text \<open>The settings \<open>Validate\<close> completes or corrects; every other flag it leaves alone.\<close>

definition validated_value :: "go_string \<Rightarrow> go_string \<Rightarrow> go_string \<Rightarrow> flag_value \<Rightarrow> flag_value" where
  "validated_value role ownNamespace name v =
     (case v of
        StringsValue ns \<Rightarrow> StringsValue (trimNamespaces ns)
      | BoolValue b \<Rightarrow>
          BoolValue (if name = ''service-discovery'' \<or> name = ''leader-elect'' then b \<and> RunsManager role else b)
      | StringValue s \<Rightarrow> StringValue (if name = ''leader-elect-namespace'' \<and> s = [] then ownNamespace else s)
      | _ \<Rightarrow> v)"

lemma Validate_flags:
  assumes "Validate lp se ns c = Inr c'"
  shows "list_all (\<lambda>f. fl_get f c' = validated_value (rc_Role c') ns (fl_name f) (fl_get f c)) BindFlags"
proof -
  obtain c1 where v: "validateProxy c = Inr c" "validateDiscovery lp se c = Inr c1" "validateRest ns c1 = Inr c'"
    using assms by (rule Validate_InrD)
  obtain sel where c1: "c1 = c\<lparr>rc_Discovery := (rc_Discovery c)\<lparr>dcf_Enabled := dcf_Enabled (rc_Discovery c) \<and> RunsManager (rc_Role c),
      dcf_selector := sel\<rparr>\<rparr>"
    using v(2) by (cases c; cases "rc_Discovery c") (auto simp: validateDiscovery_def Let_def split: if_splits sum.splits)
  have c': "c' = c1\<lparr>rc_Leader := (rc_Leader c1)\<lparr>lc_Enabled := lc_Enabled (rc_Leader c1) \<and> RunsManager (rc_Role c1),
        lc_Namespace := (if lc_Namespace (rc_Leader c1) = [] then ns else lc_Namespace (rc_Leader c1))\<rparr>,
      rc_Watch := (rc_Watch c1)\<lparr>wc_Namespaces := trimNamespaces (wc_Namespaces (rc_Watch c1))\<rparr>\<rparr>"
    using v(3) by (cases c1; cases "rc_Leader c1") (auto simp: validateRest_def Let_def split: if_splits)
  show ?thesis
    unfolding BindFlags_def flag_defs list.pred_inject flag_var.select_convs
    by (intro conjI; clarsimp simp: validated_value_def c' c1)
qed

section \<open>Properties\<close>

text \<open>C32: Where each setting of a running process comes from. For every flag the program registers,
  the configuration \<open>run\<close> is called with holds what was given on the command line: the last
  value given, except for the watched namespaces, whose values accumulate over all occurrences
  of the flag. When the flag was not given, it holds the value of its deprecated environment
  variable, where it has one that is usable; else the default. Validation only adjusts four of
  them: blank namespaces are dropped and the others trimmed, discovery and leader election are
  switched off where no manager runs, and an empty lease namespace becomes the process's own.
\<close>

theorem settings_come_from_flag_environment_default:
  assumes "assign_ok assigns" and "f \<in> set BindFlags"
    and "resolveConfig labelsParse selectorEmpty ownNamespace lookupEnv (flag_changed assigns)
           (parse_flags [] assigns Default) = Inr (cfg, warnings)"
  shows "fl_get f cfg = validated_value (rc_Role cfg) ownNamespace (fl_name f)
    (case map snd (filter (\<lambda>a. fst a = fl_name f) assigns) of
       [] \<Rightarrow> (case env_value lookupEnv (fl_name f) of Some v \<Rightarrow> v | None \<Rightarrow> fl_get f Default)
     | v # vs \<Rightarrow> if fl_name f = ''watch-namespaces'' then StringsValue (concat (map strings_of (v # vs)))
                 else last (v # vs))"
proof -
  let ?changed = "flag_changed assigns" and ?flags = "parse_flags [] assigns Default"
  have v: "Validate labelsParse selectorEmpty ownNamespace (fold put_flag (env_assigns ?changed lookupEnv) ?flags) = Inr cfg"
    using assms(3) ApplyEnvironment_assigns [of ?changed lookupEnv ?flags]
    by (auto simp: resolveConfig_def split_beta split: sum.splits)
  have "given (fl_name f) assigns = [] \<longleftrightarrow> \<not> ?changed (fl_name f)"
    by (force simp: flag_changed_def given_def filter_empty_conv)
  then have "fl_get f (fold put_flag (env_assigns ?changed lookupEnv) ?flags) =
    (case given (fl_name f) assigns of
       [] \<Rightarrow> (case env_value lookupEnv (fl_name f) of Some v \<Rightarrow> v | None \<Rightarrow> fl_get f Default)
     | v # vs \<Rightarrow> given_value (fl_name f) (v # vs))"
    by (auto simp: assign_get [OF env_assigns_ok assms(2)] parse_flags_get [OF assms(1,2)] env_assigns_get
        split: option.splits list.splits)
  then show ?thesis
    using Validate_flags [OF v] assms(2) by (simp add: list_all_iff given_def given_value_def cong: list.case_cong)
qed

section \<open>Witnesses\<close>

text \<open>A proxy that is given its address and its namespaces twice, while the environment names another port.\<close>

definition sample_assigns :: "(go_string \<times> flag_value) list" where
  "sample_assigns = [(''proxy-bind-address'', StringValue '':6432''), (''watch-namespaces'', StringsValue [''a'']),
     (''role'', StringValue ''proxy''), (''proxy-bind-address'', StringValue '':7432''),
     (''watch-namespaces'', StringsValue ['' b'', ''''])]"

definition port_env :: "go_string \<Rightarrow> go_string option" where
  "port_env name = (if name = ''POSTGRES_PORT'' then Some ''9999'' else if name = ''HEALTH_PORT'' then Some ''8081'' else None)"

lemma role_flag: "find_flag ''role'' = Some (stringVar ''role'' (\<lambda>c. roleValue_String (rc_Role c)) (\<lambda>v c. c\<lparr>rc_Role := roleValue_Set v\<rparr>))"
  by (simp add: find_flag_def BindFlags_def flag_defs)

lemma sample_assigns_ok: "assign_ok sample_assigns"
  by (simp add: assign_ok_def sample_assigns_def env_flags role_flag stringVar_def stringSliceVar_def)

lemma Validate_proxy_ok:
  assumes "rc_Role c = RoleProxy" and "pc_TLSMode (rc_Proxy c) = TLSDisable" and "pc_MaxConnections (rc_Proxy c) = 0"
    and "wc_ClusterDomain (rc_Watch c) \<noteq> []" and "rc_LogLevel c = ''info''" and "rc_LogFormat c = ''json''"
  shows "\<exists>c'. Validate lp se ns c = Inr c'"
  using assms by (simp add: validate_defs RoleProxy_def RoleAll_def RoleManager_def RunsManager_def TLSDisable_def TLSAllow_def TLSRequire_def)

lemma sample_resolves:
  "\<exists>cfg w. resolveConfig (\<lambda>_. Inr (\<lambda>_. True)) (\<lambda>_. False) ''pgproxy'' port_env (flag_changed sample_assigns)
     (parse_flags [] sample_assigns Default) = Inr (cfg, w)"
proof -
  let ?flags = "parse_flags [] sample_assigns Default" and ?changed = "flag_changed sample_assigns"
  obtain w c where c: "ApplyEnvironment ?changed port_env ?flags = (w, c)" by fastforce
  have f: "?flags = Default\<lparr>rc_Role := RoleProxy, rc_Proxy := (rc_Proxy Default)\<lparr>pc_BindAddress := '':7432''\<rparr>,
      rc_Watch := (rc_Watch Default)\<lparr>wc_Namespaces := [''a'', '' b'', '''']\<rparr>\<rparr>"
    by (simp add: sample_assigns_def assign_flag_def env_flags role_flag stringVar_def stringSliceVar_def
        roleValue_Set_def roleValue_String_def RoleProxy_def)
  obtain b h s n where "c = ?flags\<lparr>rc_Proxy := (rc_Proxy ?flags)\<lparr>pc_BindAddress := b\<rparr>,
      rc_HealthBindAddress := h, rc_Discovery := (rc_Discovery ?flags)\<lparr>dcf_LabelSelector := s\<rparr>,
      rc_Watch := (rc_Watch ?flags)\<lparr>wc_Namespaces := n\<rparr>\<rparr>"
    using explicit_flags_win [of ?changed port_env ?flags] unfolding Let_def c snd_conv by blast
  then have "\<exists>c'. Validate (\<lambda>_. Inr (\<lambda>_. True)) (\<lambda>_. False) ''pgproxy'' c = Inr c'"
    unfolding f by (intro Validate_proxy_ok) (simp_all add: Default_def)
  then show ?thesis unfolding resolveConfig_def c by auto
qed

lemma port_env_values:
  "env_value port_env ''health-bind-address'' = Some (StringValue '':8081'')"
  by (simp add: env_value_def env_port_def port_env_def parse_int_def digit_val_def net_JoinHostPort_def)

theorem settings_come_from_flag_environment_default_witness:
  "\<exists>cfg w. resolveConfig (\<lambda>_. Inr (\<lambda>_. True)) (\<lambda>_. False) ''pgproxy'' port_env (flag_changed sample_assigns)
       (parse_flags [] sample_assigns Default) = Inr (cfg, w)
     \<and> pc_BindAddress (rc_Proxy cfg) = '':7432'' \<and> rc_HealthBindAddress cfg = '':8081''
     \<and> wc_Namespaces (rc_Watch cfg) = [''a'', ''b'']"
proof -
  obtain cfg w where r: "resolveConfig (\<lambda>_. Inr (\<lambda>_. True)) (\<lambda>_. False) ''pgproxy'' port_env (flag_changed sample_assigns)
      (parse_flags [] sample_assigns Default) = Inr (cfg, w)" using sample_resolves by blast
  note from_theorem = settings_come_from_flag_environment_default [OF sample_assigns_ok _ r]
  let ?given = "\<lambda>n. map snd (filter (\<lambda>a. fst a = n) sample_assigns)"
  have "?given ''proxy-bind-address'' = [StringValue '':6432'', StringValue '':7432'']"
    "?given ''health-bind-address'' = []"
    "?given ''watch-namespaces'' = [StringsValue [''a''], StringsValue ['' b'', '''']]"
    by (simp_all add: sample_assigns_def)
  note v = this port_env_values
  have "pc_BindAddress (rc_Proxy cfg) = '':7432''"
    using from_theorem [OF conjunct1 [OF find_flag_SomeD [OF env_flags(1)]]]
    unfolding stringVar_def flag_var.select_convs v option.case list.case by (simp add: validated_value_def)
  moreover have "rc_HealthBindAddress cfg = '':8081''"
    using from_theorem [OF conjunct1 [OF find_flag_SomeD [OF env_flags(2)]]]
    unfolding stringVar_def flag_var.select_convs v option.case list.case by (simp add: validated_value_def)
  moreover have "wc_Namespaces (rc_Watch cfg) = trimNamespaces [''a'', '' b'', '''']"
    using from_theorem [OF conjunct1 [OF find_flag_SomeD [OF env_flags(4)]]]
    unfolding stringSliceVar_def flag_var.select_convs v list.case by (simp add: validated_value_def)
  moreover have "trimNamespaces [''a'', '' b'', ''''] = [''a'', ''b'']" by code_simp
  ultimately show ?thesis using r by simp
qed

end
