(* ===== verification/Process.thy ===== *)
theory Process
  imports Command_Line Discovery "HOL-Library.Sublist"
begin

text \<open>
  The process: \<open>run\<close> (\<^verbatim>\<open>src/src/cmd/pg-k8s-proxy/run.go\<close>) with everything it registers, in its
  order, the entry points of \<^verbatim>\<open>main.go\<close>, the probe server's life cycle
  (\<^verbatim>\<open>src/src/internal/health/server.go\<close>), the registration of the status reconciler
  (\<^verbatim>\<open>src/src/internal/controller/postgresroute_controller.go\<close>) and of the API group
  (\<^verbatim>\<open>src/src/api/v1alpha1/groupversion_info.go\<close>). The controller manager, the command
  dispatcher and the operating system are outside the program: what their calls answer is a
  parameter, so that every error return of the code is a branch here, and so is the context the
  dispatcher hands to the command. Stores are objects with an address: the process keeps what
  each holds, and what is registered carries the address of the store it was given.
\<close>

section \<open>Definitions\<close>

subsection \<open>Logger\<close>

datatype log_level = LevelDebug | LevelInfo | LevelWarn | LevelError

fun level_value :: "log_level \<Rightarrow> int" where
  "level_value LevelDebug = - 4"
| "level_value LevelInfo = 0"
| "level_value LevelWarn = 4"
| "level_value LevelError = 8"

record logger =
  lg_level :: log_level
  lg_text :: bool

definition newLogger :: "RuntimeConfig \<Rightarrow> logger" where
  "newLogger cfg =
     (let level = (if rc_LogLevel cfg = ''debug'' then LevelDebug
                   else if rc_LogLevel cfg = ''warn'' then LevelWarn
                   else if rc_LogLevel cfg = ''error'' then LevelError
                   else LevelInfo)
      in \<lparr>lg_level = level, lg_text = (rc_LogFormat cfg = ''text'')\<rparr>)"

text \<open>A record is a message with its attributes; a logger drops records below its level.\<close>

type_synonym log_record = "go_string \<times> (go_string \<times> go_string) list"

definition emit :: "logger \<Rightarrow> log_level \<Rightarrow> log_record \<Rightarrow> log_record list" where
  "emit lg level r = (if level_value (lg_level lg) \<le> level_value level then [r] else [])"

subsection \<open>Scheme\<close>

record group_version =
  gv_Group :: go_string
  gv_Version :: go_string

definition GroupVersion :: group_version where
  "GroupVersion = \<lparr>gv_Group = ''pgproxy.io'', gv_Version = ''v1alpha1''\<rparr>"

text \<open>The scheme builder holds the kinds the package's \<open>init\<close> registers.\<close>

definition SchemeBuilder :: "group_version \<times> go_string list" where
  "SchemeBuilder = (GroupVersion, [''PostgresRoute'', ''PostgresRouteList''])"

datatype scheme_types = BuiltinTypes | GroupTypes "group_version \<times> go_string list"

definition buildScheme :: "go_error option \<Rightarrow> go_error option \<Rightarrow> go_error + scheme_types list" where
  "buildScheme builtinErr groupErr =
     (case builtinErr of
        Some err \<Rightarrow> Inl (wrapf ''registering the built-in Kubernetes types'' err)
      | None \<Rightarrow>
         (case groupErr of
            Some err \<Rightarrow> Inl (wrapf ''registering the pgproxy.io types'' err)
          | None \<Rightarrow> Inr [BuiltinTypes, GroupTypes SchemeBuilder]))"

subsection \<open>The status reconciler's registration\<close>

record PostgresRouteReconciler =
  prr_Store :: "Store option"
  prr_Events :: "event_chan option"

record controller =
  ct_name :: go_string
  ct_for :: object_kind
  ct_channel :: "event_chan option"

definition PostgresRoute_SetupWithManager ::
    "go_error option \<Rightarrow> PostgresRouteReconciler \<Rightarrow> go_error option \<times> controller option" where
  "PostgresRoute_SetupWithManager completeErr r =
     (if prr_Store r = None then (Some (ErrorString ''PostgresRouteReconciler.Store is required''), None)
      else
        (let builder = \<lparr>ct_name = ''postgresroute'', ct_for = PostgresRouteKind, ct_channel = None\<rparr>;
             builder = (if prr_Events r \<noteq> None then builder\<lparr>ct_channel := prr_Events r\<rparr> else builder)
         in case completeErr of
              Some err \<Rightarrow> (Some err, None)
            | None \<Rightarrow> (None, Some builder)))"

subsection \<open>The probe server's life\<close>

text \<open>The HTTP server \<open>New\<close> makes for the probes.\<close>

record http_server =
  hs_Addr :: go_string
  hs_ReadHeaderTimeout :: Duration
  hs_ReadTimeout :: Duration
  hs_WriteTimeout :: Duration
  hs_IdleTimeout :: Duration

definition health_httpServer :: "go_string \<Rightarrow> http_server" where
  "health_httpServer bindAddress =
     \<lparr>hs_Addr = bindAddress, hs_ReadHeaderTimeout = 5 * time_Second, hs_ReadTimeout = 10 * time_Second,
      hs_WriteTimeout = 10 * time_Second, hs_IdleTimeout = 60 * time_Second\<rparr>"

definition health_NeedLeaderElection :: bool where "health_NeedLeaderElection = False"

text \<open>
  \<open>Start\<close>: what listening answers, and which of the two events the select sees first, with what
  \<open>Serve\<close> returns in the end. The result says whether the server was shut down, and with which
  deadline.
\<close>

datatype serve_end = ServeReturned "go_error option" | CtxDone "go_error option"

definition http_ErrServerClosed :: go_error where "http_ErrServerClosed = ErrorString ''http: Server closed''"

definition probeServeResult :: "go_error option \<Rightarrow> go_error option" where
  "probeServeResult served =
     (case served of
        Some err \<Rightarrow> if err \<noteq> http_ErrServerClosed then Some (wrapf ''health: serving probes'' err) else None
      | None \<Rightarrow> None)"

definition health_Start :: "go_string \<Rightarrow> go_error option \<Rightarrow> serve_end \<Rightarrow> go_error option \<times> Duration option" where
  "health_Start bindAddress listenErr outcome =
     (case listenErr of
        Some err \<Rightarrow> (Some (wrapf (''health: listening on '' @ bindAddress) err), None)
      | None \<Rightarrow>
         (case outcome of
            ServeReturned served \<Rightarrow> (probeServeResult served, None)
          | CtxDone served \<Rightarrow> (probeServeResult served, Some (5 * time_Second))))"

subsection \<open>The manager\<close>

record manager_options =
  mo_Scheme :: "scheme_types list"
  mo_Cache :: cache_options
  mo_MetricsBindAddress :: go_string
  mo_HealthProbeBindAddress :: go_string
  mo_LeaderElection :: bool
  mo_LeaderElectionID :: go_string
  mo_LeaderElectionNamespace :: go_string
  mo_LeaderElectionReleaseOnCancel :: bool
  mo_LeaseDuration :: Duration
  mo_RenewDeadline :: Duration
  mo_RetryPeriod :: Duration
  mo_GracefulShutdownTimeout :: Duration

definition managerOptions :: "scheme_types list \<Rightarrow> RuntimeConfig \<Rightarrow> manager_options" where
  "managerOptions scheme cfg =
     \<lparr>mo_Scheme = scheme, mo_Cache = cacheOptions cfg, mo_MetricsBindAddress = rc_MetricsBindAddress cfg,
      mo_HealthProbeBindAddress = ''0'',
      mo_LeaderElection = lc_Enabled (rc_Leader cfg), mo_LeaderElectionID = lc_ID (rc_Leader cfg),
      mo_LeaderElectionNamespace = lc_Namespace (rc_Leader cfg), mo_LeaderElectionReleaseOnCancel = True,
      mo_LeaseDuration = lc_LeaseDuration (rc_Leader cfg), mo_RenewDeadline = lc_RenewDeadline (rc_Leader cfg),
      mo_RetryPeriod = lc_RetryPeriod (rc_Leader cfg),
      mo_GracefulShutdownTimeout = pc_ShutdownGracePeriod (rc_Proxy cfg)\<rparr>"

text \<open>What the process hands to the manager, and the kind of each.\<close>

type_synonym store_ref = nat

datatype runnable =
    TableRunnable store_ref RouteTableBuilder
  | RouteController store_ref PostgresRouteReconciler controller
  | DiscoveryController ServiceDiscoveryReconciler
  | GatewayRunnable store_ref Server
  | ProbesRunnable store_ref http_server probe_config

fun store_of :: "runnable \<Rightarrow> store_ref option" where
  "store_of (TableRunnable store _) = Some store"
| "store_of (RouteController store _ _) = Some store"
| "store_of (DiscoveryController _) = None"
| "store_of (GatewayRunnable store _) = Some store"
| "store_of (ProbesRunnable store _ _) = Some store"

datatype component = TableComponent | RouteComponent | DiscoveryComponent | GatewayComponent | ProbesComponent

fun component_of :: "runnable \<Rightarrow> component" where
  "component_of (TableRunnable _ _) = TableComponent"
| "component_of (RouteController _ _ _) = RouteComponent"
| "component_of (DiscoveryController _) = DiscoveryComponent"
| "component_of (GatewayRunnable _ _) = GatewayComponent"
| "component_of (ProbesRunnable _ _ _) = ProbesComponent"

text \<open>
  What the calls that leave the program answer: registering types, creating the manager, its
  \<open>Add\<close> or \<open>Complete\<close> for each component, running it; and what the components read from.
\<close>

record run_env =
  re_builtinErr :: "go_error option"
  re_groupErr :: "go_error option"
  re_newManagerErr :: "manager_options \<Rightarrow> go_error option"
  re_addErr :: "component \<Rightarrow> go_error option"
  re_startErr :: "go_error option"
  re_cacheResolver :: ClientResolver
  re_toResolver :: "ClientResolver \<Rightarrow> Resolver"
  re_selectorEmpty :: "selector \<Rightarrow> bool"
  re_files :: tls_files
  re_build :: build_info
  re_renderNamespaces :: "go_string list \<Rightarrow> go_string"

text \<open>
  A context: the root that never ends (\<^verbatim>\<open>context.Background()\<close>), or one derived from another that
  also ends when the process is signalled, as \<^verbatim>\<open>signal.NotifyContext\<close> makes them.
\<close>

datatype go_context = Background | NotifyContext go_context

record process =
  ps_logger :: logger
  ps_logs :: "log_record list"
  ps_options :: "manager_options option"
  ps_runnables :: "runnable list"
  ps_gateway :: "Server option"
  ps_started :: bool
  ps_context :: "go_context option"
  ps_stores :: "Store list"

text \<open>Making a store, what is in one, and publishing to one.\<close>

definition allocStore :: "process \<Rightarrow> store_ref \<times> process" where
  "allocStore p = (length (ps_stores p), p\<lparr>ps_stores := ps_stores p @ [NewStore]\<rparr>)"

definition deref :: "process \<Rightarrow> store_ref \<Rightarrow> Store" where
  "deref p store = ps_stores p ! store"

definition publishTo :: "store_ref \<Rightarrow> Store \<Rightarrow> process \<Rightarrow> process" where
  "publishTo store content p = p\<lparr>ps_stores := (ps_stores p)[store := content]\<rparr>"

type_synonym step_result = "go_error option \<times> process"

text \<open>A step after another: an error returns at once.\<close>

definition and_then :: "step_result \<Rightarrow> (process \<Rightarrow> step_result) \<Rightarrow> step_result" where
  "and_then r f = (case r of (Some err, p) \<Rightarrow> (Some err, p) | (None, p) \<Rightarrow> f p)"

definition register :: "runnable \<Rightarrow> process \<Rightarrow> process" where
  "register r p = p\<lparr>ps_runnables := ps_runnables p @ [r]\<rparr>"

definition log_line :: "log_level \<Rightarrow> go_string \<Rightarrow> (go_string \<times> go_string) list \<Rightarrow> process \<Rightarrow> process" where
  "log_line level message attrs p = p\<lparr>ps_logs := ps_logs p @ emit (ps_logger p) level (message, attrs)\<rparr>"

definition Discovery_Selector :: "DiscoveryConfig \<Rightarrow> selector option" where
  "Discovery_Selector d = dcf_selector d"

definition statusEvents :: event_chan where
  "statusEvents = \<lparr>ec_cap = 1024, ec_queue = []\<rparr>"

subsection \<open>run\<close>

text \<open>The blocks of \<open>run\<close>, in order: the routing table builder, the manager's two reconcilers, the
  gateway, the probes, and the hand-off.\<close>

definition setupTable :: "run_env \<Rightarrow> RuntimeConfig \<Rightarrow> store_ref \<Rightarrow> process \<Rightarrow> step_result" where
  "setupTable env cfg store p =
     (let tableBuilder = \<lparr>rtb_Store = Some (deref p store), rtb_Resolver = None, rtb_ClusterDomain = wc_ClusterDomain (rc_Watch cfg),
            rtb_WatchSecrets = wc_WatchSecrets (rc_Watch cfg), rtb_Debounce = 0, rtb_StatusEvents = Some statusEvents,
            rtb_trigger = None\<rparr>
      in case SetupWithManager (re_cacheResolver env) (re_toResolver env) (re_addErr env TableComponent) tableBuilder of
           (Some err, _) \<Rightarrow> (Some (wrapf ''setting up the routing table builder'' err), p)
         | (None, b) \<Rightarrow> (None, register (TableRunnable store b) p))"

definition setupRouteController :: "run_env \<Rightarrow> store_ref \<Rightarrow> process \<Rightarrow> step_result" where
  "setupRouteController env store p =
     (let routeReconciler = \<lparr>prr_Store = Some (deref p store), prr_Events = Some statusEvents\<rparr>
      in case PostgresRoute_SetupWithManager (re_addErr env RouteComponent) routeReconciler of
           (None, Some c) \<Rightarrow> (None, register (RouteController store routeReconciler c) p)
         | (Some err, _) \<Rightarrow> (Some (wrapf ''setting up the PostgresRoute controller'' err), p)
         | (None, None) \<Rightarrow> (None, p))"

definition setupDiscovery :: "run_env \<Rightarrow> RuntimeConfig \<Rightarrow> process \<Rightarrow> step_result" where
  "setupDiscovery env cfg p =
     (case Discovery_SetupWithManager (re_selectorEmpty env) (re_addErr env DiscoveryComponent)
             (Discovery_Selector (rc_Discovery cfg)) (dcf_DatabaseAnnotation (rc_Discovery cfg)) of
        (None, Some d) \<Rightarrow> (None, log_line LevelInfo ''service discovery enabled''
            [(''selector'', dcf_LabelSelector (rc_Discovery cfg))] (register (DiscoveryController d) p))
      | (Some err, _) \<Rightarrow> (Some (wrapf ''setting up the service discovery controller'' err), p)
      | (None, None) \<Rightarrow> (None, p))"

definition setupManagerRole :: "run_env \<Rightarrow> RuntimeConfig \<Rightarrow> store_ref \<Rightarrow> process \<Rightarrow> step_result" where
  "setupManagerRole env cfg store p =
     (if RunsManager (rc_Role cfg) then
        and_then (setupRouteController env store p)
          (\<lambda>p. if dcf_Enabled (rc_Discovery cfg) then setupDiscovery env cfg p else (None, p))
      else (None, p))"

definition setupGateway :: "run_env \<Rightarrow> RuntimeConfig \<Rightarrow> store_ref \<Rightarrow> process \<Rightarrow> step_result" where
  "setupGateway env cfg store p =
     (if RunsProxy (rc_Role cfg) then
        (case newGateway (re_files env) cfg (deref p store) of
           Inl err \<Rightarrow> (Some err, p)
         | Inr gateway \<Rightarrow>
            (case re_addErr env GatewayComponent of
               Some err \<Rightarrow> (Some (wrapf ''registering the gateway'' err), p\<lparr>ps_gateway := Some gateway\<rparr>)
             | None \<Rightarrow> (None, register (GatewayRunnable store gateway) (p\<lparr>ps_gateway := Some gateway\<rparr>))))
      else (None, p))"

definition setupProbes :: "run_env \<Rightarrow> RuntimeConfig \<Rightarrow> store_ref \<Rightarrow> process \<Rightarrow> step_result" where
  "setupProbes env cfg store p =
     (let probes = runProbes (ps_gateway p) (deref p store) in
      case re_addErr env ProbesComponent of
        Some err \<Rightarrow> (Some (wrapf ''registering the probe server'' err), p)
      | None \<Rightarrow> (None, register (ProbesRunnable store (health_httpServer (rc_HealthBindAddress cfg)) probes) p))"

definition handOff :: "run_env \<Rightarrow> go_context \<Rightarrow> process \<Rightarrow> step_result" where
  "handOff env ctx p =
     (let p = log_line LevelInfo ''handing off to the controller manager'' [] p;
          p = p\<lparr>ps_started := True, ps_context := Some ctx\<rparr>
      in case re_startErr env of
           Some err \<Rightarrow> (Some (wrapf ''running the controller manager'' err), p)
         | None \<Rightarrow> (None, log_line LevelInfo ''shutdown complete'' [] p))"

definition bool_text :: "bool \<Rightarrow> go_string" where
  "bool_text b = (if b then ''true'' else ''false'')"

definition initialProcess :: "run_env \<Rightarrow> RuntimeConfig \<Rightarrow> go_string list \<Rightarrow> process" where
  "initialProcess env cfg warnings =
     log_line LevelInfo ''starting pg-k8s-proxy''
       [(''version'', version_String (re_build env)), (''role'', rc_Role cfg),
        (''scope'', scopeDescription cfg (re_renderNamespaces env)), (''serviceDiscovery'', bool_text (dcf_Enabled (rc_Discovery cfg)))]
       (fold (\<lambda>warning. log_line LevelWarn warning []) warnings
         \<lparr>ps_logger = newLogger cfg, ps_logs = [], ps_options = None, ps_runnables = [], ps_gateway = None, ps_started = False, ps_context = None,
          ps_stores = []\<rparr>)"

definition run :: "run_env \<Rightarrow> go_context \<Rightarrow> RuntimeConfig \<Rightarrow> go_string list \<Rightarrow> step_result" where
  "run env ctx cfg warnings =
     (let p = initialProcess env cfg warnings in
      case buildScheme (re_builtinErr env) (re_groupErr env) of
        Inl err \<Rightarrow> (Some err, p)
      | Inr scheme \<Rightarrow>
         (let opts = managerOptions scheme cfg in
          case re_newManagerErr env opts of
            Some err \<Rightarrow> (Some (wrapf ''creating the controller manager'' err), p)
          | None \<Rightarrow>
             (let p = p\<lparr>ps_options := Some opts\<rparr>; (store, p) = allocStore p in
              and_then (and_then (and_then (and_then (setupTable env cfg store p)
                (setupManagerRole env cfg store)) (setupGateway env cfg store)) (setupProbes env cfg store)) (handOff env ctx))))"

subsection \<open>main\<close>

text \<open>
  Dispatching the arguments is the command library's: it fails, or calls one of the two \<open>RunE\<close>
  functions, or prints the version template, or its own help. \<open>me_writeErr\<close> is what writing to
  standard output answers, \<open>me_context\<close> the context the library hands to a command
  (\<^verbatim>\<open>cmd.Context()\<close>): \<open>main\<close> calls \<^verbatim>\<open>Execute\<close>, which takes none.
\<close>

datatype invocation = RootCommand "(go_string \<times> flag_value) list" | VersionCommand | VersionFlag | HelpFlag go_string

record main_env =
  me_run :: run_env
  me_labelsParse :: "go_string \<Rightarrow> go_error + selector"
  me_lookupEnv :: "go_string \<Rightarrow> go_string option"
  me_tokenNamespace :: "go_error + bytes"
  me_writeErr :: "go_error option"
  me_context :: go_context

definition versionRunE :: "main_env \<Rightarrow> go_string \<times> go_error option" where
  "versionRunE env = (version_String (re_build (me_run env)) @ [CHR 0x0A], me_writeErr env)"

definition rootRunE :: "main_env \<Rightarrow> (go_string \<times> flag_value) list \<Rightarrow> go_error option \<times> process option" where
  "rootRunE env assigns =
     (case resolveConfig (me_labelsParse env) (re_selectorEmpty (me_run env))
             (currentNamespace (me_tokenNamespace env) (me_lookupEnv env)) (me_lookupEnv env)
             (flag_changed assigns) (parse_flags [] assigns Default) of
        Inl err \<Rightarrow> (Some err, None)
      | Inr (cfg, warnings) \<Rightarrow> (case run (me_run env) (me_context env) cfg warnings of (err, p) \<Rightarrow> (err, Some p)))"

text \<open>\<open>main\<close>: exit status, what was printed and what went to standard error.\<close>

definition execute :: "main_env \<Rightarrow> go_error + invocation \<Rightarrow> go_string \<times> go_error option" where
  "execute env dispatched =
     (case dispatched of
        Inl err \<Rightarrow> ([], Some err)
      | Inr VersionCommand \<Rightarrow> versionRunE env
      | Inr VersionFlag \<Rightarrow> (version_String (re_build (me_run env)) @ [CHR 0x0A], None)
      | Inr (HelpFlag text) \<Rightarrow> (text, None)
      | Inr (RootCommand assigns) \<Rightarrow> ([], fst (rootRunE env assigns)))"

definition main_exit :: "main_env \<Rightarrow> go_error + invocation \<Rightarrow> nat \<times> go_string \<times> go_string" where
  "main_exit env dispatched =
     (case execute env dispatched of
        (out, Some err) \<Rightarrow> (1, out, ''error: '' @ error_text err @ [CHR 0x0A])
      | (out, None) \<Rightarrow> (0, out, []))"

section \<open>Lemmas\<close>

text \<open>A step registers the components \<open>cs\<close>, in order, unless it fails; then only the first of them.\<close>

definition step_adds :: "(process \<Rightarrow> step_result) \<Rightarrow> component list \<Rightarrow> bool" where
  "step_adds f cs \<longleftrightarrow> (\<forall>p err p'. f p = (err, p') \<longrightarrow> ps_started p' = ps_started p \<and> ps_options p' = ps_options p
     \<and> (\<exists>xs. map component_of (ps_runnables p') = map component_of (ps_runnables p) @ xs \<and> prefix xs cs \<and> (err = None \<longrightarrow> xs = cs)))"

lemma step_addsD:
  assumes "step_adds f cs" and "f p = (err, p')"
  obtains xs where "ps_started p' = ps_started p" "ps_options p' = ps_options p"
    "map component_of (ps_runnables p') = map component_of (ps_runnables p) @ xs" "prefix xs cs" "err = None \<longrightarrow> xs = cs"
  using assms unfolding step_adds_def by blast

lemma step_adds_then:
  assumes f: "step_adds f cs" and g: "step_adds g ds"
  shows "step_adds (\<lambda>p. and_then (f p) g) (cs @ ds)"
  unfolding step_adds_def
proof (intro allI impI)
  fix p err p'
  assume r: "and_then (f p) g = (err, p')"
  obtain e p1 where e: "f p = (e, p1)" by fastforce
  obtain xs where x: "ps_started p1 = ps_started p" "ps_options p1 = ps_options p"
    "map component_of (ps_runnables p1) = map component_of (ps_runnables p) @ xs" "prefix xs cs" "e = None \<longrightarrow> xs = cs"
    using step_addsD [OF f e] .
  show "ps_started p' = ps_started p \<and> ps_options p' = ps_options p
      \<and> (\<exists>xs. map component_of (ps_runnables p') = map component_of (ps_runnables p) @ xs \<and> prefix xs (cs @ ds)
           \<and> (err = None \<longrightarrow> xs = cs @ ds))"
  proof (cases e)
    case None
    then have "g p1 = (err, p')" using r e by (simp add: and_then_def)
    then obtain ys where y: "ps_started p' = ps_started p1" "ps_options p' = ps_options p1"
      "map component_of (ps_runnables p') = map component_of (ps_runnables p1) @ ys" "prefix ys ds" "err = None \<longrightarrow> ys = ds"
      using step_addsD [OF g] by blast
    then show ?thesis using x None by (intro conjI exI [of _ "cs @ ys"]) simp_all
  next
    case (Some a)
    then have "err = Some a \<and> p' = p1" using r e by (simp add: and_then_def)
    then show ?thesis using x prefix_prefix [OF x(4), of ds] by auto
  qed
qed

lemma setup_steps:
  "step_adds (setupTable env cfg store) [TableComponent]"
  "step_adds (setupRouteController env store) [RouteComponent]"
  "step_adds (setupDiscovery env cfg) [DiscoveryComponent]"
  "step_adds (setupGateway env cfg store) (if RunsProxy (rc_Role cfg) then [GatewayComponent] else [])"
  "step_adds (setupProbes env cfg store) [ProbesComponent]"
proof -
  show "step_adds (setupTable env cfg store) [TableComponent]"
    by (auto simp: step_adds_def setupTable_def register_def Let_def split: prod.splits option.splits)
  show "step_adds (setupRouteController env store) [RouteComponent]"
    by (auto simp: step_adds_def setupRouteController_def PostgresRoute_SetupWithManager_def register_def Let_def
        split: prod.splits option.splits if_splits)
  show "step_adds (setupDiscovery env cfg) [DiscoveryComponent]"
    by (auto simp: step_adds_def setupDiscovery_def Discovery_SetupWithManager_def register_def log_line_def
        split: prod.splits option.splits if_splits)
  show "step_adds (setupGateway env cfg store) (if RunsProxy (rc_Role cfg) then [GatewayComponent] else [])"
    by (auto simp: step_adds_def setupGateway_def register_def split: sum.splits option.splits)
  show "step_adds (setupProbes env cfg store) [ProbesComponent]"
    by (auto simp: step_adds_def setupProbes_def register_def Let_def split: option.splits)
qed

definition manager_components :: "RuntimeConfig \<Rightarrow> component list" where
  "manager_components cfg =
     (if RunsManager (rc_Role cfg) then RouteComponent # (if dcf_Enabled (rc_Discovery cfg) then [DiscoveryComponent] else []) else [])"

definition planned :: "RuntimeConfig \<Rightarrow> component list" where
  "planned cfg =
     [TableComponent] @ manager_components cfg @ (if RunsProxy (rc_Role cfg) then [GatewayComponent] else []) @ [ProbesComponent]"

lemma step_adds_return: "step_adds (\<lambda>p. (None, p)) []"
  by (auto simp: step_adds_def)

lemma setupManagerRole_adds: "step_adds (setupManagerRole env cfg store) (manager_components cfg)"
proof (cases "RunsManager (rc_Role cfg)")
  case True
  have "step_adds (\<lambda>p. and_then (setupRouteController env store p)
      (\<lambda>p. if dcf_Enabled (rc_Discovery cfg) then setupDiscovery env cfg p else (None, p)))
      ([RouteComponent] @ (if dcf_Enabled (rc_Discovery cfg) then [DiscoveryComponent] else []))"
    using setup_steps(3) step_adds_return by (intro step_adds_then setup_steps(2)) simp
  moreover have "setupManagerRole env cfg store = (\<lambda>p. and_then (setupRouteController env store p)
      (\<lambda>p. if dcf_Enabled (rc_Discovery cfg) then setupDiscovery env cfg p else (None, p)))"
    using True by (simp add: fun_eq_iff setupManagerRole_def)
  ultimately show ?thesis using True by (simp add: manager_components_def)
next
  case False
  then have "setupManagerRole env cfg store = (\<lambda>p. (None, p))" by (simp add: fun_eq_iff setupManagerRole_def)
  then show ?thesis using False step_adds_return by (simp add: manager_components_def)
qed

definition setupAll :: "run_env \<Rightarrow> RuntimeConfig \<Rightarrow> store_ref \<Rightarrow> process \<Rightarrow> step_result" where
  "setupAll env cfg store p =
     and_then (and_then (and_then (setupTable env cfg store p)
       (setupManagerRole env cfg store)) (setupGateway env cfg store)) (setupProbes env cfg store)"

text \<open>A step leaves the stores alone, and what it registers holds the store \<open>q\<close> or none.\<close>

definition step_shares :: "store_ref \<Rightarrow> (process \<Rightarrow> step_result) \<Rightarrow> bool" where
  "step_shares q f \<longleftrightarrow> (\<forall>p err p'. f p = (err, p') \<longrightarrow> ps_stores p' = ps_stores p
     \<and> (\<forall>r\<in>set (ps_runnables p'). r \<in> set (ps_runnables p) \<or> store_of r \<in> {None, Some q}))"

lemma step_shares_then: "step_shares q f \<Longrightarrow> step_shares q g \<Longrightarrow> step_shares q (\<lambda>p. and_then (f p) g)"
  unfolding step_shares_def and_then_def by (force split: prod.splits option.splits)

lemma step_sharesD: "step_shares q f \<Longrightarrow> f p = (err, p') \<Longrightarrow> ps_stores p' = ps_stores p"
  unfolding step_shares_def by blast

lemma setup_shares:
  "step_shares store (setupTable env cfg store)" "step_shares store (setupManagerRole env cfg store)"
  "step_shares store (setupGateway env cfg store)" "step_shares store (setupProbes env cfg store)"
proof -
  show "step_shares store (setupTable env cfg store)"
    by (auto simp: step_shares_def setupTable_def register_def Let_def split: prod.splits option.splits)
  have "step_shares store (setupRouteController env store)"
    by (auto simp: step_shares_def setupRouteController_def register_def Let_def split: prod.splits option.splits)
  moreover have "step_shares store (\<lambda>p. if dcf_Enabled (rc_Discovery cfg) then setupDiscovery env cfg p else (None, p))"
    by (auto simp: step_shares_def setupDiscovery_def register_def log_line_def split: prod.splits option.splits if_splits)
  ultimately have "step_shares store (\<lambda>p. and_then (setupRouteController env store p)
      (\<lambda>p. if dcf_Enabled (rc_Discovery cfg) then setupDiscovery env cfg p else (None, p)))"
    by (rule step_shares_then)
  then show "step_shares store (setupManagerRole env cfg store)"
    by (cases "RunsManager (rc_Role cfg)") (simp_all add: setupManagerRole_def [abs_def] step_shares_def)
  show "step_shares store (setupGateway env cfg store)"
    by (auto simp: step_shares_def setupGateway_def register_def split: sum.splits option.splits if_splits)
  show "step_shares store (setupProbes env cfg store)"
    by (auto simp: step_shares_def setupProbes_def register_def Let_def split: option.splits)
qed

lemma setupAll_shares: "step_shares store (setupAll env cfg store)"
  unfolding setupAll_def [abs_def] by (intro step_shares_then setup_shares)

lemma setupAll_adds: "step_adds (setupAll env cfg store) (planned cfg)"
proof -
  have "step_adds (\<lambda>p. and_then (and_then (and_then (setupTable env cfg store p)
       (setupManagerRole env cfg store)) (setupGateway env cfg store)) (setupProbes env cfg store))
     ((([TableComponent] @ manager_components cfg) @ (if RunsProxy (rc_Role cfg) then [GatewayComponent] else [])) @ [ProbesComponent])"
    by (intro step_adds_then setup_steps setupManagerRole_adds)
  then show ?thesis by (simp add: setupAll_def [abs_def] planned_def)
qed

lemma initialProcess_empty [simp]:
  "ps_runnables (initialProcess env cfg warnings) = []" "\<not> ps_started (initialProcess env cfg warnings)"
  "ps_gateway (initialProcess env cfg warnings) = None" "ps_stores (initialProcess env cfg warnings) = []"
proof -
  have "ps_runnables (fold (\<lambda>warning. log_line LevelWarn warning []) ws p) = ps_runnables p" "ps_started (fold (\<lambda>warning. log_line LevelWarn warning []) ws p) = ps_started p"
    "ps_gateway (fold (\<lambda>warning. log_line LevelWarn warning []) ws p) = ps_gateway p"
    "ps_stores (fold (\<lambda>warning. log_line LevelWarn warning []) ws p) = ps_stores p" for ws p
    by (induction ws arbitrary: p) (simp_all add: log_line_def)
  then show "ps_runnables (initialProcess env cfg warnings) = []" "\<not> ps_started (initialProcess env cfg warnings)"
    "ps_gateway (initialProcess env cfg warnings) = None" "ps_stores (initialProcess env cfg warnings) = []"
    by (simp_all add: initialProcess_def log_line_def)
qed

lemma handOff_result:
  "handOff env ctx p = (err, p') \<Longrightarrow> ps_started p' \<and> ps_runnables p' = ps_runnables p \<and> ps_options p' = ps_options p
     \<and> ps_gateway p' = ps_gateway p \<and> ps_context p' = Some ctx \<and> ps_stores p' = ps_stores p \<and> err = map_option (wrapf ''running the controller manager'') (re_startErr env)"
  by (auto simp: handOff_def log_line_def Let_def split: option.splits)

text \<open>The three ways \<open>run\<close> can end.\<close>

definition readyProcess :: "run_env \<Rightarrow> RuntimeConfig \<Rightarrow> go_string list \<Rightarrow> manager_options \<Rightarrow> process" where
  "readyProcess env cfg warnings opts = (initialProcess env cfg warnings)\<lparr>ps_options := Some opts, ps_stores := [NewStore]\<rparr>"

lemma readyProcess_sel [simp]:
  "ps_runnables (readyProcess env cfg warnings opts) = []" "\<not> ps_started (readyProcess env cfg warnings opts)"
  "ps_gateway (readyProcess env cfg warnings opts) = None" "ps_stores (readyProcess env cfg warnings opts) = [NewStore]"
  "ps_options (readyProcess env cfg warnings opts) = Some opts"
  by (simp_all add: readyProcess_def)

lemma run_cases:
  assumes "run env ctx cfg warnings = (err, p)"
  obtains (first) "err \<noteq> None" "p = initialProcess env cfg warnings"
  | (failed) opts q where "q = readyProcess env cfg warnings opts" "setupAll env cfg 0 q = (err, p)" "err \<noteq> None"
  | (started) opts q r where "q = readyProcess env cfg warnings opts"
      "opts = managerOptions [BuiltinTypes, GroupTypes SchemeBuilder] cfg"
      "setupAll env cfg 0 q = (None, r)" "handOff env ctx r = (err, p)"
proof -
  have "allocStore ((initialProcess env cfg warnings)\<lparr>ps_options := Some opts\<rparr>) = (0, readyProcess env cfg warnings opts)" for opts
    by (simp add: allocStore_def readyProcess_def)
  then show thesis
    using assms that unfolding run_def Let_def setupAll_def [symmetric]
    by (auto simp: and_then_def buildScheme_def split: sum.splits option.splits prod.splits)
qed

text \<open>Which gateway a completed set-up holds, and that it and the probes on it are registered.\<close>

lemma and_then_None: "and_then r f = (None, p') \<longleftrightarrow> (\<exists>p. r = (None, p) \<and> f p = (None, p'))"
  by (auto simp: and_then_def split: prod.splits option.splits)

lemma setupTable_keeps_gateway: "setupTable env cfg store p = (None, p') \<Longrightarrow> ps_gateway p' = ps_gateway p"
  by (auto simp: setupTable_def register_def Let_def split: prod.splits option.splits)

lemma setupManagerRole_keeps_gateway: "setupManagerRole env cfg store p = (None, p') \<Longrightarrow> ps_gateway p' = ps_gateway p"
  by (auto simp: setupManagerRole_def and_then_None setupRouteController_def setupDiscovery_def register_def log_line_def Let_def
      split: if_splits prod.splits option.splits)

lemma setupGateway_registers:
  assumes "setupGateway env cfg store p = (None, p')" and "ps_gateway p = None"
  shows "case ps_gateway p' of
      Some s \<Rightarrow> RunsProxy (rc_Role cfg) \<and> newGateway (re_files env) cfg (deref p store) = Inr s
        \<and> GatewayRunnable store s \<in> set (ps_runnables p')
    | None \<Rightarrow> \<not> RunsProxy (rc_Role cfg)"
  using assms by (auto simp: setupGateway_def register_def split: if_splits sum.splits option.splits)

lemma setupProbes_registers:
  assumes "setupProbes env cfg store p = (None, p')"
  shows "ps_runnables p' = ps_runnables p
      @ [ProbesRunnable store (health_httpServer (rc_HealthBindAddress cfg)) (runProbes (ps_gateway p) (deref p store))]"
    and "ps_gateway p' = ps_gateway p"
  using assms by (auto simp: setupProbes_def register_def Let_def split: option.splits)

lemma setupAll_gateway:
  assumes "setupAll env cfg store p = (None, p')" and "ps_gateway p = None" and "deref p store = NewStore"
  shows "(case ps_gateway p' of
      Some s \<Rightarrow> RunsProxy (rc_Role cfg) \<and> newGateway (re_files env) cfg NewStore = Inr s \<and> GatewayRunnable store s \<in> set (ps_runnables p')
    | None \<Rightarrow> \<not> RunsProxy (rc_Role cfg))
    \<and> last (ps_runnables p') = ProbesRunnable store (health_httpServer (rc_HealthBindAddress cfg)) (runProbes (ps_gateway p') NewStore)"
proof -
  obtain p1 p2 p3 where 1: "setupTable env cfg store p = (None, p1)" and 2: "setupManagerRole env cfg store p1 = (None, p2)"
    and 3: "setupGateway env cfg store p2 = (None, p3)" and 4: "setupProbes env cfg store p3 = (None, p')"
    using assms(1) by (auto simp: setupAll_def and_then_None)
  have "ps_stores p1 = ps_stores p" "ps_stores p2 = ps_stores p1" "ps_stores p3 = ps_stores p2"
    using step_sharesD [OF setup_shares(1) 1] step_sharesD [OF setup_shares(2) 2] step_sharesD [OF setup_shares(3) 3] by simp_all
  then have st: "deref p2 store = NewStore" "deref p3 store = NewStore" using assms(3) by (simp_all add: deref_def)
  have "ps_gateway p2 = None"
    using setupTable_keeps_gateway [OF 1] setupManagerRole_keeps_gateway [OF 2] assms(2) by simp
  from setupGateway_registers [OF 3 this] show ?thesis
    by (auto simp: setupProbes_registers [OF 4] st split: option.splits)
qed

lemma run_started:
  assumes "run env ctx cfg warnings = (err, p)" and "ps_started p"
  shows "map component_of (ps_runnables p) = planned cfg"
    and "err = map_option (wrapf ''running the controller manager'') (re_startErr env)"
    and "ps_options p = Some (managerOptions [BuiltinTypes, GroupTypes SchemeBuilder] cfg)"
    and "case ps_gateway p of
        Some s \<Rightarrow> RunsProxy (rc_Role cfg) \<and> newGateway (re_files env) cfg NewStore = Inr s \<and> GatewayRunnable 0 s \<in> set (ps_runnables p)
      | None \<Rightarrow> \<not> RunsProxy (rc_Role cfg)"
    and "last (ps_runnables p) = ProbesRunnable 0 (health_httpServer (rc_HealthBindAddress cfg)) (runProbes (ps_gateway p) NewStore)"
    and "ps_context p = Some ctx"
    and "ps_stores p = [NewStore]" and "\<forall>r\<in>set (ps_runnables p). store_of r \<in> {None, Some 0}"
proof -
  let ?opts = "managerOptions [BuiltinTypes, GroupTypes SchemeBuilder] cfg"
  obtain q r where q: "q = readyProcess env cfg warnings ?opts"
    and r: "setupAll env cfg 0 q = (None, r)" and h: "handOff env ctx r = (err, p)"
    using assms(1)
  proof (cases rule: run_cases)
    case (failed opts q)
    then show ?thesis using assms(2) step_addsD [OF setupAll_adds failed(2)] by auto
  qed (use assms(2) that in auto)
  obtain xs where x: "ps_options r = ps_options q" "map component_of (ps_runnables r) = map component_of (ps_runnables q) @ xs"
    "xs = planned cfg" using step_addsD [OF setupAll_adds r] by blast
  have p: "ps_runnables p = ps_runnables r" "ps_options p = ps_options r" "ps_gateway p = ps_gateway r"
    "err = map_option (wrapf ''running the controller manager'') (re_startErr env)" "ps_stores p = ps_stores r"
    "ps_context p = Some ctx"
    using handOff_result [OF h] by blast+
  have "ps_gateway q = None" "deref q 0 = NewStore" by (simp_all add: q deref_def)
  note g = setupAll_gateway [OF r this]
  have sh: "ps_stores r = ps_stores q" "\<forall>x\<in>set (ps_runnables r). x \<in> set (ps_runnables q) \<or> store_of x \<in> {None, Some 0}"
    using setupAll_shares [of 0 env cfg] r unfolding step_shares_def by blast+
  show "map component_of (ps_runnables p) = planned cfg" using x by (simp add: p q)
  show "err = map_option (wrapf ''running the controller manager'') (re_startErr env)" by (rule p(4))
  show "ps_options p = Some ?opts" using x by (simp add: p q)
  show "case ps_gateway p of
        Some s \<Rightarrow> RunsProxy (rc_Role cfg) \<and> newGateway (re_files env) cfg NewStore = Inr s \<and> GatewayRunnable 0 s \<in> set (ps_runnables p)
      | None \<Rightarrow> \<not> RunsProxy (rc_Role cfg)"
    unfolding p using g by simp
  show "last (ps_runnables p) = ProbesRunnable 0 (health_httpServer (rc_HealthBindAddress cfg)) (runProbes (ps_gateway p) NewStore)"
    unfolding p using g by simp
  show "ps_context p = Some ctx" by (rule p(6))
  show "ps_stores p = [NewStore]" using sh(1) by (simp add: p q)
  show "\<forall>r\<in>set (ps_runnables p). store_of r \<in> {None, Some 0}" using sh(2) by (simp add: p q)
qed

lemma run_not_started:
  assumes "run env ctx cfg warnings = (err, p)" and "\<not> ps_started p"
  shows "err \<noteq> None \<and> prefix (map component_of (ps_runnables p)) (planned cfg)"
  using assms(1)
proof (cases rule: run_cases)
  case (failed opts q)
  then show ?thesis using step_addsD [OF setupAll_adds failed(2)] by auto
qed (use assms(2) handOff_result in auto)

text \<open>The program's own runnables serve on every replica; only the reconcilers, which are controllers
  of the manager, wait for the lease.\<close>

fun needs_leader :: "runnable \<Rightarrow> bool" where
  "needs_leader (TableRunnable _ b) = RouteTableBuilder_NeedLeaderElection b"
| "needs_leader (GatewayRunnable _ s) = NeedLeaderElection s"
| "needs_leader (ProbesRunnable _ _ _) = health_NeedLeaderElection"
| "needs_leader (RouteController _ _ _) = True"
| "needs_leader (DiscoveryController _) = True"

lemma serving_needs_no_leader:
  assumes "run env ctx cfg warnings = (err, p)" and "ps_started p"
  shows "map component_of (filter (\<lambda>r. \<not> needs_leader r) (ps_runnables p)) =
    TableComponent # (if RunsProxy (rc_Role cfg) then [GatewayComponent] else []) @ [ProbesComponent]"
proof -
  have "needs_leader r \<longleftrightarrow> component_of r \<in> {RouteComponent, DiscoveryComponent}" for r
    by (cases r) (simp_all add: RouteTableBuilder_NeedLeaderElection_def NeedLeaderElection_def health_NeedLeaderElection_def)
  then have "map component_of (filter (\<lambda>r. \<not> needs_leader r) rs) =
      filter (\<lambda>c. c \<notin> {RouteComponent, DiscoveryComponent}) (map component_of rs)" for rs
    by (simp add: filter_map o_def)
  then show ?thesis
    unfolding run_started(1) [OF assms] by (simp add: run_started(1) [OF assms] planned_def manager_components_def)
qed

text \<open>A probe server is shut down only after its context ended, and an orderly end is no error.\<close>

lemma probes_end_cleanly:
  "snd (health_Start addr listenErr outcome) \<noteq> None \<longleftrightarrow> listenErr = None \<and> (\<exists>e. outcome = CtxDone e)"
  "fst (health_Start addr None (CtxDone (Some http_ErrServerClosed))) = None"
  by (auto simp: health_Start_def probeServeResult_def split: option.splits serve_end.splits)

text \<open>A configuration that does not validate ends the program with status 1 before anything is set up.\<close>

lemma invalid_configuration_exits:
  assumes "resolveConfig (me_labelsParse env) (re_selectorEmpty (me_run env))
      (currentNamespace (me_tokenNamespace env) (me_lookupEnv env)) (me_lookupEnv env)
      (flag_changed assigns) (parse_flags [] assigns Default) = Inl err"
  shows "rootRunE env assigns = (Some err, None)"
    and "main_exit env (Inr (RootCommand assigns)) = (1, [], ''error: '' @ error_text err @ [CHR 0x0A])"
  using assms by (simp_all add: rootRunE_def main_exit_def execute_def)

section \<open>Properties\<close>

text \<open>C30: The manager is only ever started on a complete process, and what runs is decided by the role.
  When \<open>run\<close> starts the manager, it has registered, in this order, the routing table builder; in
  a manager the status reconciler and, if enabled, service discovery; in a proxy the gateway
  built from the configuration; and the probes, whose readiness follows that very gateway. Its
  error is then the manager's. Any earlier failure is returned without starting the manager,
  and leaves an initial part of that list registered. In either case a process whose role
  is not a manager registers nothing that writes to the cluster.
\<close>

theorem run_registers_by_role:
  assumes "run env ctx cfg warnings = (err, p)"
  shows "(if ps_started p
      then map component_of (ps_runnables p) = planned cfg
        \<and> err = map_option (wrapf ''running the controller manager'') (re_startErr env)
        \<and> ps_options p = Some (managerOptions [BuiltinTypes, GroupTypes SchemeBuilder] cfg)
        \<and> (\<exists>store. deref p store = NewStore
          \<and> (case ps_gateway p of
               Some s \<Rightarrow> RunsProxy (rc_Role cfg) \<and> newGateway (re_files env) cfg NewStore = Inr s
                 \<and> GatewayRunnable store s \<in> set (ps_runnables p)
             | None \<Rightarrow> \<not> RunsProxy (rc_Role cfg))
          \<and> last (ps_runnables p) =
              ProbesRunnable store (health_httpServer (rc_HealthBindAddress cfg)) (runProbes (ps_gateway p) NewStore))
      else err \<noteq> None \<and> prefix (map component_of (ps_runnables p)) (planned cfg))
    \<and> (\<not> RunsManager (rc_Role cfg) \<longrightarrow> {RouteComponent, DiscoveryComponent} \<inter> component_of ` set (ps_runnables p) = {})"
proof -
  have "prefix (map component_of (ps_runnables p)) (planned cfg)"
    using run_started [OF assms] run_not_started [OF assms] by (cases "ps_started p") auto
  then have "component_of ` set (ps_runnables p) \<subseteq> set (planned cfg)" using set_mono_prefix by fastforce
  then have "\<not> RunsManager (rc_Role cfg) \<longrightarrow> {RouteComponent, DiscoveryComponent} \<inter> component_of ` set (ps_runnables p) = {}"
    by (auto simp: planned_def manager_components_def split: if_splits)
  moreover have "deref p 0 = NewStore" if "ps_started p" using run_started(7) [OF assms that] by (simp add: deref_def)
  ultimately show ?thesis using run_started [OF assms] run_not_started [OF assms] by (cases "ps_started p") auto
qed

text \<open>What is asked of the cluster for a process to start: the calls that leave the program succeed.\<close>

definition env_ok :: "run_env \<Rightarrow> bool" where
  "env_ok env \<longleftrightarrow> re_builtinErr env = None \<and> re_groupErr env = None \<and> (\<forall>opts. re_newManagerErr env opts = None)
     \<and> (\<forall>c. re_addErr env c = None)"

lemma Validate_keeps:
  assumes "Validate labelsParse selectorEmpty ownNamespace c = Inr cfg"
  shows "rc_Proxy cfg = rc_Proxy c" and "rc_Role cfg = rc_Role c"
proof -
  obtain c1 where v: "validateDiscovery labelsParse selectorEmpty c = Inr c1" "validateRest ownNamespace c1 = Inr cfg"
    using assms by (rule Validate_InrD)
  show "rc_Proxy cfg = rc_Proxy c" "rc_Role cfg = rc_Role c"
    by (subst validateRest_InrD(1) [OF v(2)], subst validateDiscovery_InrD(1) [OF v(1)], simp)+
qed

lemma Validate_for_setup:
  assumes "Validate labelsParse selectorEmpty ownNamespace c = Inr cfg"
  shows "wc_ClusterDomain (rc_Watch cfg) \<noteq> []" and "0 \<le> pc_MaxConnections (rc_Proxy cfg)"
    and "dcf_Enabled (rc_Discovery cfg) \<longrightarrow> (\<exists>sel. dcf_selector (rc_Discovery cfg) = Some sel \<and> \<not> selectorEmpty sel)"
    and "mo_LeaderElection (managerOptions scheme cfg) \<longrightarrow> RunsManager (rc_Role cfg)"
proof -
  obtain c1 where v: "validateProxy c = Inr c" "validateDiscovery labelsParse selectorEmpty c = Inr c1"
    "validateRest ownNamespace c1 = Inr cfg"
    using assms by (rule Validate_InrD)
  note d = validateDiscovery_InrD [OF v(2)] and l = validateRest_InrD [OF v(3)]
  have same: "rc_Proxy cfg = rc_Proxy c" "rc_Discovery cfg = rc_Discovery c1" "rc_Role cfg = rc_Role c1" "rc_Watch c1 = rc_Watch c"
    by (subst l(1), subst d(1), simp) (subst l(1), simp, subst l(1), simp, subst d(1), simp)
  have "wc_ClusterDomain (rc_Watch c) \<noteq> []" "0 \<le> pc_MaxConnections (rc_Proxy c)"
    using v(1) by (auto simp: validateProxy_def Let_def split: if_splits)
  then show "wc_ClusterDomain (rc_Watch cfg) \<noteq> []" "0 \<le> pc_MaxConnections (rc_Proxy cfg)"
    by (simp_all add: l(4) same)
  show "dcf_Enabled (rc_Discovery cfg) \<longrightarrow> (\<exists>sel. dcf_selector (rc_Discovery cfg) = Some sel \<and> \<not> selectorEmpty sel)"
    using d(4) same by auto
  show "mo_LeaderElection (managerOptions scheme cfg) \<longrightarrow> RunsManager (rc_Role cfg)"
    using l(2) same by (simp add: managerOptions_def)
qed

lemma and_then_succeeds: "\<exists>p. r = (None, p) \<Longrightarrow> (\<And>p. \<exists>p'. f p = (None, p')) \<Longrightarrow> \<exists>p'. and_then r f = (None, p')"
  by (auto simp: and_then_def)

lemma setupAll_succeeds:
  assumes "env_ok env" and "wc_ClusterDomain (rc_Watch cfg) \<noteq> []"
    and "dcf_Enabled (rc_Discovery cfg) \<longrightarrow> (\<exists>sel. dcf_selector (rc_Discovery cfg) = Some sel \<and> \<not> re_selectorEmpty env sel)"
    and "RunsProxy (rc_Role cfg) \<longrightarrow> (\<forall>content. \<exists>s. newGateway (re_files env) cfg content = Inr s)"
  shows "\<exists>r. setupAll env cfg store p = (None, r)"
proof -
  have table: "\<exists>p'. setupTable env cfg store p = (None, p')" for p
    using assms(1,2) by (simp add: env_ok_def setupTable_def SetupWithManager_def Let_def)
  have route: "\<exists>p'. setupRouteController env store p = (None, p')" for p
    using assms(1) by (simp add: env_ok_def setupRouteController_def PostgresRoute_SetupWithManager_def Let_def)
  have "\<exists>p'. setupDiscovery env cfg p = (None, p')" if "dcf_Enabled (rc_Discovery cfg)" for p
    using assms(1,3) that by (auto simp: env_ok_def setupDiscovery_def Discovery_SetupWithManager_def Discovery_Selector_def)
  then have "\<exists>p'. and_then (setupRouteController env store p)
      (\<lambda>p. if dcf_Enabled (rc_Discovery cfg) then setupDiscovery env cfg p else (None, p)) = (None, p')" for p
    using route by (intro and_then_succeeds) simp_all
  then have reconcilers: "\<exists>p'. setupManagerRole env cfg store p = (None, p')" for p
    by (simp add: setupManagerRole_def)
  have gateway: "\<exists>p'. setupGateway env cfg store p = (None, p')" for p
    using assms(1) assms(4) [rule_format, of "deref p store"] by (auto simp: env_ok_def setupGateway_def)
  have "\<exists>p'. setupProbes env cfg store p = (None, p')" for p
    using assms(1) by (simp add: env_ok_def setupProbes_def Let_def)
  with table reconcilers gateway show ?thesis unfolding setupAll_def by (intro and_then_succeeds)
qed

lemma run_starts:
  assumes "env_ok env" and "setupAll env cfg 0
      (readyProcess env cfg warnings (managerOptions [BuiltinTypes, GroupTypes SchemeBuilder] cfg)) = (None, r)"
  shows "run env ctx cfg warnings = handOff env ctx r"
proof -
  have "allocStore ((initialProcess env cfg warnings)\<lparr>ps_options := Some opts\<rparr>) = (0, readyProcess env cfg warnings opts)" for opts
    by (simp add: allocStore_def readyProcess_def)
  then show ?thesis
    using assms unfolding run_def Let_def setupAll_def [symmetric]
    by (simp add: env_ok_def buildScheme_def and_then_def)
qed

lemma validated_run_starts:
  assumes valid: "Validate labelsParse (re_selectorEmpty env) ownNamespace c = Inr cfg" and "env_ok env"
    and "RunsProxy (rc_Role cfg) \<longrightarrow> pc_BindAddress (rc_Proxy cfg) \<noteq> [] \<and> buildServerTLS (re_files env) (rc_Proxy cfg) = Inr tls"
  shows "\<exists>err p. run env ctx cfg warnings = (err, p) \<and> ps_started p"
proof -
  let ?q = "readyProcess env cfg warnings (managerOptions [BuiltinTypes, GroupTypes SchemeBuilder] cfg)"
  have gw: "\<exists>s. newGateway (re_files env) cfg content = Inr s" if "RunsProxy (rc_Role cfg)" for content
    using gateway_follows_validated_config [OF valid, of "re_files env" tls content] assms(3) that by blast
  obtain r where r: "setupAll env cfg 0 ?q = (None, r)"
    using setupAll_succeeds [OF assms(2) Validate_for_setup(1,3) [OF valid]] gw by blast
  obtain err p where p: "handOff env ctx r = (err, p)" by fastforce
  then show ?thesis using run_starts [OF assms(2) r] handOff_result [OF p] by auto
qed

text \<open>C31: A validated configuration starts. When the calls that leave the program succeed and, for a
  proxy, the bind address is not empty and the TLS files load, \<open>run\<close> hands a complete process to
  the manager and returns what the manager returns; no set-up check of any component can fail.
  The gateway terminates TLS exactly unless the mode is disable, requires it exactly in mode
  require and has the configured connection limit, with positive timeouts; the manager elects
  a leader only where reconcilers run. There is one store, empty at first, and every component
  that has one was given that one: whatever is published to the store of the table builder is
  what the status reconciler, the gateway and the probes then find in theirs.
\<close>

theorem validated_process_starts:
  assumes valid: "Validate labelsParse (re_selectorEmpty env) ownNamespace c = Inr cfg" and "env_ok env"
    and "RunsProxy (rc_Role cfg) \<longrightarrow> pc_BindAddress (rc_Proxy cfg) \<noteq> [] \<and> buildServerTLS (re_files env) (rc_Proxy cfg) = Inr tls"
  shows "\<exists>p opts. run env ctx cfg warnings = (map_option (wrapf ''running the controller manager'') (re_startErr env), p)
    \<and> ps_started p \<and> ps_options p = Some opts \<and> (mo_LeaderElection opts \<longrightarrow> RunsManager (rc_Role cfg))
    \<and> ps_stores p = [NewStore] \<and> (\<exists>store b. TableRunnable store b \<in> set (ps_runnables p))
    \<and> (\<forall>store b r store' content. TableRunnable store b \<in> set (ps_runnables p) \<and> r \<in> set (ps_runnables p)
         \<and> store_of r = Some store' \<longrightarrow> deref (publishTo store content p) store' = content)
    \<and> (case ps_gateway p of
         None \<Rightarrow> \<not> RunsProxy (rc_Role cfg)
       | Some s \<Rightarrow> RunsProxy (rc_Role cfg) \<and> (\<exists>store. GatewayRunnable store s \<in> set (ps_runnables p))
           \<and> (pc_TLSMode (rc_Proxy cfg) = TLSDisable \<longleftrightarrow> cfg_TLS (sv_cfg s) = None)
           \<and> (pc_TLSMode (rc_Proxy cfg) = TLSRequire \<longleftrightarrow> (\<exists>t. cfg_TLS (sv_cfg s) = Some t \<and> stls_Required t))
           \<and> cfg_MaxConnections (sv_cfg s) = pc_MaxConnections (rc_Proxy cfg) \<and> cfg_Routes (sv_cfg s) = Some NewStore
           \<and> 0 < sint (cfg_StartupTimeout (sv_cfg s)) \<and> 0 < sint (cfg_DialTimeout (sv_cfg s))
           \<and> 0 < sint (cfg_ShutdownGracePeriod (sv_cfg s)) \<and> 0 < sint (cfg_KeepAlivePeriod (sv_cfg s)))"
proof -
  let ?opts = "managerOptions [BuiltinTypes, GroupTypes SchemeBuilder] cfg"
  note v = Validate_for_setup(4) [OF valid]
  obtain err p where r: "run env ctx cfg warnings = (err, p)" and st: "ps_started p"
    using validated_run_starts [OF assms] by blast
  note s = run_started [OF r st]
  have run: "run env ctx cfg warnings = (map_option (wrapf ''running the controller manager'') (re_startErr env), p)"
    using r s(2) by simp
  note opts = s(3) and g = s(4)
  have "TableComponent \<in> component_of ` set (ps_runnables p)"
    using arg_cong [OF s(1), of set] by (simp add: planned_def)
  then obtain b where b: "b \<in> set (ps_runnables p)" "component_of b = TableComponent" by auto
  from b(2) obtain store t where "b = TableRunnable store t" by (cases b) auto
  with b(1) have table: "\<exists>store b. TableRunnable store b \<in> set (ps_runnables p)" by blast
  have shared: "deref (publishTo store content p) store' = content"
    if "TableRunnable store b \<in> set (ps_runnables p)" "r \<in> set (ps_runnables p)" "store_of r = Some store'" for store b r store' content
  proof -
    have "store = 0" "store' = 0" using s(8) that by fastforce+
    then show ?thesis by (simp add: deref_def publishTo_def s(7))
  qed
  show ?thesis
  proof (cases "ps_gateway p")
    case None
    then show ?thesis using run st opts v g table s(7) by (intro exI [of _ p] exI [of _ ?opts]) (auto intro: shared)
  next
    case (Some srv)
    with g have srv: "RunsProxy (rc_Role cfg)" "newGateway (re_files env) cfg NewStore = Inr srv" "GatewayRunnable 0 srv \<in> set (ps_runnables p)"
      by simp_all
    with gateway_follows_validated_config [OF valid, of "re_files env" tls NewStore] assms(3) show ?thesis
      using run st opts v Some table s(7) by (intro exI [of _ p] exI [of _ ?opts]) (auto intro: shared)
  qed
qed

text \<open>C39: What shutdown rests on, from the command line on. The manager of a started process runs on
  exactly the context the command library handed to the command: nothing between the two
  derives a context that ends on a signal. When shutdown does begin, manager and gateway allow for the same time only if the configured grace period is positive: else the gateway
  lets sessions drain for 30 seconds, while the manager that waits for it keeps the value it
  was given.\<close>

theorem manager_runs_on_the_context_given:
  assumes "rootRunE env assigns = (err, Some p)" and "ps_started p"
  shows "ps_context p = Some (me_context env)
    \<and> (\<exists>opts. ps_options p = Some opts \<and> (\<forall>s. ps_gateway p = Some s \<longrightarrow>
         cfg_ShutdownGracePeriod (sv_cfg s) =
           (if 0 < sint (mo_GracefulShutdownTimeout opts) then mo_GracefulShutdownTimeout opts else 30 * time_Second)
         \<and> (mo_GracefulShutdownTimeout opts = cfg_ShutdownGracePeriod (sv_cfg s) \<longleftrightarrow> 0 < sint (mo_GracefulShutdownTimeout opts))))"
proof -
  obtain cfg warnings where run: "run (me_run env) (me_context env) cfg warnings = (err, p)"
    using assms(1) by (auto simp: rootRunE_def split: sum.splits prod.splits)
  let ?opts = "managerOptions [BuiltinTypes, GroupTypes SchemeBuilder] cfg"
  let ?grace = "pc_ShutdownGracePeriod (rc_Proxy cfg)"
  note r = run_started [OF run assms(2)]
  have grace: "cfg_ShutdownGracePeriod (sv_cfg s) = (if 0 < sint ?grace then ?grace else 30 * time_Second)"
    if "ps_gateway p = Some s" for s
    using r(4) that
    by (auto simp: newGateway_def applyDefaults_def DefaultShutdownGracePeriod_def Let_def dest!: New_okD(1) split: sum.splits)
  moreover have "0 < sint (30 * time_Second)" by (simp add: time_Second_def)
  moreover have "mo_GracefulShutdownTimeout ?opts = ?grace" by (simp add: managerOptions_def)
  ultimately show ?thesis using r(3,6) by auto
qed

section \<open>Witnesses\<close>

definition willing_env :: run_env where
  "willing_env = \<lparr>re_builtinErr = None, re_groupErr = None, re_newManagerErr = (\<lambda>_. None), re_addErr = (\<lambda>_. None),
     re_startErr = None, re_cacheResolver = NewClientResolver (\<lambda>_ _. Inl (ErrorString ''no cache'')) (\<lambda>_ _. Inl (ErrorString ''no cache'')),
     re_toResolver = asResolver (\<lambda>_. False) (\<lambda>_. []), re_selectorEmpty = (\<lambda>_. False), re_files = sample_files, re_build = \<lparr>bi_Version = ''dev'', bi_Commit = [], bi_BuildDate = [], bi_settings = None,
       bi_goVersion = ''go'', bi_goos = ''linux'', bi_goarch = ''amd64''\<rparr>,
     re_renderNamespaces = concat\<rparr>"

lemma willing_env_ok: "env_ok willing_env"
  by (simp add: env_ok_def willing_env_def)

text \<open>A proxy on the default settings that is given no grace period.\<close>

definition hasty_proxy :: RuntimeConfig where
  "hasty_proxy = Default\<lparr>rc_Role := RoleProxy, rc_Proxy := (rc_Proxy Default)\<lparr>pc_ShutdownGracePeriod := 0\<rparr>,
     rc_Discovery := (rc_Discovery Default)\<lparr>dcf_Enabled := False\<rparr>\<rparr>"

lemma hasty_proxy_starts:
  "RunsProxy (rc_Role hasty_proxy) \<and> \<not> RunsManager (rc_Role hasty_proxy)
   \<and> (\<exists>err p. run willing_env Background hasty_proxy [] = (err, p) \<and> ps_started p)"
proof -
  have "RunsProxy (rc_Role hasty_proxy)" "\<not> RunsManager (rc_Role hasty_proxy)"
    by (simp_all add: hasty_proxy_def RunsProxy_def RunsManager_def RoleProxy_def RoleAll_def RoleManager_def)
  moreover have gw: "\<exists>s. newGateway (re_files willing_env) hasty_proxy content = Inr s" for content
    by (simp add: willing_env_def newGateway_def buildServerTLS_def hasty_proxy_def Default_def New_def Let_def)
  moreover have "wc_ClusterDomain (rc_Watch hasty_proxy) \<noteq> []" "\<not> dcf_Enabled (rc_Discovery hasty_proxy)"
    by (simp_all add: hasty_proxy_def Default_def)
  then obtain r where r: "setupAll willing_env hasty_proxy 0
      (readyProcess willing_env hasty_proxy [] (managerOptions [BuiltinTypes, GroupTypes SchemeBuilder] hasty_proxy)) = (None, r)"
    using setupAll_succeeds [OF willing_env_ok] gw by blast
  obtain err p where "handOff willing_env Background r = (err, p)" by fastforce
  ultimately show ?thesis using run_starts [OF willing_env_ok r] handOff_result by metis
qed

theorem run_registers_by_role_witness:
  "\<exists>err p. run willing_env Background hasty_proxy [] = (err, p) \<and> ps_started p
     \<and> map component_of (ps_runnables p) = [TableComponent, GatewayComponent, ProbesComponent]"
proof -
  obtain err p where r: "run willing_env Background hasty_proxy [] = (err, p)" "ps_started p"
    and role: "RunsProxy (rc_Role hasty_proxy)" "\<not> RunsManager (rc_Role hasty_proxy)"
    using hasty_proxy_starts by blast
  from run_registers_by_role [OF r(1)] r role show ?thesis by (simp add: planned_def manager_components_def)
qed

theorem validated_process_starts_witness:
  "\<exists>cfg p. Validate (\<lambda>_. Inr (\<lambda>_. True)) (re_selectorEmpty willing_env) ''pgproxy'' Default = Inr cfg
     \<and> run willing_env Background cfg [] = (None, p) \<and> ps_started p"
proof -
  obtain cfg where cfg: "Validate (\<lambda>_. Inr (\<lambda>_. True)) (re_selectorEmpty willing_env) ''pgproxy'' Default = Inr cfg"
    and p: "rc_Proxy cfg = rc_Proxy Default"
    using default_validates by (auto simp: willing_env_def)
  have "pc_BindAddress (rc_Proxy cfg) \<noteq> [] \<and> buildServerTLS (re_files willing_env) (rc_Proxy cfg) = Inr None"
    by (simp add: p Default_def buildServerTLS_def)
  with validated_process_starts [OF cfg willing_env_ok, of None Background "[]"] cfg show ?thesis
    by (auto simp: willing_env_def)
qed

text \<open>The process of a command line that sets no grace period.\<close>

definition willing_main :: main_env where
  "willing_main = \<lparr>me_run = willing_env, me_labelsParse = (\<lambda>_. Inr (\<lambda>_. True)), me_lookupEnv = (\<lambda>_. None),
     me_tokenNamespace = Inr ''pgproxy'', me_writeErr = None, me_context = Background\<rparr>"

definition hasty_assigns :: "(go_string \<times> flag_value) list" where
  "hasty_assigns = [(''role'', StringValue ''proxy''), (''proxy-shutdown-grace-period'', DurationValue 0)]"

lemma grace_flag:
  "find_flag ''proxy-shutdown-grace-period'' = Some (durationVar ''proxy-shutdown-grace-period''
     (\<lambda>c. pc_ShutdownGracePeriod (rc_Proxy c)) (\<lambda>v c. c\<lparr>rc_Proxy := (rc_Proxy c)\<lparr>pc_ShutdownGracePeriod := v\<rparr>\<rparr>))"
  by (simp add: find_flag_def BindFlags_def flag_defs)

lemma hasty_flags:
  "parse_flags [] hasty_assigns Default =
     Default\<lparr>rc_Role := RoleProxy, rc_Proxy := (rc_Proxy Default)\<lparr>pc_ShutdownGracePeriod := 0\<rparr>\<rparr>"
proof -
  have "assign_flag b (''role'', StringValue ''proxy'') c = c\<lparr>rc_Role := RoleProxy\<rparr>" for b c
    by (simp add: assign_flag_def role_flag stringVar_def roleValue_Set_def RoleProxy_def)
  moreover have "assign_flag b (''proxy-shutdown-grace-period'', DurationValue 0) c =
      c\<lparr>rc_Proxy := (rc_Proxy c)\<lparr>pc_ShutdownGracePeriod := 0\<rparr>\<rparr>" for b c
    by (simp add: assign_flag_def grace_flag durationVar_def)
  ultimately show ?thesis by (simp add: hasty_assigns_def)
qed

lemma hasty_command:
  "\<exists>err p. rootRunE willing_main hasty_assigns = (err, Some p) \<and> ps_started p \<and> ps_gateway p \<noteq> None
     \<and> (\<forall>opts. ps_options p = Some opts \<longrightarrow> mo_GracefulShutdownTimeout opts = 0)"
proof -
  let ?c = "Default\<lparr>rc_Role := RoleProxy, rc_Proxy := (rc_Proxy Default)\<lparr>pc_ShutdownGracePeriod := 0\<rparr>\<rparr>"
  let ?ns = "currentNamespace (Inr ''pgproxy'') (\<lambda>_. None)"
  have flags: "parse_flags [] hasty_assigns Default = ?c" by (rule hasty_flags)
  obtain cfg where cfg: "Validate (\<lambda>_. Inr (\<lambda>_. True)) (\<lambda>_. False) ?ns ?c = Inr cfg"
    using Validate_proxy_ok [of ?c "\<lambda>_. Inr (\<lambda>_. True)" "\<lambda>_. False" ?ns] by (auto simp: Default_def)
  have same: "rc_Proxy cfg = rc_Proxy ?c" "rc_Role cfg = RoleProxy"
    using Validate_keeps [OF cfg] by simp_all
  have res: "resolveConfig (\<lambda>_. Inr (\<lambda>_. True)) (\<lambda>_. False) ?ns (\<lambda>_. None) (flag_changed hasty_assigns) ?c = Inr (cfg, [])"
    using explicit_flags_win [of _ "\<lambda>_. None" ?c] cfg by (simp add: resolveConfig_def)
  obtain err p where p: "run willing_env Background cfg [] = (err, p)" "ps_started p"
    using validated_run_starts [of "\<lambda>_. Inr (\<lambda>_. True)" willing_env ?ns ?c cfg None Background "[]"] cfg willing_env_ok
    by (auto simp: willing_env_def same Default_def buildServerTLS_def)
  have "ps_gateway p \<noteq> None"
    using run_started(4) [OF p] by (auto simp: same RunsProxy_def split: option.splits)
  moreover have "mo_GracefulShutdownTimeout (managerOptions sch cfg) = 0" for sch by (simp add: managerOptions_def same)
  moreover have "rootRunE willing_main hasty_assigns = (err, Some p)"
    using res p(1) by (simp add: rootRunE_def willing_main_def flags willing_env_def)
  ultimately show ?thesis using p(2) run_started(3) [OF p] by auto
qed

theorem manager_runs_on_the_context_given_witness:
  "\<exists>err p opts s. rootRunE willing_main hasty_assigns = (err, Some p) \<and> ps_context p = Some Background
     \<and> ps_options p = Some opts \<and> ps_gateway p = Some s
     \<and> mo_GracefulShutdownTimeout opts = 0 \<and> cfg_ShutdownGracePeriod (sv_cfg s) = 30 * time_Second"
proof -
  obtain err p where p: "rootRunE willing_main hasty_assigns = (err, Some p)" "ps_started p" "ps_gateway p \<noteq> None"
    "\<forall>opts. ps_options p = Some opts \<longrightarrow> mo_GracefulShutdownTimeout opts = 0"
    using hasty_command by blast
  have ctx: "me_context willing_main = Background" by (simp add: willing_main_def)
  from p(3) obtain s where s: "ps_gateway p = Some s" by blast
  from manager_runs_on_the_context_given [OF p(1,2)] obtain opts where o: "ps_context p = Some Background" "ps_options p = Some opts"
    "cfg_ShutdownGracePeriod (sv_cfg s) =
       (if 0 < sint (mo_GracefulShutdownTimeout opts) then mo_GracefulShutdownTimeout opts else 30 * time_Second)"
    unfolding ctx using s by blast
  have zero: "mo_GracefulShutdownTimeout opts = 0" using p(4) o(2) by blast
  with o(3) have "cfg_ShutdownGracePeriod (sv_cfg s) = 30 * time_Second" by simp
  with p(1) o(1,2) s zero show ?thesis by blast
qed

end
