(* ===== verification/Spec2Isabelle.thy ===== *)
theory Spec2Isabelle
  imports Shutdown Joint_System Discovery_Rest Deep_Copy Process
begin

text \<open>
  A verification development for pg-k8s-proxy, a PostgreSQL gateway for Kubernetes.

  \<^bold>\<open>The program.\<close> A client connects to the gateway and names a database in its startup
  packet. The gateway looks the name up in a routing table, dials the backend the table names,
  rewrites the startup packet and relays bytes both ways, replacing the backend's cancellation
  key by one of its own. The table is built from PostgresRoute resources: a builder watches
  them, lets the routes that claim the same name compete, resolves the winners to addresses and
  publishes an immutable snapshot. A status reconciler writes the decision for each route back
  to the cluster, and a discovery reconciler generates routes for labelled Services. The
  snapshot store is the only state the control plane and the data plane share.

  \<^bold>\<open>Theories.\<close> Paths are below \<^verbatim>\<open>src/src/\<close>; each theory keeps the order and
  the names of the code (a name that clashes in HOL carries its receiver as a prefix).

  \<^item> \<^verbatim>\<open>Gateway_Prelude\<close>: Go's errors (wrapping, \<^verbatim>\<open>errors.Is\<close>, joining), maps,
    decimal and quoted texts (\<^verbatim>\<open>%q\<close>, with every rune beyond ASCII taken to be printable),
    big-endian words, byte streams and connections; the locale \<open>framed_codec\<close>
    of self-delimiting encodings, the locale \<open>grounded_steps\<close> of systems whose steps lower a value
    of a well-founded order, \<open>guarded_steps\<close> where they do so under an invariant, and \<open>ranked_steps\<close>,
    which bounds the runs by a number.
  \<^item> \<^verbatim>\<open>Pgwire_Protocol\<close>, \<^verbatim>\<open>Pgwire_Message\<close>: \<^verbatim>\<open>internal/pgwire/protocol.go\<close>,
    \<^verbatim>\<open>message.go\<close>. Startup packets, cancel requests, key data, framed messages and error
    responses, on bytes. Both codecs interpret \<open>framed_codec\<close>.
  \<^item> \<^verbatim>\<open>Api_Types\<close>: \<^verbatim>\<open>api/v1alpha1/postgresroute_types.go\<close> and what is used of the
    Kubernetes object types.
  \<^item> \<^verbatim>\<open>Deep_Copy\<close>: \<^verbatim>\<open>api/v1alpha1/zz_generated.deepcopy.go\<close>, over an explicit heap. The
    locale \<open>copier\<close> says what a copy promises; the generated functions interpret it. This is
    what lets the other theories take a copied resource for its value.
  \<^item> \<^verbatim>\<open>Registry\<close>: \<^verbatim>\<open>internal/registry/registry.go\<close>. Table, store, decisions,
    \<open>Build\<close> with its stable sort, and resolution. The locale \<open>stable_order\<close> says that a
    stable sort by a strict total order is independent of the input order; the locale
    \<open>port_contract\<close> says what a port resolver promises its callers; the locale
    \<open>snapshot_store\<close> what both halves of the program rely on of the store between them.
  \<^item> \<^verbatim>\<open>Resolver\<close>: \<^verbatim>\<open>internal/registry/resolver.go\<close>, which provides that contract.
  \<^item> \<^verbatim>\<open>Cancel_Registry\<close>: \<^verbatim>\<open>internal/proxy/cancel.go\<close>. The locale \<open>key_registry\<close>
    holds the laws of issuing, looking up and releasing keys.
  \<^item> \<^verbatim>\<open>Proxy_Base\<close>, \<^verbatim>\<open>Backend_Link\<close>, \<^verbatim>\<open>Relay\<close>, \<^verbatim>\<open>Server_State\<close>,
    \<^verbatim>\<open>Session\<close>, \<^verbatim>\<open>Server_Loop\<close>: \<^verbatim>\<open>internal/proxy/\<close> \<^verbatim>\<open>metrics.go\<close>,
    \<^verbatim>\<open>session.go\<close>, \<^verbatim>\<open>relay.go\<close> and \<^verbatim>\<open>server.go\<close>: dialling and securing a
    backend, forwarding a cancellation, relaying, negotiating and serving a connection, and
    the server as a state machine over concurrent sessions.
  \<^item> \<^verbatim>\<open>Interleaving\<close>: many relays of \<^verbatim>\<open>relay.go\<close> on one gateway. The loop's body is one
    step; steps of different sessions and releases alternate freely on the shared cancel
    registry.
  \<^item> \<^verbatim>\<open>Concurrent_Gateway\<close>: whole sessions of \<^verbatim>\<open>session.go\<close> side by side, in steps: arrive,
    negotiate, look up, dial, the steps of \<^verbatim>\<open>Interleaving\<close>, end, with tables published in
    between. Each session has its own environment, since dialling and handshakes answer
    differently to each.
  \<^item> \<^verbatim>\<open>Duplex\<close>: the two goroutines of one relay of \<^verbatim>\<open>relay.go\<close>, read by read and write by
    write; a single copy and the whole relay interpret \<open>ranked_steps\<close>. The client may stay silent,
    and the backend may end its stream of its own accord, after its input has ended, or never.
  \<^item> \<^verbatim>\<open>Serving\<close>: the whole gateway, \<open>Start\<close>, \<open>acceptLoop\<close> and \<open>drain\<close> of \<^verbatim>\<open>server.go\<close> and \<open>serve\<close>
    around those sessions: the context ending, the listener being closed, accepting, taking a slot
    or being turned away, running, waiting for such a backend, giving back, draining with and
    without the grace period expiring, which closes the client connections still tracked, and
    returning.
  \<^item> \<^verbatim>\<open>Shutdown\<close>: the same gateway from the moment its listener is closed or its accept loop has
    returned. Its steps interpret \<open>guarded_steps\<close>.
  \<^item> \<^verbatim>\<open>Route_Table\<close>, \<^verbatim>\<open>Status_Reconciler\<close>, \<^verbatim>\<open>Discovery\<close>:
    \<^verbatim>\<open>internal/controller/\<close> \<^verbatim>\<open>routetable.go\<close>, \<^verbatim>\<open>postgresroute_controller.go\<close>,
    \<^verbatim>\<open>servicediscovery_controller.go\<close>, each operation as a function.
  \<^item> \<^verbatim>\<open>Control_Plane\<close>: the same table builder and status reconciler running beside each other,
    with the store, the channel of status events, lagging caches, callbacks and leader election,
    as the step relation \<open>control_step\<close>.
  \<^item> \<^verbatim>\<open>Settling\<close>: from every state of a leader's control plane its own steps lead to rest. The
    work in flight interprets \<open>ranked_steps\<close>; the queue is worked off key by key.
  \<^item> \<^verbatim>\<open>Discovery_Loop\<close>: the discovery controller running, with the filter of its Service
    watch, the events of the routes it owns and its queue. \<^verbatim>\<open>Discovery_Rest\<close>: left alone it runs out
    of work; its steps interpret \<open>guarded_steps\<close>.
  \<^item> \<^verbatim>\<open>Joint_System\<close>: both on one API server, each seeing the other's writes.
  \<^item> \<^verbatim>\<open>Runtime_Config\<close>, \<^verbatim>\<open>Command_Line\<close>: \<^verbatim>\<open>internal/config/\<close> (data, defaults,
    validation, environment; flags), \<^verbatim>\<open>internal/version/version.go\<close>. A flag is its name and
    the field it points to, read and written.
  \<^item> \<^verbatim>\<open>Wiring\<close>, \<^verbatim>\<open>Process\<close>: \<^verbatim>\<open>cmd/pg-k8s-proxy/run.go\<close>, \<^verbatim>\<open>main.go\<close>,
    \<^verbatim>\<open>internal/health/server.go\<close>, \<^verbatim>\<open>api/v1alpha1/groupversion_info.go\<close> and the
    registration of the status reconciler. \<open>run\<close> is a sequence of steps on a record of what the
    process has logged, allocated and registered; each step may return an error. Stores have addresses
    there, so that sharing one is visible; the context of the command is an argument.
  \<^item> this theory: the properties that need several components.

  \<^bold>\<open>How code is represented.\<close> A struct is a record, an error a value of \<open>go_error\<close>, a
  function that may fail returns \<open>go_error + 'a\<close>, a nil pointer or interface is \<open>None\<close>. A
  map is an association list with distinct keys. Protocol integers and durations are words of
  their width. A connection is a record of the bytes still to be read (with the error that
  follows them), the bytes written so far (with the number that can be written before a
  failure) and its flags; \<open>Write\<close>, \<open>SetDeadline\<close>, \<open>Close\<close> and the TLS upgrade
  transform it. Metrics are the sequence of operations on the collectors. A session is a function
  from the state it starts in; that this is enough under concurrency is shown by the step
  relations \<open>front_step\<close> and \<open>plant_step\<close>, on which C8 proves that a connection among others is
  served as \<open>serve\<close> serves it alone. Likewise the sequential \<open>relay\<close> takes the point where the client is hung up on as a
  parameter, and C9 proves that the interleaved goroutines compute exactly its results. The step
  relations \<open>server_step\<close>, \<open>cancel_reach\<close>, \<open>loop_step\<close>, \<open>control_step\<close>,
  \<open>discovery_step\<close> and \<open>joint_step\<close> cover the cancel registry, the server's slots, the table
  builder, the control plane, discovery and these two together. Fields that are
  not in the program and only say what has happened are named as such where they are declared.

  \<^bold>\<open>Loops.\<close> Negotiation counts down the rounds left, four at first, as the code does. The
  framed relay recurses on the bytes left to read; every message takes at least five. The
  startup parameter loop recurses on the rest of the payload. Only issuing a key may run for
  ever, when the random source only yields keys in use: it is a \<open>partial_function\<close> into
  option, and a lemma of \<^verbatim>\<open>Cancel_Registry\<close> says when it returns. The accept loop is a function of what successive
  accepts report.

  \<^bold>\<open>Parameters.\<close> Code outside the repository is an argument: the API server and its cache,
  label selectors, the condition helpers of apimachinery, \<^verbatim>\<open>CreateOrUpdate\<close> and owner
  references, the controller manager, argument splitting and flag parsing, the copies of embedded
  Kubernetes types, certificate parsing and verification, TLS handshakes (what the peer sends
  afterwards, or an error), dialling, and the random source. What is relied on is a named
  hypothesis: \<open>condition_api\<close>, \<open>write_api\<close>, \<open>owner_api\<close>, \<open>loop_api\<close>, \<open>quiet_api\<close>, \<open>keeps_status\<close>, \<open>meta_ok\<close>, \<open>env_ok\<close>. Each is
  met by a concrete instance in the witnesses.

  \<^bold>\<open>What is shown.\<close>
  \<^item> Routing: C1 follows one session from the client's packet to the last relayed byte; C20
    and C34 say what is refused and how; C4, C5 and C6 say that the table is the one the
    competition rules describe, whatever the order of the input; C23 that TLS policy survives
    resolution; C12, C15 and C25 tie status and discovery to the table.
  \<^item> Security: C2, C3 and C22 say that required TLS is enforced towards clients and backends
    and that no plaintext bytes are mixed into a secured startup; C7 and C24 that a
    cancellation key reaches exactly the session it was issued for, in every interleaving.
  \<^item> Concurrency in the data plane: C7 and C8, over all sequences of steps of many
    connections, from accepting to closing; C9 and C10, over all schedules of the two goroutines of
    one session, and when one of them can wait for ever; C11 and C21 when a gateway told to stop
    does so, and what it has left behind then: nothing.
  \<^item> The control plane: C17 says that the builder loses no event; C13 that where builder, caches
    and reconciler come to rest, table and statuses are right, and C14 that they can always come to
    rest; C29 that the reconciler's writes do not set the builder in motion again; C27 and C26 say
    what discovery ends up with and what it leaves alone, C28 that its own writes do not keep it
    busy; C15 that a labelled Service ends up in
    the table; C33 is about the copies they work on.
  \<^item> Wire format: C18, C19 and C35 say that encoding and decoding agree and that decoding
    consumes neither too much nor without bound. Lemmas of \<^verbatim>\<open>Pgwire_Message\<close> say the same of
    framed messages.
  \<^item> Limits and resources: C16 and C21; a lemma of \<^verbatim>\<open>Session\<close> says of one connection that everything it
    took is given back. Lemmas of \<^verbatim>\<open>Relay\<close> and \<^verbatim>\<open>Session\<close> account for bytes
    and session metrics.
  \<^item> Life cycle and configuration: C32 says where each setting comes from, C30 and C31 what
    process they start.
  \<^item> Defects, as theorems about what the code does: C34 (a malformed parameter list is taken
    for a hang-up), C36 (a repeated database parameter escapes routing), C37 (a Service that loses
    its label keeps its route), C38 (announcements beyond the channel's capacity are lost), C39 (the
    manager runs on the context the command was given and on no other, and a grace period that is not
    positive splits manager and gateway), C40 (a second key leaks the first), the reservations of C10 and C11
    (a silent backend is waited for without a limit) and of C12 (a status may speak of a version that was
    not built from yet), and lemmas of \<^verbatim>\<open>Resolver\<close> and \<^verbatim>\<open>Status_Reconciler\<close> (misclassified resolution errors).

  \<^bold>\<open>Not modelled.\<close> The rendering of log records and the exposition of metrics; the manager that
  starts and stops the components; the HTTP server below the probe handlers; help texts; charts
  and manifests. Deadlines are recorded, but time does not pass: a read that would time out
  is a stream that ends in a timeout error. A write returns: a peer that keeps its connection open
  and reads nothing is left out. In \<^verbatim>\<open>Control_Plane\<close> the sends of one rebuild are one step, during which the
  reader of the channel does not run (that it could only leaves room for more of them); a failed rebuild is not retried by
  itself, as in the code, and delays before a retry are not counted; in \<^verbatim>\<open>Discovery_Loop\<close> routes
  are read as they are, without a lagging cache. In \<^verbatim>\<open>Serving\<close> the raw copy that ends a relay
  is one step, taken when it ends, and which bytes still pass on a connection that \<open>drain\<close> closes is
  part of what its session meets. That discovery and the
  control plane together come to rest is shown for each on its own and, jointly, for the state
  they rest in (C15).
\<close>

section \<open>Properties that span components\<close>

lemma low_priority_loses:
  assumes "prs_Priority (pr_Spec r) = discoveredRoutePriority" and "- 100 < sint (prs_Priority (pr_Spec h))"
  shows "less_route h r"
  using assms by (simp add: less_route_def discoveredRoutePriority_def)

text \<open>C25: Declaring a route by hand is enough to override discovery. If a route with a priority above
  that of discovered routes claims a database name, and every other claimant was generated
  for a Service that does not override its priority, then the hand-written route is accepted
  and the name is routed to it or, while its backend does not resolve, to nothing.\<close>

theorem handwritten_route_overrides_discovery:
  assumes "distinct (map route_key routes)" and "h \<in> set routes" and "- 100 < sint (prs_Priority (pr_Spec h))"
    and "\<forall>r\<in>set routes. r \<noteq> h \<and> EffectiveDatabase r = EffectiveDatabase h \<longrightarrow>
      (\<exists>svc. generated_for api rc svc r \<and> gomap_get (om_Annotations (svc_Meta svc)) PriorityAnnotation = None)"
  shows "\<exists>d t. Snapshot_Decision (Build ctx routes resolver clusterDomain) (route_key h) = Some d \<and> dc_Accepted d
    \<and> sn_Table (Build ctx routes resolver clusterDomain) = Some t
    \<and> (\<forall>x. Lookup t (EffectiveDatabase h) = Some x \<longrightarrow> rt_Source x = route_key h)"
proof -
  have "less_route h r" if "r \<in> set routes" "r \<noteq> h" "EffectiveDatabase r = EffectiveDatabase h" for r
    using assms(3,4) that by (intro low_priority_loses) (auto simp: generated_for_def priority_def)
  then have win: "wins routes h" using assms(2) by (auto simp: wins_def)
  then have first: "claimant (sort_SliceStable less_route routes) (EffectiveDatabase h) = Some h"
    by (simp add: claimant_sorted [OF assms(1)])
  have dec: "\<exists>d. Snapshot_Decision (Build ctx routes resolver clusterDomain) (route_key h) = Some d \<and> dc_Accepted d"
    using Build_decision [OF assms(1,2)] first by (simp add: verdict_def)
  obtain t where t: "sn_Table (Build ctx routes resolver clusterDomain) = Some t"
    by (simp add: Build_conv Let_def)
  have "rt_Source x = route_key h" if served: "Lookup t (EffectiveDatabase h) = Some x" for x
  proof -
    obtain r where "wins routes r" "EffectiveDatabase r = EffectiveDatabase h"
      "resolveBounded ctx r resolver clusterDomain = Inr x"
      using served Build_lookup [OF assms(1) t] by blast
    moreover from this(1,2) have "r = h"
      using first claimant_sorted [OF assms(1), of "EffectiveDatabase h" r] by simp
    ultimately have "resolve (context_WithTimeout ctx ResolveTimeout) h resolver clusterDomain = Inr x"
      by (simp add: resolveBounded_def)
    then show ?thesis by (simp add: resolve_fields)
  qed
  with dec t show ?thesis by blast
qed

text \<open>A generated route resolves to the Service it was generated for.\<close>

lemma generated_route_resolves:
  assumes "generated_for api r svc x" and "route_key x = generatedKey svc"
    and "\<And>c. rv_ResolveServicePort resolver c (om_Namespace (svc_Meta svc)) (om_Name (svc_Meta svc)) (port (da_intstrParse api) svc) = Inr p"
    and "\<And>c ns n f. \<exists>pool. rv_LoadCABundle resolver c ns n f = Inr pool"
  shows "\<exists>y. resolveBounded ctx x resolver cd = Inr y \<and> rt_Source y = generatedKey svc \<and> rt_Port y = p
    \<and> rt_Host y = om_Name (svc_Meta svc) @ ''.'' @ om_Namespace (svc_Meta svc) @ ''.svc.'' @ cd"
proof -
  have ns: "om_Namespace (pr_Meta x) = om_Namespace (svc_Meta svc)"
    using assms(2) by (simp add: objectKey_def generatedKey_def)
  have host: "resolveBackend c x resolver cd = Inr (om_Name (svc_Meta svc) @ ''.'' @ om_Namespace (svc_Meta svc) @ ''.svc.'' @ cd, p)" for c
    using assms(1) assms(3) [of c]
    by (cases "om_Namespace (svc_Meta svc) = []") (simp_all add: resolveBackend_def generated_for_def ns)
  have "\<exists>tls. resolveTLS c x resolver = Inr tls" for c
  proof (cases "resolveTLS c x resolver")
    case (Inl e)
    then obtain ns n f where "\<exists>e. rv_LoadCABundle resolver c ns n f = Inl e"
      by (auto simp: resolveTLS_def Let_def split: option.splits if_splits sum.splits)
    with assms(4) show ?thesis by (metis sum.distinct(1))
  qed simp
  then obtain tls where "resolveTLS (context_WithTimeout ctx ResolveTimeout) x resolver = Inr tls" by blast
  then show ?thesis using host assms(2) by (simp add: resolveBounded_def resolve_def)
qed

text \<open>C15: Labelling a Service is enough to make its database reachable. However discovery, the control
  plane of a replica and everyone else who writes to the cluster interleave, when discovery and
  the replica's builder have come to rest, then for a Service in scope whose database name
  nobody else claims, whose port the resolver finds and with readable CA bundles, the table the
  replica serves from routes that name to the Service's own host name and port.\<close>

theorem discovered_service_is_served:
  assumes "condition_api sapi" and "loop_api api" and "keeps_status api"
    and "joint_reach sapi notFound ctx api r (cp, l)" and "discovery_resting l" and "builder_resting cp" and "\<not> cp_failed cp"
    and "gomap_get (dl_services l) k = Some svc" and "inScope r svc"
    and "\<forall>k' x. gomap_get (cp_server cp) k' = Some x \<and> k' \<noteq> generatedKey svc \<longrightarrow> EffectiveDatabase x \<noteq> databaseName r svc"
    and "rtb_Resolver (cp_builder cp) = Some resolver"
    and "\<And>c. rv_ResolveServicePort resolver c (om_Namespace (svc_Meta svc)) (om_Name (svc_Meta svc)) (port (da_intstrParse api) svc) = Inr p"
    and "\<And>c ns n f. \<exists>pool. rv_LoadCABundle resolver c ns n f = Inr pool"
  shows "\<exists>t y. Store_Routes (cp_store cp) = Some t \<and> Lookup t (databaseName r svc) = Some y
    \<and> rt_Source y = generatedKey svc \<and> rt_Port y = p
    \<and> rt_Host y = om_Name (svc_Meta svc) @ ''.'' @ om_Namespace (svc_Meta svc) @ ''.svc.'' @ rtb_ClusterDomain (cp_builder cp)"
proof -
  let ?rs = "map snd (cp_cache cp)" and ?cd = "rtb_ClusterDomain (cp_builder cp)"
  have sides: "control_reach sapi notFound ctx cp" "discovery_reach api r l" "dl_routes l = cp_server cp"
    using joint_sides [OF assms(1-4)] by auto
  note rest = control_rest [OF sides(1) assms(6,7)]
  have "matchesSelector r svc" using assms(9) by (simp add: inScope_def matchesSelector_def)
  then obtain x where x: "gomap_get (cp_cache cp) (generatedKey svc) = Some x" and gen: "generated_for api r svc x"
    using discovery_rest [OF assms(2) sides(2) assms(5,8)] assms(9) sides(3) rest(1) by (auto simp: discovered_def)
  have key: "route_key x = generatedKey svc" and mem: "x \<in> set ?rs" using rest(4,5) [OF x] by auto
  have db: "EffectiveDatabase x = databaseName r svc" using gen by (simp add: generated_for_def)
  have only: "r' = x" if r': "r' \<in> set ?rs" "EffectiveDatabase r' = databaseName r svc" for r'
  proof -
    obtain k' where k': "(k', r') \<in> set (cp_cache cp)" using r'(1) by auto
    have "gomap_get (cp_cache cp) k' = Some r'"
      using k' control_reach_inv [OF sides(1)] by (simp add: objects_inv_def gomap_ok_def)
    then have "k' = generatedKey svc" using r'(2) assms(10) rest(1) by auto
    with \<open>gomap_get (cp_cache cp) k' = Some r'\<close> x show ?thesis by simp
  qed
  have win: "wins ?rs x" unfolding wins_def db using mem only by blast
  from generated_route_resolves [OF gen key assms(12,13), of ctx ?cd]
  obtain y where y: "resolveBounded ctx x resolver ?cd = Inr y" "rt_Source y = generatedKey svc" "rt_Port y = p"
    "rt_Host y = om_Name (svc_Meta svc) @ ''.'' @ om_Namespace (svc_Meta svc) @ ''.svc.'' @ ?cd"
    by (elim exE conjE)
  obtain t where t: "sn_Table (Build ctx ?rs resolver ?cd) = Some t" by (simp add: Build_conv Let_def)
  have "Lookup t (databaseName r svc) = Some y"
    unfolding Build_lookup [OF rest(3) t] by (intro exI [of _ x]) (simp add: win db y(1))
  moreover have "Store_Routes (cp_store cp) = Some t"
    using t rest(2) by (simp add: assms(11) Store_Routes_def Store_Load_def)
  ultimately show ?thesis using y by blast
qed

text \<open>C12: What the status says is what the data plane does, for the version of the route that the
  published snapshot was built from. When the status reconciler writes a route's status, it may
  have read a newer version of the route than that one. The Programmed condition it writes is
  True exactly when the routing table that sessions consult routes the database of the version
  built from to an entry that came from this route, and then the reported endpoint is the address
  sessions dial; the reported database is that version's too. The generation the status claims
  to describe, however, is that of the version read: after an edit, until the next rebuild, the
  status vouches for the new generation with facts about the old one.\<close>

theorem status_says_what_is_served:
  assumes "condition_api api" and "distinct (map route_key routes)" and "r \<in> set routes"
    and "Store_Load store = Build ctx routes resolver clusterDomain" and "Store_Routes store = Some t"
    and "sa_get api (route_key r) = Inr read" and "Reconcile api store (route_key r) = (res, err, Some patched)"
  shows "\<exists>p. cond (pr_Status patched) ConditionProgrammed = Some p
    \<and> (cn_Status p = ConditionTrue \<longleftrightarrow> (\<exists>x. Lookup t (EffectiveDatabase r) = Some x \<and> rt_Source x = route_key r))
    \<and> (\<forall>x. cn_Status p = ConditionTrue \<and> Lookup t (EffectiveDatabase r) = Some x \<longrightarrow>
         st_Endpoint (pr_Status patched) = Address x)
    \<and> st_Database (pr_Status patched) = EffectiveDatabase r
    \<and> patched = read\<lparr>pr_Status := pr_Status patched\<rparr>
    \<and> st_ObservedGeneration (pr_Status patched) = om_Generation (pr_Meta read)
    \<and> cn_ObservedGeneration p = om_Generation (pr_Meta read)"
proof -
  have t: "sn_Table (Build ctx routes resolver clusterDomain) = Some t"
    using assms(4,5) by (simp add: Store_Load_def Store_Routes_def)
  obtain d where d: "Snapshot_Decision (Build ctx routes resolver clusterDomain) (route_key r) = Some d"
    using Build_decision [OF assms(2,3)] by blast
  then have db: "dc_Database d = EffectiveDatabase r"
    using Build_decision [OF assms(2,3)] by (auto simp: verdict_def split: option.splits if_splits)
  have p: "patched = read\<lparr>pr_Status := desiredStatus api read d\<rparr>"
    using assms(6,7) d by (auto simp: Reconcile_def Let_def assms(4) split: if_splits option.splits)
  obtain c where c: "cond (desiredStatus api read d) ConditionProgrammed = Some c"
    "same_condition c (wanted api read d ConditionProgrammed)"
    using desired_managed [OF assms(1), of ConditionProgrammed read d] by auto
  have "cn_Status c = ConditionTrue \<longleftrightarrow> Programmed d" "cn_ObservedGeneration c = om_Generation (pr_Meta read)"
    using c(2) by (simp_all add: same_condition_def wanted_def programmedCondition_def newCondition_def
        ConditionTrue_def ConditionFalse_def)
  with p c(1) db programmed_iff_serving [OF assms(2,3) t d] desired_fields [of api read d] show ?thesis
    by (auto simp: Programmed_def)
qed

section \<open>Witnesses\<close>

definition discovered_route :: PostgresRoute where
  "discovered_route = high_route\<lparr>pr_Meta := (pr_Meta high_route)\<lparr>om_Name := ''pg-discovered'',
       om_Labels := [(ManagedByLabel, ManagedByServiceDiscovery)]\<rparr>,
     pr_Spec := (pr_Spec high_route)\<lparr>prs_Database := ''pg'', prs_Priority := discoveredRoutePriority,
       prs_Backend := \<lparr>be_Type = BackendTypeService, be_Service = Some \<lparr>sb_Name = ''pg'', sb_Namespace = ''apps'',
          sb_Port = port intstr_FromString sample_service\<rparr>, be_Address = None\<rparr>\<rparr>\<rparr>"

definition override_route :: PostgresRoute where
  "override_route = low_route\<lparr>pr_Spec := (pr_Spec low_route)\<lparr>prs_Database := ''pg'', prs_Priority := 0\<rparr>\<rparr>"

theorem handwritten_route_overrides_discovery_witness:
  "\<exists>d t. Snapshot_Decision (Build None [discovered_route, override_route] sample_resolver ''cluster.local'')
        (route_key override_route) = Some d \<and> dc_Accepted d
     \<and> sn_Table (Build None [discovered_route, override_route] sample_resolver ''cluster.local'') = Some t"
proof -
  let ?rs = "[discovered_route, override_route]"
  have d: "distinct (map route_key ?rs)"
    by (simp add: discovered_route_def override_route_def sample_route_def objectKey_def)
  have h: "override_route \<in> set ?rs" "- 100 < sint (prs_Priority (pr_Spec override_route))"
    by (simp_all add: override_route_def)
  have "generated_for cluster_api (sample_discovery True) sample_service discovered_route"
    by (simp add: generated_for_def discovered_route_def EffectiveDatabase_def databaseName_def sample_discovery_def
        priority_def sample_service_def sample_route_def gomap_str_def cluster_api_def Let_def)
  moreover have "gomap_get (om_Annotations (svc_Meta sample_service)) PriorityAnnotation = None"
    by (simp add: sample_service_def)
  ultimately have "\<forall>r\<in>set ?rs. r \<noteq> override_route \<and> EffectiveDatabase r = EffectiveDatabase override_route \<longrightarrow>
      (\<exists>svc. generated_for cluster_api (sample_discovery True) svc r
         \<and> gomap_get (om_Annotations (svc_Meta svc)) PriorityAnnotation = None)" by auto
  from handwritten_route_overrides_discovery [OF d h this, of None sample_resolver "''cluster.local''"] show ?thesis by blast
qed

text \<open>The labelled Service of \<^verbatim>\<open>Discovery_Loop\<close> with its route, on a replica that is not the leader.\<close>

lemma calm_control_plane:
  "\<exists>cp. control_reach (sample_api high_route) (External ''not found'' []) None cp \<and> builder_resting cp \<and> \<not> cp_failed cp
     \<and> cp_server cp = dl_routes calm_loop \<and> rtb_Resolver (cp_builder cp) = Some sample_resolver"
proof -
  let ?cache = "[(generatedKey labelled_service, made_route)]"
  obtain b ms where b: "rebuild None (Inr [made_route]) sample_builder = Some (None, b, ms)" using sample_rebuild by blast
  have start: "startBuilder (\<lambda>_. None) (\<lambda>_. None) None (Inr [made_route]) sample_builder = Some (None, b, ms)"
    using b by (simp add: startBuilder_def watched_def watch_def)
  have "rtb_Resolver b = Some sample_resolver" "rtb_trigger b = Some \<lparr>sl_cap = 1, sl_used = 0\<rparr>"
    using b by (auto simp: rebuild_def sample_builder_def notifyChanged_def Let_def)
  moreover have "control_reach (sample_api high_route) (External ''not found'' []) None
      \<lparr>cp_server = ?cache, cp_watch = [], cp_cache = ?cache, cp_builder = b, cp_calls = 0, cp_pending = False, cp_timer = Stopped,
       cp_listed = None, cp_leader = False, cp_events = [], cp_queue = [], cp_worker = None,
       cp_failed = isl (Inr [made_route] :: go_error + PostgresRoute list), cp_dropped = []\<rparr>" (is "control_reach _ _ _ ?cp")
    by (rule control_start [OF _ _ _ sample_builder_setup [of sample_client "\<lambda>_. sample_resolver"] _ _ start, where cap = 1024])
      (simp_all add: sample_builder_def gomap_ok_def made_again tidy_def made_status)
  ultimately show ?thesis by (intro exI [of _ ?cp]) (simp add: builder_resting_def calm_loop_def)
qed

text \<open>Discovery starts beside it and finds nothing to change.\<close>

lemma calm_joint:
  assumes "control_reach sapi nf ctx cp" and "cp_server cp = dl_routes calm_loop"
  shows "joint_reach sapi nf ctx memory_api label_discovery (cp, calm_loop)"
  using calm_steps
proof (induction rule: rtranclp_induct)
  case base
  show ?case
    unfolding calm_start assms(2) [symmetric] by (rule joint_start [OF assms(1)]) (simp add: labelled_service)
next
  case (step l l')
  then have "joint_step sapi nf ctx memory_api label_discovery (cp, l) (told (cp_server cp) cp, l')"
    using js_discovery [of memory_api label_discovery l l' sapi nf ctx cp] assms(2) by simp
  with step.IH show ?case unfolding told_same by (rule joint_next)
qed

lemma memory_keeps_status: "keeps_status memory_api"
  by (auto simp: keeps_status_def memory_api_def memory_create_def Let_def split: sum.splits)

theorem discovered_service_is_served_witness:
  "\<exists>cp t y. joint_reach (sample_api high_route) (External ''not found'' []) None memory_api label_discovery (cp, calm_loop)
     \<and> Store_Routes (cp_store cp) = Some t \<and> Lookup t (databaseName label_discovery labelled_service) = Some y
     \<and> rt_Source y = generatedKey labelled_service \<and> rt_Port y = 5432"
proof -
  obtain cp where cp: "control_reach (sample_api high_route) (External ''not found'' []) None cp" "builder_resting cp" "\<not> cp_failed cp"
    "cp_server cp = dl_routes calm_loop" "rtb_Resolver (cp_builder cp) = Some sample_resolver"
    using calm_control_plane by blast
  note joint = calm_joint [OF cp(1,4)]
  have alone: "\<forall>k' x. gomap_get (cp_server cp) k' = Some x \<and> k' \<noteq> generatedKey labelled_service \<longrightarrow>
      EffectiveDatabase x \<noteq> databaseName label_discovery labelled_service"
    by (simp add: cp(4) calm_loop_def)
  have res: "rv_ResolveServicePort sample_resolver c ns n q = Inr 5432" "\<exists>pool. rv_LoadCABundle sample_resolver c ns n f = Inr pool" for c ns n q f
    by (simp_all add: sample_resolver_def)
  from discovered_service_is_served [OF sample_api_ok memory_api_ok memory_keeps_status joint calm_rest(1) cp(2,3) calm_rest(2)
      labelled_service(3) alone cp(5) res]
  obtain t y where "Store_Routes (cp_store cp) = Some t" "Lookup t (databaseName label_discovery labelled_service) = Some y"
    "rt_Source y = generatedKey labelled_service" "rt_Port y = 5432" by (elim exE conjE)
  with joint show ?thesis by blast
qed

text \<open>A route whose database was renamed after the snapshot was built.\<close>

definition renamed_route :: PostgresRoute where
  "renamed_route = high_route\<lparr>pr_Meta := (pr_Meta high_route)\<lparr>om_Generation := 4\<rparr>,
     pr_Spec := (pr_Spec high_route)\<lparr>prs_Database := ''invoices''\<rparr>\<rparr>"

theorem status_says_what_is_served_witness:
  "\<exists>store t patched p x. Store_Load store = Build None [high_route] sample_resolver ''cluster.local''
     \<and> Store_Routes store = Some t
     \<and> Reconcile (sample_api renamed_route) store (route_key high_route) = (noResult, None, Some patched)
     \<and> cond (pr_Status patched) ConditionProgrammed = Some p \<and> cn_Status p = ConditionTrue
     \<and> Lookup t ''orders'' = Some x \<and> st_Endpoint (pr_Status patched) = Address x
     \<and> EffectiveDatabase patched = ''invoices'' \<and> st_Database (pr_Status patched) = ''orders''
     \<and> cn_ObservedGeneration p = 4"
proof -
  let ?b = "Build None [high_route] sample_resolver ''cluster.local''" and ?k = "route_key high_route"
  let ?api = "sample_api renamed_route"
  define store where "store = Store_Store (Some ?b) NewStore"
  have d: "distinct (map route_key [high_route])" "high_route \<in> set [high_route]" by simp_all
  have st: "Store_Load store = ?b" by (simp add: store_def Store_Store_def Store_Load_def Build_conv Let_def)
  obtain t where t: "sn_Table ?b = Some t" by (simp add: Build_conv Let_def)
  then have rt: "Store_Routes store = Some t" using st by (simp add: Store_Load_def Store_Routes_def)
  obtain x where rx: "resolveBounded None high_route sample_resolver ''cluster.local'' = Inr x" "rt_Source x = ?k"
    by (simp add: resolveBounded_def resolve_def resolveBackend_def resolveTLS_def sample_route_def
        BackendTypeService_def BackendTypeAddress_def)
  have w: "wins [high_route] high_route" "EffectiveDatabase high_route = ''orders''"
    by (simp_all add: wins_def sample_routes_distinct)
  then have x: "Lookup t ''orders'' = Some x" "rt_Source x = ?k"
    using Build_lookup [OF d(1) t, of "''orders''" x] rx by blast+
  obtain dec where dec: "Snapshot_Decision ?b ?k = Some dec" using Build_decision [OF d] by blast
  have get: "sa_get ?api ?k = Inr renamed_route" by (simp add: sample_api_def)
  have gen: "om_Generation (pr_Meta renamed_route) = 4" "om_DeletionTimestamp (pr_Meta renamed_route) = None"
    "st_ObservedGeneration (pr_Status renamed_route) = 0" "prs_Database (pr_Spec renamed_route) = ''invoices''"
    by (simp_all add: renamed_route_def) (simp_all add: sample_route_def)
  have "st_ObservedGeneration (desiredStatus ?api renamed_route dec) = 4"
    using desired_fields [of ?api renamed_route dec] gen by simp
  then have "\<not> equalStatus ?api (pr_Status renamed_route) (desiredStatus ?api renamed_route dec)"
    using gen by (simp add: equalStatus_def)
  moreover have "sa_patchErr ?api p = None" for p by (simp add: sample_api_def)
  ultimately obtain patched where r: "Reconcile ?api store ?k = (noResult, None, Some patched)"
    using get dec st gen by (simp add: Reconcile_def Let_def)
  from status_says_what_is_served [OF sample_api_ok d st rt get r] obtain p where
    p: "cond (pr_Status patched) ConditionProgrammed = Some p" "cn_Status p = ConditionTrue"
      "st_Endpoint (pr_Status patched) = Address x" "st_Database (pr_Status patched) = ''orders''"
      "patched = renamed_route\<lparr>pr_Status := pr_Status patched\<rparr>" "cn_ObservedGeneration p = 4"
    using x unfolding w(2) gen by blast
  have "pr_Spec patched = pr_Spec renamed_route" by (subst p(5)) simp
  then have "EffectiveDatabase patched = ''invoices''" by (simp add: EffectiveDatabase_def gen(4))
  with p(1-4,6) st rt r x show ?thesis by blast
qed

end
